(* ===== verification/Prelude.thy ===== *)
theory Prelude
  imports Main "HOL-Library.Word"
begin

text \<open>
  Shared vocabulary of the development: the machine types of \<open>kernel/include/ktypes.h\<close>,
  the error numbers of \<open>clib/include/ERRNO.H\<close>, the outcome of a kernel routine
  (a value, a call of \<open>panic\<close>, or a loop that never ends), and the generic lemmas on
  words and lists that the components use.
\<close>

unbundle bit_operations_syntax

section \<open>Machine types\<close>

text \<open>
  The compiler is a 16-bit one: \<open>int\<close> and \<open>unsigned\<close> have 16 bits, \<open>long\<close> has 32
  (\<open>ktypes.h\<close>). Unsigned values are kept as words, so their arithmetic wraps as in C. Values
  of type \<open>int\<close> that only carry small counts, indices and error numbers are HOL integers.
\<close>

type_synonym u8 = "8 word"
type_synonym u16 = "16 word"
type_synonym u32 = "32 word"

text \<open>A far pointer: segment and offset.\<close>

type_synonym farptr = "u16 \<times> u16"

section \<open>Error numbers\<close>

definition ENODEV :: int where "ENODEV = 1"
definition ENOMEM :: int where "ENOMEM = 2"
definition EBUSY :: int where "EBUSY = 3"
definition EIO :: int where "EIO = 4"
definition EINVAL :: int where "EINVAL = 5"
definition ENOSPC :: int where "ENOSPC = 6"
definition ENOENT :: int where "ENOENT = 7"
definition ENFILE :: int where "ENFILE = 8"
definition EEXIST :: int where "EEXIST = 9"
definition EBADF :: int where "EBADF = 10"
definition EMFILE :: int where "EMFILE = 11"
definition EACCES :: int where "EACCES = 12"
definition EOVERFLOW :: int where "EOVERFLOW = 13"
definition EMAX :: int where "EMAX = 32"

lemmas errno_defs = ENODEV_def ENOMEM_def EBUSY_def EIO_def EINVAL_def ENOSPC_def ENOENT_def
  ENFILE_def EEXIST_def EBADF_def EMFILE_def EACCES_def EOVERFLOW_def EMAX_def

section \<open>Outcomes\<close>

text \<open>
  A kernel routine returns a value, stops the machine in \<open>panic\<close>, or follows a corrupt
  linked list for ever. The last two are values here, so that a statement "the routine
  returns" excludes both.
\<close>

datatype 'a res = Ok 'a | Panic | Hang

fun bind_res :: "'a res \<Rightarrow> ('a \<Rightarrow> 'b res) \<Rightarrow> 'b res" where
  "bind_res (Ok x) f = f x"
| "bind_res Panic f = Panic"
| "bind_res Hang f = Hang"

lemma bind_res_Ok_iff [simp]: "bind_res r f = Ok y \<longleftrightarrow> (\<exists>x. r = Ok x \<and> f x = Ok y)"
  by (cases r) auto

lemma bind_resE: "bind_res r f = Ok y \<Longrightarrow> (\<And>x. r = Ok x \<Longrightarrow> f x = Ok y \<Longrightarrow> P) \<Longrightarrow> P"
  by auto

lemma bind_res_assoc: "bind_res (bind_res r f) g = bind_res r (\<lambda>x. bind_res (f x) g)"
  by (cases r) auto

text \<open>A search loop as a partial function: \<open>None\<close> is the loop that never ends.\<close>

fun of_loop :: "'a option \<Rightarrow> 'a res" where
  "of_loop None = Hang"
| "of_loop (Some x) = Ok x"

lemma of_loop_Ok_iff [simp]: "of_loop r = Ok x \<longleftrightarrow> r = Some x"
  by (cases r) auto

text \<open>The same for a loop whose body may fail.\<close>

fun of_loopr :: "'a res option \<Rightarrow> 'a res" where
  "of_loopr None = Hang"
| "of_loopr (Some r) = r"

section \<open>Words\<close>

lemma unat_of_nat16 [simp]: "a < 65536 \<Longrightarrow> unat (of_nat a :: u16) = a"
  by (simp add: unat_of_nat take_bit_nat_eq_self)

lemma of_nat16_eq_iff [simp]:
  "a < 65536 \<Longrightarrow> b < 65536 \<Longrightarrow> (of_nat a :: u16) = of_nat b \<longleftrightarrow> a = b"
  by (metis unat_of_nat16)

lemma unat_u16_lt [simp]: "unat (x :: u16) < 65536"
proof -
  have "unat x < 2 ^ LENGTH(16)" by (rule unsigned_less)
  then show ?thesis by simp
qed

lemma unat_u16_le [simp]: "unat (x :: u16) \<le> 65536"
  using unat_u16_lt [of x] by linarith

text \<open>The low bit of a word is the in-use flag of every header of the allocators.\<close>

lemma and_1_neq_0 [simp]: "(x :: u16) AND 1 \<noteq> 0 \<longleftrightarrow> odd x"
  by (simp add: and_one_eq odd_iff_mod_2_eq_one)

lemma and_1_eq_0 [simp]: "(x :: u16) AND 1 = 0 \<longleftrightarrow> even x"
  by (simp add: and_one_eq even_iff_mod_2_eq_zero)

lemma odd_or_1 [simp]: "odd (x OR (1 :: u16))"
  by (simp add: even_or_iff)

lemma even_and_not_1 [simp]: "even (x AND NOT (1 :: u16))"
  by (simp add: even_and_iff even_not_iff)

lemmas even_and_m2 [simp] = even_and_not_1 [simplified]

lemma unat_ucast_16: "unat (ucast (x :: u32) :: u16) = unat x mod 65536"
  by (simp add: unsigned_ucast_eq take_bit_eq_mod)

lemma unat_ucast_u16: "unat (ucast (w :: u16) :: u32) = unat w"
proof -
  have "unat w < 4294967296" using unat_u16_lt [of w] by linarith
  then show ?thesis by (simp add: unsigned_ucast_eq take_bit_nat_eq_self)
qed

lemma sint_u32: "sint (v :: u32) = (if uint v < 2147483648 then uint v else uint v - 4294967296)"
proof -
  have b: "0 \<le> uint v" "uint v < 4294967296" using unsigned_less [of v, where 'a = int] by simp_all
  have "sint v = (uint v + 2147483648) mod 4294967296 - 2147483648"
    using int_word_sint [of "uint v", where ?'a = 32] by simp
  moreover have "(uint v + 2147483648) mod 4294967296 = (if uint v < 2147483648 then uint v + 2147483648 else uint v - 2147483648)"
  proof (cases "uint v < 2147483648")
    case False
    have "uint v + 2147483648 = (uint v - 2147483648) + 4294967296" by simp
    then have "(uint v + 2147483648) mod 4294967296 = (uint v - 2147483648) mod 4294967296"
      by (simp only: mod_add_self2)
    also have "\<dots> = uint v - 2147483648"
      using b False by (intro mod_pos_pos_trivial) linarith+
    finally show ?thesis using False by simp
  qed (use b in simp)
  ultimately show ?thesis by simp
qed

lemma sint_u16: "sint (v :: u16) = (if uint v < 32768 then uint v else uint v - 65536)"
proof -
  have b: "0 \<le> uint v" "uint v < 65536" using unsigned_less [of v, where 'a = int] by simp_all
  have "sint v = (uint v + 32768) mod 65536 - 32768"
    using int_word_sint [of "uint v", where ?'a = 16] by simp
  moreover have "(uint v + 32768) mod 65536 = (if uint v < 32768 then uint v + 32768 else uint v - 32768)"
  proof (cases "uint v < 32768")
    case False
    have "uint v + 32768 = (uint v - 32768) + 65536" by simp
    then have "(uint v + 32768) mod 65536 = (uint v - 32768) mod 65536"
      by (simp only: mod_add_self2)
    also have "\<dots> = uint v - 32768"
      using b False by (intro mod_pos_pos_trivial) linarith+
    finally show ?thesis using False by simp
  qed (use b in simp)
  ultimately show ?thesis by simp
qed

text \<open>Unfolding a replicate of a literal length.\<close>

lemma rep_num: "replicate (numeral k) x = x # replicate (pred_numeral k) x"
  by (simp add: numeral_eq_Suc)

end
