(* ===== verification/ParaHeap.thy ===== *)
theory ParaHeap
  imports Prelude
begin

text \<open>
  The part that the far heap and the DMA heap of \<open>kernel/MEMORY.C\<close> share. Both keep a singly
  linked chain of \<open>memhdr_t\<close> headers, ordered by address, that tiles the arena: a header, its
  paragraphs, the next header. They differ in the unit of a link (a segment, or a byte offset
  in the DMA segment), in the value that ends the chain and in how a link is moved forward.
  Those three are the parameters \<open>nil\<close>, \<open>loc\<close> and \<open>adv\<close>; the locale \<open>para_heap\<close> states
  what the allocators need of them, and shows that the chain operations implement a first-fit
  allocator with coalescing on an abstract list of blocks.
\<close>

section \<open>Headers and the chain operations\<close>

record memhdr =
  mh_next :: u16
  mh_para :: u16
  mh_flags :: u16

definition BLK_INUSE :: u16 where "BLK_INUSE = 1"

lemmas [simp] = BLK_INUSE_def

text \<open>The first-fit search of \<open>kmalloc\<close> and \<open>mem_dma_alloc\<close>.\<close>

partial_function (option) hdr_find ::
  "u16 \<Rightarrow> (u16 \<Rightarrow> memhdr) \<Rightarrow> u16 \<Rightarrow> u16 \<Rightarrow> u16 option" where
  "hdr_find nil h sz b =
     (if b = nil then Some nil
      else if mh_flags (h b) AND BLK_INUSE \<noteq> 0 then hdr_find nil h sz (mh_next (h b))
      else if sz \<le> mh_para (h b) then Some b
      else hdr_find nil h sz (mh_next (h b)))"

text \<open>Mark a block in use and split off what it does not need as a new free block.\<close>

definition hdr_carve ::
  "(u16 \<Rightarrow> u16 \<Rightarrow> u16) \<Rightarrow> (u16 \<Rightarrow> memhdr) \<Rightarrow> u16 \<Rightarrow> u16 \<Rightarrow> (u16 \<Rightarrow> memhdr)" where
  "hdr_carve adv h sz b =
     (let h1 = h(b := (h b)\<lparr>mh_flags := mh_flags (h b) OR BLK_INUSE\<rparr>)
      in if sz + 1 < mh_para (h1 b) then
           (let n = adv b sz;
                h2 = h1(n := (h1 n)\<lparr>mh_next := mh_next (h1 b)\<rparr>);
                h3 = h2(b := (h2 b)\<lparr>mh_next := n\<rparr>);
                h4 = h3(n := (h3 n)\<lparr>mh_para := mh_para (h3 b) - 1 - sz\<rparr>);
                h5 = h4(b := (h4 b)\<lparr>mh_para := sz\<rparr>)
            in h5(n := (h5 n)\<lparr>mh_flags := mh_flags (h5 n) AND NOT BLK_INUSE\<rparr>))
         else h1)"

text \<open>The search of \<open>kfree\<close> and \<open>mem_dma_free\<close>: the block at \<open>x\<close> and the one before it.\<close>

partial_function (option) hdr_locate ::
  "u16 \<Rightarrow> (u16 \<Rightarrow> memhdr) \<Rightarrow> u16 \<Rightarrow> u16 \<Rightarrow> u16 \<Rightarrow> (u16 \<times> u16) option" where
  "hdr_locate nil h x p b =
     (if b = nil then Some (p, nil)
      else if b = x then Some (p, b)
      else hdr_locate nil h x b (mh_next (h b)))"

text \<open>Take in the next block when it is free, and clear the in-use flag.\<close>

definition hdr_join :: "u16 \<Rightarrow> (u16 \<Rightarrow> memhdr) \<Rightarrow> u16 \<Rightarrow> (u16 \<Rightarrow> memhdr)" where
  "hdr_join nil h c =
     (let n = mh_next (h c);
          h1 = (if n \<noteq> nil \<and> mh_flags (h n) AND BLK_INUSE = 0
                then h(c := (h c)\<lparr>mh_para := mh_para (h c) + (1 + mh_para (h n)),
                                   mh_next := mh_next (h n)\<rparr>)
                else h)
      in h1(c := (h1 c)\<lparr>mh_flags := mh_flags (h1 c) AND NOT BLK_INUSE\<rparr>))"

text \<open>Merge a block with its free neighbours, the one before it first.\<close>

definition hdr_release ::
  "u16 \<Rightarrow> (u16 \<Rightarrow> memhdr) \<Rightarrow> u16 \<Rightarrow> u16 \<Rightarrow> (u16 \<Rightarrow> memhdr)" where
  "hdr_release nil h p b =
     (if p \<noteq> nil \<and> mh_flags (h p) AND BLK_INUSE = 0
      then hdr_join nil (h(p := (h p)\<lparr>mh_para := mh_para (h p) + (1 + mh_para (h b)),
                                      mh_next := mh_next (h b)\<rparr>)) p
      else hdr_join nil h b)"

section \<open>The abstract allocator\<close>

text \<open>
  A block: where its header is (in paragraphs), how many paragraphs it has after the header,
  and whether it is in use.
\<close>

type_synonym blk = "nat \<times> nat \<times> bool"

text \<open>First fit: the first free block that is large enough, split when more than one paragraph
  would be left.\<close>

fun ff_alloc :: "nat \<Rightarrow> blk list \<Rightarrow> (nat \<times> blk list) option" where
  "ff_alloc n [] = None"
| "ff_alloc n ((a, p, u) # bs) =
     (if \<not> u \<and> n \<le> p then
        Some (a, (if n + 1 < p then [(a, n, True), (a + n + 1, p - 1 - n, False)]
                  else [(a, p, True)]) @ bs)
      else map_option (\<lambda>(x, bs'). (x, (a, p, u) # bs')) (ff_alloc n bs))"

text \<open>A freed block takes in the free block after it.\<close>

fun absorb :: "nat \<Rightarrow> nat \<Rightarrow> blk list \<Rightarrow> blk list" where
  "absorb a p ((b, q, False) # bs) = (a, p + 1 + q, False) # bs"
| "absorb a p bs = (a, p, False) # bs"

text \<open>Free the block whose header is at \<open>x\<close>: it joins the free blocks on both sides.\<close>

fun ff_free :: "nat \<Rightarrow> blk list \<Rightarrow> blk list option" where
  "ff_free x [] = None"
| "ff_free x ((a, p, u) # bs) =
     (if a = x then Some (absorb a p bs)
      else case bs of
        [] \<Rightarrow> None
      | (b, q, v) # cs \<Rightarrow>
          if b = x \<and> \<not> u then Some (absorb a (p + 1 + q) cs)
          else map_option ((#) (a, p, u)) (ff_free x bs))"

text \<open>The blocks tile the arena from \<open>a\<close> to \<open>e\<close>.\<close>

fun tiles :: "nat \<Rightarrow> blk list \<Rightarrow> nat \<Rightarrow> bool" where
  "tiles a [] e = (a = e)"
| "tiles a ((b, p, u) # bs) e = (b = a \<and> tiles (a + p + 1) bs e)"

text \<open>No two neighbours are both free.\<close>

fun coalesced :: "blk list \<Rightarrow> bool" where
  "coalesced ((a, p, u) # (b, q, v) # bs) = ((u \<or> v) \<and> coalesced ((b, q, v) # bs))"
| "coalesced _ = True"

text \<open>The chain in memory that starts at link \<open>s\<close> represents the blocks \<open>bs\<close>.\<close>

fun heap_rep :: "u16 \<Rightarrow> (nat \<Rightarrow> u16) \<Rightarrow> (u16 \<Rightarrow> memhdr) \<Rightarrow> u16 \<Rightarrow> blk list \<Rightarrow> bool" where
  "heap_rep nil loc h s [] = (s = nil)"
| "heap_rep nil loc h s ((a, p, u) # bs) =
     (s = loc a \<and> unat (mh_para (h s)) = p \<and> odd (mh_flags (h s)) = u
      \<and> heap_rep nil loc h (mh_next (h s)) bs)"

section \<open>Lemmas on the abstract allocator\<close>

lemma tiles_bounds: "tiles a bs e \<Longrightarrow> (b, p, u) \<in> set bs \<Longrightarrow> a \<le> b \<and> b + p + 1 \<le> e"
proof (induction bs arbitrary: a)
  case (Cons c cs)
  obtain b' p' u' where c: "c = (b', p', u')" by (cases c)
  have mono: "tiles x ys e \<Longrightarrow> x \<le> e" for x ys
    by (induction ys arbitrary: x) (auto, fastforce)
  from Cons show ?case by (auto simp: c dest: mono) (force dest: Cons.IH)+
qed simp

lemma tiles_le: "tiles a bs e \<Longrightarrow> a \<le> e"
  by (induction bs arbitrary: a) (auto, fastforce)

lemma tiles_alloc: "ff_alloc n bs = Some (x, bs') \<Longrightarrow> tiles a bs e \<Longrightarrow> tiles a bs' e"
  by (induction n bs arbitrary: a x bs' rule: ff_alloc.induct) (auto split: if_splits)

lemma absorb_tiles: "tiles (a + p + 1) bs e \<Longrightarrow> tiles a (absorb a p bs) e"
  by (cases "(a, p, bs)" rule: absorb.cases) (auto simp: algebra_simps)

lemma tiles_free: "ff_free x bs = Some bs' \<Longrightarrow> tiles a bs e \<Longrightarrow> tiles a bs' e"
proof (induction x bs arbitrary: a bs' rule: ff_free.induct)
  case (2 x a' p u bs)
  then show ?case
    by (cases bs) (auto simp: absorb_tiles split: if_splits intro!: absorb_tiles simp: algebra_simps)
qed simp

lemma coalesced_ConsD: "coalesced (b # bs) \<Longrightarrow> coalesced bs"
  by (cases b; cases bs; auto)

lemma coalesced_Cons_used: "coalesced ((a, p, True) # bs) = coalesced bs"
  by (cases bs) auto

lemma ff_alloc_hd:
  "ff_alloc n ((a, p, u) # bs) = Some (x, bs') \<Longrightarrow> \<exists>p' u' cs. bs' = (a, p', u') # cs \<and> (u \<longrightarrow> u')"
  by (auto split: if_splits)

lemma coalesced_alloc:
  "ff_alloc n bs = Some (x, bs') \<Longrightarrow> coalesced bs \<Longrightarrow> coalesced bs'"
proof (induction n bs arbitrary: x bs' rule: ff_alloc.induct)
  case (2 n a p u bs)
  show ?case
  proof (cases "\<not> u \<and> n \<le> p")
    case True
    with 2 show ?thesis by (cases bs) (auto split: if_splits simp: coalesced_Cons_used)
  next
    case False
    with "2.prems" obtain cs where cs: "ff_alloc n bs = Some (x, cs)" "bs' = (a, p, u) # cs"
      by (auto split: if_splits)
    with False 2 have c: "coalesced cs" by (auto dest: coalesced_ConsD)
    obtain b q v ds where bs: "bs = (b, q, v) # ds" using cs(1) by (cases bs) auto
    with cs(1) obtain q' v' es where "cs = (b, q', v') # es" "v \<longrightarrow> v'"
      using ff_alloc_hd by blast
    with c cs(2) bs "2.prems" show ?thesis by auto
  qed
qed simp

lemma absorb_hd: "\<exists>p' cs. absorb a p bs = (a, p', False) # cs"
  by (cases "(a, p, bs)" rule: absorb.cases) auto

lemma coalesced_absorb: "coalesced bs \<Longrightarrow> coalesced (absorb a p bs)"
proof (cases "(a, p, bs)" rule: absorb.cases)
  case (1 a' p' b q cs)
  assume "coalesced bs"
  with 1 show ?thesis by (cases cs; cases "hd cs"; auto)
qed (auto simp: coalesced_Cons_used)

lemma coalesced_Cons_free:
  "coalesced bs \<Longrightarrow> (bs = [] \<or> snd (snd (hd bs))) \<Longrightarrow> coalesced ((a, p, u) # bs)"
  by (cases bs) auto

lemma coalesced_free: "ff_free x bs = Some bs' \<Longrightarrow> coalesced bs \<Longrightarrow> coalesced bs'"
proof (induction x bs arbitrary: bs' rule: ff_free.induct)
  case (2 x a p u bs)
  show ?case
  proof (cases "a = x")
    case True
    with 2 show ?thesis by (auto intro: coalesced_absorb coalesced_ConsD)
  next
    case False
    with "2.prems" obtain b q v cs where bs: "bs = (b, q, v) # cs" by (cases bs) auto
    show ?thesis
    proof (cases "b = x \<and> \<not> u")
      case True
      with False 2 bs show ?thesis by (auto intro!: coalesced_absorb dest: coalesced_ConsD)
    next
      case no: False
      with False "2.prems" bs obtain ds where ds: "ff_free x bs = Some ds" "bs' = (a, p, u) # ds"
        by (auto split: if_splits)
      have c: "coalesced ds" using "2.IH" [OF False bs refl refl no] ds(1) "2.prems"(2) bs
        by (auto dest: coalesced_ConsD)
      show ?thesis
      proof (cases u)
        case True
        with c ds(2) show ?thesis by (simp add: coalesced_Cons_used)
      next
        case u: False
        with no have "b \<noteq> x" by simp
        moreover have v: v using "2.prems"(2) bs u by simp
        ultimately have "snd (snd (hd ds))" using ds(1) bs by (auto split: list.splits if_splits)
        with c ds(2) show ?thesis by (auto intro: coalesced_Cons_free)
      qed
    qed
  qed
qed simp

lemma ff_free_skip:
  "a \<noteq> x \<Longrightarrow> \<not> (b = x \<and> \<not> u) \<Longrightarrow>
   ff_free x ((a, n, u) # (b, q, v) # cs) = map_option ((#) (a, n, u)) (ff_free x ((b, q, v) # cs))"
  by auto

lemma tiles_head_notin: "tiles a bs e \<Longrightarrow> b < a \<Longrightarrow> b \<notin> fst ` set bs"
  by (force dest: tiles_bounds)

lemma ff_alloc_mem: "ff_alloc n bs = Some (x, bs') \<Longrightarrow> \<exists>p. (x, p, False) \<in> set bs \<and> n \<le> p"
  by (induction n bs arbitrary: x bs' rule: ff_alloc.induct) (auto split: if_splits)

lemma ff_alloc_used:
  "ff_alloc n bs = Some (x, bs') \<Longrightarrow> tiles a bs e \<Longrightarrow>
   {b \<in> set bs'. snd (snd b) \<and> fst b \<noteq> x} = {b \<in> set bs. snd (snd b)}"
proof (induction n bs arbitrary: a x bs' rule: ff_alloc.induct)
  case (2 n b p u bs)
  show ?case
  proof (cases "\<not> u \<and> n \<le> p")
    case True
    with "2.prems" show ?thesis by (auto split: if_splits dest: tiles_bounds)
  next
    case False
    with "2.prems" obtain cs where cs: "ff_alloc n bs = Some (x, cs)" "bs' = (b, p, u) # cs"
      by (auto split: if_splits)
    from ff_alloc_mem [OF cs(1)] "2.prems"(2) have "b \<noteq> x" by (auto dest: tiles_bounds)
    moreover have "{b \<in> set cs. snd (snd b) \<and> fst b \<noteq> x} = {b \<in> set bs. snd (snd b)}"
      using 2(1) [OF False cs(1)] "2.prems"(2) by auto
    ultimately show ?thesis using cs(2) by (auto simp: set_eq_iff)
  qed
qed simp

text \<open>In a coalesced heap, freeing the block that was just allocated restores the block list.\<close>

lemma ff_free_alloc:
  "ff_alloc n bs = Some (x, bs') \<Longrightarrow> tiles a bs e \<Longrightarrow> coalesced bs \<Longrightarrow> ff_free x bs' = Some bs"
proof (induction n bs arbitrary: a x bs' rule: ff_alloc.induct)
  case (2 n b p u bs)
  show ?case
  proof (cases "\<not> u \<and> n \<le> p")
    case True
    show ?thesis
    proof (cases "n + 1 < p")
      case split: True
      with True "2.prems" show ?thesis by auto
    next
      case False
      have "absorb b p bs = (b, p, False) # bs" if "\<not> u"
        using "2.prems"(3) that by (cases "(b, p, bs)" rule: absorb.cases) auto
      with True False "2.prems" show ?thesis by auto
    qed
  next
    case False
    with "2.prems" obtain cs where cs: "ff_alloc n bs = Some (x, cs)" "bs' = (b, p, u) # cs"
      by (auto split: if_splits)
    with False "2.prems" 2(1) have ih: "ff_free x cs = Some bs" by (auto dest: coalesced_ConsD)
    from ff_alloc_mem [OF cs(1)] "2.prems"(2) have ne: "b \<noteq> x"
      by (auto dest: tiles_bounds)
    obtain c q v ds where bs: "bs = (c, q, v) # ds" using cs(1) by (cases bs) auto
    obtain q' v' es where es: "cs = (c, q', v') # es" using cs(1) bs ff_alloc_hd by blast
    have "\<not> (c = x \<and> \<not> u)"
    proof
      assume a: "c = x \<and> \<not> u"
      with "2.prems"(3) bs have v by simp
      from ff_alloc_mem [OF cs(1)] obtain r where "(x, r, False) \<in> set bs" by auto
      with bs a \<open>v\<close> have "(x, r, False) \<in> set ds" by auto
      with "2.prems"(2) bs a show False by (auto dest: tiles_bounds)
    qed
    with ne ih cs(2) es show ?thesis by auto
  qed
qed simp

section \<open>The chain implements the abstract allocator\<close>

text \<open>
  \<open>loc a\<close> is the link to the header at paragraph \<open>a\<close>, for the paragraphs from \<open>lo\<close> to below
  \<open>lim\<close>; \<open>adv s n\<close> moves a link past a header and its \<open>n\<close> paragraphs.
\<close>

locale para_heap =
  fixes nil :: u16 and loc :: "nat \<Rightarrow> u16" and adv :: "u16 \<Rightarrow> u16 \<Rightarrow> u16" and lo lim :: nat
  assumes lim_le: "lim \<le> lo + 65535"
    and loc_inj: "lo \<le> a \<Longrightarrow> a < lim \<Longrightarrow> lo \<le> b \<Longrightarrow> b < lim \<Longrightarrow> loc a = loc b \<Longrightarrow> a = b"
    and loc_nil: "lo \<le> a \<Longrightarrow> a < lim \<Longrightarrow> loc a \<noteq> nil"
    and adv_loc: "lo \<le> a \<Longrightarrow> a + unat n + 1 < lim \<Longrightarrow> adv (loc a) n = loc (a + unat n + 1)"
begin

lemma rep_frame:
  "heap_rep nil loc h s bs \<Longrightarrow> (\<And>x. x \<in> set bs \<Longrightarrow> h' (loc (fst x)) = h (loc (fst x)))
   \<Longrightarrow> heap_rep nil loc h' s bs"
proof (induction bs arbitrary: s)
  case (Cons c bs)
  obtain b p u where c: "c = (b, p, u)" by (cases c)
  have "h' (loc b) = h (loc b)" using Cons.prems(2) [of c] c by simp
  with Cons c show ?case by auto
qed simp

lemma loc_neq: "lo \<le> a \<Longrightarrow> b < lim \<Longrightarrow> a < b \<Longrightarrow> loc b \<noteq> loc a \<and> loc a \<noteq> loc b"
  using loc_inj [of a b] by auto

lemma rep_upd_below:
  assumes "heap_rep nil loc h s bs" "tiles a bs e" "e \<le> lim" "lo \<le> b" "b < a"
  shows "heap_rep nil loc (h(loc b := x)) s bs"
proof (rule rep_frame [OF assms(1)])
  fix c assume "c \<in> set bs"
  with tiles_bounds [OF assms(2), of "fst c" "fst (snd c)" "snd (snd c)"] assms(3-5)
  show "(h(loc b := x)) (loc (fst c)) = h (loc (fst c))"
    using loc_neq [of b "fst c"] by simp
qed

lemma find_rep:
  "heap_rep nil loc h s bs \<Longrightarrow> tiles a bs e \<Longrightarrow> lo \<le> a \<Longrightarrow> e \<le> lim \<Longrightarrow>
   hdr_find nil h sz s = Some (case ff_alloc (unat sz) bs of None \<Rightarrow> nil | Some (x, _) \<Rightarrow> loc x)"
proof (induction bs arbitrary: s a)
  case Nil
  then show ?case by (simp add: hdr_find.simps)
next
  case (Cons c bs)
  obtain b p u where c: "c = (b, p, u)" by (cases c)
  from Cons.prems c have le: "a + p + 1 \<le> e" and ab: "b = a" by (auto dest: tiles_le)
  with Cons.prems have nn: "loc a \<noteq> nil" using loc_nil by simp
  have ih: "hdr_find nil h sz (mh_next (h s)) =
      Some (case ff_alloc (unat sz) bs of None \<Rightarrow> nil | Some (x, _) \<Rightarrow> loc x)"
    using Cons.prems c by (intro Cons.IH [of _ "a + p + 1"]) auto
  show ?case
    using Cons.prems nn ih
    by (subst hdr_find.simps) (auto simp: c ab word_le_nat_alt split: option.splits)
qed

lemma unat_Suc16: "unat (sz :: u16) < 65535 \<Longrightarrow> unat (sz + 1) = unat sz + 1"
  by (simp add: unat_word_ariths)

lemma rep_para:
  "heap_rep nil loc h s bs \<Longrightarrow> (x, q, u) \<in> set bs \<Longrightarrow>
   unat (mh_para (h (loc x))) = q \<and> odd (mh_flags (h (loc x))) = u"
  by (induction nil loc h s bs rule: heap_rep.induct) auto

lemma carve_hd:
  assumes rep: "heap_rep nil loc h s ((a, p, False) # bs)" and t: "tiles a ((a, p, False) # bs) e"
    and lo: "lo \<le> a" and e: "e \<le> lim" and fit: "unat sz \<le> p"
  shows "heap_rep nil loc (hdr_carve adv h sz (loc a)) s
    ((if unat sz + 1 < p then [(a, unat sz, True), (a + unat sz + 1, p - 1 - unat sz, False)]
      else [(a, p, True)]) @ bs)"
proof -
  from t e have ae: "a + p + 1 \<le> lim" by (auto dest: tiles_le)
  with lo lim_le fit have sz: "unat (sz + 1) = unat sz + 1" by (intro unat_Suc16) simp
  from rep have s: "s = loc a" and p: "unat (mh_para (h (loc a))) = p" by auto
  have tl: "heap_rep nil loc h (mh_next (h (loc a))) bs" "tiles (a + p + 1) bs e"
    using rep t by auto
  have cond: "sz + 1 < mh_para (h (loc a)) \<longleftrightarrow> unat sz + 1 < p"
    by (simp add: word_less_nat_alt sz p)
  have tl1: "heap_rep nil loc (h(loc a := x)) (mh_next (h (loc a))) bs" for x
    using tl lo e by (intro rep_upd_below) auto
  show ?thesis
  proof (cases "unat sz + 1 < p")
    case False
    with cond tl1 s p show ?thesis by (simp add: hdr_carve_def)
  next
    case True
    with ae lo have adv: "adv (loc a) sz = loc (a + unat sz + 1)" by (intro adv_loc) auto
    from True ae lo have ne: "loc (a + unat sz + 1) \<noteq> loc a" "loc a \<noteq> loc (a + unat sz + 1)"
      using loc_neq [of a "a + unat sz + 1"] by auto
    have tl2: "heap_rep nil loc (h(loc a := x, loc (a + unat sz + 1) := y)) (mh_next (h (loc a))) bs"
      for x y
      using rep_upd_below [OF tl1 [of x] tl(2) e, of "a + unat sz + 1" y] True lo by simp
    have tl3: "heap_rep nil loc (h(loc (a + unat sz + 1) := y, loc a := x)) (mh_next (h (loc a))) bs"
      for x y using tl2 [of x y] ne by (simp add: fun_upd_twist)
    have par: "unat (mh_para (h (loc a)) - 1 - sz) = p - 1 - unat sz"
      using True p by (simp add: unat_sub_if' unat_word_ariths)
    show ?thesis
      using True cond adv ne tl2 tl3 par s by (simp add: hdr_carve_def Let_def fun_upd_twist)
  qed
qed

lemma carve_rep:
  "ff_alloc (unat sz) bs = Some (x, bs') \<Longrightarrow> heap_rep nil loc h s bs \<Longrightarrow> tiles a bs e \<Longrightarrow>
   lo \<le> a \<Longrightarrow> e \<le> lim \<Longrightarrow> heap_rep nil loc (hdr_carve adv h sz (loc x)) s bs'"
proof (induction bs arbitrary: s a bs')
  case Nil
  then show ?case by simp
next
  case (Cons c bs)
  obtain b p u where c: "c = (b, p, u)" by (cases c)
  show ?case
  proof (cases "\<not> u \<and> unat sz \<le> p")
    case True
    with Cons.prems(1) c have x: "x = b" and bs': "bs' = (if unat sz + 1 < p
        then [(b, unat sz, True), (b + unat sz + 1, p - 1 - unat sz, False)]
        else [(b, p, True)]) @ bs" by auto
    have ab: "b = a" using Cons.prems(3) c by simp
    show ?thesis unfolding x bs' ab
      using Cons.prems True c ab by (intro carve_hd) auto
  next
    case False
    with Cons.prems(1) c obtain cs where cs: "ff_alloc (unat sz) bs = Some (x, cs)"
      and bs': "bs' = (b, p, u) # cs" by (auto split: if_splits)
    from Cons.prems c have ab: "b = a" "s = loc a" and t: "tiles (a + p + 1) bs e"
      and r: "heap_rep nil loc h (mh_next (h (loc a))) bs" by auto
    from ff_alloc_mem [OF cs] obtain q where q: "(x, q, False) \<in> set bs" "unat sz \<le> q" by auto
    from tiles_bounds [OF t q(1)] have xa: "a + p + 1 \<le> x" "x + q + 1 \<le> e" by auto
    have ih: "heap_rep nil loc (hdr_carve adv h sz (loc x)) (mh_next (h (loc a))) cs"
      using Cons.IH [OF cs r t] Cons.prems by simp
    have fr: "hdr_carve adv h sz (loc x) (loc a) = h (loc a)"
    proof -
      have n1: "loc x \<noteq> loc a" using loc_neq [of a x] xa Cons.prems by simp
      from tiles_bounds [OF t q(1)] Cons.prems have lim': "unat (mh_para (h (loc x))) = q"
        using rep_para [OF r q(1)] by simp
      have n2: "adv (loc x) sz \<noteq> loc a" if "sz + 1 < mh_para (h (loc x))"
      proof -
        have "unat sz < 65535" using xa q(2) Cons.prems lim_le by simp
        then have "unat sz + 1 < q" using that lim' by (simp add: word_less_nat_alt unat_Suc16)
        then have "adv (loc x) sz = loc (x + unat sz + 1)"
          using xa Cons.prems by (intro adv_loc) auto
        then show ?thesis using loc_neq [of a "x + unat sz + 1"] xa \<open>unat sz + 1 < q\<close> Cons.prems
          by auto
      qed
      show ?thesis using n1 n2 by (auto simp: hdr_carve_def Let_def)
    qed
    show ?thesis using ih fr Cons.prems(2) c bs' ab by simp
  qed
qed

lemma unat_sum16: "unat x + 1 + unat y \<le> 65535 \<Longrightarrow> unat (x + (1 + y) :: u16) = unat x + 1 + unat y"
  by (simp add: unat_word_ariths)

lemma join_rep:
  assumes rep: "heap_rep nil loc h s ((a, p, u) # bs)" and t: "tiles a ((a, p, u) # bs) e"
    and lo: "lo \<le> a" and e: "e \<le> lim"
  shows "heap_rep nil loc (hdr_join nil h (loc a)) s (absorb a p bs)"
proof (cases bs)
  case Nil
  with rep show ?thesis by (auto simp: hdr_join_def Let_def)
next
  case (Cons c cs)
  obtain b q v where c: "c = (b, q, v)" by (cases c)
  from t Cons c have ab: "b = a + p + 1" and tc: "tiles (a + p + 1 + q + 1) cs e" by auto
  then have le: "a + p + 1 + q + 1 \<le> lim" using e by (auto dest: tiles_le)
  have nn: "loc b \<noteq> nil" using le lo ab by (intro loc_nil) auto
  from rep Cons c have r: "s = loc a" "unat (mh_para (h (loc a))) = p" "mh_next (h (loc a)) = loc b"
      "unat (mh_para (h (loc b))) = q" "odd (mh_flags (h (loc b))) = v"
      "heap_rep nil loc h (mh_next (h (loc b))) cs" by auto
  have sum: "unat (mh_para (h (loc a)) + (1 + mh_para (h (loc b)))) = p + 1 + q"
    using r le lim_le lo by (subst unat_sum16) auto
  have tl: "heap_rep nil loc (h(loc a := x)) (mh_next (h (loc b))) cs" for x
    using rep_upd_below [OF r(6) tc e lo] by simp
  have ne: "loc b \<noteq> loc a" using loc_neq [of a b] lo le ab by simp
  have tl2: "heap_rep nil loc (h(loc a := x)) (loc b) ((b, q, v) # cs)" for x
    using tl r ne by simp
  show ?thesis
  proof (cases v)
    case True
    with Cons c r nn tl2 show ?thesis by (simp add: hdr_join_def Let_def)
  next
    case False
    with Cons c r nn tl sum show ?thesis by (simp add: hdr_join_def Let_def)
  qed
qed

lemma join_frame: "y \<noteq> c \<Longrightarrow> hdr_join nil h c y = h y"
  by (simp add: hdr_join_def Let_def)

lemma free_pred:
  assumes rep: "heap_rep nil loc h s ((a, n, False) # (b, q, v) # cs)"
    and t: "tiles a ((a, n, False) # (b, q, v) # cs) e" and lo: "lo \<le> a" and e: "e \<le> lim"
  shows "hdr_locate nil h (loc b) (loc a) (mh_next (h (loc a))) = Some (loc a, loc b)
    \<and> heap_rep nil loc (hdr_release nil h (loc a) (loc b)) s (absorb a (n + 1 + q) cs)
    \<and> (\<forall>y. y \<noteq> loc a \<longrightarrow> hdr_release nil h (loc a) (loc b) y = h y)"
proof -
  from t have ab: "b = a + n + 1" and tc: "tiles (a + n + 1 + q + 1) cs e" by auto
  then have le: "a + n + 1 + q + 1 \<le> lim" using e by (auto dest: tiles_le)
  have nn: "loc a \<noteq> nil" "loc b \<noteq> nil" using le lo ab loc_nil [of a] loc_nil [of b] by auto
  from rep have r: "s = loc a" "unat (mh_para (h (loc a))) = n" "even (mh_flags (h (loc a)))"
      "mh_next (h (loc a)) = loc b" "unat (mh_para (h (loc b))) = q"
      "heap_rep nil loc h (mh_next (h (loc b))) cs" by auto
  have sum: "unat (mh_para (h (loc a)) + (1 + mh_para (h (loc b)))) = n + 1 + q"
    using r le lim_le lo by (subst unat_sum16) auto
  let ?h = "h(loc a := (h (loc a))\<lparr>mh_para := mh_para (h (loc a)) + (1 + mh_para (h (loc b))),
                                mh_next := mh_next (h (loc b))\<rparr>)"
  have "heap_rep nil loc ?h s ((a, n + 1 + q, False) # cs)"
    using rep_upd_below [OF r(6) tc e lo, of "?h (loc a)"] r sum by simp
  then have "heap_rep nil loc (hdr_join nil ?h (loc a)) s (absorb a (n + 1 + q) cs)"
    using tc lo e by (intro join_rep [where u = False]) (auto simp: algebra_simps)
  moreover have "hdr_release nil h (loc a) (loc b) = hdr_join nil ?h (loc a)"
    using nn r by (simp add: hdr_release_def)
  ultimately show ?thesis using r nn by (simp add: hdr_locate.simps join_frame)
qed

lemma free_rep:
  "heap_rep nil loc h s bs \<Longrightarrow> tiles a bs e \<Longrightarrow> lo \<le> a \<Longrightarrow> e \<le> lim \<Longrightarrow> lo \<le> x \<Longrightarrow> x < lim \<Longrightarrow>
   p = nil \<or> odd (mh_flags (h p)) \<or> s \<noteq> loc x \<Longrightarrow>
   \<exists>q b. hdr_locate nil h (loc x) p s = Some (q, b) \<and>
     (case ff_free x bs of None \<Rightarrow> b = nil
      | Some bs' \<Rightarrow> b = loc x \<and> heap_rep nil loc (hdr_release nil h q b) s bs'
          \<and> (\<forall>y. y \<notin> loc ` fst ` set bs \<longrightarrow> hdr_release nil h q b y = h y))"
proof (induction x bs arbitrary: s p a rule: ff_free.induct)
  case (1 x)
  then show ?case by (simp add: hdr_locate.simps)
next
  case (2 x a' n u bs)
  note prems = "2.prems"
  from prems have aa: "a' = a" and s: "s = loc a" and le: "a + n + 1 \<le> e" by (auto dest: tiles_le)
  have nn: "loc a \<noteq> nil" using prems le by (intro loc_nil) auto
  show ?case
  proof (cases "a = x")
    case True
    have loc: "hdr_locate nil h (loc x) p s = Some (p, loc x)"
      using nn s True by (simp add: hdr_locate.simps)
    have rel: "hdr_release nil h p (loc x) = hdr_join nil h (loc x)"
      using prems(7) s True by (auto simp: hdr_release_def)
    show ?thesis
      using loc rel join_rep [of h s a n u bs e] prems True aa by (auto intro: join_frame)
  next
    case False
    have ax: "loc a \<noteq> loc x" using False loc_inj [of a x] prems le by auto
    have step: "hdr_locate nil h (loc x) p s = hdr_locate nil h (loc x) (loc a) (mh_next (h (loc a)))"
      using nn s ax by (simp add: hdr_locate.simps [of nil h "loc x" p])
    have r: "heap_rep nil loc h (mh_next (h (loc a))) bs" and t: "tiles (a + n + 1) bs e"
      using prems by auto
    show ?thesis
    proof (cases bs)
      case Nil
      with step r False aa show ?thesis by (simp add: hdr_locate.simps)
    next
      case (Cons c cs)
      obtain b q v where c: "c = (b, q, v)" by (cases c)
      from t Cons c have ab: "b = a + n + 1" by simp
      show ?thesis
      proof (cases "b = x \<and> \<not> u")
        case True
        show ?thesis
          using free_pred [OF _ _ prems(3,4)] step True Cons c prems(1,2) aa False by auto
      next
        case no: False
        have pre: "loc a = nil \<or> odd (mh_flags (h (loc a))) \<or> mh_next (h (loc a)) \<noteq> loc x"
          using no r Cons c prems loc_inj [of b x] tiles_bounds [OF t, of b q v] by auto
        obtain q' b' where q: "hdr_locate nil h (loc x) (loc a) (mh_next (h (loc a))) = Some (q', b')"
            "case ff_free x bs of None \<Rightarrow> b' = nil
             | Some bs' \<Rightarrow> b' = loc x \<and> heap_rep nil loc (hdr_release nil h q' b') (mh_next (h (loc a))) bs'
              \<and> (\<forall>y. y \<notin> loc ` fst ` set bs \<longrightarrow> hdr_release nil h q' b' y = h y)"
          using "2.IH" [of "(b, q, v)" cs b "(q, v)" q v "mh_next (h (loc a))" "a + n + 1" "loc a"]
            False aa Cons c no r t prems pre by auto
        have notin: "loc a \<notin> loc ` fst ` set bs"
        proof
          assume "loc a \<in> loc ` fst ` set bs"
          then obtain z w v' where "loc a = loc z" "(z, w, v') \<in> set bs" by auto
          with tiles_bounds [OF t, of z w v'] loc_neq [of a z] prems show False by auto
        qed
        show ?thesis
        proof (cases "ff_free x bs")
          case None
          with q step no False aa Cons c show ?thesis by auto
        next
          case (Some bs')
          have f: "ff_free x ((a', n, u) # bs) = Some ((a, n, u) # bs')"
            using Some False Cons c aa ff_free_skip [OF False no] by (simp del: ff_free.simps(2))
          from q(2) Some have q2: "b' = loc x"
              "heap_rep nil loc (hdr_release nil h q' b') (mh_next (h (loc a))) bs'"
              "\<forall>y. y \<notin> loc ` fst ` set bs \<longrightarrow> hdr_release nil h q' b' y = h y" by auto
          have "hdr_release nil h q' b' (loc a) = h (loc a)" using q2(3) notin by simp
          then have "heap_rep nil loc (hdr_release nil h q' b') s ((a, n, u) # bs')"
            using prems(1) s q2(2) aa by simp
          then show ?thesis using f q(1) step q2 by (simp del: ff_free.simps(2) heap_rep.simps)
        qed
      qed
    qed
  qed
qed

end

end
