(* ===== verification/Memory.thy ===== *)
theory Memory
  imports ParaHeap
begin

text \<open>
  \<open>kernel/MEMORY.C\<close>: the far heap (\<open>kmalloc\<close>, \<open>kfree\<close>), the DMA heap (\<open>mem_dma_alloc\<close>,
  \<open>mem_dma_free\<close>) and the near heap (\<open>near_malloc\<close>, \<open>near_free\<close>). The far and the DMA heap
  are interpretations of \<open>para_heap\<close>. The headers are kept in three stores, one per arena
  (the arenas do not overlap: the DMA segment lies below the kernel image, the near heap is
  in its data segment, the far heap starts where the image ends). The pad words of a header
  and the payload are not modelled.
\<close>

section \<open>State\<close>

record nearhdr =
  nh_next :: u16
  nh_size :: u16

record kmem =
  dmaheap :: u16
  farheap :: u16
  dmahdr :: "u16 \<Rightarrow> memhdr"
  farhdr :: "u16 \<Rightarrow> memhdr"
  nearhdrs :: "u16 \<Rightarrow> nearhdr"

abbreviation far_null :: farptr where "far_null \<equiv> (0, 0)"

definition DMA_START :: u16 where "DMA_START = 0x50"
definition DMANULL :: u16 where "DMANULL = 0xffff"
definition NEAR_HEAP_SIZE :: u16 where "NEAR_HEAP_SIZE = 32768"

lemmas mem_consts [simp] = DMA_START_def DMANULL_def

section \<open>The near heap headers\<close>

text \<open>The used bit is packed into the lowest bit of the size.\<close>

definition NHDR_GET_SIZE :: "nearhdr \<Rightarrow> u16" where
  "NHDR_GET_SIZE x = nh_size x AND 0xfffe"

definition NHDR_SET_SIZE :: "nearhdr \<Rightarrow> u16 \<Rightarrow> nearhdr" where
  "NHDR_SET_SIZE x sz = x\<lparr>nh_size := (nh_size x AND 1) OR (sz AND 0xfffe)\<rparr>"

definition NHDR_GET_USED :: "nearhdr \<Rightarrow> bool" where
  "NHDR_GET_USED x = (nh_size x AND 1 \<noteq> 0)"

definition NHDR_SET_USED :: "nearhdr \<Rightarrow> nearhdr" where
  "NHDR_SET_USED x = x\<lparr>nh_size := nh_size x OR 1\<rparr>"

definition NHDR_SET_FREE :: "nearhdr \<Rightarrow> nearhdr" where
  "NHDR_SET_FREE x = x\<lparr>nh_size := nh_size x AND NOT 1\<rparr>"

lemmas nhdr_defs = NHDR_GET_SIZE_def NHDR_SET_SIZE_def NHDR_GET_USED_def NHDR_SET_USED_def
  NHDR_SET_FREE_def

section \<open>Initialisation\<close>

text \<open>\<open>ramk\<close> is the BIOS word with the kilobytes of conventional memory, \<open>heap\<close> the offset of the
  near heap in the data segment, four bytes its header.\<close>

definition mem_init :: "u16 \<Rightarrow> u16 \<Rightarrow> u16 \<Rightarrow> u16 \<Rightarrow> kmem \<Rightarrow> kmem" where
  "mem_init ramk heap dmaend ksegend m =
     (let topseg = push_bit 6 ramk;
          d = (dmahdr m)(0 := (dmahdr m 0)\<lparr>mh_next := DMANULL, mh_para := dmaend - DMA_START - 1,
                                           mh_flags := 0\<rparr>);
          f = (farhdr m)(ksegend := (farhdr m ksegend)\<lparr>mh_next := 0, mh_para := topseg - ksegend - 1,
                                                       mh_flags := 0\<rparr>);
          n = (nearhdrs m)(heap := NHDR_SET_SIZE ((nearhdrs m heap)\<lparr>nh_next := 0\<rparr>) (NEAR_HEAP_SIZE - 4))
      in m\<lparr>dmaheap := 0, farheap := ksegend, dmahdr := d, farhdr := f, nearhdrs := n\<rparr>)"

section \<open>The far heap\<close>

definition far_adv :: "u16 \<Rightarrow> u16 \<Rightarrow> u16" where
  "far_adv b n = b + n + 1"

definition kmalloc :: "u32 \<Rightarrow> kmem \<Rightarrow> (farptr \<times> kmem) res" where
  "kmalloc bytes m =
     (if 0xFFFF0 < bytes then Ok (far_null, m)
      else (let sz = (ucast (drop_bit 4 (bytes + 16 - 1)) :: u16)
            in bind_res (of_loop (hdr_find 0 (farhdr m) sz (farheap m))) (\<lambda>bseg.
               if bseg = 0 then Ok (far_null, m)
               else Ok ((bseg, 16), m\<lparr>farhdr := hdr_carve far_adv (farhdr m) sz bseg\<rparr>))))"

text \<open>\<open>KLINEAR\<close> of \<open>ktypes.h\<close>: the linear address of a far pointer.\<close>

definition KLINEAR :: "farptr \<Rightarrow> u32" where
  "KLINEAR p = push_bit 4 (ucast (fst p)) + ucast (snd p)"

definition kfree :: "farptr \<Rightarrow> kmem \<Rightarrow> kmem res" where
  "kfree p m =
     (let lin = KLINEAR p - 16; seg = (ucast (drop_bit 4 lin) :: u16); offs = (ucast (lin AND 0xf) :: u16)
      in if offs \<noteq> 0 then Panic
         else bind_res (of_loop (hdr_locate 0 (farhdr m) seg 0 (farheap m))) (\<lambda>(pseg, bseg).
              if bseg = 0 then Panic
              else Ok (m\<lparr>farhdr := hdr_release 0 (farhdr m) pseg bseg\<rparr>)))"

section \<open>The DMA heap\<close>

definition dma_adv :: "u16 \<Rightarrow> u16 \<Rightarrow> u16" where
  "dma_adv b n = b + push_bit 4 (n + 1)"

definition mem_dma_alloc :: "u16 \<Rightarrow> kmem \<Rightarrow> (farptr \<times> kmem) res" where
  "mem_dma_alloc bytes m =
     (if 0xfff0 < bytes then Ok (far_null, m)
      else (let sz = drop_bit 4 (bytes + 16 - 1)
            in bind_res (of_loop (hdr_find DMANULL (dmahdr m) sz (dmaheap m))) (\<lambda>boffs.
               if boffs = DMANULL then Ok (far_null, m)
               else Ok ((DMA_START, boffs + 16), m\<lparr>dmahdr := hdr_carve dma_adv (dmahdr m) sz boffs\<rparr>))))"

definition mem_dma_free :: "farptr \<Rightarrow> kmem \<Rightarrow> kmem res" where
  "mem_dma_free p m =
     (if fst p \<noteq> DMA_START then Panic
      else bind_res (of_loop (hdr_locate DMANULL (dmahdr m) (snd p - 16) DMANULL (dmaheap m)))
             (\<lambda>(poffs, boffs).
              if boffs = DMANULL then Panic
              else Ok (m\<lparr>dmahdr := hdr_release DMANULL (dmahdr m) poffs boffs\<rparr>)))"

section \<open>The near heap\<close>

partial_function (option) near_find :: "(u16 \<Rightarrow> nearhdr) \<Rightarrow> u16 \<Rightarrow> u16 \<Rightarrow> u16 option" where
  "near_find h sz p =
     (if p = 0 then Some 0
      else if NHDR_GET_USED (h p) then near_find h sz (nh_next (h p))
      else if sz \<le> NHDR_GET_SIZE (h p) then Some p
      else near_find h sz (nh_next (h p)))"

text \<open>Requests are rounded up to a multiple of the word size.\<close>

definition near_round :: "u16 \<Rightarrow> u16" where
  "near_round bytes = ((bytes + 2 - 1) AND NOT (2 - 1))"

text \<open>The new header's \<open>next\<close> is not assigned by the code: it keeps what the memory held.\<close>

definition near_malloc :: "u16 \<Rightarrow> u16 \<Rightarrow> kmem \<Rightarrow> (u16 \<times> kmem) res" where
  "near_malloc heap bytes m =
     (let sz = near_round bytes; h = nearhdrs m
      in bind_res (of_loop (near_find h sz heap)) (\<lambda>p.
         if p = 0 then Ok (0, m)
         else (let left = NHDR_GET_SIZE (h p) - sz;
                   h1 = (if 2 * 4 < left
                         then (let nx = p + (4 + sz);
                                   ha = h(nx := NHDR_SET_SIZE (h nx) (left - 4));
                                   hb = ha(nx := NHDR_SET_FREE (ha nx));
                                   hc = hb(p := NHDR_SET_SIZE (hb p) sz);
                                   hd = hc(p := NHDR_SET_USED (hc p))
                               in hd(p := (hd p)\<lparr>nh_next := nx\<rparr>))
                         else h);
                   h2 = h1(p := NHDR_SET_USED (h1 p))
               in Ok (p + 4, m\<lparr>nearhdrs := h2\<rparr>))))"

partial_function (option) near_locate ::
  "(u16 \<Rightarrow> nearhdr) \<Rightarrow> u16 \<Rightarrow> u16 \<Rightarrow> u16 \<Rightarrow> (u16 \<times> u16) option" where
  "near_locate h fp pp cp =
     (if cp = 0 then Some (pp, 0)
      else if cp = fp then Some (pp, cp)
      else near_locate h fp cp (nh_next (h cp)))"

definition near_free :: "u16 \<Rightarrow> u16 \<Rightarrow> kmem \<Rightarrow> kmem res" where
  "near_free heap ptr m =
     (let h = nearhdrs m
      in bind_res (of_loop (near_locate h (ptr - 4) 0 heap)) (\<lambda>(pp, cp0).
         if cp0 = 0 then Panic
         else (let (h1, cp) =
                     (if pp \<noteq> 0 \<and> \<not> NHDR_GET_USED (h pp)
                      then (let ha = h(pp := NHDR_SET_SIZE (h pp)
                                               (NHDR_GET_SIZE (h pp) + 4 + NHDR_GET_SIZE (h cp0)))
                            in (ha(pp := (ha pp)\<lparr>nh_next := nh_next (ha cp0)\<rparr>), pp))
                      else (h, cp0));
                   h2 = (if nh_next (h1 cp) \<noteq> 0 \<and> \<not> NHDR_GET_USED (h1 (nh_next (h1 cp)))
                         then (let hb = h1(cp := NHDR_SET_SIZE (h1 cp)
                                  (NHDR_GET_SIZE (h1 cp) + 4 + NHDR_GET_SIZE (h1 (nh_next (h1 cp)))))
                               in hb(cp := (hb cp)\<lparr>nh_next := nh_next (hb (nh_next (hb cp)))\<rparr>))
                         else h1)
               in Ok (m\<lparr>nearhdrs := h2(cp := NHDR_SET_FREE (h2 cp))\<rparr>))))"

section \<open>Both heaps are interpretations of the chain allocator\<close>

definition far_loc :: "nat \<Rightarrow> u16" where "far_loc a = of_nat a"

definition dma_loc :: "nat \<Rightarrow> u16" where "dma_loc a = of_nat (16 * a)"

lemma unat_far_loc: "a < 65536 \<Longrightarrow> unat (far_loc a) = a"
  by (simp add: far_loc_def)

lemma unat_dma_loc: "a < 4096 \<Longrightarrow> unat (dma_loc a) = 16 * a"
  unfolding dma_loc_def by (rule unat_of_nat16) simp

interpretation far: para_heap 0 far_loc far_adv 1 65536
proof
  show "far_loc a = far_loc b \<Longrightarrow> a = b" if "a < 65536" "b < 65536" for a b
    using that by (metis unat_far_loc)
  show "far_loc a \<noteq> 0" if "1 \<le> a" "a < 65536" for a
    using unat_far_loc [OF that(2)] that(1) by (metis not_one_le_zero unat_0)
  show "far_adv (far_loc a) n = far_loc (a + unat n + 1)" for a n
    by (simp add: far_adv_def far_loc_def)
qed simp

interpretation dma: para_heap DMANULL dma_loc dma_adv 0 4096
proof
  fix a b :: nat
  assume "a < 4096" "b < 4096" "dma_loc a = dma_loc b"
  then have "16 * a = 16 * b" by (metis unat_dma_loc)
  then show "a = b" by simp
next
  show "dma_loc a \<noteq> DMANULL" if "a < 4096" for a
  proof
    assume "dma_loc a = DMANULL"
    then have "16 * a = 65535" using unat_dma_loc [OF that] by simp
    then show False by presburger
  qed
  show "dma_adv (dma_loc a) n = dma_loc (a + unat n + 1)" for a n
    by (simp add: dma_adv_def dma_loc_def push_bit_eq_mult algebra_simps)
qed simp

section \<open>Invariants and the behaviour of the operations\<close>

text \<open>The far heap holds the blocks \<open>bs\<close>, which tile the segments from \<open>lo\<close> to \<open>hi\<close>.\<close>

definition far_inv :: "nat \<Rightarrow> nat \<Rightarrow> blk list \<Rightarrow> kmem \<Rightarrow> bool" where
  "far_inv lo hi bs m \<longleftrightarrow> 1 \<le> lo \<and> hi \<le> 65536 \<and> tiles lo bs hi
     \<and> heap_rep 0 far_loc (farhdr m) (farheap m) bs"

definition dma_inv :: "nat \<Rightarrow> blk list \<Rightarrow> kmem \<Rightarrow> bool" where
  "dma_inv hi bs m \<longleftrightarrow> hi \<le> 4096 \<and> tiles 0 bs hi
     \<and> heap_rep DMANULL dma_loc (dmahdr m) (dmaheap m) bs"


lemma sz_kmalloc:
  fixes b :: u32
  assumes "b \<le> 0xFFFF0"
  shows "unat (ucast (drop_bit 4 (b + 16 - 1)) :: u16) = (unat b + 15) div 16"
proof -
  from assms have b: "unat b \<le> 0xFFFF0" by (simp add: word_le_nat_alt)
  have e: "b + 16 - 1 = b + 15" by simp
  have s: "unat (b + 15) = unat b + 15" using b by (simp add: unat_word_ariths)
  have d: "unat (drop_bit 4 (b + 15)) = (unat b + 15) div 16"
    by (simp add: s drop_bit_eq_div unat_div)
  show ?thesis using b by (simp only: e unat_ucast_16 d) simp
qed

lemma kfree_lin:
  "ucast (drop_bit 4 (KLINEAR (s, 16) - 16)) = s" "ucast ((KLINEAR (s, 16) - 16) AND 0xf) = (0 :: u16)"
proof -
  have 1: "KLINEAR (s, 16) - 16 = push_bit 4 (ucast s)" by (simp add: KLINEAR_def)
  have m: "(0xf :: u32) = mask 4" by (simp add: mask_eq_exp_minus_1)
  show "ucast (drop_bit 4 (KLINEAR (s, 16) - 16)) = s" unfolding 1
    by (rule bit_word_eqI) (auto simp: bit_simps)
  show "ucast ((KLINEAR (s, 16) - 16) AND 0xf) = (0 :: u16)" unfolding 1 m
    by (rule bit_word_eqI) (auto simp: bit_simps)
qed

lemma sz_dma:
  fixes b :: u16
  assumes "b \<le> 0xfff0"
  shows "unat (drop_bit 4 (b + 16 - 1)) = (unat b + 15) div 16"
proof -
  from assms have b: "unat b \<le> 0xfff0" by (simp add: word_le_nat_alt)
  have e: "b + 16 - 1 = b + 15" by simp
  have s: "unat (b + 15) = unat b + 15" using b by (simp add: unat_word_ariths)
  show ?thesis by (simp add: e s drop_bit_eq_div unat_div del: add_diff_eq)
qed

section \<open>The allocator interface\<close>

text \<open>
  What a caller of \<open>kmalloc\<close> or \<open>mem_dma_alloc\<close> relies on: \<open>inv bs m\<close> says that the heap in
  \<open>m\<close> holds the blocks \<open>bs\<close>; \<open>paras\<close> gives the paragraphs of a request, or none when it
  is too large; \<open>ptr x\<close> is the pointer that is returned for the block whose header is at \<open>x\<close>.
\<close>

locale allocator =
  fixes alloc :: "'n \<Rightarrow> 'm \<Rightarrow> (farptr \<times> 'm) res" and release :: "farptr \<Rightarrow> 'm \<Rightarrow> 'm res"
    and inv :: "blk list \<Rightarrow> 'm \<Rightarrow> bool" and paras :: "'n \<Rightarrow> nat option" and ptr :: "nat \<Rightarrow> farptr"
    and lo hi :: nat
  assumes inv_tiles: "inv bs m \<Longrightarrow> tiles lo bs hi"
    and ptr_null: "ptr x \<noteq> far_null"
    and ptr_inj: "lo \<le> x \<Longrightarrow> x < hi \<Longrightarrow> lo \<le> y \<Longrightarrow> y < hi \<Longrightarrow> ptr x = ptr y \<Longrightarrow> inv bs m \<Longrightarrow> x = y"
    and alloc_big: "paras n = None \<Longrightarrow> alloc n m = Ok (far_null, m)"
    and alloc_none: "inv bs m \<Longrightarrow> paras n = Some k \<Longrightarrow> ff_alloc k bs = None \<Longrightarrow>
      alloc n m = Ok (far_null, m)"
    and alloc_some: "inv bs m \<Longrightarrow> paras n = Some k \<Longrightarrow> ff_alloc k bs = Some (x, bs') \<Longrightarrow>
      \<exists>m'. alloc n m = Ok (ptr x, m') \<and> inv bs' m'"
    and free_none: "inv bs m \<Longrightarrow> lo \<le> x \<Longrightarrow> x < hi \<Longrightarrow> ff_free x bs = None \<Longrightarrow> release (ptr x) m = Panic"
    and free_some: "inv bs m \<Longrightarrow> lo \<le> x \<Longrightarrow> x < hi \<Longrightarrow> ff_free x bs = Some bs' \<Longrightarrow>
      \<exists>m'. release (ptr x) m = Ok m' \<and> inv bs' m'"
begin

lemma alloc_spec:
  assumes "inv bs m" "paras n = Some k"
  shows "case ff_alloc k bs of None \<Rightarrow> alloc n m = Ok (far_null, m)
    | Some (x, bs') \<Rightarrow> \<exists>m'. alloc n m = Ok (ptr x, m') \<and> inv bs' m'"
  using alloc_none [OF assms] alloc_some [OF assms] by (auto split: option.split)

lemma free_spec:
  assumes "inv bs m" "lo \<le> x" "x < hi"
  shows "case ff_free x bs of None \<Rightarrow> release (ptr x) m = Panic
    | Some bs' \<Rightarrow> \<exists>m'. release (ptr x) m = Ok m' \<and> inv bs' m'"
  using free_none [OF assms] free_some [OF assms] by (auto split: option.split)

lemma alloc_nonnull:
  assumes "inv bs m" "alloc n m = Ok (p, m')" "p \<noteq> far_null"
  obtains k x bs' where "paras n = Some k" "ff_alloc k bs = Some (x, bs')" "p = ptr x" "inv bs' m'"
proof (cases "paras n")
  case None
  with alloc_big [of n m] assms show ?thesis by simp
next
  case (Some k)
  with alloc_spec [OF assms(1) Some] assms that show ?thesis
    by (auto split: option.splits)
qed

text \<open>The block handed out was free and large enough; every block in use stays as it is.\<close>

lemma alloc_fresh:
  assumes "inv bs m" "alloc n m = Ok (p, m')" "p \<noteq> far_null"
  shows "\<exists>x q bs'. p = ptr x \<and> (x, q, False) \<in> set bs \<and> the (paras n) \<le> q \<and> inv bs' m'
    \<and> {b \<in> set bs'. snd (snd b) \<and> fst b \<noteq> x} = {b \<in> set bs. snd (snd b)}"
proof -
  from assms obtain k x bs' where k: "paras n = Some k" "ff_alloc k bs = Some (x, bs')" "p = ptr x" "inv bs' m'"
    by (rule alloc_nonnull)
  from ff_alloc_mem [OF k(2)] obtain q where q: "(x, q, False) \<in> set bs" "k \<le> q" by auto
  have "{b \<in> set bs'. snd (snd b) \<and> fst b \<noteq> x} = {b \<in> set bs. snd (snd b)}"
    using ff_alloc_used [OF k(2) inv_tiles [OF assms(1)]] .
  with k q show ?thesis by auto
qed

text \<open>Freeing what was just allocated gives the same heap back.\<close>

lemma free_alloc:
  assumes "inv bs m" "coalesced bs" "alloc n m = Ok (p, m')" "p \<noteq> far_null"
  shows "\<exists>m''. release p m' = Ok m'' \<and> inv bs m''"
proof -
  from assms(1,3,4) obtain k x bs' where k: "paras n = Some k" "ff_alloc k bs = Some (x, bs')"
    "p = ptr x" "inv bs' m'" by (rule alloc_nonnull)
  note t = inv_tiles [OF assms(1)]
  from ff_alloc_mem [OF k(2)] obtain q where "(x, q, False) \<in> set bs" by auto
  with tiles_bounds [OF t] have "lo \<le> x" "x < hi" by fastforce+
  with free_some [OF k(4)] ff_free_alloc [OF k(2) t assms(2)] k(3) show ?thesis by auto
qed

end


definition far_paras :: "u32 \<Rightarrow> nat option" where
  "far_paras b = (if b \<le> 0xFFFF0 then Some ((unat b + 15) div 16) else None)"

definition far_ptr :: "nat \<Rightarrow> farptr" where "far_ptr x = (far_loc x, 16)"

definition dma_paras :: "u16 \<Rightarrow> nat option" where
  "dma_paras b = (if b \<le> 0xfff0 then Some ((unat b + 15) div 16) else None)"

definition dma_ptr :: "nat \<Rightarrow> farptr" where "dma_ptr x = (DMA_START, dma_loc x + 16)"

lemma far_inv_loc:
  assumes "far_inv lo hi bs m" "(x, q, u) \<in> set bs" shows "far_loc x \<noteq> 0"
proof -
  from assms have "lo \<le> x \<and> x + q + 1 \<le> hi" "1 \<le> lo" "hi \<le> 65536"
    using tiles_bounds [of lo bs hi x q u] by (auto simp: far_inv_def)
  then show ?thesis using far.loc_nil [of x] by simp
qed

interpretation kheap: allocator kmalloc kfree "far_inv lo hi" far_paras far_ptr lo hi for lo hi
proof
  show "tiles lo bs hi" if "far_inv lo hi bs m" for bs m
    using that by (simp add: far_inv_def)
  show "far_ptr x \<noteq> far_null" for x by (simp add: far_ptr_def)
  show "x = y" if "lo \<le> x" "x < hi" "lo \<le> y" "y < hi" "far_ptr x = far_ptr y" "far_inv lo hi bs m"
    for x y bs m
    using that far.loc_inj [of x y] by (simp add: far_ptr_def far_inv_def)
  show "kmalloc n m = Ok (far_null, m)" if "far_paras n = None" for n m
    using that by (auto simp: kmalloc_def far_paras_def split: if_splits)
next
  fix bs m n k
  assume inv: "far_inv lo hi bs m" and k: "far_paras n = Some k"
  then have n: "n \<le> 0xFFFF0" and kk: "k = unat (ucast (drop_bit 4 (n + 16 - 1)) :: u16)"
    using sz_kmalloc [of n] by (auto simp: far_paras_def simp del: add_diff_eq split: if_splits)
  note find = far.find_rep [of "farhdr m" "farheap m" bs lo hi "ucast (drop_bit 4 (n + 16 - 1))"]
  show "kmalloc n m = Ok (far_null, m)" if "ff_alloc k bs = None"
    using inv n find that kk by (simp add: kmalloc_def far_inv_def Let_def)
  fix x bs'
  assume a: "ff_alloc k bs = Some (x, bs')"
  from ff_alloc_mem [OF a] far_inv_loc [OF inv] have nn: "far_loc x \<noteq> 0" by auto
  have "far_inv lo hi bs' (m\<lparr>farhdr := hdr_carve far_adv (farhdr m) (ucast (drop_bit 4 (n + 16 - 1))) (far_loc x)\<rparr>)"
    using inv a kk far.carve_rep [of "ucast (drop_bit 4 (n + 16 - 1))" bs x bs' "farhdr m" "farheap m" lo hi]
    by (simp add: far_inv_def tiles_alloc)
  then show "\<exists>m'. kmalloc n m = Ok (far_ptr x, m') \<and> far_inv lo hi bs' m'"
    using inv n find a kk nn by (simp add: kmalloc_def far_inv_def Let_def far_ptr_def)
next
  fix bs m x
  assume inv: "far_inv lo hi bs m" and x: "lo \<le> x" "x < hi"
  then obtain q b where f: "hdr_locate 0 (farhdr m) (far_loc x) 0 (farheap m) = Some (q, b)"
     "case ff_free x bs of None \<Rightarrow> b = 0
      | Some bs' \<Rightarrow> b = far_loc x \<and> heap_rep 0 far_loc (hdr_release 0 (farhdr m) q b) (farheap m) bs'"
    using far.free_rep [of "farhdr m" "farheap m" bs lo hi x 0]
    by (auto simp: far_inv_def split: option.splits)
  show "kfree (far_ptr x) m = Panic" if "ff_free x bs = None"
    using f that by (simp add: kfree_def far_ptr_def Let_def kfree_lin)
  show "\<exists>m'. kfree (far_ptr x) m = Ok m' \<and> far_inv lo hi bs' m'" if s: "ff_free x bs = Some bs'" for bs'
  proof -
    have "far_loc x \<noteq> 0" using far.loc_nil [of x] inv x by (simp add: far_inv_def)
    moreover have "far_inv lo hi bs' (m\<lparr>farhdr := hdr_release 0 (farhdr m) q (far_loc x)\<rparr>)"
      using inv f(2) s by (auto simp: far_inv_def tiles_free)
    ultimately show ?thesis using f s by (simp add: kfree_def far_ptr_def Let_def kfree_lin)
  qed
qed

lemma dma_inv_loc:
  assumes "dma_inv hi bs m" "(x, q, u) \<in> set bs" shows "dma_loc x \<noteq> DMANULL"
proof -
  from assms have "x + q + 1 \<le> hi" "hi \<le> 4096"
    using tiles_bounds [of 0 bs hi x q u] by (auto simp: dma_inv_def)
  then show ?thesis using dma.loc_nil [of x] by simp
qed

interpretation dheap: allocator mem_dma_alloc mem_dma_free "dma_inv hi" dma_paras dma_ptr 0 hi for hi
proof
  show "tiles 0 bs hi" if "dma_inv hi bs m" for bs m
    using that by (simp add: dma_inv_def)
  show "dma_ptr x \<noteq> far_null" for x by (simp add: dma_ptr_def)
  show "x = y" if "x < hi" "y < hi" "dma_ptr x = dma_ptr y" "dma_inv hi bs m" for x y bs m
    using that dma.loc_inj [of x y] by (simp add: dma_ptr_def dma_inv_def)
  show "mem_dma_alloc n m = Ok (far_null, m)" if "dma_paras n = None" for n m
    using that by (auto simp: mem_dma_alloc_def dma_paras_def split: if_splits)
next
  fix bs m n k
  assume inv: "dma_inv hi bs m" and k: "dma_paras n = Some k"
  then have n: "n \<le> 0xfff0" and kk: "k = unat (drop_bit 4 (n + 16 - 1))"
    using sz_dma [of n] by (auto simp: dma_paras_def simp del: add_diff_eq split: if_splits)
  note find = dma.find_rep [of "dmahdr m" "dmaheap m" bs 0 hi "drop_bit 4 (n + 16 - 1)"]
  show "mem_dma_alloc n m = Ok (far_null, m)" if "ff_alloc k bs = None"
    using inv n find that kk by (simp add: mem_dma_alloc_def dma_inv_def Let_def)
  fix x bs'
  assume a: "ff_alloc k bs = Some (x, bs')"
  from ff_alloc_mem [OF a] dma_inv_loc [OF inv] have nn: "dma_loc x \<noteq> DMANULL" by auto
  have "dma_inv hi bs' (m\<lparr>dmahdr := hdr_carve dma_adv (dmahdr m) (drop_bit 4 (n + 16 - 1)) (dma_loc x)\<rparr>)"
    using inv a kk dma.carve_rep [of "drop_bit 4 (n + 16 - 1)" bs x bs' "dmahdr m" "dmaheap m" 0 hi]
    by (simp add: dma_inv_def tiles_alloc)
  then show "\<exists>m'. mem_dma_alloc n m = Ok (dma_ptr x, m') \<and> dma_inv hi bs' m'"
    using inv n find a kk nn by (simp add: mem_dma_alloc_def dma_inv_def Let_def dma_ptr_def)
next
  fix bs m x
  assume inv: "dma_inv hi bs m" and x: "x < hi"
  then obtain q b where f: "hdr_locate DMANULL (dmahdr m) (dma_loc x) DMANULL (dmaheap m) = Some (q, b)"
     "case ff_free x bs of None \<Rightarrow> b = DMANULL
      | Some bs' \<Rightarrow> b = dma_loc x \<and> heap_rep DMANULL dma_loc (hdr_release DMANULL (dmahdr m) q b) (dmaheap m) bs'"
    using dma.free_rep [of "dmahdr m" "dmaheap m" bs 0 hi x DMANULL]
    by (auto simp: dma_inv_def split: option.splits)
  show "mem_dma_free (dma_ptr x) m = Panic" if "ff_free x bs = None"
    using f that by (simp add: mem_dma_free_def dma_ptr_def)
  show "\<exists>m'. mem_dma_free (dma_ptr x) m = Ok m' \<and> dma_inv hi bs' m'" if s: "ff_free x bs = Some bs'" for bs'
  proof -
    have "dma_loc x \<noteq> DMANULL" using dma.loc_nil [of x] inv x by (simp add: dma_inv_def)
    moreover have "dma_inv hi bs' (m\<lparr>dmahdr := hdr_release DMANULL (dmahdr m) q (dma_loc x)\<rparr>)"
      using inv f(2) s by (auto simp: dma_inv_def tiles_free)
    ultimately show ?thesis using f s by (simp add: mem_dma_free_def dma_ptr_def)
  qed
qed

section \<open>Properties\<close>

text \<open>Property C1. \<open>kmalloc\<close> is first fit on the list of blocks: it always returns; it gives NULL
  exactly when the request is too large or no free block is large enough, and otherwise the first
  free block that fits, split when more than one paragraph is left over.\<close>

theorem kmalloc_first_fit:
  assumes "far_inv lo hi bs m"
  shows "case (if bytes \<le> 0xFFFF0 then ff_alloc ((unat bytes + 15) div 16) bs else None) of
      None \<Rightarrow> kmalloc bytes m = Ok (far_null, m)
    | Some (x, bs') \<Rightarrow> \<exists>m'. kmalloc bytes m = Ok ((far_loc x, 16), m') \<and> far_inv lo hi bs' m'"
  using kheap.alloc_big [of bytes m] kheap.alloc_spec [OF assms, of bytes]
  by (auto simp: far_paras_def far_ptr_def split: option.splits)


text \<open>Remark. In a coalesced far heap, freeing a block that was just allocated succeeds and
  gives back the very block list there was before.\<close>

theorem kfree_kmalloc:
  assumes "far_inv lo hi bs m" "coalesced bs" "kmalloc bytes m = Ok (p, m')" "p \<noteq> far_null"
  shows "\<exists>m''. kfree p m' = Ok m'' \<and> far_inv lo hi bs m''"
  by (rule kheap.free_alloc [OF assms])

text \<open>Remark. What \<open>kmalloc\<close> hands out was a free block of at least the requested size, and
  the blocks in use before the call are in use after it, at the same place and with the same size.\<close>

theorem kmalloc_fresh:
  assumes "far_inv lo hi bs m" "kmalloc bytes m = Ok (p, m')" "p \<noteq> far_null"
  shows "\<exists>x q bs'. p = (far_loc x, 16) \<and> (x, q, False) \<in> set bs \<and> unat bytes \<le> 16 * q \<and> far_inv lo hi bs' m'
    \<and> {b \<in> set bs'. snd (snd b) \<and> fst b \<noteq> x} = {b \<in> set bs. snd (snd b)}"
proof -
  have "bytes \<le> 0xFFFF0"
    using kheap.alloc_big [of bytes m] assms(2,3) by (cases "bytes \<le> 0xFFFF0") (auto simp: far_paras_def)
  then have "unat bytes \<le> 16 * the (far_paras bytes)" by (simp add: far_paras_def)
  with kheap.alloc_fresh [OF assms] show ?thesis by (fastforce simp: far_ptr_def)
qed

text \<open>Remark. \<open>mem_dma_alloc\<close> is first fit as well, in the DMA segment, with byte offsets as links.\<close>

theorem mem_dma_alloc_first_fit:
  assumes "dma_inv hi bs m"
  shows "case (if bytes \<le> 0xfff0 then ff_alloc ((unat bytes + 15) div 16) bs else None) of
      None \<Rightarrow> mem_dma_alloc bytes m = Ok (far_null, m)
    | Some (x, bs') \<Rightarrow> \<exists>m'. mem_dma_alloc bytes m = Ok ((DMA_START, dma_loc x + 16), m') \<and> dma_inv hi bs' m'"
  using dheap.alloc_big [of bytes m] dheap.alloc_spec [OF assms, of bytes]
  by (auto simp: dma_paras_def dma_ptr_def simp del: DMA_START_def split: option.splits)

text \<open>Remark. \<open>mem_dma_free\<close> panics on a pointer outside the DMA segment and on an offset that is
  no block, and otherwise frees and joins; after an allocation it restores the block list.\<close>

theorem mem_dma_free_spec:
  assumes "dma_inv hi bs m" "coalesced bs"
  shows "(s \<noteq> DMA_START \<longrightarrow> mem_dma_free (s, w) m = Panic)
    \<and> (x < hi \<longrightarrow> (case ff_free x bs of None \<Rightarrow> mem_dma_free (DMA_START, dma_loc x + 16) m = Panic
        | Some bs' \<Rightarrow> \<exists>m'. mem_dma_free (DMA_START, dma_loc x + 16) m = Ok m' \<and> dma_inv hi bs' m' \<and> coalesced bs'))
    \<and> (\<forall>bytes p m'. mem_dma_alloc bytes m = Ok (p, m') \<and> p \<noteq> far_null \<longrightarrow>
        (\<exists>m''. mem_dma_free p m' = Ok m'' \<and> dma_inv hi bs m''))"
proof (intro conjI impI allI)
  assume x: "x < hi"
  with dheap.free_spec [OF assms(1) _ x] coalesced_free [OF _ assms(2), of x]
  show "case ff_free x bs of None \<Rightarrow> mem_dma_free (DMA_START, dma_loc x + 16) m = Panic
    | Some bs' \<Rightarrow> \<exists>m'. mem_dma_free (DMA_START, dma_loc x + 16) m = Ok m' \<and> dma_inv hi bs' m' \<and> coalesced bs'"
    by (auto simp: dma_ptr_def split: option.splits simp del: DMA_START_def)
next
  show "mem_dma_free (s, w) m = Panic" if "s \<noteq> DMA_START"
    using that by (simp add: mem_dma_free_def)
  show "\<exists>m''. mem_dma_free p m' = Ok m'' \<and> dma_inv hi bs m''"
    if "mem_dma_alloc bytes m = Ok (p, m') \<and> p \<noteq> far_null" for bytes p m'
    using that by (intro dheap.free_alloc [OF assms]) auto
qed

section \<open>The near heap\<close>

lemma nhdr_used [simp]: "NHDR_GET_USED (NHDR_SET_USED x)" "\<not> NHDR_GET_USED (NHDR_SET_FREE x)"
  by (auto simp: nhdr_defs)

lemma nhdr_next [simp]: "nh_next (NHDR_SET_USED x) = nh_next x" "nh_next (NHDR_SET_FREE x) = nh_next x"
  "nh_next (NHDR_SET_SIZE x sz) = nh_next x"
  by (auto simp: nhdr_defs)

lemma nhdr_size [simp]:
  "NHDR_GET_SIZE (NHDR_SET_USED x) = NHDR_GET_SIZE x" "NHDR_GET_SIZE (NHDR_SET_FREE x) = NHDR_GET_SIZE x"
  "NHDR_GET_SIZE (NHDR_SET_SIZE x sz) = sz AND 0xfffe" "NHDR_GET_USED (NHDR_SET_SIZE x sz) = NHDR_GET_USED x"
proof -
  have m: "(0xfffe :: u16) = NOT 1" by simp
  have w: "(1 :: u16) = mask 1" by (simp add: mask_eq_exp_minus_1)
  show "NHDR_GET_SIZE (NHDR_SET_USED x) = NHDR_GET_SIZE x"
    unfolding nhdr_defs m w by (rule bit_word_eqI) (auto simp: bit_simps)
  show "NHDR_GET_SIZE (NHDR_SET_FREE x) = NHDR_GET_SIZE x"
    unfolding nhdr_defs m w by (rule bit_word_eqI) (auto simp: bit_simps)
  show "NHDR_GET_SIZE (NHDR_SET_SIZE x sz) = sz AND 0xfffe"
    unfolding nhdr_defs m w by simp (rule bit_word_eqI, auto simp: bit_simps)
  show "NHDR_GET_USED (NHDR_SET_SIZE x sz) = NHDR_GET_USED x"
    by (simp add: nhdr_defs even_or_iff even_and_iff)
qed

text \<open>The headers of the chain that starts at \<open>p\<close>.\<close>

fun near_chain :: "(u16 \<Rightarrow> nearhdr) \<Rightarrow> u16 \<Rightarrow> u16 list \<Rightarrow> bool" where
  "near_chain h p [] = (p = 0)"
| "near_chain h p (x # xs) = (p = x \<and> x \<noteq> 0 \<and> near_chain h (nh_next (h x)) xs)"

lemma near_find_chain:
  "near_chain h p xs \<Longrightarrow> near_find h sz p =
     Some (case find (\<lambda>x. \<not> NHDR_GET_USED (h x) \<and> sz \<le> NHDR_GET_SIZE (h x)) xs of None \<Rightarrow> 0 | Some x \<Rightarrow> x)"
  by (induction xs arbitrary: p) (auto simp: near_find.simps)

lemma near_locate_chain:
  "near_chain h p xs \<Longrightarrow> \<exists>q. near_locate h fp pp p = Some (q, if fp \<in> set xs then fp else 0)"
proof (induction xs arbitrary: p pp)
  case (Cons x xs)
  then have c: "near_chain h (nh_next (h x)) xs" "p = x" "x \<noteq> 0" by auto
  obtain q where "near_locate h fp x (nh_next (h x)) = Some (q, if fp \<in> set xs then fp else 0)"
    using Cons.IH [OF c(1)] by blast
  with c show ?case by (subst near_locate.simps) auto
qed (simp add: near_locate.simps)

lemma near_chain_nz: "near_chain h p xs \<Longrightarrow> x \<in> set xs \<Longrightarrow> x \<noteq> 0"
  by (induction xs arbitrary: p) auto

lemma find_in_set: "find P xs = Some x \<Longrightarrow> x \<in> set xs"
  by (auto simp: find_Some_iff)

text \<open>Remark. On a well-formed near heap \<open>near_free\<close> ends, and it panics exactly when the pointer
  is not the payload of a header of the chain; \<open>near_malloc\<close> ends and gives NULL exactly when no
  free block is large enough.\<close>

theorem near_heap_outcomes:
  assumes "near_chain (nearhdrs m) heap xs"
  shows "(near_free heap ptr m = Panic \<longleftrightarrow> ptr - 4 \<notin> set xs)
    \<and> (ptr - 4 \<in> set xs \<longrightarrow> (\<exists>m'. near_free heap ptr m = Ok m'))
    \<and> (\<exists>p m'. near_malloc heap bytes m = Ok (p, m')
         \<and> (m' = m \<and> p = 0 \<or> p - 4 \<in> set xs \<and> \<not> NHDR_GET_USED (nearhdrs m (p - 4))))
    \<and> ((\<forall>x \<in> set xs. NHDR_GET_USED (nearhdrs m x) \<or> NHDR_GET_SIZE (nearhdrs m x) < near_round bytes)
         \<longrightarrow> near_malloc heap bytes m = Ok (0, m))"
proof -
  let ?h = "nearhdrs m" and ?sz = "near_round bytes"
  let ?P = "\<lambda>x. \<not> NHDR_GET_USED (?h x) \<and> ?sz \<le> NHDR_GET_SIZE (?h x)"
  obtain q where q: "near_locate ?h (ptr - 4) 0 heap = Some (q, if ptr - 4 \<in> set xs then ptr - 4 else 0)"
    using near_locate_chain [OF assms] by blast
  note nz = near_chain_nz [OF assms]
  have free: "near_free heap ptr m = Panic \<longleftrightarrow> ptr - 4 \<notin> set xs"
    "ptr - 4 \<in> set xs \<longrightarrow> (\<exists>m'. near_free heap ptr m = Ok m')"
    using q nz [of "ptr - 4"] by (auto simp: near_free_def Let_def split: prod.splits)
  have fnd: "near_find ?h ?sz heap = Some (case find ?P xs of None \<Rightarrow> 0 | Some x \<Rightarrow> x)"
    by (rule near_find_chain [OF assms])
  have none: "near_malloc heap bytes m = Ok (0, m)" if "find ?P xs = None"
    using fnd that by (simp add: near_malloc_def Let_def)
  have some: "\<exists>m'. near_malloc heap bytes m = Ok (x + 4, m')" if "find ?P xs = Some x" for x
    using fnd that nz [OF find_in_set [OF that]] by (simp add: near_malloc_def Let_def)
  have "\<exists>p m'. near_malloc heap bytes m = Ok (p, m')
         \<and> (m' = m \<and> p = 0 \<or> p - 4 \<in> set xs \<and> \<not> NHDR_GET_USED (?h (p - 4)))"
  proof (cases "find ?P xs")
    case (Some x)
    then have "\<not> NHDR_GET_USED (?h x)" "x \<in> set xs" by (auto simp: find_Some_iff)
    with some [OF Some] show ?thesis by (metis add_diff_cancel_right')
  qed (use none in simp)
  moreover have "near_malloc heap bytes m = Ok (0, m)"
    if "\<forall>x \<in> set xs. NHDR_GET_USED (?h x) \<or> NHDR_GET_SIZE (?h x) < ?sz"
    using that by (intro none) (auto simp: find_None_iff)
  ultimately show ?thesis using free by blast
qed

text \<open>Remark. When \<open>near_malloc\<close> splits a block, the header of the remainder keeps the link that the
  memory held before: the blocks behind the split one are reached only through that stale word.\<close>

theorem near_malloc_split_stale_link:
  assumes "near_find (nearhdrs m) sz heap = Some p" "p \<noteq> 0" "sz = near_round bytes"
    "8 < NHDR_GET_SIZE (nearhdrs m p) - sz" "p + (4 + sz) \<noteq> p"
  shows "\<exists>m'. near_malloc heap bytes m = Ok (p + 4, m') \<and> nh_next (nearhdrs m' p) = p + (4 + sz)
    \<and> nh_next (nearhdrs m' (p + (4 + sz))) = nh_next (nearhdrs m (p + (4 + sz)))
    \<and> \<not> NHDR_GET_USED (nearhdrs m' (p + (4 + sz))) \<and> NHDR_GET_USED (nearhdrs m' p)"
  using assms by (simp add: near_malloc_def Let_def)

text \<open>Remark. The rounding wraps: a request of 65535 bytes is treated as one of 0 bytes.\<close>

theorem near_malloc_wraps: "near_malloc heap 0xffff m = near_malloc heap 0 m"
proof -
  have "near_round 0xffff = near_round 0" by (simp add: near_round_def)
  then show ?thesis by (simp only: near_malloc_def)
qed

section \<open>Initialisation establishes the invariants\<close>

lemma far_init:
  assumes "0 < ksegend" "ksegend < push_bit 6 ramk"
  shows "far_inv (unat ksegend) (unat (push_bit 6 ramk :: u16))
    [(unat ksegend, unat (push_bit 6 ramk) - unat ksegend - 1, False)] (mem_init ramk heap dmaend ksegend m)"
proof -
  have "0 < unat ksegend" "unat ksegend < unat (push_bit 6 ramk)"
    using assms by (simp_all add: word_less_nat_alt)
  moreover from this have "unat (push_bit 6 ramk - ksegend - 1) = unat (push_bit 6 ramk) - unat ksegend - 1"
    by (simp add: unat_sub_if')
  moreover have "far_loc (unat ksegend) = ksegend" by (simp add: far_loc_def)
  moreover have "unat (push_bit 6 ramk) < 65536" by (rule unat_u16_lt)
  ultimately show ?thesis by (auto simp: far_inv_def mem_init_def Let_def)
qed

lemma dma_init:
  assumes "DMA_START < dmaend" "dmaend \<le> DMA_START + 0x1000"
  shows "dma_inv (unat dmaend - 0x50) [(0, unat dmaend - 0x51, False)] (mem_init ramk heap dmaend ksegend m)"
proof -
  have "80 < unat dmaend" "unat dmaend \<le> 0x1050"
    using assms by (simp_all add: word_less_nat_alt word_le_nat_alt)
  moreover from this have "unat (dmaend - 80 - 1) = unat dmaend - 81" by (simp add: unat_sub_if')
  moreover have "dma_loc 0 = 0" by (simp add: dma_loc_def)
  ultimately show ?thesis by (auto simp: dma_inv_def mem_init_def Let_def)
qed

text \<open>Remark. After \<open>mem_init\<close> the far heap is one free block from the end of the kernel image to
  the top of conventional memory, the DMA heap one free block from the start of its segment to
  \<open>dmaend\<close>, and the near heap one free block of 32764 bytes.\<close>

theorem mem_init_inv:
  assumes "0 < ksegend" "ksegend < push_bit 6 ramk" "DMA_START < dmaend" "dmaend \<le> DMA_START + 0x1000"
    and "heap \<noteq> 0" "\<not> NHDR_GET_USED (nearhdrs m heap)"
  shows "far_inv (unat ksegend) (unat (push_bit 6 ramk :: u16))
      [(unat ksegend, unat (push_bit 6 ramk) - unat ksegend - 1, False)] (mem_init ramk heap dmaend ksegend m)
    \<and> dma_inv (unat dmaend - 0x50) [(0, unat dmaend - 0x51, False)] (mem_init ramk heap dmaend ksegend m)
    \<and> near_chain (nearhdrs (mem_init ramk heap dmaend ksegend m)) heap [heap]
    \<and> NHDR_GET_SIZE (nearhdrs (mem_init ramk heap dmaend ksegend m) heap) = 32764
    \<and> \<not> NHDR_GET_USED (nearhdrs (mem_init ramk heap dmaend ksegend m) heap)"
proof -
  have "NHDR_GET_USED (x\<lparr>nh_next := n\<rparr>) = NHDR_GET_USED x" for x n by (simp add: NHDR_GET_USED_def)
  then have "near_chain (nearhdrs (mem_init ramk heap dmaend ksegend m)) heap [heap]
    \<and> NHDR_GET_SIZE (nearhdrs (mem_init ramk heap dmaend ksegend m) heap) = 32764
    \<and> \<not> NHDR_GET_USED (nearhdrs (mem_init ramk heap dmaend ksegend m) heap)"
    using assms(5,6) by (simp add: mem_init_def Let_def NEAR_HEAP_SIZE_def)
  with far_init [OF assms(1,2)] dma_init [OF assms(3,4)] show ?thesis by blast
qed

section \<open>Witnesses\<close>

text \<open>A machine with 640k, the kernel image up to segment 0x2000 and DMA memory up to 0x250.\<close>

definition w_mem :: kmem where
  "w_mem = mem_init 640 0x100 0x250 0x2000
     \<lparr>dmaheap = 0, farheap = 0, dmahdr = (\<lambda>_. \<lparr>mh_next = 0, mh_para = 0, mh_flags = 0\<rparr>),
      farhdr = (\<lambda>_. \<lparr>mh_next = 0, mh_para = 0, mh_flags = 0\<rparr>), nearhdrs = (\<lambda>_. \<lparr>nh_next = 0, nh_size = 0\<rparr>)\<rparr>"

lemma w_far: "far_inv 0x2000 0xa000 [(0x2000, 0x7fff, False)] w_mem"
  using far_init [of "0x2000" 640 "0x100" "0x250"] by (simp add: w_mem_def)

lemma w_dma: "dma_inv 0x200 [(0, 0x1ff, False)] w_mem"
  using dma_init [of "0x250"] by (simp add: w_mem_def)

lemma w_near: "near_chain (nearhdrs w_mem) 0x100 [0x100]"
  by (simp add: w_mem_def mem_init_def Let_def)

lemma w_kmalloc: "\<exists>m'. kmalloc 100 w_mem = Ok ((0x2000, 16), m')
  \<and> far_inv 0x2000 0xa000 [(0x2000, 7, True), (0x2008, 0x7ff7, False)] m'"
  using kheap.alloc_some [OF w_far, of 100] by (simp add: far_paras_def far_ptr_def far_loc_def)

theorem kmalloc_first_fit_witness:
  "\<exists>m'. kmalloc 100 w_mem = Ok ((0x2000, 16), m')
    \<and> far_inv 0x2000 0xa000 [(0x2000, 7, True), (0x2008, 0x7ff7, False)] m'"
  using kmalloc_first_fit [OF w_far, of 100] by (simp add: far_loc_def)


theorem kfree_kmalloc_witness: "\<exists>m' m''. kmalloc 100 w_mem = Ok ((0x2000, 16), m')
  \<and> kfree (0x2000, 16) m' = Ok m'' \<and> far_inv 0x2000 0xa000 [(0x2000, 0x7fff, False)] m''"
proof -
  obtain m' where "kmalloc 100 w_mem = Ok ((0x2000, 16), m')" using w_kmalloc by blast
  with kfree_kmalloc [OF w_far, of 100 "(0x2000, 16)" m'] show ?thesis by simp
qed

theorem kmalloc_fresh_witness: "\<exists>m' q. kmalloc 100 w_mem = Ok ((0x2000, 16), m')
  \<and> (0x2000, q, False) \<in> set [(0x2000, 0x7fff, False)] \<and> (100 :: nat) \<le> 16 * q"
proof -
  obtain m' where m: "kmalloc 100 w_mem = Ok ((0x2000, 16), m')" using w_kmalloc by blast
  from kmalloc_fresh [OF w_far m] m show ?thesis by auto
qed

theorem mem_dma_alloc_first_fit_witness:
  "\<exists>m'. mem_dma_alloc 512 w_mem = Ok ((0x50, 16), m') \<and> dma_inv 0x200 [(0, 32, True), (33, 0x1de, False)] m'"
  using mem_dma_alloc_first_fit [OF w_dma, of 512] by (simp add: dma_loc_def)

theorem mem_dma_free_spec_witness:
  "mem_dma_free (0x60, 16) w_mem = Panic
   \<and> (\<exists>p m' m''. mem_dma_alloc 512 w_mem = Ok (p, m') \<and> p \<noteq> far_null \<and> mem_dma_free p m' = Ok m'')"
proof -
  obtain m' where m: "mem_dma_alloc 512 w_mem = Ok ((0x50, 16), m')"
    using dheap.alloc_some [OF w_dma, of 512] by (auto simp: dma_paras_def dma_ptr_def dma_loc_def)
  moreover note d = mem_dma_free_spec [OF w_dma, of "0x60" 16 0]
  have "mem_dma_free (0x60, 16) w_mem = Panic" using d by simp
  moreover have "\<exists>m''. mem_dma_free (0x50, 16) m' = Ok m''"
    using d [THEN conjunct2, THEN conjunct2, rule_format, of 512 "(0x50, 16)" m'] m by auto
  ultimately show ?thesis by fastforce
qed

theorem near_heap_outcomes_witness: "near_free 0x100 0x200 w_mem = Panic
  \<and> (\<exists>m'. near_free 0x100 0x104 w_mem = Ok m') \<and> (\<exists>p m'. near_malloc 0x100 100 w_mem = Ok (p, m'))"
  using near_heap_outcomes [OF w_near, of "0x200" 100] near_heap_outcomes [OF w_near, of "0x104" 100]
  by auto

theorem near_malloc_split_stale_link_witness:
  "\<exists>m'. near_malloc 0x100 100 w_mem = Ok (0x104, m') \<and> nh_next (nearhdrs m' 0x168) = 0"
proof -
  have a: "NHDR_GET_SIZE (nearhdrs w_mem 0x100) = 32764" "\<not> NHDR_GET_USED (nearhdrs w_mem 0x100)"
    by (simp_all add: w_mem_def mem_init_def Let_def NEAR_HEAP_SIZE_def) (simp add: NHDR_GET_USED_def)
  have b: "near_find (nearhdrs w_mem) 100 0x100 = Some 0x100"
    using a by (simp add: near_find.simps)
  have c: "(100 :: u16) = near_round 100" by (simp add: near_round_def)
  have "nh_next (nearhdrs w_mem 0x168) = 0" by (simp add: w_mem_def mem_init_def Let_def)
  with near_malloc_split_stale_link [OF b _ c] a show ?thesis by auto
qed

theorem mem_init_inv_witness: "far_inv 0x2000 0xa000 [(0x2000, 0x7fff, False)] w_mem
  \<and> dma_inv 0x200 [(0, 0x1ff, False)] w_mem"
  using mem_init_inv [of "0x2000" 640 "0x250" "0x100"] by (simp add: w_mem_def NHDR_GET_USED_def)

end
