(* ===== verification/Taskq.thy ===== *)
theory Taskq
  imports Prelude
begin

text \<open>
  \<open>kernel/sched/taskq.c\<close>: the circular doubly linked task queues. A task pointer is the number of
  a slot of \<open>tasks\<close>, counted from 1, and 0 is \<open>NULL\<close>; queues are named by what they belong to. The
  store gives each task its record and each queue its head. The main lemmas say that the pointer
  operations implement lists: \<open>taskq_push\<close> appends, \<open>taskq_pop\<close> removes the first element and
  \<open>task_dequeue\<close> removes an element of whichever queue it is on.
\<close>

section \<open>Tasks and queues\<close>

type_synonym taskp = nat

datatype tstate = TS_FREE | TS_RUN | TS_READY | TS_BLOCKED | TS_FREEING

text \<open>The queues: a priority bucket of \<open>tqueue\<close>, the sleepers, the queue of a semaphore, the wait
  queue of a process slot, and queues of the drivers.\<close>

datatype taskq = TQ nat | Sleeping | SemaQ nat | WaitQ nat | DevQ nat

record task =
  t_next :: taskp
  t_prev :: taskp
  t_owner :: "taskq option"
  t_process :: nat
  t_stack :: farptr
  t_kstkbse :: farptr
  t_kstksz :: u16
  t_state :: tstate
  t_pri :: nat
  t_due :: u32

record tstore =
  tk :: "taskp \<Rightarrow> task"
  qhead :: "taskq \<Rightarrow> taskp"

definition tset :: "taskp \<Rightarrow> (task \<Rightarrow> task) \<Rightarrow> 'a tstore_scheme \<Rightarrow> 'a tstore_scheme" where
  "tset x f s = s\<lparr>tk := (tk s)(x := f (tk s x))\<rparr>"

definition qset :: "taskq \<Rightarrow> taskp \<Rightarrow> 'a tstore_scheme \<Rightarrow> 'a tstore_scheme" where
  "qset q x s = s\<lparr>qhead := (qhead s)(q := x)\<rparr>"

section \<open>Operations\<close>

definition taskq_init :: "taskq \<Rightarrow> 'a tstore_scheme \<Rightarrow> 'a tstore_scheme" where
  "taskq_init q s = qset q 0 s"

definition taskq_push :: "taskq \<Rightarrow> taskp \<Rightarrow> 'a tstore_scheme \<Rightarrow> 'a tstore_scheme" where
  "taskq_push q t s =
     (let head = qhead s q;
          s1 = tset t (\<lambda>r. r\<lparr>t_owner := Some q\<rparr>) s
      in if head \<noteq> 0 then
           (let s2 = tset (t_prev (tk s1 head)) (\<lambda>r. r\<lparr>t_next := t\<rparr>) s1;
                s3 = tset t (\<lambda>r. r\<lparr>t_prev := t_prev (tk s2 head)\<rparr>) s2;
                s4 = tset head (\<lambda>r. r\<lparr>t_prev := t\<rparr>) s3
            in tset t (\<lambda>r. r\<lparr>t_next := head\<rparr>) s4)
         else
           (let s2 = qset q t s1;
                s3 = tset t (\<lambda>r. r\<lparr>t_next := t\<rparr>) s2
            in tset t (\<lambda>r. r\<lparr>t_prev := t\<rparr>) s3))"

definition taskq_pop :: "taskq \<Rightarrow> 'a tstore_scheme \<Rightarrow> taskp \<times> 'a tstore_scheme" where
  "taskq_pop q s =
     (let head = qhead s q
      in if head = 0 then (0, s)
         else (let t = head;
                   s1 = (if t_next (tk s t) = t then qset q 0 s
                         else (let h = t_next (tk s t);
                                   sa = qset q h s;
                                   sb = tset h (\<lambda>r. r\<lparr>t_prev := t_prev (tk sa t)\<rparr>) sa
                               in tset (t_prev (tk sb h)) (\<lambda>r. r\<lparr>t_next := h\<rparr>) sb));
                   s2 = tset t (\<lambda>r. r\<lparr>t_next := 0\<rparr>) s1;
                   s3 = tset t (\<lambda>r. r\<lparr>t_prev := 0\<rparr>) s2
               in (t, tset t (\<lambda>r. r\<lparr>t_owner := None\<rparr>) s3)))"

definition task_dequeue :: "taskp \<Rightarrow> 'a tstore_scheme \<Rightarrow> 'a tstore_scheme" where
  "task_dequeue t s =
     (let s1 = (case t_owner (tk s t) of
                  None \<Rightarrow> s
                | Some q \<Rightarrow>
                    if t_next (tk s t) = t then qset q 0 s
                    else (let sa = (if qhead s q = t then qset q (t_next (tk s t)) s else s);
                              sb = tset (t_prev (tk sa t)) (\<lambda>r. r\<lparr>t_next := t_next (tk sa t)\<rparr>) sa
                          in tset (t_next (tk sb t)) (\<lambda>r. r\<lparr>t_prev := t_prev (tk sb t)\<rparr>) sb));
          s2 = tset t (\<lambda>r. r\<lparr>t_prev := 0\<rparr>) s1;
          s3 = tset t (\<lambda>r. r\<lparr>t_next := 0\<rparr>) s2
      in tset t (\<lambda>r. r\<lparr>t_owner := None\<rparr>) s3)"

lemma in_set_tlD: "x \<in> set (tl xs) \<Longrightarrow> x \<in> set xs"
  by (cases xs) auto

section \<open>Representation\<close>

text \<open>Neighbours of the walk \<open>w\<close> point at each other.\<close>

fun lnk :: "(taskp \<Rightarrow> task) \<Rightarrow> taskp list \<Rightarrow> bool" where
  "lnk m (x # y # w) = (t_next (m x) = y \<and> t_prev (m y) = x \<and> lnk m (y # w))"
| "lnk m _ = True"

text \<open>The elements of a non-empty circular list, and the queue whose head \<open>h\<close> is the first.\<close>

definition cyc :: "(taskp \<Rightarrow> task) \<Rightarrow> taskp list \<Rightarrow> bool" where
  "cyc m xs \<longleftrightarrow> xs = [] \<or> lnk m (xs @ [hd xs])"

definition circ :: "(taskp \<Rightarrow> task) \<Rightarrow> taskp \<Rightarrow> taskp list \<Rightarrow> bool" where
  "circ m h xs \<longleftrightarrow> h = (if xs = [] then 0 else hd xs) \<and> cyc m xs"

text \<open>\<open>Q\<close> gives the contents of every queue; a task has an owner exactly when it is on a queue.\<close>

definition queues :: "(taskq \<Rightarrow> taskp list) \<Rightarrow> 'a tstore_scheme \<Rightarrow> bool" where
  "queues Q s \<longleftrightarrow> (\<forall>q. circ (tk s) (qhead s q) (Q q) \<and> distinct (Q q) \<and> 0 \<notin> set (Q q))
     \<and> (\<forall>t q. t \<noteq> 0 \<longrightarrow> (t_owner (tk s t) = Some q \<longleftrightarrow> t \<in> set (Q q)))"

lemma tset_simps [simp]:
  "tk (tset x f s) = (tk s)(x := f (tk s x))" "qhead (tset x f s) = qhead s"
  "tk (qset q x s) = tk s" "qhead (qset q x s) = (qhead s)(q := x)"
  by (simp_all add: tset_def qset_def)

lemma lnk_append: "lnk m (xs @ y # ys) \<longleftrightarrow> lnk m (xs @ [y]) \<and> lnk m (y # ys)"
proof (induction xs)
  case (Cons x xs)
  then show ?case by (cases xs) auto
qed simp

lemma lnk_frame:
  "(\<And>x. x \<in> set (butlast w) \<Longrightarrow> t_next (m' x) = t_next (m x)) \<Longrightarrow>
   (\<And>x. x \<in> set (tl w) \<Longrightarrow> t_prev (m' x) = t_prev (m x)) \<Longrightarrow> lnk m' w = lnk m w"
  by (induction m w rule: lnk.induct) auto

lemma lnk_frame_all:
  "(\<And>x. x \<in> set w \<Longrightarrow> t_next (m' x) = t_next (m x) \<and> t_prev (m' x) = t_prev (m x)) \<Longrightarrow> lnk m' w = lnk m w"
  by (rule lnk_frame) (auto dest: in_set_butlastD in_set_tlD)

lemma cyc_frame:
  "(\<And>x. x \<in> set xs \<Longrightarrow> t_next (m' x) = t_next (m x) \<and> t_prev (m' x) = t_prev (m x)) \<Longrightarrow> cyc m' xs = cyc m xs"
  using lnk_frame_all [of "xs @ [hd xs]" m' m] by (cases xs) (simp_all add: cyc_def del: lnk.simps)

lemma cyc_rotate: "cyc m (ys @ zs) = cyc m (zs @ ys)"
proof -
  have "cyc m (b # zs @ a # ys)" if "cyc m (a # ys @ b # zs)" for a b ys zs
    using that lnk_append [of m "a # ys" b "zs @ [a]"] lnk_append [of m "b # zs" a "ys @ [b]"]
    by (simp add: cyc_def)
  then show ?thesis by (cases ys; cases zs) auto
qed

lemma cyc_last:
  assumes "cyc m (xs @ [p])"
  shows "t_next (m p) = hd (xs @ [p])" "t_prev (m (hd (xs @ [p]))) = p"
  using assms lnk_append [of m xs p "[hd (xs @ [p])]"] by (auto simp: cyc_def)

lemma cyc_push:
  assumes c: "cyc m (xs @ [p])" and d: "distinct (xs @ [p])" "t \<notin> set (xs @ [p])"
    and h: "h = hd (xs @ [p])"
    and nx: "\<And>x. t_next (m' x) = (if x = t then h else if x = p then t else t_next (m x))"
    and pv: "\<And>x. t_prev (m' x) = (if x = h then t else if x = t then p else t_prev (m x))"
  shows "cyc m' (xs @ [p, t])"
proof -
  have "lnk m (xs @ [p])" using c lnk_append [of m xs p "[h]"] h by (simp add: cyc_def)
  moreover have "h \<notin> set (tl (xs @ [p]))" using d h by (cases xs) auto
  ultimately have "lnk m' (xs @ [p])"
    using d by (subst lnk_frame [of _ m' m]) (auto simp: nx pv dest: list.set_sel(2) in_set_tlD)
  moreover have "lnk m' [p, t, h]" using d h by (cases xs) (auto simp: nx pv)
  moreover have "hd (xs @ [p, t]) = h" using h by (cases xs) auto
  ultimately show ?thesis using lnk_append [of m' xs p "[t, h]"] by (simp add: cyc_def)
qed

lemma cyc_remove:
  assumes c: "cyc m (t # n # w)" and d: "distinct (t # n # w)" and p: "p = last (n # w)"
    and nx: "\<And>x. t_next (m' x) = (if x = t then 0 else if x = p then n else t_next (m x))"
    and pv: "\<And>x. t_prev (m' x) = (if x = t then 0 else if x = n then p else t_prev (m x))"
  shows "cyc m' (n # w)"
proof -
  obtain v where v: "n # w = v @ [p]" using p by (metis append_butlast_last_id list.distinct(1))
  have "lnk m (n # w @ [t])" using c by (simp add: cyc_def)
  then have "lnk m (v @ [p, t])" using v by (metis append.assoc append_Cons append_Nil)
  then have "lnk m (v @ [p])" using lnk_append [of m v p "[t]"] by simp
  moreover have "n \<notin> set (tl (v @ [p]))" using d v by (metis distinct.simps(2) list.sel(3))
  moreover have "distinct (v @ [p])" "t \<notin> set (v @ [p])" using d v by (metis distinct.simps(2))+
  ultimately have "lnk m' (v @ [p])"
    by (subst lnk_frame [of _ m' m]) (auto simp: nx pv dest: list.set_sel(2) in_set_tlD)
  moreover have "lnk m' [p, n]" using d v by (cases v) (auto simp: nx pv)
  ultimately have "lnk m' ((v @ [p]) @ [n])" using lnk_append [of m' v p "[n]"] by simp
  then show ?thesis by (simp only: cyc_def v [symmetric]) simp
qed

section \<open>The operations on the fields\<close>

lemma tk_cong: "r = r' \<Longrightarrow> t_state r = t_state r'" by simp

lemmas taskq_defs = taskq_init_def taskq_push_def taskq_pop_def task_dequeue_def

lemma push_links:
  assumes "h = qhead s q" "h \<noteq> 0" "p = t_prev (tk s h)" "t \<noteq> h" "t \<noteq> p"
  shows "t_next (tk (taskq_push q t s) x) = (if x = t then h else if x = p then t else t_next (tk s x))"
    and "t_prev (tk (taskq_push q t s) x) = (if x = h then t else if x = t then p else t_prev (tk s x))"
  using assms by (auto simp: taskq_push_def Let_def)

lemma push_owner [simp]:
  "t_owner (tk (taskq_push q t s) x) = (if x = t then Some q else t_owner (tk s x))"
  by (simp add: taskq_push_def Let_def)

lemma push_qhead [simp]:
  "qhead (taskq_push q t s) = (if qhead s q = 0 then (qhead s)(q := t) else qhead s)"
  by (simp add: taskq_push_def Let_def)

lemma push_fields [simp]:
  "t_state (tk (taskq_push q t s) x) = t_state (tk s x)" "t_pri (tk (taskq_push q t s) x) = t_pri (tk s x)"
  "t_due (tk (taskq_push q t s) x) = t_due (tk s x)" "t_kstkbse (tk (taskq_push q t s) x) = t_kstkbse (tk s x)"
  "t_stack (tk (taskq_push q t s) x) = t_stack (tk s x)" "t_process (tk (taskq_push q t s) x) = t_process (tk s x)"
  by (simp_all add: taskq_push_def Let_def)

lemma dequeue_owner [simp]:
  "t_owner (tk (task_dequeue t s) x) = (if x = t then None else t_owner (tk s x))"
  by (simp add: task_dequeue_def Let_def split: option.splits)

lemma dequeue_fields [simp]:
  "t_state (tk (task_dequeue t s) x) = t_state (tk s x)" "t_pri (tk (task_dequeue t s) x) = t_pri (tk s x)"
  "t_due (tk (task_dequeue t s) x) = t_due (tk s x)" "t_kstkbse (tk (task_dequeue t s) x) = t_kstkbse (tk s x)"
  "t_stack (tk (task_dequeue t s) x) = t_stack (tk s x)" "t_process (tk (task_dequeue t s) x) = t_process (tk s x)"
  by (simp_all add: task_dequeue_def Let_def split: option.splits)

lemma pop_owner [simp]:
  "t_owner (tk (snd (taskq_pop q s)) x) =
     (if qhead s q \<noteq> 0 \<and> x = qhead s q then None else t_owner (tk s x))"
  by (simp add: taskq_pop_def Let_def)

lemma pop_fields [simp]:
  "t_state (tk (snd (taskq_pop q s)) x) = t_state (tk s x)" "t_pri (tk (snd (taskq_pop q s)) x) = t_pri (tk s x)"
  "t_due (tk (snd (taskq_pop q s)) x) = t_due (tk s x)"
  "t_kstkbse (tk (snd (taskq_pop q s)) x) = t_kstkbse (tk s x)"
  "t_stack (tk (snd (taskq_pop q s)) x) = t_stack (tk s x)"
  "t_process (tk (snd (taskq_pop q s)) x) = t_process (tk s x)"
  by (simp_all add: taskq_pop_def Let_def)

text \<open>Facts of a store whose queues hold the lists \<open>Q\<close>.\<close>

lemma queuesD:
  assumes "queues Q s"
  shows "cyc (tk s) (Q q)" "qhead s q = (if Q q = [] then 0 else hd (Q q))" "distinct (Q q)" "0 \<notin> set (Q q)"
    "t \<noteq> 0 \<Longrightarrow> t_owner (tk s t) = Some q \<longleftrightarrow> t \<in> set (Q q)"
  using assms by (auto simp: queues_def circ_def)

lemma queues_disjoint: "queues Q s \<Longrightarrow> x \<in> set (Q q) \<Longrightarrow> x \<in> set (Q r) \<Longrightarrow> q = r"
  using queuesD(4,5) by (metis option.inject)

lemma qhead_mem: "queues Q s \<Longrightarrow> Q q \<noteq> [] \<Longrightarrow> qhead s q \<in> set (Q q)"
  using queuesD(2) hd_in_set by metis

lemma queuesI:
  assumes "\<And>q. cyc (tk s) (Q q)" "\<And>q. qhead s q = (if Q q = [] then 0 else hd (Q q))"
    "\<And>q. distinct (Q q)" "\<And>q. 0 \<notin> set (Q q)"
    "\<And>t q. t \<noteq> 0 \<Longrightarrow> t_owner (tk s t) = Some q \<longleftrightarrow> t \<in> set (Q q)"
  shows "queues Q s"
  using assms by (auto simp: queues_def circ_def)

lemma push_cyc_other:
  assumes "queues Q s" "t \<noteq> 0" "\<And>q. t \<notin> set (Q q)" "r \<noteq> q"
  shows "cyc (tk (taskq_push q t s)) (Q r) = cyc (tk s) (Q r)"
proof (rule cyc_frame)
  fix x assume x: "x \<in> set (Q r)"
  with assms(3) have "x \<noteq> t" by auto
  moreover have "x \<notin> set (Q q)" using queues_disjoint [OF assms(1) x] assms(4) by auto
  ultimately show "t_next (tk (taskq_push q t s) x) = t_next (tk s x)
      \<and> t_prev (tk (taskq_push q t s) x) = t_prev (tk s x)"
  proof (cases "Q q" rule: rev_cases)
    case (snoc xs p)
    have h: "qhead s q = hd (Q q)" "qhead s q \<in> set (Q q)"
      using queuesD(2) [OF assms(1)] qhead_mem [OF assms(1), of q] snoc by simp_all
    moreover have p: "t_prev (tk s (qhead s q)) = p" using cyc_last(2) [of "tk s" xs p] queuesD(1) [OF assms(1), of q] snoc h by simp
    moreover have "p \<in> set (Q q)" "qhead s q \<noteq> 0"
      using snoc h(2) queuesD(4) [OF assms(1)] by (simp, metis)
    moreover have "t \<noteq> p" "t \<noteq> qhead s q" "x \<noteq> p" "x \<noteq> qhead s q"
      using calculation assms(3) \<open>x \<notin> set (Q q)\<close> by metis+
    ultimately show ?thesis
      using push_links [of "qhead s q" s q p t x] \<open>x \<noteq> t\<close> by simp
  qed (use queuesD(2) [OF assms(1), of q] in \<open>auto simp: taskq_push_def Let_def\<close>)
qed

lemma push_queues:
  assumes "queues Q s" "t \<noteq> 0" "\<And>q. t \<notin> set (Q q)"
  shows "queues (Q(q := Q q @ [t])) (taskq_push q t s)"
proof (rule queuesI)
  note D = queuesD [OF assms(1)]
  show "cyc (tk (taskq_push q t s)) ((Q(q := Q q @ [t])) r)" for r
  proof (cases "r = q")
    case True
    show ?thesis
    proof (cases "Q q" rule: rev_cases)
      case Nil
      then show ?thesis using True D(2) [of q] by (simp add: cyc_def taskq_push_def Let_def)
    next
      case (snoc xs p)
      have c: "cyc (tk s) (xs @ [p])" "distinct (xs @ [p])" "t \<notin> set (xs @ [p])"
        using D(1,3) [of q] assms(3) [of q] snoc by auto
      have h: "qhead s q = hd (xs @ [p])" "qhead s q \<in> set (Q q)"
        using D(2) [of q] qhead_mem [OF assms(1), of q] snoc by simp_all
      have p: "t_prev (tk s (qhead s q)) = p" using cyc_last(2) [OF c(1)] h by simp
      have n: "qhead s q \<noteq> 0" "t \<noteq> qhead s q" "t \<noteq> p"
        using h(2) D(4) assms(3) c(3) by (metis, metis, auto)
      have "cyc (tk (taskq_push q t s)) (xs @ [p, t])"
        by (rule cyc_push [OF c h(1)]) (auto simp: push_links [OF refl n(1) p [symmetric] n(2,3)])
      then show ?thesis using True snoc by simp
    qed
  qed (use push_cyc_other [OF assms] D(1) in simp)
  show "qhead (taskq_push q t s) r = (if (Q(q := Q q @ [t])) r = [] then 0 else hd ((Q(q := Q q @ [t])) r))" for r
    using D(2) [of r] D(2) [of q] D(4) [of q] by (cases "Q q") auto
  show "distinct ((Q(q := Q q @ [t])) r)" "0 \<notin> set ((Q(q := Q q @ [t])) r)" for r
    using D(3,4) [of r] assms(2,3) by auto
  show "t_owner (tk (taskq_push q t s) x) = Some r \<longleftrightarrow> x \<in> set ((Q(q := Q q @ [t])) r)" if "x \<noteq> 0" for x r
    using D(5) [OF that] assms(3) by auto
qed

text \<open>Taking a task off a queue: the general case, where it need not be the first.\<close>

lemma remove1_split: "x \<in> set xs \<Longrightarrow> distinct xs \<Longrightarrow> \<exists>ys zs. xs = ys @ x # zs \<and> remove1 x xs = ys @ zs \<and> x \<notin> set ys \<and> x \<notin> set zs"
  by (metis distinct_append distinct.simps(2) remove1_append remove1.simps(2) split_list_first)

lemma dequeue_links:
  assumes "t_owner (tk s t) = Some q" "t_next (tk s t) = n" "t_prev (tk s t) = p" "n \<noteq> t" "p \<noteq> t"
  shows "t_next (tk (task_dequeue t s) x) = (if x = t then 0 else if x = p then n else t_next (tk s x))"
    and "t_prev (tk (task_dequeue t s) x) = (if x = t then 0 else if x = n then p else t_prev (tk s x))"
    and "qhead (task_dequeue t s) = (if qhead s q = t then (qhead s)(q := n) else qhead s)"
  using assms by (auto simp: task_dequeue_def Let_def)

lemma cyc_nbrs:
  assumes "cyc m (ys @ t # zs)" "t \<notin> set ys" "t \<notin> set zs" "w = zs @ ys" "w \<noteq> []"
  shows "t_next (m t) = hd w" "t_prev (m t) = last w"
proof -
  from assms have c: "cyc m (t # w)" using cyc_rotate [of m ys "t # zs"] by simp
  obtain n v where w: "w = n # v" using assms(5) by (cases w) auto
  obtain u p where u: "w = u @ [p]" using assms(5) by (metis append_butlast_last_id)
  show "t_next (m t) = hd w" using c w by (simp add: cyc_def)
  have "lnk m ((t # u) @ p # [t])" using c u by (simp add: cyc_def)
  then have "lnk m [p, t]" using lnk_append by blast
  then show "t_prev (m t) = last w" using u by simp
qed

lemma dequeue_queues:
  assumes Q: "queues Q s" and t: "t \<in> set (Q q)"
  shows "queues (Q(q := remove1 t (Q q))) (task_dequeue t s)"
proof -
  note D = queuesD [OF Q]
  have t0: "t \<noteq> 0" using D(4) [of q] t by metis
  have ow: "t_owner (tk s t) = Some q" using D(5) [OF t0] t by simp
  obtain ys zs where sp: "Q q = ys @ t # zs" "remove1 t (Q q) = ys @ zs" "t \<notin> set ys" "t \<notin> set zs"
    using remove1_split [OF t D(3)] by auto
  have c: "cyc (tk s) (ys @ t # zs)" "distinct (ys @ t # zs)" using D(1,3) [of q] sp by auto
  define w where "w = zs @ ys"
  have own: "t_owner (tk (task_dequeue t s) x) = Some r \<longleftrightarrow> x \<in> set ((Q(q := remove1 t (Q q))) r)" if "x \<noteq> 0" for x r
    using D(5) [OF that] D(3) [of q] queues_disjoint [OF Q t, of r] by auto
  have dis: "distinct ((Q(q := remove1 t (Q q))) r)" "0 \<notin> set ((Q(q := remove1 t (Q q))) r)" for r
    using D(3,4) [of r] by (auto dest: notin_set_remove1)
  show ?thesis
  proof (cases "w = []")
    case True
    then have q1: "Q q = [t]" using sp w_def by simp
    have nt: "t_next (tk s t) = t" using c(1) True w_def by (simp add: cyc_def)
    have other: "x \<noteq> t \<Longrightarrow> tk (task_dequeue t s) x = tk s x" for x
      using ow nt by (simp add: task_dequeue_def Let_def)
    show ?thesis
    proof (rule queuesI [OF _ _ dis own])
      show "cyc (tk (task_dequeue t s)) ((Q(q := remove1 t (Q q))) r)" for r
      proof (cases "r = q")
        case False
        then have "t \<notin> set (Q r)" using queues_disjoint [OF Q t] by auto
        then have "cyc (tk (task_dequeue t s)) (Q r) = cyc (tk s) (Q r)"
          using other by (intro cyc_frame) metis
        with D(1) [of r] False show ?thesis by simp
      qed (use q1 in \<open>simp add: cyc_def\<close>)
      show "qhead (task_dequeue t s) r = (if (Q(q := remove1 t (Q q))) r = [] then 0 else hd ((Q(q := remove1 t (Q q))) r))" for r
        using D(2) [of r] q1 ow nt by (simp add: task_dequeue_def Let_def)
    qed
  next
    case False
    let ?n = "hd w" and ?p = "last w"
    note nb = cyc_nbrs [OF c(1) sp(3,4) w_def False]
    have mem: "?n \<in> set w" "?p \<in> set w" using False by auto
    then have ne: "?n \<noteq> t" "?p \<noteq> t" using sp w_def by auto
    note L = dequeue_links [OF ow nb ne]
    obtain v where w: "w = ?n # v" using False by (metis list.collapse)
    have c1: "cyc (tk s) (t # ?n # v)"
      using cyc_rotate [of "tk s" ys "t # zs"] c(1) w_def w by simp
    have d1: "distinct (t # ?n # v)" using c(2) w_def w [symmetric] by auto
    have p1: "?p = last (?n # v)" using w by simp
    have "cyc (tk (task_dequeue t s)) (?n # v)"
      by (rule cyc_remove [OF c1 d1 p1]) (simp_all only: L)
    then have "cyc (tk (task_dequeue t s)) w" using w by simp
    then have cq: "cyc (tk (task_dequeue t s)) (ys @ zs)" using cyc_rotate w_def by metis
    show ?thesis
    proof (rule queuesI [OF _ _ dis own])
      show "cyc (tk (task_dequeue t s)) ((Q(q := remove1 t (Q q))) r)" for r
      proof (cases "r = q")
        case False
        have "cyc (tk (task_dequeue t s)) (Q r) = cyc (tk s) (Q r)"
        proof (rule cyc_frame)
          fix x assume "x \<in> set (Q r)"
          then have "x \<notin> set (Q q)" using queues_disjoint [OF Q] False by blast
          then have "x \<noteq> t" "x \<noteq> ?n" "x \<noteq> ?p" using sp mem w_def by auto
          then show "t_next (tk (task_dequeue t s) x) = t_next (tk s x)
              \<and> t_prev (tk (task_dequeue t s) x) = t_prev (tk s x)" using L by simp
        qed
        with D(1) [of r] False show ?thesis by simp
      qed (use cq sp in simp)
      show "qhead (task_dequeue t s) r = (if (Q(q := remove1 t (Q q))) r = [] then 0 else hd ((Q(q := remove1 t (Q q))) r))" for r
        using D(2) [of r] D(2) [of q] L(3) sp False w_def by (cases ys) (auto split: if_splits)
    qed
  qed
qed

lemma pop_eq:
  assumes "queues Q s" "Q q = t # ts"
  shows "taskq_pop q s = (t, task_dequeue t s)"
proof -
  note D = queuesD [OF assms(1)]
  have h: "qhead s q = t" "t \<noteq> 0" using D(2) [of q] D(4) [of q] assms(2) by auto
  have ow: "t_owner (tk s t) = Some q" using D(5) [OF h(2)] assms(2) by simp
  have "t_next (tk s t) \<noteq> t \<Longrightarrow> t_next (tk s t) \<noteq> t \<and> t_prev (tk s t) \<noteq> t"
  proof -
    assume a: "t_next (tk s t) \<noteq> t"
    have c: "cyc (tk s) ([] @ t # ts)" "distinct (t # ts)" using D(1,3) [of q] assms(2) by simp_all
    have "ts \<noteq> []" using c(1) a by (auto simp: cyc_def)
    with cyc_nbrs [OF c(1), of ts] c(2) show ?thesis by (auto dest: last_in_set)
  qed
  with h ow show ?thesis
    by (auto simp: taskq_pop_def task_dequeue_def Let_def tset_def qset_def fun_eq_iff)
qed

lemma pop_queues:
  assumes "queues Q s"
  shows "case Q q of [] \<Rightarrow> taskq_pop q s = (0, s)
    | t # ts \<Rightarrow> fst (taskq_pop q s) = t \<and> queues (Q(q := ts)) (snd (taskq_pop q s))"
proof (cases "Q q")
  case Nil
  with queuesD(2) [OF assms, of q] show ?thesis by (simp add: taskq_pop_def)
next
  case (Cons t ts)
  have "queues (Q(q := remove1 t (Q q))) (task_dequeue t s)"
    using Cons by (intro dequeue_queues [OF assms]) simp
  then show ?thesis using pop_eq [OF assms Cons] Cons by simp
qed

text \<open>Dequeuing a task that is on no queue leaves the queues alone.\<close>

lemma dequeue_queues_none:
  assumes "queues Q s" "\<And>q. t \<notin> set (Q q)" "t \<noteq> 0"
  shows "queues Q (task_dequeue t s)"
proof -
  note D = queuesD [OF assms(1)]
  have ow: "t_owner (tk s t) = None" using D(5) [OF assms(3)] assms(2) by (cases "t_owner (tk s t)") auto
  have other: "x \<noteq> t \<Longrightarrow> tk (task_dequeue t s) x = tk s x" for x
    using ow by (simp add: task_dequeue_def)
  show ?thesis
  proof (rule queuesI [OF _ _ D(3,4)])
    show "cyc (tk (task_dequeue t s)) (Q q)" for q
      using cyc_frame [of "Q q" "tk (task_dequeue t s)" "tk s"] assms(2) other D(1) by metis
    show "qhead (task_dequeue t s) q = (if Q q = [] then 0 else hd (Q q))" for q
      using D(2) ow by (simp add: task_dequeue_def)
    show "t_owner (tk (task_dequeue t s) x) = Some q \<longleftrightarrow> x \<in> set (Q q)" if "x \<noteq> 0" for x q
      using D(5) [OF that] assms(2) by auto
  qed
qed

text \<open>A task's other fields do not matter to the queues.\<close>

lemma tset_queues:
  assumes "\<And>r. t_next (f r) = t_next r" "\<And>r. t_prev (f r) = t_prev r" "\<And>r. t_owner (f r) = t_owner r"
  shows "queues Q (tset t f s) = queues Q s"
proof -
  have "cyc (tk (tset t f s)) xs = cyc (tk s) xs" for xs
    by (rule cyc_frame) (simp add: assms)
  moreover have "t_owner (tk (tset t f s) x) = t_owner (tk s x)" for x by (simp add: assms)
  ultimately show ?thesis by (simp only: queues_def circ_def) simp
qed

section \<open>The interface the scheduler relies on\<close>

text \<open>\<open>Q\<close> with the task \<open>t\<close> taken off every queue, and then put at the end of \<open>q\<close>.\<close>

definition qdrop :: "nat \<Rightarrow> ('q \<Rightarrow> nat list) \<Rightarrow> 'q \<Rightarrow> nat list" where
  "qdrop t Q = (\<lambda>q. remove1 t (Q q))"

definition qadd :: "'q \<Rightarrow> nat \<Rightarrow> ('q \<Rightarrow> nat list) \<Rightarrow> 'q \<Rightarrow> nat list" where
  "qadd q t Q = Q(q := Q q @ [t])"

locale fifo_queues =
  fixes inv :: "('q \<Rightarrow> nat list) \<Rightarrow> 's \<Rightarrow> bool"
    and push :: "'q \<Rightarrow> nat \<Rightarrow> 's \<Rightarrow> 's" and pop :: "'q \<Rightarrow> 's \<Rightarrow> nat \<times> 's" and dequeue :: "nat \<Rightarrow> 's \<Rightarrow> 's"
  assumes inv_distinct: "inv Q s \<Longrightarrow> distinct (Q q) \<and> 0 \<notin> set (Q q)"
    and inv_disjoint: "inv Q s \<Longrightarrow> t \<in> set (Q q) \<Longrightarrow> t \<in> set (Q r) \<Longrightarrow> q = r"
    and push_inv: "inv Q s \<Longrightarrow> t \<noteq> 0 \<Longrightarrow> (\<And>q. t \<notin> set (Q q)) \<Longrightarrow> inv (Q(q := Q q @ [t])) (push q t s)"
    and pop_nil: "inv Q s \<Longrightarrow> Q q = [] \<Longrightarrow> pop q s = (0, s)"
    and pop_cons: "inv Q s \<Longrightarrow> Q q = t # ts \<Longrightarrow> \<exists>s'. pop q s = (t, s') \<and> inv (Q(q := ts)) s'"
    and deq_inv: "inv Q s \<Longrightarrow> t \<noteq> 0 \<Longrightarrow> inv (qdrop t Q) (dequeue t s)"
begin

lemma qdrop_notin: "inv Q s \<Longrightarrow> t \<notin> set (qdrop t Q q)"
  using inv_distinct [of Q s q] by (simp add: qdrop_def set_remove1_eq)

lemma move_inv: "inv Q s \<Longrightarrow> t \<noteq> 0 \<Longrightarrow> inv (qadd q t (qdrop t Q)) (push q t (dequeue t s))"
  unfolding qadd_def using qdrop_notin by (intro push_inv deq_inv) auto

text \<open>What is pushed on an empty queue is popped in the same order.\<close>

fun pops :: "nat \<Rightarrow> 'q \<Rightarrow> 's \<Rightarrow> nat list" where
  "pops 0 q s = []"
| "pops (Suc n) q s = (let (t, s') = pop q s in t # pops n q s')"

lemma pops_inv: "inv Q s \<Longrightarrow> n \<le> length (Q q) \<Longrightarrow> pops n q s = take n (Q q)"
proof (induction n arbitrary: Q s)
  case (Suc n)
  then obtain t ts where q: "Q q = t # ts" by (cases "Q q") auto
  from pop_cons [OF Suc.prems(1) q] obtain s' where "pop q s = (t, s')" "inv (Q(q := ts)) s'" by auto
  with Suc.IH [of "Q(q := ts)" s'] Suc.prems q show ?case by (simp add: fun_upd_def)
qed simp

lemma fold_push:
  "inv Q s \<Longrightarrow> distinct ts \<Longrightarrow> 0 \<notin> set ts \<Longrightarrow> (\<And>q. set ts \<inter> set (Q q) = {}) \<Longrightarrow>
   inv (Q(q := Q q @ ts)) (fold (push q) ts s)"
proof (induction ts arbitrary: Q s)
  case (Cons t ts)
  then have "inv (Q(q := Q q @ [t])) (push q t s)" by (intro push_inv) auto
  moreover have "set ts \<inter> set ((Q(q := Q q @ [t])) r) = {}" for r
    using Cons.prems(2) Cons.prems(4) [of r] by auto
  ultimately have "inv ((Q(q := Q q @ [t]))(q := (Q(q := Q q @ [t])) q @ ts)) (fold (push q) ts (push q t s))"
    using Cons.prems by (intro Cons.IH) (simp_all add: fun_upd_def)
  moreover have "(Q(q := Q q @ [t]))(q := (Q(q := Q q @ [t])) q @ ts) = Q(q := Q q @ t # ts)" by simp
  ultimately show ?case by (metis fold_simps(2))
qed simp

lemma fifo:
  assumes "inv Q s" "Q q = []" "distinct ts" "0 \<notin> set ts" "\<And>q. set ts \<inter> set (Q q) = {}"
  shows "pops (length ts) q (fold (push q) ts s) = ts"
  using pops_inv [OF fold_push [OF assms(1,3,4,5)], of "length ts" q] assms(2) by simp

end

lemma qdrop_mem: "queues Q s \<Longrightarrow> t \<in> set (Q q) \<Longrightarrow> qdrop t Q = Q(q := remove1 t (Q q))"
  using queues_disjoint by (fastforce simp: qdrop_def fun_eq_iff intro!: remove1_idem)

lemma qdrop_none: "(\<And>q. t \<notin> set (Q q)) \<Longrightarrow> qdrop t Q = Q"
  by (simp add: qdrop_def fun_eq_iff remove1_idem)

lemma dequeue_qdrop: "queues Q s \<Longrightarrow> t \<noteq> 0 \<Longrightarrow> queues (qdrop t Q) (task_dequeue t s)"
  using dequeue_queues dequeue_queues_none qdrop_mem qdrop_none by metis

interpretation tq: fifo_queues queues taskq_push taskq_pop task_dequeue
proof
  fix Q :: "taskq \<Rightarrow> nat list" and s :: "'a tstore_scheme" and q t ts
  assume Q: "queues Q s"
  show "distinct (Q q) \<and> 0 \<notin> set (Q q)" using queuesD [OF Q] by blast
  show "t \<in> set (Q q) \<Longrightarrow> t \<in> set (Q r) \<Longrightarrow> q = r" for r using queues_disjoint [OF Q] .
  show "t \<noteq> 0 \<Longrightarrow> (\<And>q. t \<notin> set (Q q)) \<Longrightarrow> queues (Q(q := Q q @ [t])) (taskq_push q t s)"
    using push_queues [OF Q] .
  show "Q q = [] \<Longrightarrow> taskq_pop q s = (0, s)" using pop_queues [OF Q, of q] by simp
  show "\<exists>s'. taskq_pop q s = (t, s') \<and> queues (Q(q := ts)) s'" if "Q q = t # ts"
    using pop_queues [OF Q, of q] that by (cases "taskq_pop q s") simp
  show "t \<noteq> 0 \<Longrightarrow> queues (qdrop t Q) (task_dequeue t s)" using dequeue_qdrop [OF Q] .
qed

section \<open>Properties\<close>

text \<open>Property C13. The pointer operations of the task queues implement lists: \<open>taskq_push\<close> appends to
  the queue, \<open>taskq_pop\<close> removes and returns its first task (NULL when there is none), and
  \<open>task_dequeue\<close> takes a task off whichever queue it is on; no other queue changes.\<close>

theorem taskq_implements_lists:
  assumes "queues Q s" "t \<noteq> 0"
  shows "((\<forall>r. t \<notin> set (Q r)) \<longrightarrow> queues (Q(q := Q q @ [t])) (taskq_push q t s))
    \<and> (case Q q of [] \<Rightarrow> taskq_pop q s = (0, s)
       | x # xs \<Rightarrow> fst (taskq_pop q s) = x \<and> queues (Q(q := xs)) (snd (taskq_pop q s)))
    \<and> queues (\<lambda>r. remove1 t (Q r)) (task_dequeue t s)"
  using tq.push_inv [OF assms] pop_queues [OF assms(1)] tq.deq_inv [OF assms] by (auto simp: qdrop_def)

text \<open>Remark. The queues are first in, first out: tasks pushed one after the other on an empty
  queue are popped in the same order.\<close>

theorem taskq_fifo:
  assumes "queues Q s" "Q q = []" "distinct ts" "0 \<notin> set ts" "\<And>r. set ts \<inter> set (Q r) = {}"
  shows "tq.pops (length ts) q (fold (taskq_push q) ts s) = ts"
  by (rule tq.fifo [OF assms])

section \<open>Witnesses\<close>

definition w_task :: task where
  "w_task = \<lparr>t_next = 0, t_prev = 0, t_owner = None, t_process = 0, t_stack = (0, 0), t_kstkbse = (0, 0),
             t_kstksz = 0, t_state = TS_FREE, t_pri = 17, t_due = 0\<rparr>"

definition w_tstore :: tstore where
  "w_tstore = \<lparr>tk = (\<lambda>_. w_task), qhead = (\<lambda>_. 0)\<rparr>"

lemma w_queues: "queues (\<lambda>_. []) w_tstore"
  by (auto simp: queues_def circ_def cyc_def w_tstore_def w_task_def)

theorem taskq_implements_lists_witness:
  "queues (\<lambda>q. if q = TQ 17 then [3] else []) (taskq_push (TQ 17) 3 w_tstore)
   \<and> taskq_pop (TQ 17) w_tstore = (0, w_tstore)"
proof -
  have "(\<lambda>q. if q = TQ 17 then [3] else []) = (\<lambda>_. [])(TQ 17 := [3 :: nat])" by auto
  with taskq_implements_lists [OF w_queues, of 3 "TQ 17"] show ?thesis by simp
qed

theorem taskq_fifo_witness:
  "tq.pops (length [5, 2, 9 :: nat]) Sleeping (fold (taskq_push Sleeping) [5, 2, 9] w_tstore) = [5, 2, 9]"
  by (rule taskq_fifo [OF w_queues]) auto

end
