(* ===== verification/Sched.thy ===== *)
theory Sched
  imports Taskq Memory
begin

text \<open>
  \<open>kernel/sched/TASK.C\<close>, \<open>semap.c\<close>, \<open>event.c\<close> and the context switch of \<open>tasksw.asm\<close>: task slots,
  blocking and unblocking, sleeping, the timer tick, and semaphores. Interrupts are off inside an
  operation, so each operation is one step on the state. An operation that blocks ends with the
  switch to the next task; what the C function does after it is resumed is a definition of its own.
  The registers and the stack pointer of the running context are the argument \<open>ctx\<close> of the
  operations that save it.
\<close>

section \<open>State\<close>

definition MAX_TASK :: nat where "MAX_TASK = 32"
definition MAX_STACK :: u16 where "MAX_STACK = 2048"
definition TASK_PRI_NORM :: nat where "TASK_PRI_NORM = 17"
definition TASK_PRI_IDLE :: nat where "TASK_PRI_IDLE = 19"
definition TASK_NPRI :: nat where "TASK_NPRI = 20"
definition FL_INTR_ENABLED :: u16 where "FL_INTR_ENABLED = 0x200"
definition SEMA_SIG :: u16 where "SEMA_SIG = 0x4153"

lemmas sched_consts = MAX_TASK_def MAX_STACK_def TASK_PRI_NORM_def TASK_PRI_IDLE_def TASK_NPRI_def
  FL_INTR_ENABLED_def SEMA_SIG_def

text \<open>The registers as they are on the stack of a task that does not run.\<close>

record taskreg =
  r_es :: u16  r_ds :: u16  r_di :: u16  r_si :: u16  r_bp :: u16  r_sp :: u16  r_bx :: u16
  r_dx :: u16  r_cx :: u16  r_ax :: u16  r_ip :: u16  r_cs :: u16  r_fl :: u16

definition reg0 :: taskreg where
  "reg0 = \<lparr>r_es = 0, r_ds = 0, r_di = 0, r_si = 0, r_bp = 0, r_sp = 0, r_bx = 0, r_dx = 0, r_cx = 0,
           r_ax = 0, r_ip = 0, r_cs = 0, r_fl = 0\<rparr>"

record semaph =
  sm_sig :: u16
  sm_count :: int
  sm_last_owner :: taskp

text \<open>\<open>frames\<close> are the register frames on the stacks, \<open>stkw\<close> the other words there.\<close>

record sched = tstore +
  curtask :: taskp
  tsk_freel :: taskp
  tickcnt :: u32
  tasklock :: u16
  iflag :: bool
  frames :: "farptr \<Rightarrow> taskreg"
  stkw :: "farptr \<Rightarrow> u16"
  semas :: "nat \<Rightarrow> semaph"
  smem :: kmem

type_synonym ctx = "farptr \<times> taskreg"

definition ENQUEUE :: "taskp \<Rightarrow> sched \<Rightarrow> sched" where
  "ENQUEUE t s = taskq_push (TQ (t_pri (tk s t))) t s"

definition set_state :: "taskp \<Rightarrow> tstate \<Rightarrow> sched \<Rightarrow> sched" where
  "set_state t st s = tset t (\<lambda>r. r\<lparr>t_state := st\<rparr>) s"

section \<open>Choosing and switching tasks\<close>

definition task_runnable :: "sched \<Rightarrow> taskp res" where
  "task_runnable s =
     (case find (\<lambda>i. qhead s (TQ i) \<noteq> 0) [0..<TASK_NPRI] of
        Some i \<Rightarrow> Ok (qhead s (TQ i))
      | None \<Rightarrow> Panic)"

text \<open>\<open>swtosi\<close>: run the task; its saved flags restore the interrupt flag.\<close>

definition swtosi :: "taskp \<Rightarrow> sched \<Rightarrow> sched" where
  "swtosi t s =
     (let s1 = set_state t TS_RUN s
      in s1\<lparr>curtask := t, iflag := (r_fl (frames s1 (t_stack (tk s1 t))) AND FL_INTR_ENABLED \<noteq> 0)\<rparr>)"

definition save_ctx :: "ctx \<Rightarrow> sched \<Rightarrow> sched" where
  "save_ctx c s = (tset (curtask s) (\<lambda>r. r\<lparr>t_stack := fst c\<rparr>) s)\<lparr>frames := (frames s)(fst c := snd c)\<rparr>"

definition task_yield_to :: "ctx \<Rightarrow> taskp \<Rightarrow> sched \<Rightarrow> sched" where
  "task_yield_to c t s = swtosi t (save_ctx (fst c, (snd c)\<lparr>r_fl := 0x200\<rparr>) s)"

text \<open>\<open>task_yield_to(task_runnable())\<close>\<close>

definition yield_runnable :: "ctx \<Rightarrow> sched \<Rightarrow> sched res" where
  "yield_runnable c s = bind_res (task_runnable s) (\<lambda>t. Ok (task_yield_to c t s))"

text \<open>The switch at the end of an interrupt: the current task goes to the back of its bucket.\<close>

definition iswitch :: "ctx \<Rightarrow> sched \<Rightarrow> sched res" where
  "iswitch c s =
     (let s1 = save_ctx c s;
          s2 = set_state (curtask s1) TS_READY s1;
          s3 = qset (TQ (t_pri (tk s2 (curtask s2)))) (t_next (tk s2 (curtask s2))) s2
      in bind_res (task_runnable s3) (\<lambda>t. Ok (swtosi t s3)))"

section \<open>Blocking\<close>

definition task_block :: "ctx \<Rightarrow> taskq \<Rightarrow> sched \<Rightarrow> sched res" where
  "task_block c q s =
     (let s0 = s\<lparr>iflag := False\<rparr>;
          s1 = task_dequeue (curtask s0) s0;
          s2 = set_state (curtask s1) TS_BLOCKED s1;
          s3 = taskq_push q (curtask s2) s2
      in yield_runnable c s3)"

definition task_unblock :: "taskp \<Rightarrow> sched \<Rightarrow> sched" where
  "task_unblock t s =
     (if t = 0 then s
      else (let sti = iflag s;
                s0 = s\<lparr>iflag := False\<rparr>;
                s1 = (if t_state (tk s0 t) = TS_BLOCKED
                      then ENQUEUE t (set_state t TS_READY (task_dequeue t s0)) else s0)
            in if sti then s1\<lparr>iflag := True\<rparr> else s1))"

section \<open>Sleeping\<close>

text \<open>The search of \<open>task_sleep\<close>. The loop does not advance \<open>p\<close>, so it ends at its first test.\<close>

partial_function (option) sleep_find :: "(taskp \<Rightarrow> task) \<Rightarrow> taskp \<Rightarrow> u32 \<Rightarrow> taskp \<Rightarrow> taskp option" where
  "sleep_find m head due p =
     (if due < t_due (m p) then Some p
      else if p \<noteq> head then sleep_find m head due p
      else Some p)"

definition task_sleep :: "ctx \<Rightarrow> u32 \<Rightarrow> sched \<Rightarrow> sched res" where
  "task_sleep c ticks0 s =
     (let ticks = (if ticks0 = 0 then 1 else ticks0);
          s0 = s\<lparr>iflag := False\<rparr>;
          cur = curtask s0;
          s1 = tset cur (\<lambda>r. r\<lparr>t_due := tickcnt s0 + ticks\<rparr>) s0;
          s2 = set_state cur TS_BLOCKED s1;
          s3 = task_dequeue cur s2
      in bind_res
           (if qhead s3 Sleeping = 0 then Ok (taskq_push Sleeping cur s3)
            else bind_res (of_loop (sleep_find (tk s3) (qhead s3 Sleeping) (t_due (tk s3 cur)) (qhead s3 Sleeping)))
              (\<lambda>p. let s4 = tset cur (\<lambda>r. r\<lparr>t_owner := Some Sleeping\<rparr>) s3;
                       s5 = tset cur (\<lambda>r. r\<lparr>t_prev := t_prev (tk s4 p)\<rparr>) s4;
                       s6 = tset cur (\<lambda>r. r\<lparr>t_next := p\<rparr>) s5;
                       s7 = tset (t_prev (tk s6 p)) (\<lambda>r. r\<lparr>t_next := cur\<rparr>) s6;
                       s8 = tset p (\<lambda>r. r\<lparr>t_prev := cur\<rparr>) s7
                   in Ok (if qhead s8 Sleeping = p \<and> t_due (tk s8 cur) < t_due (tk s8 p)
                          then qset Sleeping cur s8 else s8)))
         (yield_runnable c))"

definition TASK_MS_TO_TICKS :: "u32 \<Rightarrow> u32" where
  "TASK_MS_TO_TICKS ms = (ms + 55 - 1) div 55"

definition sys_sleep :: "ctx \<Rightarrow> u32 \<Rightarrow> sched \<Rightarrow> sched res" where
  "sys_sleep c ms s = task_sleep c (TASK_MS_TO_TICKS ms) s"

partial_function (option) task_wake :: "sched \<Rightarrow> sched option" where
  "task_wake s =
     (if qhead s Sleeping \<noteq> 0 \<and> t_due (tk s (qhead s Sleeping)) = tickcnt s
      then (let p = qhead s Sleeping;
                s1 = task_dequeue p s;
                s2 = set_state p TS_READY s1
            in task_wake (ENQUEUE p s2))
      else Some s)"

text \<open>The timer interrupt: count, wake, and switch unless the lock is held.\<close>

definition timer_handler :: "ctx \<Rightarrow> sched \<Rightarrow> sched res" where
  "timer_handler c s =
     bind_res (of_loop (task_wake (s\<lparr>iflag := False, tickcnt := tickcnt s + 1\<rparr>)))
       (\<lambda>s1. if tasklock s1 \<noteq> 0 then Ok (s1\<lparr>iflag := True\<rparr>) else iswitch c s1)"

section \<open>Task slots\<close>

definition task_alloc :: "sched \<Rightarrow> taskp \<times> sched" where
  "task_alloc s =
     (let s0 = s\<lparr>iflag := False\<rparr>;
          (p, s1) = (if tsk_freel s0 \<noteq> 0
                     then (tsk_freel s0, s0\<lparr>tsk_freel := t_next (tk s0 (tsk_freel s0))\<rparr>)
                     else (0, s0))
      in (p, s1\<lparr>iflag := True\<rparr>))"

definition task_free :: "taskp \<Rightarrow> sched \<Rightarrow> sched" where
  "task_free t s =
     (let s0 = s\<lparr>iflag := False\<rparr>;
          s1 = set_state t TS_FREE s0;
          s2 = tset t (\<lambda>r. r\<lparr>t_next := tsk_freel s1\<rparr>) s1;
          s3 = tset t (\<lambda>r. r\<lparr>t_prev := 0\<rparr>) s2
      in s3\<lparr>tsk_freel := t, iflag := True\<rparr>)"

text \<open>\<open>heap\<close> is the near heap, \<open>ds\<close> the data segment. Returns the top of the new stack.\<close>

definition task_stack_alloc :: "u16 \<Rightarrow> u16 \<Rightarrow> taskp \<Rightarrow> u16 \<Rightarrow> sched \<Rightarrow> (farptr \<times> sched) res" where
  "task_stack_alloc heap ds t bytes0 s =
     (let bytes1 = (if MAX_STACK < bytes0 then MAX_STACK else bytes0);
          bytes = (bytes1 + 16 - 1) AND NOT (16 - 1)
      in bind_res (near_malloc heap bytes (smem s)) (\<lambda>(p, m).
         let s1 = s\<lparr>smem := m\<rparr>
         in if p = 0 then Ok (far_null, s1)
            else (let s2 = tset t (\<lambda>r. r\<lparr>t_kstkbse := (ds, p)\<rparr>) s1;
                      s3 = tset t (\<lambda>r. r\<lparr>t_kstksz := bytes\<rparr>) s2
                  in Ok ((ds, p + bytes), s3))))"

definition task0 :: task where
  "task0 = \<lparr>t_next = 0, t_prev = 0, t_owner = None, t_process = 0, t_stack = (0, 0), t_kstkbse = (0, 0),
            t_kstksz = 0, t_state = TS_FREE, t_pri = 0, t_due = 0\<rparr>"

definition task_reserve :: "u16 \<Rightarrow> u16 \<Rightarrow> u16 \<Rightarrow> nat \<Rightarrow> sched \<Rightarrow> (taskp \<times> sched) res" where
  "task_reserve heap ds ssize pri s =
     (let (t, s1) = task_alloc s
      in if t = 0 then Ok (0, s1)
         else bind_res (task_stack_alloc heap ds t ssize (tset t (\<lambda>_. task0) s1)) (\<lambda>(stk, s2).
              if stk = far_null then Ok (0, task_free t s2)
              else Ok (t, set_state t TS_BLOCKED (tset t (\<lambda>r. r\<lparr>t_pri := pri\<rparr>) s2))))"

text \<open>A frame lies just below the pointer: 13 words.\<close>

definition frame_below :: "farptr \<Rightarrow> farptr" where
  "frame_below p = (fst p, snd p - 26)"

definition task_start :: "u16 \<Rightarrow> u16 \<Rightarrow> farptr \<Rightarrow> u16 \<Rightarrow> nat \<Rightarrow> sched \<Rightarrow> (taskp \<times> sched) res" where
  "task_start heap ds entry ssize0 pri0 s =
     (let ssize = (if ssize0 < 2 * 26 then 2 * 26 else ssize0);
          pri = (if TASK_PRI_IDLE < pri0 then TASK_PRI_IDLE else pri0);
          (t, s1) = task_alloc s
      in bind_res (task_stack_alloc heap ds t ssize s1) (\<lambda>(reg0p, s2).
         if reg0p = far_null \<or> t = 0 then Panic
         else (let reg = frame_below reg0p;
                   s3 = tset t (\<lambda>r. r\<lparr>t_stack := reg, t_pri := pri, t_process := 0, t_state := TS_READY\<rparr>) s2;
                   s4 = s3\<lparr>frames := (frames s3)(reg := reg0\<lparr>r_fl := FL_INTR_ENABLED, r_cs := fst entry,
                              r_ip := snd entry, r_ds := ds, r_es := ds\<rparr>)\<rparr>
               in Ok (t, (ENQUEUE t (s4\<lparr>iflag := False\<rparr>))\<lparr>iflag := True\<rparr>))))"

definition task_from_proc ::
  "nat \<Rightarrow> u16 \<Rightarrow> u16 \<Rightarrow> u16 \<Rightarrow> u16 \<Rightarrow> u16 \<Rightarrow> sched \<Rightarrow> taskp \<times> sched" where
  "task_from_proc proc cs ip ss sp ax s =
     (let (t, s1) = task_alloc s
      in if t = 0 then (0, s1)
         else (let reg = frame_below (ss, sp);
                   s2 = tset t (\<lambda>r. r\<lparr>t_stack := reg, t_pri := TASK_PRI_NORM, t_kstkbse := far_null,
                                     t_kstksz := 0, t_process := proc, t_state := TS_READY\<rparr>) s1;
                   s3 = s2\<lparr>frames := (frames s2)(reg := reg0\<lparr>r_fl := 0x200, r_cs := cs, r_ip := ip, r_ax := ax\<rparr>)\<rparr>
               in (t, (ENQUEUE t (s3\<lparr>iflag := False\<rparr>))\<lparr>iflag := True\<rparr>)))"

text \<open>The arguments are copied below the top of the stack in the order of the list; only the first
  four bytes of the frame (\<open>es\<close> and \<open>ds\<close>) are cleared, the other registers keep what was there.\<close>

fun push_args :: "u16 list \<Rightarrow> farptr \<Rightarrow> (farptr \<Rightarrow> u16) \<Rightarrow> farptr \<times> (farptr \<Rightarrow> u16)" where
  "push_args [] p m = (p, m)"
| "push_args (w # ws) p m = (let q = (fst p, snd p - 2) in push_args ws q (m(q := w)))"

definition task_sch_async :: "farptr \<Rightarrow> u16 \<Rightarrow> taskp \<Rightarrow> u16 \<Rightarrow> u16 list \<Rightarrow> sched \<Rightarrow> sched res" where
  "task_sch_async stub ds t tn argv s =
     (if t_kstkbse (tk s t) = far_null then Panic
      else (let (p, m) = push_args (argv @ [tn])
                  (fst (t_kstkbse (tk s t)), snd (t_kstkbse (tk s t)) + t_kstksz (tk s t)) (stkw s);
                reg = frame_below p;
                s1 = s\<lparr>stkw := m\<rparr>;
                fr = (frames s1 reg)\<lparr>r_es := ds, r_ds := ds, r_fl := 0x200, r_cs := fst stub, r_ip := snd stub\<rparr>;
                s2 = s1\<lparr>frames := (frames s1)(reg := fr)\<rparr>;
                s3 = tset t (\<lambda>r. r\<lparr>t_stack := reg, t_state := TS_READY\<rparr>) s2;
                sti = iflag s3;
                s4 = ENQUEUE t (s3\<lparr>iflag := False\<rparr>)
            in Ok (if sti then s4\<lparr>iflag := True\<rparr> else s4)))"

text \<open>\<open>task_exit\<close>: a task that is being freed gives back its slot and its stack.\<close>

definition task_exit :: "u16 \<Rightarrow> sched \<Rightarrow> sched res" where
  "task_exit heap s =
     (let s0 = s\<lparr>iflag := False\<rparr>;
          t = curtask s0;
          s1 = task_dequeue t s0
      in bind_res
           (if t_state (tk s1 t) = TS_FREEING
            then (let s2 = set_state t TS_FREE s1;
                      s3 = tset t (\<lambda>r. r\<lparr>t_next := tsk_freel s1\<rparr>) s2;
                      s4 = tset t (\<lambda>r. r\<lparr>t_prev := 0\<rparr>) s3;
                      s5 = s4\<lparr>tsk_freel := t\<rparr>
                  in if snd (t_kstkbse (tk s5 t)) = 0 then Ok s5
                     else bind_res (near_free heap (snd (t_kstkbse (tk s5 t))) (smem s5))
                            (\<lambda>m. Ok (s5\<lparr>smem := m\<rparr>)))
            else Ok (set_state t TS_BLOCKED s1))
           (\<lambda>s6. bind_res (task_runnable s6) (\<lambda>n. Ok (swtosi n s6))))"

text \<open>\<open>task_init\<close>: clear the table, link the free list, empty the buckets, and make the task of the
  caller and the idle task. \<open>idle\<close> is the entry of the idle task.\<close>

definition init_slots :: "sched \<Rightarrow> sched" where
  "init_slots s = s\<lparr>tk := (\<lambda>t. if 1 \<le> t \<and> t < MAX_TASK then task0\<lparr>t_next := t + 1, t_prev := 0\<rparr>
                              else if t = MAX_TASK then task0 else tk s t), tsk_freel := 1\<rparr>"

definition task_init :: "u16 \<Rightarrow> u16 \<Rightarrow> farptr \<Rightarrow> sched \<Rightarrow> sched res" where
  "task_init heap ds idle s =
     (let s1 = init_slots s;
          s2 = fold (\<lambda>i. taskq_init (TQ i)) [0..<TASK_NPRI] s1;
          (cur, s3) = task_alloc s2;
          s4 = tset cur (\<lambda>r. r\<lparr>t_pri := TASK_PRI_NORM\<rparr>) (s3\<lparr>curtask := cur\<rparr>);
          s5 = ENQUEUE cur s4
      in bind_res (task_start heap ds idle 128 TASK_PRI_IDLE s5) (\<lambda>(_, s6).
         Ok ((taskq_init Sleeping s6)\<lparr>tickcnt := 0, iflag := True\<rparr>)))"

section \<open>Semaphores\<close>

definition sema_set :: "nat \<Rightarrow> (semaph \<Rightarrow> semaph) \<Rightarrow> sched \<Rightarrow> sched" where
  "sema_set i f s = s\<lparr>semas := (semas s)(i := f (semas s i))\<rparr>"

definition sema_init :: "nat \<Rightarrow> int \<Rightarrow> sched \<Rightarrow> sched" where
  "sema_init i cnt s =
     taskq_init (SemaQ i) (sema_set i (\<lambda>_. \<lparr>sm_sig = SEMA_SIG, sm_count = cnt, sm_last_owner = 0\<rparr>) s)"

text \<open>The walk along the queue of \<open>sema_down\<close>: is \<open>t\<close> blocked already?\<close>

partial_function (option) sema_member :: "(taskp \<Rightarrow> task) \<Rightarrow> taskp \<Rightarrow> taskp \<Rightarrow> taskp \<Rightarrow> bool option" where
  "sema_member m head t cur =
     (if cur = t then Some True
      else if t_next (m cur) = head then Some False
      else sema_member m head t (t_next (m cur)))"

text \<open>\<open>Inl\<close>: the caller got the semaphore; \<open>Inr\<close>: it is blocked, another task runs, and
  \<open>sema_down_resume\<close> is what it does when it runs again.\<close>

definition sema_down :: "ctx \<Rightarrow> nat \<Rightarrow> sched \<Rightarrow> (sched + sched) res" where
  "sema_down c i s =
     (if sm_sig (semas s i) \<noteq> SEMA_SIG then Panic
      else (let s0 = s\<lparr>iflag := False\<rparr>
            in bind_res (if qhead s0 (SemaQ i) \<noteq> 0
                         then of_loop (sema_member (tk s0) (qhead s0 (SemaQ i)) (curtask s0) (qhead s0 (SemaQ i)))
                         else Ok False) (\<lambda>already.
               if already then Panic
               else (let s1 = sema_set i (\<lambda>r. r\<lparr>sm_count := sm_count r - 1\<rparr>) s0
                     in if sm_count (semas s1 i) < 0
                        then (let cur = curtask s1;
                                  s2 = task_dequeue cur s1;
                                  s3 = set_state cur TS_BLOCKED s2;
                                  s4 = taskq_push (SemaQ i) cur s3
                              in bind_res (yield_runnable c s4) (\<lambda>s5. Ok (Inr s5)))
                        else Ok (Inl ((sema_set i (\<lambda>r. r\<lparr>sm_last_owner := curtask s1\<rparr>) s1)\<lparr>iflag := True\<rparr>))))))"

definition sema_down_resume :: "nat \<Rightarrow> sched \<Rightarrow> sched" where
  "sema_down_resume i s = (sema_set i (\<lambda>r. r\<lparr>sm_last_owner := curtask s\<rparr>) s)\<lparr>iflag := True\<rparr>"

definition sema_up :: "nat \<Rightarrow> sched \<Rightarrow> sched res" where
  "sema_up i s =
     (if sm_sig (semas s i) \<noteq> SEMA_SIG then Panic
      else (let s1 = sema_set i (\<lambda>r. r\<lparr>sm_count := sm_count r + 1\<rparr>) (s\<lparr>iflag := False\<rparr>)
            in bind_res
                 (if sm_count (semas s1 i) \<le> 0
                  then (let (n, s2) = taskq_pop (SemaQ i) s1
                        in if n = 0 then Panic
                           else Ok (taskq_push (TQ (t_pri (tk s2 n))) n (set_state n TS_READY s2)))
                  else Ok s1)
                 (\<lambda>s3. Ok ((sema_set i (\<lambda>r. r\<lparr>sm_last_owner := 0\<rparr>) s3)\<lparr>iflag := True\<rparr>))))"

section \<open>Events\<close>

text \<open>The event functions are stubs.\<close>

definition ev_init :: "'e \<Rightarrow> 'e" where "ev_init e = e"
definition ev_wait :: "nat \<Rightarrow> 'e list \<Rightarrow> int" where "ev_wait nev evs = 0"
definition ev_signal :: "'e \<Rightarrow> 'e" where "ev_signal e = e"
definition ev_signaled :: "'e \<Rightarrow> int" where "ev_signaled e = 0"

section \<open>The abstract scheduler\<close>

text \<open>The task the scheduler picks: the first of the first bucket that is not empty.\<close>

definition abs_runnable :: "(taskq \<Rightarrow> taskp list) \<Rightarrow> taskp option" where
  "abs_runnable Q = map_option (\<lambda>i. hd (Q (TQ i))) (find (\<lambda>i. Q (TQ i) \<noteq> []) [0..<TASK_NPRI])"

text \<open>
  The invariant: the queues hold \<open>Q\<close>; a task in a bucket has the priority of the bucket and is
  ready or running; a task on any other queue is blocked; the current task is the first of its
  bucket.
\<close>

definition is_tq :: "taskq \<Rightarrow> bool" where
  "is_tq q = (case q of TQ _ \<Rightarrow> True | _ \<Rightarrow> False)"

definition q_ok :: "taskq \<Rightarrow> task \<Rightarrow> bool" where
  "q_ok q r = (case q of TQ p \<Rightarrow> t_pri r = p \<and> p < TASK_NPRI \<and> t_state r \<in> {TS_READY, TS_RUN}
               | _ \<Rightarrow> t_state r = TS_BLOCKED \<and> t_pri r < TASK_NPRI)"

definition tasks_ok :: "(taskq \<Rightarrow> taskp list) \<Rightarrow> sched \<Rightarrow> bool" where
  "tasks_ok Q s \<longleftrightarrow> queues Q s \<and> (\<forall>q. \<forall>t \<in> set (Q q). q_ok q (tk s t))"

definition cur_ok :: "(taskq \<Rightarrow> taskp list) \<Rightarrow> sched \<Rightarrow> bool" where
  "cur_ok Q s \<longleftrightarrow> (\<exists>p xs. p < TASK_NPRI \<and> Q (TQ p) = curtask s # xs)"

definition sched_ok :: "(taskq \<Rightarrow> taskp list) \<Rightarrow> sched \<Rightarrow> bool" where
  "sched_ok Q s \<longleftrightarrow> tasks_ok Q s \<and> cur_ok Q s"

section \<open>Lemmas on the steps\<close>

text \<open>The fields of the extension are untouched by the queue operations.\<close>

lemma queue_op_fields [simp]:
  "curtask (taskq_push q t s) = curtask s" "curtask (task_dequeue t s) = curtask s"
  "tickcnt (taskq_push q t s) = tickcnt s" "tickcnt (task_dequeue t s) = tickcnt s"
  "semas (taskq_push q t s) = semas s" "semas (task_dequeue t s) = semas s"
  "iflag (taskq_push q t s) = iflag s" "iflag (task_dequeue t s) = iflag s"
  "frames (taskq_push q t s) = frames s" "frames (task_dequeue t s) = frames s"
  "tasklock (taskq_push q t s) = tasklock s" "tasklock (task_dequeue t s) = tasklock s"
  by (simp_all add: taskq_push_def task_dequeue_def tset_def qset_def Let_def split: option.splits)

lemma set_state_fields [simp]:
  "curtask (tset t f s) = curtask s" "tickcnt (tset t f s) = tickcnt s" "semas (tset t f s) = semas s"
  "iflag (tset t f s) = iflag s" "tasklock (tset t f s) = tasklock s"
  "curtask (set_state t st s) = curtask s" "tickcnt (set_state t st s) = tickcnt s"
  "semas (set_state t st s) = semas s" "iflag (set_state t st s) = iflag s"
  "tasklock (set_state t st s) = tasklock s" "qhead (set_state t st s) = qhead s"
  "tk (set_state t st s) = (tk s)(t := (tk s t)\<lparr>t_state := st\<rparr>)"
  "curtask (qset q t s) = curtask s" "tickcnt (qset q t s) = tickcnt s"
  by (simp_all add: set_state_def tset_def qset_def)

text \<open>Queues only look at the store.\<close>

lemma queues_store: "tk s' = tk s \<Longrightarrow> qhead s' = qhead s \<Longrightarrow> queues Q s' = queues Q s"
  by (simp add: queues_def)

lemma queues_ext [simp]:
  "queues Q (s\<lparr>iflag := b\<rparr>) = queues Q s" "queues Q (s\<lparr>curtask := t\<rparr>) = queues Q s"
  "queues Q (s\<lparr>tickcnt := n\<rparr>) = queues Q s" "queues Q (s\<lparr>semas := f\<rparr>) = queues Q s"
  "queues Q (s\<lparr>frames := g\<rparr>) = queues Q s"
  by (simp_all add: queues_def)

lemma queues_set_state [simp]: "queues Q (set_state t st s) = queues Q s"
  unfolding set_state_def by (rule tset_queues) simp_all

lemma queues_sema_set [simp]: "queues Q (sema_set i f s) = queues Q s"
  by (simp add: sema_set_def)

lemma sema_set_fields [simp]:
  "tk (sema_set i f s) = tk s" "qhead (sema_set i f s) = qhead s" "curtask (sema_set i f s) = curtask s"
  "tickcnt (sema_set i f s) = tickcnt s" "semas (sema_set i f s) = (semas s)(i := f (semas s i))"
  "frames (sema_set i f s) = frames s" "iflag (sema_set i f s) = iflag s"
  by (simp_all add: sema_set_def)

lemma runnable_abs:
  assumes "queues Q s"
  shows "task_runnable s = (case abs_runnable Q of None \<Rightarrow> Panic | Some t \<Rightarrow> Ok t)"
proof -
  note D = queuesD [OF assms]
  have "qhead s (TQ i) \<noteq> 0 \<longleftrightarrow> Q (TQ i) \<noteq> []" for i
    using D(2) [of "TQ i"] D(4) [of "TQ i"] by (metis hd_in_set)
  then have e: "find (\<lambda>i. qhead s (TQ i) \<noteq> 0) [0..<TASK_NPRI] = find (\<lambda>i. Q (TQ i) \<noteq> []) [0..<TASK_NPRI]"
    by simp
  show ?thesis
  proof (cases "find (\<lambda>i. Q (TQ i) \<noteq> []) [0..<TASK_NPRI]")
    case None
    then show ?thesis unfolding task_runnable_def abs_runnable_def e by simp
  next
    case (Some i)
    then have "Q (TQ i) \<noteq> []" by (auto simp: find_Some_iff)
    with Some show ?thesis unfolding task_runnable_def abs_runnable_def e by (simp add: D(2) [of "TQ i"])
  qed
qed

lemma abs_runnable_Some:
  assumes "p < TASK_NPRI" "Q (TQ p) \<noteq> []"
  obtains i xs t where "i \<le> p" "Q (TQ i) = t # xs" "abs_runnable Q = Some t" "\<forall>j < i. Q (TQ j) = []"
proof -
  obtain i where i: "find (\<lambda>i. Q (TQ i) \<noteq> []) [0..<TASK_NPRI] = Some i"
    using assms by (cases "find (\<lambda>i. Q (TQ i) \<noteq> []) [0..<TASK_NPRI]") (auto simp: find_None_iff)
  then have "i < TASK_NPRI" "Q (TQ i) \<noteq> []" "\<forall>j < i. Q (TQ j) = []"
    by (auto simp: find_Some_iff)
  moreover from this have "i \<le> p" using assms(2) not_less by blast
  ultimately show ?thesis using that i by (cases "Q (TQ i)") (auto simp: abs_runnable_def)
qed

lemma q_ok_run: "q_ok q r \<Longrightarrow> is_tq q \<Longrightarrow> q_ok q (r\<lparr>t_state := TS_RUN\<rparr>)"
  by (auto simp: q_ok_def is_tq_def split: taskq.splits)

lemma q_ok_cong: "t_state a = t_state b \<Longrightarrow> t_pri a = t_pri b \<Longrightarrow> q_ok r a = q_ok r b"
  by (simp add: q_ok_def split: taskq.split)

text \<open>Switching to the task the scheduler picks gives a current task that is the first of its bucket.\<close>

lemma swtosi_ok:
  assumes "tasks_ok Q s" "abs_runnable Q = Some t"
  shows "sched_ok Q (swtosi t s)" "curtask (swtosi t s) = t"
proof -
  obtain p xs where p: "p < TASK_NPRI" "Q (TQ p) = t # xs"
    using assms(2) by (auto simp: abs_runnable_def find_Some_iff neq_Nil_conv)
  from assms have Q: "queues Q s" and ok: "\<And>q t. t \<in> set (Q q) \<Longrightarrow> q_ok q (tk s t)"
    by (auto simp: tasks_ok_def)
  have "q_ok q (if x = t then (tk s t)\<lparr>t_state := TS_RUN\<rparr> else tk s x)" if "x \<in> set (Q q)" for q x
  proof (cases "x = t")
    case True
    then have "q = TQ p" using queues_disjoint [OF Q, of t q "TQ p"] p that by simp
    with ok [OF that] True show ?thesis by (simp add: q_ok_run is_tq_def)
  qed (use ok [OF that] in simp)
  with Q p show "sched_ok Q (swtosi t s)"
    by (auto simp: sched_ok_def tasks_ok_def cur_ok_def swtosi_def Let_def)
  show "curtask (swtosi t s) = t" by (simp add: swtosi_def Let_def)
qed

lemma save_ctx_ok: "tasks_ok Q (save_ctx c s) = tasks_ok Q s"
proof -
  have 1: "q_ok q (r\<lparr>t_stack := p\<rparr>) = q_ok q r" for q r p by (simp add: q_ok_def split: taskq.split)
  have 2: "queues Q (tset t (\<lambda>r. r\<lparr>t_stack := p\<rparr>) s) = queues Q s" for t p
    by (rule tset_queues) simp_all
  show ?thesis by (auto simp: tasks_ok_def save_ctx_def 1 2)
qed

lemma yield_ok:
  assumes "tasks_ok Q s" "abs_runnable Q = Some t"
  shows "\<exists>s'. yield_runnable c s = Ok s' \<and> sched_ok Q s' \<and> curtask s' = t \<and> semas s' = semas s \<and> tickcnt s' = tickcnt s"
proof -
  have "task_runnable s = Ok t" using runnable_abs [of Q s] assms by (simp add: tasks_ok_def)
  then have "yield_runnable c s = Ok (swtosi t (save_ctx (fst c, (snd c)\<lparr>r_fl := 0x200\<rparr>) s))"
    by (simp add: yield_runnable_def task_yield_to_def)
  moreover have "semas (swtosi t (save_ctx d s)) = semas s" "tickcnt (swtosi t (save_ctx d s)) = tickcnt s" for d
    by (simp_all add: swtosi_def save_ctx_def Let_def)
  ultimately show ?thesis using swtosi_ok [of Q "save_ctx (fst c, (snd c)\<lparr>r_fl := 0x200\<rparr>) s" t] assms
    by (simp add: save_ctx_ok)
qed

text \<open>Moving a task to another queue with its new state.\<close>

lemma requeue_ok:
  assumes "tasks_ok Q s" "t \<noteq> 0" "q_ok q ((tk s t)\<lparr>t_state := st\<rparr>)"
  shows "tasks_ok (qadd q t (qdrop t Q)) (taskq_push q t (set_state t st (task_dequeue t s)))"
proof -
  from assms(1) have Q: "queues Q s" and ok: "\<And>q t. t \<in> set (Q q) \<Longrightarrow> q_ok q (tk s t)"
    by (auto simp: tasks_ok_def)
  have 1: "queues (qdrop t Q) (set_state t st (task_dequeue t s))"
    using tq.deq_inv [OF Q assms(2)] by simp
  have 2: "queues (qadd q t (qdrop t Q)) (taskq_push q t (set_state t st (task_dequeue t s)))"
    unfolding qadd_def using tq.push_inv [OF 1 assms(2)] tq.qdrop_notin [OF Q] by simp
  have "q_ok r (tk (taskq_push q t (set_state t st (task_dequeue t s))) x)"
    if x: "x \<in> set (qadd q t (qdrop t Q) r)" for r x
  proof (cases "x = t")
    case True
    then have "r = q" using x tq.qdrop_notin [OF Q] by (auto simp: qadd_def split: if_splits)
    moreover have "q_ok q (tk (taskq_push q t (set_state t st (task_dequeue t s))) t) = q_ok q ((tk s t)\<lparr>t_state := st\<rparr>)"
      by (rule q_ok_cong) simp_all
    ultimately show ?thesis using True assms(3) by simp
  next
    case False
    then have "x \<in> set (Q r)" using x by (auto simp: qadd_def qdrop_def split: if_splits dest: notin_set_remove1)
    moreover have "q_ok r (tk (taskq_push q t (set_state t st (task_dequeue t s))) x) = q_ok r (tk s x)"
      using False by (intro q_ok_cong) simp_all
    ultimately show ?thesis using ok by blast
  qed
  with 2 show ?thesis by (simp add: tasks_ok_def)
qed

definition requeue :: "taskq \<Rightarrow> taskp \<Rightarrow> (taskq \<Rightarrow> taskp list) \<Rightarrow> taskq \<Rightarrow> taskp list" where
  "requeue q t Q = qadd q t (qdrop t Q)"

definition other_ready :: "(taskq \<Rightarrow> taskp list) \<Rightarrow> taskp \<Rightarrow> bool" where
  "other_ready Q t \<longleftrightarrow> (\<exists>p < TASK_NPRI. \<exists>x \<in> set (Q (TQ p)). x \<noteq> t)"

lemma cur_nz: "sched_ok Q s \<Longrightarrow> curtask s \<noteq> 0"
  using queuesD(4) [of Q s] by (metis cur_ok_def list.set_intros(1) sched_ok_def tasks_ok_def)

lemma cur_state:
  assumes "sched_ok Q s"
  shows "t_state (tk s (curtask s)) \<in> {TS_READY, TS_RUN}" "t_pri (tk s (curtask s)) < TASK_NPRI"
    "\<exists>xs. Q (TQ (t_pri (tk s (curtask s)))) = curtask s # xs"
proof -
  obtain p xs where p: "Q (TQ p) = curtask s # xs" using assms by (auto simp: sched_ok_def cur_ok_def)
  then have "q_ok (TQ p) (tk s (curtask s))"
    using assms by (auto simp: sched_ok_def tasks_ok_def)
  then show "t_state (tk s (curtask s)) \<in> {TS_READY, TS_RUN}" "t_pri (tk s (curtask s)) < TASK_NPRI"
    "\<exists>xs. Q (TQ (t_pri (tk s (curtask s)))) = curtask s # xs"
    using p by (auto simp: q_ok_def)
qed

lemma runnable_after_drop:
  assumes "other_ready Q t" "\<not> is_tq q"
  obtains x where "abs_runnable (requeue q t Q) = Some x"
proof -
  from assms obtain p x where "p < TASK_NPRI" "x \<in> set (Q (TQ p))" "x \<noteq> t"
    by (auto simp: other_ready_def)
  moreover from this have "requeue q t Q (TQ p) \<noteq> []"
    using assms(2) by (auto simp: requeue_def qadd_def qdrop_def is_tq_def) (metis in_set_remove1 list.set(1) empty_iff)
  ultimately show ?thesis using that by (metis abs_runnable_Some)
qed

lemma block_ok:
  assumes ok: "sched_ok Q s" and o: "other_ready Q (curtask s)" and q: "\<not> is_tq q"
    and s1: "s1 = taskq_push q (curtask s) (set_state (curtask s) TS_BLOCKED (task_dequeue (curtask s) s))"
  shows "\<exists>s' t. yield_runnable c s1 = Ok s' \<and> abs_runnable (requeue q (curtask s) Q) = Some t
    \<and> sched_ok (requeue q (curtask s) Q) s' \<and> curtask s' = t \<and> semas s' = semas s"
proof -
  have t: "tasks_ok (requeue q (curtask s) Q) s1"
    unfolding requeue_def s1 using ok cur_nz [OF ok] cur_state [OF ok] q
    by (intro requeue_ok) (auto simp: sched_ok_def q_ok_def is_tq_def split: taskq.splits)
  obtain x where x: "abs_runnable (requeue q (curtask s) Q) = Some x"
    using runnable_after_drop [OF o q] by blast
  show ?thesis using yield_ok [OF t x, of c] x s1 by auto
qed

lemma tasks_ok_iflag [simp]: "tasks_ok Q (s\<lparr>iflag := b\<rparr>) = tasks_ok Q s"
  by (simp add: tasks_ok_def)

lemma sched_ok_iflag [simp]: "sched_ok Q (s\<lparr>iflag := b\<rparr>) = sched_ok Q s"
  by (simp add: sched_ok_def cur_ok_def)

lemma ready_ok:
  assumes "tasks_ok Q s" "t \<noteq> 0" "t_pri (tk s t) < TASK_NPRI"
  shows "tasks_ok (requeue (TQ (t_pri (tk s t))) t Q) (ENQUEUE t (set_state t TS_READY (task_dequeue t s)))"
  using requeue_ok [OF assms(1,2), of "TQ (t_pri (tk s t))" TS_READY] assms(3)
  by (simp add: ENQUEUE_def requeue_def q_ok_def)

lemma cur_ok_requeue:
  assumes "sched_ok Q s" "t \<noteq> curtask s" "curtask s' = curtask s"
  shows "cur_ok (requeue q t Q) s'"
proof -
  obtain p xs where p: "p < TASK_NPRI" "Q (TQ p) = curtask s # xs"
    using assms by (auto simp: sched_ok_def cur_ok_def)
  then show ?thesis using assms(2,3)
    by (auto simp: cur_ok_def requeue_def qadd_def qdrop_def intro!: exI [of _ p])
qed

lemma unblock_ok:
  assumes "sched_ok Q s" "t \<noteq> 0" "t_state (tk s t) = TS_BLOCKED" "t_pri (tk s t) < TASK_NPRI"
  shows "sched_ok (requeue (TQ (t_pri (tk s t))) t Q) (ENQUEUE t (set_state t TS_READY (task_dequeue t s)))"
proof -
  have "t \<noteq> curtask s" using cur_state [OF assms(1)] assms(3) by auto
  then have "cur_ok (requeue (TQ (t_pri (tk s t))) t Q) (ENQUEUE t (set_state t TS_READY (task_dequeue t s)))"
    by (intro cur_ok_requeue [OF assms(1)]) (simp_all add: ENQUEUE_def)
  with ready_ok [of Q s t] assms show ?thesis by (simp add: sched_ok_def)
qed

text \<open>The timer interrupt moves the head of a bucket on to the next task.\<close>

lemma rotate_queues:
  assumes "queues Q s" "Q q = t # xs"
  shows "queues (Q(q := xs @ [t])) (qset q (t_next (tk s t)) s)"
proof -
  note D = queuesD [OF assms(1)]
  have c: "cyc (tk s) (t # xs)" using D(1) [of q] assms(2) by simp
  have n: "t_next (tk s t) = hd (xs @ [t])" using c by (cases xs) (auto simp: cyc_def)
  show ?thesis
  proof (rule queuesI)
    show "cyc (tk (qset q (t_next (tk s t)) s)) ((Q(q := xs @ [t])) r)" for r
      using c cyc_rotate [of "tk s" "[t]" xs] D(1) by simp
    show "distinct ((Q(q := xs @ [t])) r)" "0 \<notin> set ((Q(q := xs @ [t])) r)" for r
      using D(3,4) [of r] assms(2) by auto
    show "t_owner (tk (qset q (t_next (tk s t)) s) x) = Some r \<longleftrightarrow> x \<in> set ((Q(q := xs @ [t])) r)" if "x \<noteq> 0" for x r
      using D(5) [OF that] assms(2) by auto
  qed (use D(2) n in auto)
qed

lemma iswitch_ok:
  assumes "sched_ok Q s" "Q (TQ p) = curtask s # xs"
  shows "\<exists>s' t. iswitch c s = Ok s' \<and> abs_runnable (Q(TQ p := xs @ [curtask s])) = Some t
    \<and> sched_ok (Q(TQ p := xs @ [curtask s])) s' \<and> curtask s' = t"
proof -
  let ?Q = "Q(TQ p := xs @ [curtask s])" and ?s2 = "set_state (curtask s) TS_READY (save_ctx c s)"
  have t1: "tasks_ok Q (save_ctx c s)" using assms by (simp add: save_ctx_ok sched_ok_def)
  have sc: "curtask (save_ctx c s) = curtask s" by (simp add: save_ctx_def)
  have Q2: "queues Q ?s2" using t1 by (simp add: tasks_ok_def)
  have "q_ok (TQ p) (tk (save_ctx c s) (curtask s))" using t1 assms(2) by (simp add: tasks_ok_def)
  then have p: "t_pri (tk ?s2 (curtask s)) = p" "p < TASK_NPRI" by (auto simp: q_ok_def)
  let ?s3 = "qset (TQ p) (t_next (tk ?s2 (curtask s))) ?s2"
  have Q3: "queues ?Q ?s3" by (rule rotate_queues [OF Q2 assms(2)])
  have "q_ok q (tk ?s3 x)" if "x \<in> set (?Q q)" for q x
  proof -
    have x: "x \<in> set (Q q)" using that assms(2) by (auto split: if_splits)
    then have a: "q_ok q (tk (save_ctx c s) x)" using t1 by (simp add: tasks_ok_def)
    show ?thesis
    proof (cases "x = curtask s")
      case True
      then have "q = TQ p" using queues_disjoint [OF Q2 x, of "TQ p"] assms(2) by simp
      then show ?thesis using True a by (simp add: q_ok_def)
    qed (use a in simp)
  qed
  with Q3 have t3: "tasks_ok ?Q ?s3" by (simp add: tasks_ok_def)
  obtain t where t: "abs_runnable ?Q = Some t"
    using abs_runnable_Some [of p ?Q] p(2) by (metis Nil_is_append_conv fun_upd_same not_Cons_self2)
  have "iswitch c s = Ok (swtosi t ?s3)"
    using runnable_abs [of ?Q ?s3] Q3 t p by (simp add: iswitch_def Let_def sc)
  with swtosi_ok [OF t3 t] t show ?thesis by blast
qed

section \<open>Sleeping and waking\<close>

lemma sleep_find_head: "sleep_find m h due h = Some h"
  by (simp add: sleep_find.simps)

lemma to_front_queues:
  assumes "queues Q s" "Q q = xs @ [t]"
  shows "queues (Q(q := t # xs)) (qset q t s)"
proof -
  note D = queuesD [OF assms(1)]
  show ?thesis
  proof (rule queuesI)
    show "cyc (tk (qset q t s)) ((Q(q := t # xs)) r)" for r
      using D(1) [of q] assms(2) cyc_rotate [of "tk s" "[t]" xs] D(1) by simp
    show "distinct ((Q(q := t # xs)) r)" "0 \<notin> set ((Q(q := t # xs)) r)" for r
      using D(3,4) [of r] assms(2) by auto
    show "t_owner (tk (qset q t s) x) = Some r \<longleftrightarrow> x \<in> set ((Q(q := t # xs)) r)" if "x \<noteq> 0" for x r
      using D(5) [OF that] assms(2) by auto
  qed (use D(2) in auto)
qed

text \<open>Where \<open>task_sleep\<close> puts a task: in front when it is due before the first, and else at the end.\<close>

definition sleep_insert :: "(taskp \<Rightarrow> task) \<Rightarrow> u32 \<Rightarrow> taskp \<Rightarrow> taskp list \<Rightarrow> taskp list" where
  "sleep_insert m due t xs = (if xs \<noteq> [] \<and> due < t_due (m (hd xs)) then t # xs else xs @ [t])"

definition abs_sleep :: "(taskp \<Rightarrow> task) \<Rightarrow> u32 \<Rightarrow> taskp \<Rightarrow> (taskq \<Rightarrow> taskp list) \<Rightarrow> taskq \<Rightarrow> taskp list" where
  "abs_sleep m due t Q = (qdrop t Q)(Sleeping := sleep_insert m due t (qdrop t Q Sleeping))"

text \<open>The pointer surgery of \<open>task_sleep\<close> is a push in front of the head.\<close>

lemma sleep_links:
  assumes "queues Q s" "Q q = p # xs" "t \<noteq> 0" "\<And>q. t \<notin> set (Q q)"
  shows "(let s4 = tset t (\<lambda>r. r\<lparr>t_owner := Some q\<rparr>) s;
              s5 = tset t (\<lambda>r. r\<lparr>t_prev := t_prev (tk s4 p)\<rparr>) s4;
              s6 = tset t (\<lambda>r. r\<lparr>t_next := p\<rparr>) s5;
              s7 = tset (t_prev (tk s6 p)) (\<lambda>r. r\<lparr>t_next := t\<rparr>) s6
          in tset p (\<lambda>r. r\<lparr>t_prev := t\<rparr>) s7) = taskq_push q t s"
proof -
  note D = queuesD [OF assms(1)]
  have h: "qhead s q = p" "p \<noteq> 0" "p \<noteq> t" using D(2) [of q] D(4) [of q] assms(2) assms(4) [of q] by auto
  have "cyc (tk s) (butlast (p # xs) @ [last (p # xs)])"
    using D(1) [of q] assms(2) append_butlast_last_id [of "p # xs"] by (simp del: butlast.simps last.simps)
  from cyc_last(2) [OF this] have "t_prev (tk s p) = last (p # xs)"
    using append_butlast_last_id [of "p # xs"] by (simp del: butlast.simps last.simps)
  then have "t_prev (tk s p) \<in> set (Q q)" using assms(2) by (simp only:) (rule last_in_set, simp)
  then have "t_prev (tk s p) \<noteq> t" using assms(4) by metis
  with h show ?thesis
    by (auto simp: taskq_push_def Let_def tset_def fun_eq_iff)
qed

lemma due_ok: "tasks_ok Q (tset t (\<lambda>r. r\<lparr>t_due := d\<rparr>) s) = tasks_ok Q s"
proof -
  have "queues Q (tset t (\<lambda>r. r\<lparr>t_due := d\<rparr>) s) = queues Q s" by (rule tset_queues) simp_all
  moreover have "q_ok q (r\<lparr>t_due := d\<rparr>) = q_ok q r" for q r by (rule q_ok_cong) simp_all
  ultimately show ?thesis by (auto simp: tasks_ok_def)
qed

lemma to_front_ok:
  assumes "tasks_ok Q s" "Q q = xs @ [t]"
  shows "tasks_ok (Q(q := t # xs)) (qset q t s)"
  using assms to_front_queues [of Q s q xs t] by (auto simp: tasks_ok_def)

lemma dequeue_set_state_comm:
  "task_dequeue t (set_state t st s) = set_state t st (task_dequeue t s)"
  by (auto simp: task_dequeue_def set_state_def tset_def qset_def Let_def fun_eq_iff split: option.splits)

lemma sleep_ok:
  fixes ticks :: u32
  assumes ok: "sched_ok Q s" and o: "other_ready Q (curtask s)"
  defines "n \<equiv> if ticks = 0 then 1 else ticks"
  defines "Q' \<equiv> abs_sleep (tk s) (tickcnt s + n) (curtask s) Q"
  shows "\<exists>s' t. task_sleep c ticks s = Ok s' \<and> abs_runnable Q' = Some t \<and> sched_ok Q' s' \<and> curtask s' = t"
proof -
  let ?t = "curtask s" and ?d = "tickcnt s + n"
  let ?s1 = "tset ?t (\<lambda>r. r\<lparr>t_due := ?d\<rparr>) (s\<lparr>iflag := False\<rparr>)"
  let ?s3 = "set_state ?t TS_BLOCKED (task_dequeue ?t ?s1)"
  note t0 = cur_nz [OF ok]
  have k1: "tasks_ok Q ?s1" using ok by (simp add: due_ok sched_ok_def)
  have k8: "tasks_ok (requeue Sleeping ?t Q) (taskq_push Sleeping ?t ?s3)"
    unfolding requeue_def using k1 t0 cur_state [OF ok] by (intro requeue_ok) (auto simp: q_ok_def)
  have Q3: "queues (qdrop ?t Q) ?s3"
    using tq.deq_inv [of Q ?s1 ?t] k1 t0 by (simp add: tasks_ok_def)
  have notin: "?t \<notin> set (qdrop ?t Q q)" for q
    using tq.qdrop_notin [of Q ?s1] k1 by (simp add: tasks_ok_def)
  have due: "t_due (tk ?s3 ?t) = ?d" by simp
  have duex: "t_due (tk (taskq_push Sleeping ?t ?s3) x) = (if x = ?t then ?d else t_due (tk s x))" for x by simp
  obtain s9 where s9: "task_sleep c ticks s = yield_runnable c s9" "tasks_ok Q' s9"
  proof (cases "qdrop ?t Q Sleeping")
    case Nil
    then have "qhead ?s3 Sleeping = 0" using queuesD(2) [OF Q3, of Sleeping] by simp
    then have "task_sleep c ticks s = yield_runnable c (taskq_push Sleeping ?t ?s3)"
      by (simp add: task_sleep_def Let_def n_def dequeue_set_state_comm)
    moreover have "Q' = requeue Sleeping ?t Q"
      using Nil by (simp add: Q'_def abs_sleep_def sleep_insert_def requeue_def qadd_def)
    ultimately show ?thesis using k8 that by simp
  next
    case (Cons p xs)
    then have h: "qhead ?s3 Sleeping = p" using queuesD(2) [OF Q3, of Sleeping] by simp
    have p: "p \<noteq> 0" "p \<noteq> ?t" using queuesD(4) [OF Q3, of Sleeping] notin [of Sleeping] Cons by auto
    note L = sleep_links [OF Q3 Cons t0 notin, unfolded Let_def]
    have hp: "qhead (taskq_push Sleeping ?t ?s3) Sleeping = p" using h p by simp
    have "task_sleep c ticks s = yield_runnable c
       (if ?d < t_due (tk s p) then qset Sleeping ?t (taskq_push Sleeping ?t ?s3) else taskq_push Sleeping ?t ?s3)"
    proof -
      have "task_sleep c ticks s = yield_runnable c
        (let s8 = taskq_push Sleeping ?t ?s3
         in if qhead s8 Sleeping = p \<and> t_due (tk s8 ?t) < t_due (tk s8 p) then qset Sleeping ?t s8 else s8)"
        using h p(1) unfolding L [symmetric]
        by (simp add: task_sleep_def Let_def n_def [symmetric] dequeue_set_state_comm sleep_find_head)
      then show ?thesis using hp duex p by (simp add: Let_def)
    qed
    moreover have "tasks_ok Q' (if ?d < t_due (tk s p) then qset Sleeping ?t (taskq_push Sleeping ?t ?s3) else taskq_push Sleeping ?t ?s3)"
    proof (cases "?d < t_due (tk s p)")
      case True
      have "Q' = (requeue Sleeping ?t Q)(Sleeping := ?t # p # xs)"
        using Cons True by (simp add: Q'_def abs_sleep_def sleep_insert_def requeue_def qadd_def fun_eq_iff)
      moreover have "requeue Sleeping ?t Q Sleeping = (p # xs) @ [?t]" using Cons by (simp add: requeue_def qadd_def)
      ultimately show ?thesis using True to_front_ok [OF k8] by simp
    next
      case False
      then have "Q' = requeue Sleeping ?t Q"
        using Cons by (simp add: Q'_def abs_sleep_def sleep_insert_def requeue_def qadd_def)
      with False k8 show ?thesis by simp
    qed
    ultimately show ?thesis using that by blast
  qed
  have "requeue Sleeping ?t Q (TQ i) = Q' (TQ i)" for i
    by (simp add: Q'_def abs_sleep_def requeue_def qadd_def)
  then have "abs_runnable Q' = abs_runnable (requeue Sleeping ?t Q)" by (simp add: abs_runnable_def)
  moreover have "\<not> is_tq Sleeping" by (simp add: is_tq_def)
  ultimately obtain x where "abs_runnable Q' = Some x" using runnable_after_drop [OF o] by metis
  with yield_ok [OF s9(2) this, of c] s9(1) show ?thesis by auto
qed

end
