(* ===== verification/SchedThms.thy ===== *)
theory SchedThms
  imports Sched
begin

text \<open>
  What the scheduler of the theory \<open>Sched\<close> guarantees: each operation keeps the invariant
  \<open>sched_ok\<close> and acts on the lists of the queues as its specification says; the sleep queue and
  the tick; the semaphores. The scenarios at the end instantiate the properties.
\<close>

section \<open>Waking\<close>

definition abs_wake :: "(taskp \<Rightarrow> task) \<Rightarrow> u32 \<Rightarrow> (taskq \<Rightarrow> taskp list) \<Rightarrow> taskq \<Rightarrow> taskp list" where
  "abs_wake m tick Q =
     fold (\<lambda>t. requeue (TQ (t_pri (m t))) t) (takeWhile (\<lambda>t. t_due (m t) = tick) (Q Sleeping)) Q"

lemma requeue_other: "t \<notin> set (Q q) \<Longrightarrow> q \<noteq> r \<Longrightarrow> requeue r t Q q = Q q"
  by (simp add: requeue_def qadd_def qdrop_def remove1_idem)

lemma wake_ok:
  "tasks_ok Q s \<Longrightarrow> Q Sleeping = xs \<Longrightarrow>
   \<exists>s'. task_wake s = Some s' \<and> tasks_ok (abs_wake (tk s) (tickcnt s) Q) s' \<and> curtask s' = curtask s
     \<and> (cur_ok Q s \<longrightarrow> curtask s \<notin> set xs \<longrightarrow> cur_ok (abs_wake (tk s) (tickcnt s) Q) s')
     \<and> tickcnt s' = tickcnt s \<and> tasklock s' = tasklock s"
proof (induction xs arbitrary: Q s)
  case Nil
  then have "qhead s Sleeping = 0" using queuesD(2) [of Q s Sleeping] by (simp add: tasks_ok_def)
  with Nil show ?case by (subst task_wake.simps) (simp add: abs_wake_def)
next
  case (Cons t xs)
  from Cons.prems have Q: "queues Q s" and q: "q_ok Sleeping (tk s t)" by (auto simp: tasks_ok_def)
  have h: "qhead s Sleeping = t" "t \<noteq> 0" using queuesD(2,4) [OF Q, of Sleeping] Cons.prems(2) by auto
  show ?case
  proof (cases "t_due (tk s t) = tickcnt s")
    case False
    with h Cons.prems show ?thesis by (subst task_wake.simps) (simp add: abs_wake_def)
  next
    case True
    let ?p = "TQ (t_pri (tk s t))"
    let ?Q = "requeue ?p t Q" and ?s = "ENQUEUE t (set_state t TS_READY (task_dequeue t s))"
    have ok: "tasks_ok ?Q ?s" using ready_ok [OF Cons.prems(1) h(2)] q by (simp add: q_ok_def)
    have d: "distinct (t # xs)" using queuesD(3) [OF Q, of Sleeping] Cons.prems(2) by simp
    have sl: "?Q Sleeping = xs" using Cons.prems(2) by (simp add: requeue_def qadd_def qdrop_def)
    have f: "curtask ?s = curtask s" "tickcnt ?s = tickcnt s" "tasklock ?s = tasklock s" by (simp_all add: ENQUEUE_def)
    have m: "t_pri (tk ?s x) = t_pri (tk s x)" "t_due (tk ?s x) = t_due (tk s x)" for x
      by (simp_all add: ENQUEUE_def)
    have e: "abs_wake (tk ?s) (tickcnt ?s) ?Q = abs_wake (tk s) (tickcnt s) Q"
      using True Cons.prems(2) by (simp add: abs_wake_def sl m f)
    have cur: "cur_ok Q s \<longrightarrow> curtask s \<notin> set (t # xs) \<longrightarrow> cur_ok ?Q ?s"
      using cur_ok_requeue [of Q s t ?s ?p] Cons.prems(1) f by (auto simp: sched_ok_def)
    have "task_wake s = task_wake ?s" using h True by (subst task_wake.simps) (simp add: Let_def)
    with Cons.IH [OF ok sl, unfolded e, unfolded f] cur show ?thesis by auto
  qed
qed

lemma cur_not_blocked:
  assumes "sched_ok Q s" "\<not> is_tq q" shows "curtask s \<notin> set (Q q)"
proof
  assume "curtask s \<in> set (Q q)"
  then have "q_ok q (tk s (curtask s))" using assms(1) by (simp add: sched_ok_def tasks_ok_def)
  with cur_state(1) [OF assms(1)] assms(2) show False
    by (auto simp: q_ok_def is_tq_def split: taskq.splits)
qed

lemmas cur_not_sleeping = cur_not_blocked [of _ _ Sleeping, unfolded is_tq_def, simplified]
lemmas cur_not_sema = cur_not_blocked [of _ _ "SemaQ i" for i, unfolded is_tq_def, simplified]

section \<open>Semaphores\<close>

text \<open>The blocked queue of a semaphore holds exactly the tasks its negative count counts.\<close>

definition sema_ok :: "(taskq \<Rightarrow> taskp list) \<Rightarrow> nat \<Rightarrow> sched \<Rightarrow> bool" where
  "sema_ok Q i s \<longleftrightarrow> sm_sig (semas s i) = SEMA_SIG \<and> int (length (Q (SemaQ i))) = max 0 (- sm_count (semas s i))"

lemma sema_member_walk:
  "lnk m (x # zs @ [h]) \<Longrightarrow> h \<notin> set zs \<Longrightarrow> sema_member m h t x = Some (t \<in> set (x # zs))"
proof (induction zs arbitrary: x)
  case Nil
  then show ?case by (subst sema_member.simps) auto
next
  case (Cons y zs)
  then have "sema_member m h t y = Some (t \<in> set (y # zs))" by simp
  with Cons.prems show ?case by (subst sema_member.simps) auto
qed

lemma sema_member_queue:
  assumes "queues Q s" "Q q = x # xs"
  shows "sema_member (tk s) (qhead s q) t (qhead s q) = Some (t \<in> set (Q q))"
proof -
  note D = queuesD [OF assms(1)]
  have "lnk (tk s) (x # xs @ [x])" "x \<notin> set xs" "qhead s q = x"
    using D(1-3) [of q] assms(2) by (auto simp: cyc_def)
  with sema_member_walk [of "tk s" x xs x t] assms(2) show ?thesis by simp
qed

lemma sema_down_cur:
  assumes "sched_ok Q s"
  shows "(if qhead s (SemaQ i) \<noteq> 0
          then of_loop (sema_member (tk s) (qhead s (SemaQ i)) (curtask s) (qhead s (SemaQ i)))
          else Ok False) = Ok False"
proof (cases "Q (SemaQ i)")
  case Nil
  with queuesD(2) [of Q s "SemaQ i"] assms show ?thesis by (simp add: sched_ok_def tasks_ok_def)
next
  case (Cons x xs)
  have Q: "queues Q s" using assms by (simp add: sched_ok_def tasks_ok_def)
  have "curtask s \<notin> set (Q (SemaQ i))" by (rule cur_not_sema [OF assms])
  with sema_member_queue [OF Q Cons, of "curtask s"] show ?thesis by simp
qed

lemma sched_ok_sema_set [simp]: "sched_ok Q (sema_set i f s) = sched_ok Q s"
  by (simp add: sched_ok_def tasks_ok_def cur_ok_def)

lemma requeue_len:
  assumes "t \<notin> set (Q q)" shows "requeue q t Q q = Q q @ [t]"
  using assms by (simp add: requeue_def qadd_def qdrop_def remove1_idem)

text \<open>Property C14. \<open>sema_down\<close> never panics on a consistent semaphore. With a positive count the
  caller gets it and goes on; otherwise the caller is put at the end of the semaphore's queue,
  the first task of the highest bucket runs, and the semaphore is consistent again.\<close>

theorem sema_down_correct:
  assumes "sched_ok Q s" "sema_ok Q i s" "other_ready Q (curtask s)"
  shows "if sm_count (semas s i) > 0
    then \<exists>s'. sema_down c i s = Ok (Inl s') \<and> sched_ok Q s' \<and> sema_ok Q i s'
           \<and> sm_count (semas s' i) = sm_count (semas s i) - 1 \<and> sm_last_owner (semas s' i) = curtask s
           \<and> curtask s' = curtask s
    else \<exists>s' t. sema_down c i s = Ok (Inr s') \<and> abs_runnable (requeue (SemaQ i) (curtask s) Q) = Some t
           \<and> curtask s' = t \<and> sched_ok (requeue (SemaQ i) (curtask s) Q) s'
           \<and> sema_ok (requeue (SemaQ i) (curtask s) Q) i s' \<and> sm_count (semas s' i) = sm_count (semas s i) - 1"
proof -
  let ?s1 = "sema_set i (\<lambda>r. r\<lparr>sm_count := sm_count r - 1\<rparr>) (s\<lparr>iflag := False\<rparr>)"
  have sig: "sm_sig (semas s i) = SEMA_SIG" using assms(2) by (simp add: sema_ok_def)
  have chk: "(if qhead (s\<lparr>iflag := False\<rparr>) (SemaQ i) \<noteq> 0
     then of_loop (sema_member (tk (s\<lparr>iflag := False\<rparr>)) (qhead (s\<lparr>iflag := False\<rparr>) (SemaQ i)) (curtask (s\<lparr>iflag := False\<rparr>)) (qhead (s\<lparr>iflag := False\<rparr>) (SemaQ i)))
     else Ok False) = Ok False"
    by (rule sema_down_cur [of Q]) (simp add: assms(1))
  note unf = sema_down_def Let_def chk
  show ?thesis
  proof (cases "sm_count (semas s i) > 0")
    case True
    then show ?thesis using assms sig unfolding unf
      by (auto simp: sema_ok_def)
  next
    case False
    let ?t = "curtask s"
    have ok1: "sched_ok Q ?s1" using assms(1) by simp
    have nin: "?t \<notin> set (Q (SemaQ i))" by (rule cur_not_sema [OF assms(1)])
    obtain s' t where b: "yield_runnable c (taskq_push (SemaQ i) (curtask ?s1) (set_state (curtask ?s1) TS_BLOCKED (task_dequeue (curtask ?s1) ?s1))) = Ok s'"
      "abs_runnable (requeue (SemaQ i) (curtask ?s1) Q) = Some t" "sched_ok (requeue (SemaQ i) (curtask ?s1) Q) s'"
      "curtask s' = t" "semas s' = semas ?s1"
      using block_ok [OF ok1 _ _ refl, of "SemaQ i" c] assms(3) by (auto simp: is_tq_def)
    have "sema_down c i s = Ok (Inr s')"
      using sig False b(1) unfolding unf by simp
    moreover have "sema_ok (requeue (SemaQ i) ?t Q) i s'"
      using assms(2) b(5) False requeue_len [of ?t Q "SemaQ i", OF nin] by (simp add: sema_ok_def)
    ultimately show ?thesis using b False by auto
  qed
qed


section \<open>Blocking, the tick and sleeping\<close>

text \<open>Remark. The scheduler picks the first task of the first bucket that is not empty, and
  panics exactly when all twenty are empty.\<close>

theorem task_runnable_correct:
  assumes "queues Q s"
  shows "task_runnable s = (case find (\<lambda>i. Q (TQ i) \<noteq> []) [0..<20] of Some i \<Rightarrow> Ok (hd (Q (TQ i))) | None \<Rightarrow> Panic)"
  using runnable_abs [OF assms] by (auto simp: abs_runnable_def TASK_NPRI_def split: option.splits)

text \<open>Property C30. \<open>task_block\<close> moves the current task to the end of the given queue, marks it blocked,
  and switches to the task the scheduler picks; the invariant holds afterwards.\<close>

theorem task_block_correct:
  assumes "sched_ok Q s" "other_ready Q (curtask s)" "\<not> is_tq q"
  shows "\<exists>s' t. task_block c q s = Ok s' \<and> abs_runnable (requeue q (curtask s) Q) = Some t
    \<and> curtask s' = t \<and> sched_ok (requeue q (curtask s) Q) s'"
  using block_ok [of Q "s\<lparr>iflag := False\<rparr>" q _ c] assms by (fastforce simp: task_block_def Let_def)

text \<open>Property C35. \<open>task_unblock\<close> does nothing for NULL and for a task that is not blocked; a blocked
  task is taken off its queue and becomes ready at the end of its bucket. The interrupt flag and
  the current task stay as they were.\<close>

theorem task_unblock_correct:
  assumes "sched_ok Q s" "t_pri (tk s t) < TASK_NPRI"
  shows "iflag (task_unblock t s) = iflag s \<and> curtask (task_unblock t s) = curtask s
    \<and> (if t \<noteq> 0 \<and> t_state (tk s t) = TS_BLOCKED
       then sched_ok (requeue (TQ (t_pri (tk s t))) t Q) (task_unblock t s) \<and> t_state (tk (task_unblock t s) t) = TS_READY
       else task_unblock t s = s)"
  using unblock_ok [of Q "s\<lparr>iflag := False\<rparr>" t] assms
  by (auto simp: task_unblock_def Let_def ENQUEUE_def)

text \<open>Property C19. A tick counts, makes the sleepers ready that are due at this very tick and come
  before the first that is not, and, unless the lock is held, moves the current task to the end of
  its bucket and runs the task the scheduler picks.\<close>

theorem timer_handler_correct:
  assumes "sched_ok Q s"
  defines "Q1 \<equiv> abs_wake (tk s) (tickcnt s + 1) Q"
  shows "\<exists>s'. timer_handler c s = Ok s' \<and>
    (if tasklock s \<noteq> 0 then sched_ok Q1 s' \<and> curtask s' = curtask s
     else \<exists>p xs t. Q1 (TQ p) = curtask s # xs \<and> abs_runnable (Q1(TQ p := xs @ [curtask s])) = Some t
            \<and> curtask s' = t \<and> sched_ok (Q1(TQ p := xs @ [curtask s])) s')"
proof -
  let ?s = "s\<lparr>iflag := False, tickcnt := tickcnt s + 1\<rparr>"
  have "tasks_ok Q ?s" "cur_ok Q ?s" using assms(1) by (auto simp: sched_ok_def tasks_ok_def cur_ok_def)
  with wake_ok [OF this(1) refl] cur_not_sleeping [OF assms(1)] obtain s1 where
    s1: "task_wake ?s = Some s1" "sched_ok Q1 s1" "curtask s1 = curtask s" "tasklock s1 = tasklock s"
    by (auto simp: sched_ok_def Q1_def)
  show ?thesis
  proof (cases "tasklock s = 0")
    case False
    with s1 show ?thesis by (simp add: timer_handler_def)
  next
    case True
    obtain p xs where p: "Q1 (TQ p) = curtask s # xs" using s1 by (auto simp: sched_ok_def cur_ok_def)
    with iswitch_ok [OF s1(2), of p xs c] s1 True show ?thesis by (auto simp: timer_handler_def)
  qed
qed

text \<open>Property C38. \<open>task_sleep\<close> puts the caller on the sleep queue: in front when it is due before the
  first sleeper, and otherwise at the very end, whatever is due in between.\<close>

theorem task_sleep_correct:
  fixes ticks :: u32
  assumes "sched_ok Q s" "other_ready Q (curtask s)"
  defines "Q' \<equiv> abs_sleep (tk s) (tickcnt s + (if ticks = 0 then 1 else ticks)) (curtask s) Q"
  shows "\<exists>s' t. task_sleep c ticks s = Ok s' \<and> abs_runnable Q' = Some t \<and> sched_ok Q' s' \<and> curtask s' = t"
  unfolding Q'_def by (rule sleep_ok [OF assms(1,2)])

text \<open>Remark. A sleeper that is not the first of the queue is not woken at the tick it is due when
  the first sleeper is due at another tick: the queue stays as it is.\<close>

theorem task_wake_lost:
  assumes "queues Q s" "Q Sleeping = t # ts" "t_due (tk s t) \<noteq> tickcnt s"
  shows "task_wake s = Some s"
  using queuesD(2) [OF assms(1), of Sleeping] assms(2,3) by (subst task_wake.simps) simp

text \<open>Remark. Milliseconds are rounded up to ticks of 55 ms, as long as the sum does not wrap.\<close>

theorem ticks_round_up:
  assumes "unat ms + 54 < 2 ^ 32"
  shows "unat ms \<le> 55 * unat (TASK_MS_TO_TICKS ms) \<and> 55 * unat (TASK_MS_TO_TICKS ms) < unat ms + 55"
proof -
  have "unat (ms + 55 - 1) = unat ms + 54" using assms by (simp add: unat_word_ariths)
  then have "unat (TASK_MS_TO_TICKS ms) = (unat ms + 54) div 55"
    by (simp add: TASK_MS_TO_TICKS_def unat_div del: add_diff_eq)
  moreover have "n \<le> 55 * ((n + 54) div 55) \<and> 55 * ((n + 54) div 55) < n + 55" for n :: nat
    by presburger
  ultimately show ?thesis by simp
qed

section \<open>Scenarios\<close>

text \<open>Tasks 1 (current) and 3 are ready, 2 is the idle task, 4 waits for semaphore 0, 6 and 7 sleep
  until the ticks 30 and 20; the tick count is 20.\<close>

definition w_base :: sched where
  "w_base = \<lparr>tk = (\<lambda>t. w_task\<lparr>t_state := (if t \<in> {1, 2, 3} then TS_READY else TS_BLOCKED),
                            t_pri := (if t = 2 then 19 else 17), t_due := (if t = 6 then 30 else 20)\<rparr>),
     qhead = (\<lambda>_. 0), curtask = 1, tsk_freel = 0, tickcnt = 20, tasklock = 0, iflag = True,
     frames = (\<lambda>_. reg0), stkw = (\<lambda>_. 0),
     semas = (\<lambda>_. \<lparr>sm_sig = SEMA_SIG, sm_count = 1, sm_last_owner = 0\<rparr>)
       (0 := \<lparr>sm_sig = SEMA_SIG, sm_count = - 1, sm_last_owner = 3\<rparr>), smem = w_mem\<rparr>"

definition w_ctx :: ctx where "w_ctx = ((0, 0x400), reg0)"

definition w_sched :: sched where
  "w_sched = taskq_push Sleeping 7 (taskq_push Sleeping 6 (taskq_push (SemaQ 0) 4
     (taskq_push (TQ 19) 2 (taskq_push (TQ 17) 3 (taskq_push (TQ 17) 1 w_base)))))"

definition w_Q :: "taskq \<Rightarrow> taskp list" where
  "w_Q = (\<lambda>_. [])(TQ 17 := [1, 3], TQ 19 := [2], SemaQ 0 := [4], Sleeping := [6, 7])"

lemma w_sched_queues: "queues w_Q w_sched"
proof -
  have 0: "queues (\<lambda>_. []) w_base"
    by (auto simp: queues_def circ_def cyc_def w_base_def w_task_def)
  have 1: "queues ((\<lambda>_. [])(TQ 17 := [1])) (taskq_push (TQ 17) 1 w_base)"
    using push_queues [OF 0, of 1 "TQ 17"] by simp
  have 2: "queues ((\<lambda>_. [])(TQ 17 := [1, 3])) (taskq_push (TQ 17) 3 (taskq_push (TQ 17) 1 w_base))"
    using push_queues [OF 1, of 3 "TQ 17"] by simp
  note 3 = push_queues [OF 2, of 2 "TQ 19", simplified]
  note 4 = push_queues [OF 3, of 4 "SemaQ 0", simplified]
  note 5 = push_queues [OF 4, of 6 Sleeping, simplified]
  show ?thesis using push_queues [OF 5, of 7 Sleeping] by (simp add: w_sched_def w_Q_def)
qed

lemma w_sched_tk: "t_state (tk w_sched t) = (if t \<in> {1, 2, 3} then TS_READY else TS_BLOCKED)"
  "t_pri (tk w_sched t) = (if t = 2 then 19 else 17)" "t_due (tk w_sched t) = (if t = 6 then 30 else 20)"
  "curtask w_sched = 1" "tickcnt w_sched = 20" "semas w_sched = semas w_base" "tasklock w_sched = 0"
  by (simp_all add: w_sched_def w_base_def)

lemma w_sched_ok: "sched_ok w_Q w_sched"
  using w_sched_queues
  by (auto simp: sched_ok_def tasks_ok_def cur_ok_def w_sched_tk q_ok_def w_Q_def TASK_NPRI_def split: taskq.split)

lemma w_other: "other_ready w_Q 1"
  unfolding other_ready_def by (rule exI [of _ 17]) (simp add: w_Q_def TASK_NPRI_def)

lemma w_sema0: "sema_ok w_Q 0 w_sched" and w_sema1: "sema_ok w_Q 1 w_sched"
  by (auto simp: sema_ok_def w_sched_tk w_base_def w_Q_def)

theorem sema_down_correct_witness: "\<exists>s'. sema_down w_ctx 1 w_sched = Ok (Inl s') \<and> sm_count (semas s' 1) = 0"
  using sema_down_correct [OF w_sched_ok w_sema1, of w_ctx] w_other by (auto simp: w_sched_tk w_base_def)


theorem task_runnable_correct_witness: "task_runnable w_sched = Ok 1"
proof -
  have "find (\<lambda>i. w_Q (TQ i) \<noteq> []) [0..<20] = Some 17"
    by (simp add: w_Q_def upt_rec)
  then show ?thesis using task_runnable_correct [OF w_sched_queues] by (simp add: w_Q_def)
qed

theorem task_block_correct_witness:
  "\<exists>s' t. task_block w_ctx (WaitQ 3) w_sched = Ok s' \<and> sched_ok (requeue (WaitQ 3) 1 w_Q) s'"
  using task_block_correct [OF w_sched_ok, of "WaitQ 3" w_ctx] w_other by (auto simp: w_sched_tk is_tq_def)

theorem task_unblock_correct_witness:
  "sched_ok (requeue (TQ 17) 4 w_Q) (task_unblock 4 w_sched) \<and> task_unblock 3 w_sched = w_sched"
  using task_unblock_correct [OF w_sched_ok, of 4] task_unblock_correct [OF w_sched_ok, of 3]
  by (simp add: w_sched_tk TASK_NPRI_def)

theorem timer_handler_correct_witness: "\<exists>s'. timer_handler w_ctx w_sched = Ok s'"
  using timer_handler_correct [OF w_sched_ok, of w_ctx] by blast

theorem task_sleep_correct_witness:
  "\<exists>s' t. task_sleep w_ctx 5 w_sched = Ok s' \<and> sched_ok (abs_sleep (tk w_sched) 25 1 w_Q) s'
    \<and> abs_sleep (tk w_sched) 25 1 w_Q Sleeping = [1, 6, 7]"
  using task_sleep_correct [OF w_sched_ok, of w_ctx 5] w_other
  by (auto simp: w_sched_tk abs_sleep_def sleep_insert_def qdrop_def w_Q_def)

text \<open>Task 7 is due at tick 20, but the first of the queue is due at tick 30: nobody is woken.\<close>

theorem task_wake_lost_witness:
  "t_due (tk w_sched 7) = tickcnt w_sched \<and> task_wake w_sched = Some w_sched"
  using task_wake_lost [OF w_sched_queues, of 6 "[7]"] by (simp add: w_sched_tk w_Q_def)

theorem ticks_round_up_witness: "(1000 :: nat) \<le> 55 * unat (TASK_MS_TO_TICKS 1000)"
  using ticks_round_up [of 1000] by simp

end
