(* ===== verification/BlkIf.thy ===== *)
theory BlkIf
  imports Prelude
begin

text \<open>
  The interface \<open>include/BLKCACHE.H\<close> that the file system is written against (the kernel and the
  hosted tools each link it with a block cache of their own), and the contract the file system's
  read path relies on. A block pointer is a number; \<open>bdata C b s i\<close> is the byte \<open>b->data[i]\<close>.
\<close>

record 's bcif =
  bget :: "int \<Rightarrow> int \<Rightarrow> u32 \<Rightarrow> 's \<Rightarrow> (int \<times> nat \<times> 's) res"
  bput :: "nat \<Rightarrow> 's \<Rightarrow> (int \<times> 's) res"
  bdata :: "nat \<Rightarrow> 's \<Rightarrow> nat \<Rightarrow> u8"
  bstore :: "nat \<Rightarrow> nat \<Rightarrow> u8 list \<Rightarrow> 's \<Rightarrow> 's"
  bmark :: "nat \<Rightarrow> 's \<Rightarrow> 's"
  bnum :: "nat \<Rightarrow> 's \<Rightarrow> u32"

text \<open>\<open>CHECK_RET\<close>: return a nonzero code at once, with \<open>d\<close> for the results that are not set.\<close>

definition chk :: "(int \<times> 'a \<times> 's) res \<Rightarrow> 'b \<Rightarrow> ('a \<Rightarrow> 's \<Rightarrow> (int \<times> 'b \<times> 's) res) \<Rightarrow> (int \<times> 'b \<times> 's) res" where
  "chk r d f = bind_res r (\<lambda>(rc, a, s). if rc \<noteq> 0 then Ok (rc, d, s) else f a s)"

definition chk0 :: "(int \<times> 's) res \<Rightarrow> 'b \<Rightarrow> ('s \<Rightarrow> (int \<times> 'b \<times> 's) res) \<Rightarrow> (int \<times> 'b \<times> 's) res" where
  "chk0 r d f = bind_res r (\<lambda>(rc, s). if rc \<noteq> 0 then Ok (rc, d, s) else f s)"

lemma chk_Ok [simp]: "chk (Ok (0, a, s)) d f = f a s" "chk0 (Ok (0, s)) d g = g s"
  by (simp_all add: chk_def chk0_def)

lemma chk_err [simp]: "rc \<noteq> 0 \<Longrightarrow> chk (Ok (rc, a, s)) d f = Ok (rc, d, s)"
  "rc \<noteq> 0 \<Longrightarrow> chk0 (Ok (rc, s)) d g = Ok (rc, d, s)"
  by (simp_all add: chk_def chk0_def)

text \<open>
  The contract of a cache of \<open>cap\<close> blocks, none of them dirty, over a device that can be read:
  \<open>disk s n\<close> is the content of block \<open>n\<close> of the volume, \<open>pins s b\<close> the number of references to
  the buffer \<open>b\<close>, and \<open>ident s b n\<close> says that it holds block \<open>n\<close>.
\<close>

locale block_cache =
  fixes C :: "'s bcif" and dev unit :: int and cap :: nat
    and inv :: "'s \<Rightarrow> bool" and disk :: "'s \<Rightarrow> u32 \<Rightarrow> u8 list" and pins :: "'s \<Rightarrow> nat \<Rightarrow> nat"
    and ident :: "'s \<Rightarrow> nat \<Rightarrow> u32 \<Rightarrow> bool"
  assumes get_ok: "inv s \<Longrightarrow> (\<Sum>b<cap. pins s b) < cap \<Longrightarrow>
      \<exists>b s'. bget C dev unit n s = Ok (0, b, s') \<and> b < cap \<and> inv s' \<and> disk s' = disk s \<and> ident s' b n
        \<and> pins s' = (pins s)(b := Suc (pins s b)) \<and> (\<forall>c k. 0 < pins s c \<longrightarrow> ident s c k \<longrightarrow> ident s' c k)"
    and put_ok: "inv s \<Longrightarrow> b < cap \<Longrightarrow> 0 < pins s b \<Longrightarrow>
      \<exists>s'. bput C b s = Ok (0, s') \<and> inv s' \<and> disk s' = disk s \<and> pins s' = (pins s)(b := pins s b - 1)
        \<and> (\<forall>c k. ident s c k \<longrightarrow> ident s' c k)"
    and data_ok: "inv s \<Longrightarrow> b < cap \<Longrightarrow> 0 < pins s b \<Longrightarrow> ident s b n \<Longrightarrow> i < 512 \<Longrightarrow>
      bdata C b s i = disk s n ! i"
    and num_ok: "inv s \<Longrightarrow> b < cap \<Longrightarrow> 0 < pins s b \<Longrightarrow> ident s b n \<Longrightarrow> bnum C b s = n"
begin

text \<open>What every routine that only reads preserves.\<close>

definition same :: "'s \<Rightarrow> 's \<Rightarrow> bool" where
  "same s s' \<longleftrightarrow> inv s' \<and> disk s' = disk s \<and> pins s' = pins s
     \<and> (\<forall>c k. 0 < pins s c \<longrightarrow> ident s c k \<longrightarrow> ident s' c k)"

definition room :: "'s \<Rightarrow> nat \<Rightarrow> bool" where
  "room s k \<longleftrightarrow> (\<Sum>b<cap. pins s b) + k \<le> cap"

lemma same_refl: "inv s \<Longrightarrow> same s s"
  by (simp add: same_def)

lemma same_trans: "same s s' \<Longrightarrow> same s' s'' \<Longrightarrow> same s s''"
  by (simp add: same_def)

lemma same_inv: "same s s' \<Longrightarrow> inv s'" and same_disk: "same s s' \<Longrightarrow> disk s' = disk s"
  by (simp_all add: same_def)

lemma same_room: "same s s' \<Longrightarrow> room s' k = room s k"
  by (simp add: same_def room_def)

lemma room_get: "room s (Suc k) \<Longrightarrow> b < cap \<Longrightarrow> pins s' = (pins s)(b := Suc (pins s b)) \<Longrightarrow> room s' k"
proof -
  assume a: "room s (Suc k)" "b < cap" "pins s' = (pins s)(b := Suc (pins s b))"
  have "(\<Sum>c<cap. pins s' c) = (\<Sum>c<cap. pins s c) + 1"
    using a(2,3) by (simp add: sum.remove [of "{..<cap}" b])
  with a(1) show "room s' k" by (simp add: room_def)
qed

text \<open>Getting a block and later, in a state that differs only by reads, putting it back.\<close>

lemma get_block:
  assumes "inv s" "room s (Suc k)"
  obtains b s' where "bget C dev unit n s = Ok (0, b, s')" "b < cap" "inv s'" "disk s' = disk s" "room s' k"
    "ident s' b n" "0 < pins s' b" "\<And>i. i < 512 \<Longrightarrow> bdata C b s' i = disk s n ! i" "bnum C b s' = n"
    "\<And>t. same s' t \<Longrightarrow> \<exists>t'. bput C b t = Ok (0, t') \<and> same s t'"
    "\<And>t i. same s' t \<Longrightarrow> i < 512 \<Longrightarrow> bdata C b t i = disk s n ! i"
proof -
  have "(\<Sum>b<cap. pins s b) < cap" using assms(2) by (simp add: room_def)
  from get_ok [OF assms(1) this, of n] obtain b s' where g: "bget C dev unit n s = Ok (0, b, s')"
    "b < cap" "inv s'" "disk s' = disk s" "ident s' b n" "pins s' = (pins s)(b := Suc (pins s b))"
    "\<forall>c k. 0 < pins s c \<longrightarrow> ident s c k \<longrightarrow> ident s' c k" by auto
  have p: "0 < pins s' b" using g by simp
  have put: "\<exists>t'. bput C b t = Ok (0, t') \<and> same s t'" if t: "same s' t" for t
  proof -
    have "inv t" "0 < pins t b" using t p by (auto simp: same_def)
    from put_ok [OF this(1) g(2) this(2)] obtain t' where t': "bput C b t = Ok (0, t')" "inv t'"
      "disk t' = disk t" "pins t' = (pins t)(b := pins t b - 1)" "\<forall>c k. ident t c k \<longrightarrow> ident t' c k" by auto
    moreover have "ident t' c k" if "0 < pins s c" "ident s c k" for c k
    proof -
      have "ident s' c k" "0 < pins s' c" using that g by auto
      then show ?thesis using t t' by (auto simp: same_def)
    qed
    ultimately show ?thesis using t g by (auto simp: same_def)
  qed
  have dat: "bdata C b t i = disk s n ! i" if "same s' t" "i < 512" for t i
    using data_ok [of t b n i] that g p by (auto simp: same_def)
  show ?thesis
    by (rule that [OF g(1-4) room_get [OF assms(2) g(2,6)] g(5) p _ _ put dat])
      (use data_ok [OF g(3,2) p g(5)] num_ok [OF g(3,2) p g(5)] g(4) in auto)
qed

end

end
