(* ===== verification/BlkCache.thy ===== *)
theory BlkCache
  imports Memory BlkIf
begin

text \<open>
  \<open>kernel/blkcache.c\<close>: the cache of disk blocks. Blocks are numbered 0 to 31 (a block pointer is
  that number); \<open>cmem\<close> is the memory of the data buffers, block \<open>i\<close> owning the 512 bytes from
  \<open>512 * i\<close>. The drivers are a parameter: \<open>bdev d\<close> is what \<open>dev_getbdev(d)\<close> returns, a pair of
  functions on the state of the devices. A read gives its return value and the bytes it stored.
  The lock \<open>block_cs\<close> is its count; entering it when the count is not positive blocks for ever,
  since only the blocked caller could leave it (\<open>Hang\<close>).
\<close>

section \<open>State\<close>

definition MAX_BLOCK :: nat where "MAX_BLOCK = 32"
definition BLKSIZE :: nat where "BLKSIZE = 512"
definition INVALID_BLOCK :: u32 where "INVALID_BLOCK = - 1"

record block =
  b_next :: nat
  b_prev :: nat
  b_inuse :: int
  b_dirty :: bool
  b_dev :: int
  b_unit :: int
  b_blkno :: u32
  b_data :: nat

record bcstats =
  st_gets :: int
  st_puts :: int
  st_reads :: int
  st_writes :: int

record 'd bcache =
  blks :: "nat \<Rightarrow> block"
  blocklist :: nat
  cmem :: "nat \<Rightarrow> u8"
  bcs :: int
  bstats :: bcstats
  devst :: 'd

record 'd blkdev =
  bd_read :: "int \<Rightarrow> u32 \<Rightarrow> nat \<Rightarrow> 'd \<Rightarrow> int \<times> u8 list \<times> 'd"
  bd_write :: "int \<Rightarrow> u8 list \<Rightarrow> u32 \<Rightarrow> nat \<Rightarrow> 'd \<Rightarrow> int \<times> 'd"

definition bset :: "nat \<Rightarrow> (block \<Rightarrow> block) \<Rightarrow> 'd bcache \<Rightarrow> 'd bcache" where
  "bset b f s = s\<lparr>blks := (blks s)(b := f (blks s b))\<rparr>"

definition poke :: "nat \<Rightarrow> u8 list \<Rightarrow> (nat \<Rightarrow> u8) \<Rightarrow> nat \<Rightarrow> u8" where
  "poke a bs m = (\<lambda>i. if a \<le> i \<and> i < a + length bs then bs ! (i - a) else m i)"

definition peek :: "nat \<Rightarrow> nat \<Rightarrow> (nat \<Rightarrow> u8) \<Rightarrow> u8 list" where
  "peek a n m = map m [a..<a + n]"

definition cs_enter :: "'d bcache \<Rightarrow> 'd bcache res" where
  "cs_enter s = (if bcs s \<le> 0 then Hang else Ok (s\<lparr>bcs := bcs s - 1\<rparr>))"

definition cs_leave :: "'d bcache \<Rightarrow> 'd bcache" where
  "cs_leave s = s\<lparr>bcs := bcs s + 1\<rparr>"

section \<open>Initialisation\<close>

definition bc_init_block :: "nat \<Rightarrow> 'd bcache \<times> bool \<Rightarrow> 'd bcache \<times> bool" where
  "bc_init_block i = (\<lambda>(s, started).
     let s1 = bset i (\<lambda>b. b\<lparr>b_data := i * BLKSIZE, b_inuse := 0, b_dirty := False, b_dev := - 1,
                           b_unit := - 1, b_blkno := 0\<rparr>) s
     in if \<not> started then ((bset i (\<lambda>b. b\<lparr>b_prev := i, b_next := i\<rparr>) s1)\<lparr>blocklist := i\<rparr>, True)
        else (let h = blocklist s1;
                  s2 = bset i (\<lambda>b. b\<lparr>b_prev := h\<rparr>) s1;
                  s3 = bset i (\<lambda>b. b\<lparr>b_next := b_next (blks s2 h)\<rparr>) s2;
                  s4 = bset (b_next (blks s3 h)) (\<lambda>b. b\<lparr>b_prev := i\<rparr>) s3
              in (bset h (\<lambda>b. b\<lparr>b_next := i\<rparr>) s4, True)))"

text \<open>The buffers are 16384 bytes, the block headers 32 times 24 bytes; both come from \<open>kmalloc\<close>.\<close>

definition bc_init :: "kmem \<Rightarrow> 'd bcache \<Rightarrow> (kmem \<times> 'd bcache) res" where
  "bc_init m s =
     bind_res (kmalloc 16384 m) (\<lambda>(cache, m1).
     bind_res (kmalloc 768 m1) (\<lambda>(hdrs, m2).
       if cache = far_null \<or> hdrs = far_null then Panic
       else Ok (m2, (fst (fold bc_init_block [0..<MAX_BLOCK] (s, False)))\<lparr>bcs := 1\<rparr>)))"

section \<open>Getting and putting blocks\<close>

text \<open>The walk round the list: the block that matches, or the first one that is not in use.\<close>

partial_function (option) bc_scan ::
  "(nat \<Rightarrow> block) \<Rightarrow> int \<Rightarrow> int \<Rightarrow> u32 \<Rightarrow> nat \<Rightarrow> nat \<Rightarrow> nat option \<Rightarrow> (nat + nat option) option" where
  "bc_scan m dev unit blkno head b cand =
     (if b_dev (m b) = dev \<and> b_unit (m b) = unit \<and> b_blkno (m b) = blkno then Some (Inl b)
      else (let cand' = (if cand = None \<and> b_inuse (m b) = 0 then Some b else cand)
            in if b_next (m b) \<noteq> head then bc_scan m dev unit blkno head (b_next (m b)) cand'
               else Some (Inr cand')))"

text \<open>The return code and the block that \<open>*block\<close> is left with.\<close>

definition bc_get ::
  "(int \<Rightarrow> 'd blkdev) \<Rightarrow> int \<Rightarrow> int \<Rightarrow> u32 \<Rightarrow> 'd bcache \<Rightarrow> (int \<times> nat \<times> 'd bcache) res" where
  "bc_get bdev dev unit blkno s =
     bind_res (cs_enter s) (\<lambda>s0.
     let s1 = s0\<lparr>bstats := (bstats s0)\<lparr>st_gets := st_gets (bstats s0) + 1\<rparr>\<rparr>
     in bind_res (of_loop (bc_scan (blks s1) dev unit blkno (blocklist s1) (blocklist s1) None)) (\<lambda>r.
        case r of
          Inl b \<Rightarrow> Ok (0, b, cs_leave (bset b (\<lambda>x. x\<lparr>b_inuse := b_inuse x + 1\<rparr>) s1))
        | Inr None \<Rightarrow> Panic
        | Inr (Some b) \<Rightarrow>
            (let s2 = s1\<lparr>blocklist := b_next (blks s1 b)\<rparr>;
                 s3 = bset b (\<lambda>x. x\<lparr>b_dev := dev, b_unit := unit, b_blkno := blkno\<rparr>) s2;
                 s4 = s3\<lparr>bstats := (bstats s3)\<lparr>st_reads := st_reads (bstats s3) + 1\<rparr>\<rparr>;
                 (rc, bytes, d) = bd_read (bdev dev) unit blkno BLKSIZE (devst s4);
                 s5 = s4\<lparr>devst := d, cmem := poke (b_data (blks s4 b)) bytes (cmem s4)\<rparr>
             in if rc \<noteq> int BLKSIZE then Ok (rc, b, cs_leave s5)
                else (let s6 = bset b (\<lambda>x. x\<lparr>b_inuse := b_inuse x + 1\<rparr>) s5
                      in Ok (0, b, cs_leave (s6\<lparr>blocklist := b_next (blks s6 b)\<rparr>))))))"

text \<open>Is the block on the list? The walk ends at the block or back at the head.\<close>

partial_function (option) bc_locate :: "(nat \<Rightarrow> block) \<Rightarrow> nat \<Rightarrow> nat \<Rightarrow> nat \<Rightarrow> nat option" where
  "bc_locate m blk head b =
     (if b = blk then Some b
      else if b_next (m b) \<noteq> head then bc_locate m blk head (b_next (m b))
      else Some head)"

definition bc_put :: "(int \<Rightarrow> 'd blkdev) \<Rightarrow> nat \<Rightarrow> 'd bcache \<Rightarrow> (int \<times> 'd bcache) res" where
  "bc_put bdev blk s =
     bind_res (cs_enter s) (\<lambda>s0.
     let s1 = s0\<lparr>bstats := (bstats s0)\<lparr>st_puts := st_puts (bstats s0) + 1\<rparr>\<rparr>
     in bind_res (of_loop (bc_locate (blks s1) blk (blocklist s1) (blocklist s1))) (\<lambda>b.
        if b \<noteq> blk \<or> b_inuse (blks s1 b) = 0 then Panic
        else (let s2 = bset b (\<lambda>x. x\<lparr>b_inuse := b_inuse x - 1\<rparr>) s1
              in if b_inuse (blks s2 b) = 0 \<and> b_dirty (blks s2 b)
                 then (let s3 = s2\<lparr>bstats := (bstats s2)\<lparr>st_writes := st_writes (bstats s2) + 1\<rparr>\<rparr>;
                           x = blks s3 b;
                           (rc, d) = bd_write (bdev (b_dev x)) (b_unit x) (peek (b_data x) BLKSIZE (cmem s3))
                                       (b_blkno x) BLKSIZE (devst s3);
                           s4 = s3\<lparr>devst := d\<rparr>
                       in if rc \<noteq> 0 then Ok (rc, cs_leave s4)
                          else Ok (0, cs_leave (bset b (\<lambda>x. x\<lparr>b_dirty := False\<rparr>) s4)))
                 else Ok (0, cs_leave s2))))"

definition bc_get_stats :: "'d bcache \<Rightarrow> bcstats" where
  "bc_get_stats s = bstats s"

section \<open>Reading past the cache\<close>

partial_function (option) bc_lookup :: "(nat \<Rightarrow> block) \<Rightarrow> int \<Rightarrow> int \<Rightarrow> u32 \<Rightarrow> nat \<Rightarrow> nat \<Rightarrow> nat option option" where
  "bc_lookup m dev unit blkno head b =
     (if b_dev (m b) = dev \<and> b_unit (m b) = unit \<and> b_blkno (m b) = blkno then Some (Some b)
      else if b_next (m b) \<noteq> head then bc_lookup m dev unit blkno head (b_next (m b))
      else Some None)"

text \<open>When the block is cached the lock is not left.\<close>

definition bc_cache_get :: "int \<Rightarrow> int \<Rightarrow> u32 \<Rightarrow> 'd bcache \<Rightarrow> (nat option \<times> 'd bcache) res" where
  "bc_cache_get dev unit blkno s =
     bind_res (cs_enter s) (\<lambda>s1.
     bind_res (of_loop (bc_lookup (blks s1) dev unit blkno (blocklist s1) (blocklist s1))) (\<lambda>r.
       case r of
         Some b \<Rightarrow> Ok (Some b, bset b (\<lambda>x. x\<lparr>b_inuse := b_inuse x + 1\<rparr>) s1)
       | None \<Rightarrow> Ok (None, cs_leave s1)))"

text \<open>\<open>out\<close> collects the bytes stored at \<open>data\<close>.\<close>

partial_function (option) bc_device_read_loop ::
  "'d blkdev \<Rightarrow> int \<Rightarrow> u32 \<Rightarrow> int \<Rightarrow> u8 list \<Rightarrow> 'd \<Rightarrow> (int \<times> u8 list \<times> 'd) option" where
  "bc_device_read_loop dv unit start n out d =
     (if n = 0 then Some (0, out, d)
      else (case bd_read dv unit start (nat (n * int BLKSIZE)) d of
              (bytes, bs, d') \<Rightarrow>
                if bytes < 0 then Some (bytes, out @ bs, d')
                else if bytes = 0 then Some (- EIO, out @ bs, d')
                else bc_device_read_loop dv unit (start + of_int (bytes div int BLKSIZE)) (n - bytes div int BLKSIZE)
                       (out @ bs) d'))"

definition bc_device_read ::
  "(int \<Rightarrow> 'd blkdev) \<Rightarrow> int \<Rightarrow> int \<Rightarrow> u32 \<Rightarrow> int \<Rightarrow> 'd bcache \<Rightarrow> (int \<times> u8 list \<times> 'd bcache) res" where
  "bc_device_read bdev dev unit start n s =
     bind_res (of_loop (bc_device_read_loop (bdev dev) unit start n [] (devst s)))
       (\<lambda>(rc, out, d). Ok (rc, out, s\<lparr>devst := d\<rparr>))"

text \<open>
  \<open>bc_read\<close>: \<open>n\<close> rounds of its loop remain; \<open>start\<close>, \<open>blkno\<close> and \<open>rc\<close> are its variables, \<open>out\<close>
  the bytes stored at \<open>data\<close>, and \<open>self\<close> is the recursive call. The block number only
  advances past a cached block, together with \<open>start\<close>.
\<close>

fun bc_read_loop ::
  "(u32 \<Rightarrow> nat \<Rightarrow> 'd bcache \<Rightarrow> (int \<times> u8 list \<times> 'd bcache) res) \<Rightarrow> (int \<Rightarrow> 'd blkdev) \<Rightarrow> int \<Rightarrow> int \<Rightarrow>
   nat \<Rightarrow> u32 \<Rightarrow> u32 \<Rightarrow> int \<Rightarrow> u8 list \<Rightarrow> 'd bcache \<Rightarrow> (int \<times> u8 list \<times> 'd bcache) res" where
  "bc_read_loop self bdev dev unit 0 start blkno rc out s =
     (if start < blkno
      then bind_res (self start (unat (blkno - start)) s) (\<lambda>(rc1, o1, s1). Ok (rc1, out @ o1, s1))
      else Ok (rc, out, s))"
| "bc_read_loop self bdev dev unit (Suc n) start blkno rc out s =
     bind_res (bc_cache_get dev unit blkno s) (\<lambda>(r, s1).
       case r of
         None \<Rightarrow> bc_read_loop self bdev dev unit n start blkno rc out s1
       | Some b \<Rightarrow>
           bind_res (if start < blkno then self start (unat (blkno - start)) s1 else Ok (0, [], s1))
             (\<lambda>(rc1, o1, s2).
             if rc1 \<noteq> 0 then bind_res (bc_put bdev b s2) (\<lambda>(_, s3). Ok (rc1, out @ o1, s3))
             else (let out' = out @ o1 @ peek (b_data (blks s2 b)) BLKSIZE (cmem s2)
                   in bind_res (bc_put bdev b s2) (\<lambda>(rc2, s3).
                      if rc2 < 0 then Ok (rc2, out', s3)
                      else bc_read_loop self bdev dev unit n (blkno + 1) (blkno + 1) rc2 out' s3))))"

text \<open>\<open>k\<close> bounds the depth of the recursion; one level is enough (\<open>bc_read_fuel_any\<close>).\<close>

fun bc_read_fuel ::
  "nat \<Rightarrow> (int \<Rightarrow> 'd blkdev) \<Rightarrow> int \<Rightarrow> int \<Rightarrow> u32 \<Rightarrow> nat \<Rightarrow> 'd bcache \<Rightarrow> (int \<times> u8 list \<times> 'd bcache) res" where
  "bc_read_fuel 0 bdev dev unit blkno n s = Hang"
| "bc_read_fuel (Suc k) bdev dev unit blkno n s =
     bc_read_loop (bc_read_fuel k bdev dev unit) bdev dev unit n blkno blkno 0 [] s"

definition bc_read ::
  "(int \<Rightarrow> 'd blkdev) \<Rightarrow> int \<Rightarrow> int \<Rightarrow> u32 \<Rightarrow> nat \<Rightarrow> 'd bcache \<Rightarrow> (int \<times> u8 list \<times> 'd bcache) res" where
  "bc_read bdev dev unit blkno n s = bc_read_fuel 1 bdev dev unit blkno n s"

section \<open>The ring of blocks\<close>

fun bseg :: "(nat \<Rightarrow> block) \<Rightarrow> nat list \<Rightarrow> bool" where
  "bseg m (x # y # w) = (b_next (m x) = y \<and> bseg m (y # w))"
| "bseg m _ = True"

definition ring :: "(nat \<Rightarrow> block) \<Rightarrow> nat \<Rightarrow> nat list \<Rightarrow> bool" where
  "ring m h xs \<longleftrightarrow> xs \<noteq> [] \<and> hd xs = h \<and> distinct xs \<and> bseg m (xs @ [h])"

lemma bseg_append: "bseg m (xs @ y # ys) \<longleftrightarrow> bseg m (xs @ [y]) \<and> bseg m (y # ys)"
proof (induction xs)
  case (Cons x xs)
  then show ?case by (cases xs) auto
qed simp

lemma bseg_frame: "(\<And>x. x \<in> set (butlast w) \<Longrightarrow> b_next (m' x) = b_next (m x)) \<Longrightarrow> bseg m' w = bseg m w"
  by (induction m w rule: bseg.induct) auto

lemma ring_frame: "(\<And>x. b_next (m' x) = b_next (m x)) \<Longrightarrow> ring m' h xs = ring m h xs"
  using bseg_frame [of _ m' m] by (simp only: ring_def)

lemma ring_next:
  assumes "ring m h xs" "b \<in> set xs"
  shows "\<exists>ys. ring m (b_next (m b)) ys \<and> set ys = set xs"
proof -
  from assms obtain us vs where sp: "xs = us @ b # vs" by (meson split_list)
  have s: "bseg m (us @ b # vs @ [h])" "distinct (us @ b # vs)" "h = hd (us @ [b])"
    using assms sp by (auto simp: ring_def hd_append)
  show ?thesis
  proof (cases vs)
    case Nil
    then have "bseg m (us @ [b] @ [h])" using s by simp
    then have "b_next (m b) = h" using bseg_append [of m us b "[h]"] by simp
    then show ?thesis using assms(1) by blast
  next
    case (Cons v ws)
    have a: "bseg m (us @ [b])" "bseg m (b # vs @ [h])" using s(1) bseg_append [of m us b "vs @ [h]"] by auto
    then have n: "b_next (m b) = v" using Cons by simp
    have h: "us @ [b] = h # tl (us @ [b])" using s(3) by (cases us) auto
    have "bseg m (v # ws @ [h])" using a(2) Cons by simp
    then have "bseg m ((vs @ [h]) @ tl (us @ [b]))"
      using bseg_append [of m vs h "tl (us @ [b])"] a(1) h Cons by simp
    moreover have "(vs @ [h]) @ tl (us @ [b]) = vs @ us @ [b]" using h by simp
    ultimately have "bseg m (vs @ us @ [b])" by (simp only:)
    then have "bseg m ((vs @ us) @ b # [v])" using bseg_append [of m "vs @ us" b "[v]"] n by simp
    then have "ring m v (vs @ us @ [b])" using s(2) Cons by (auto simp: ring_def)
    then show ?thesis using n sp by (intro exI [of _ "vs @ us @ [b]"]) auto
  qed
qed

definition bmatch :: "(nat \<Rightarrow> block) \<Rightarrow> int \<Rightarrow> int \<Rightarrow> u32 \<Rightarrow> nat \<Rightarrow> bool" where
  "bmatch m dev unit n b \<longleftrightarrow> b_dev (m b) = dev \<and> b_unit (m b) = unit \<and> b_blkno (m b) = n"

definition bfree :: "(nat \<Rightarrow> block) \<Rightarrow> nat \<Rightarrow> bool" where
  "bfree m b \<longleftrightarrow> b_inuse (m b) = 0"

lemma scan_walk:
  "bseg m (y # ys @ [h]) \<Longrightarrow> h \<notin> set ys \<Longrightarrow>
   bc_scan m dev unit n h y cand = Some (case find (bmatch m dev unit n) (y # ys) of
      Some b \<Rightarrow> Inl b | None \<Rightarrow> Inr (if cand = None then find (bfree m) (y # ys) else cand))"
proof (induction ys arbitrary: y cand)
  case Nil
  then show ?case by (subst bc_scan.simps) (auto simp: bmatch_def bfree_def Let_def)
next
  case (Cons z zs)
  then have ih: "bc_scan m dev unit n h z c = Some (case find (bmatch m dev unit n) (z # zs) of
      Some b \<Rightarrow> Inl b | None \<Rightarrow> Inr (if c = None then find (bfree m) (z # zs) else c))" for c
    by simp
  have z: "b_next (m y) = z" "z \<noteq> h" using Cons.prems by auto
  show ?case
    by (subst bc_scan.simps) (auto simp: z ih bmatch_def bfree_def Let_def split: option.splits)
qed

lemma scan_ring:
  assumes "ring m h xs"
  shows "bc_scan m dev unit n h h None = Some (case find (bmatch m dev unit n) xs of
    Some b \<Rightarrow> Inl b | None \<Rightarrow> Inr (find (bfree m) xs))"
proof -
  obtain ys where "xs = h # ys" "h \<notin> set ys" "bseg m (h # ys @ [h])"
    using assms by (cases xs) (auto simp: ring_def)
  with scan_walk [of m h ys h dev unit n None] show ?thesis by (simp split: option.split)
qed

lemma locate_walk:
  "bseg m (y # ys @ [h]) \<Longrightarrow> h \<notin> set ys \<Longrightarrow>
   bc_locate m b h y = Some (if b \<in> set (y # ys) then b else h)"
proof (induction ys arbitrary: y)
  case Nil
  then show ?case by (subst bc_locate.simps) auto
next
  case (Cons z zs)
  then have "bc_locate m b h z = Some (if b \<in> set (z # zs) then b else h)" by simp
  with Cons.prems show ?case by (subst bc_locate.simps) auto
qed

lemma locate_ring:
  assumes "ring m h xs" shows "bc_locate m b h h = Some (if b \<in> set xs then b else h)"
proof -
  obtain ys where "xs = h # ys" "h \<notin> set ys" "bseg m (h # ys @ [h])"
    using assms by (cases xs) (auto simp: ring_def)
  with locate_walk [of m h ys h b] show ?thesis by simp
qed

lemma lookup_walk:
  "bseg m (y # ys @ [h]) \<Longrightarrow> h \<notin> set ys \<Longrightarrow>
   bc_lookup m dev unit n h y = Some (find (bmatch m dev unit n) (y # ys))"
proof (induction ys arbitrary: y)
  case Nil
  then show ?case by (subst bc_lookup.simps) (auto simp: bmatch_def)
next
  case (Cons z zs)
  then have "bc_lookup m dev unit n h z = Some (find (bmatch m dev unit n) (z # zs))" by simp
  with Cons.prems show ?case by (subst bc_lookup.simps) (auto simp: bmatch_def)
qed

lemma lookup_ring:
  assumes "ring m h xs" shows "bc_lookup m dev unit n h h = Some (find (bmatch m dev unit n) xs)"
proof -
  obtain ys where "xs = h # ys" "h \<notin> set ys" "bseg m (h # ys @ [h])"
    using assms by (cases xs) (auto simp: ring_def)
  with lookup_walk [of m h ys h dev unit n] show ?thesis by simp
qed

section \<open>The invariant\<close>

text \<open>The ring links all blocks, each owns its buffer, no reference count is negative, no two blocks
  hold the same block of a device (the unused ones have device -1), and the lock is free.\<close>

definition bc_ok :: "'d bcache \<Rightarrow> bool" where
  "bc_ok s \<longleftrightarrow> (\<exists>xs. ring (blks s) (blocklist s) xs \<and> set xs = {..<MAX_BLOCK})
     \<and> (\<forall>b < MAX_BLOCK. b_data (blks s b) = BLKSIZE * b \<and> 0 \<le> b_inuse (blks s b))
     \<and> (\<forall>b < MAX_BLOCK. \<forall>c < MAX_BLOCK. b_dev (blks s b) \<noteq> - 1 \<longrightarrow>
          bmatch (blks s) (b_dev (blks s b)) (b_unit (blks s b)) (b_blkno (blks s b)) c \<longrightarrow> b = c)
     \<and> 0 < bcs s"

definition bc_clean :: "'d bcache \<Rightarrow> bool" where
  "bc_clean s \<longleftrightarrow> (\<forall>b < MAX_BLOCK. \<not> b_dirty (blks s b))"

lemma bset_simps [simp]:
  "blks (bset b f s) = (blks s)(b := f (blks s b))" "blocklist (bset b f s) = blocklist s"
  "cmem (bset b f s) = cmem s" "bcs (bset b f s) = bcs s" "devst (bset b f s) = devst s"
  "bstats (bset b f s) = bstats s"
  by (simp_all add: bset_def)

lemma cs_leave_simps [simp]:
  "blks (cs_leave s) = blks s" "blocklist (cs_leave s) = blocklist s" "cmem (cs_leave s) = cmem s"
  "bcs (cs_leave s) = bcs s + 1" "devst (cs_leave s) = devst s"
  by (simp_all add: cs_leave_def)

lemma bc_okD:
  assumes "bc_ok s"
  obtains xs where "ring (blks s) (blocklist s) xs" "set xs = {..<MAX_BLOCK}" "0 < bcs s"
    "\<And>b. b < MAX_BLOCK \<Longrightarrow> b_data (blks s b) = BLKSIZE * b \<and> 0 \<le> b_inuse (blks s b)"
    "\<And>dev unit n b c. dev \<noteq> - 1 \<Longrightarrow> b < MAX_BLOCK \<Longrightarrow> c < MAX_BLOCK \<Longrightarrow>
       bmatch (blks s) dev unit n b \<Longrightarrow> bmatch (blks s) dev unit n c \<Longrightarrow> b = c"
proof -
  from assms obtain xs where x: "ring (blks s) (blocklist s) xs" "set xs = {..<MAX_BLOCK}"
    unfolding bc_ok_def by blast
  have u: "b = c" if "dev \<noteq> - 1" "b < MAX_BLOCK" "c < MAX_BLOCK" "bmatch (blks s) dev unit n b"
    "bmatch (blks s) dev unit n c" for dev unit n b c
    using assms that unfolding bc_ok_def by (simp add: bmatch_def)
  show thesis using assms by (intro that [OF x _ _ u]) (simp_all add: bc_ok_def)
qed

text \<open>The state after a hit, and after a read into block \<open>b\<close>.\<close>

definition got_hit :: "nat \<Rightarrow> 'd bcache \<Rightarrow> 'd bcache" where
  "got_hit b s = (bset b (\<lambda>x. x\<lparr>b_inuse := b_inuse x + 1\<rparr>) s)
     \<lparr>bstats := (bstats s)\<lparr>st_gets := st_gets (bstats s) + 1\<rparr>\<rparr>"

lemma get_hit:
  assumes "bc_ok s" "dev \<noteq> - 1" "b < MAX_BLOCK" "bmatch (blks s) dev unit n b"
  shows "bc_get bdev dev unit n s = Ok (0, b, got_hit b s)"
proof -
  obtain xs where x: "ring (blks s) (blocklist s) xs" "set xs = {..<MAX_BLOCK}" "0 < bcs s"
    "\<And>dev unit n b c. dev \<noteq> - 1 \<Longrightarrow> b < MAX_BLOCK \<Longrightarrow> c < MAX_BLOCK \<Longrightarrow>
       bmatch (blks s) dev unit n b \<Longrightarrow> bmatch (blks s) dev unit n c \<Longrightarrow> b = c"
    using assms(1) by (rule bc_okD) blast
  have "find (bmatch (blks s) dev unit n) xs = Some b"
  proof (cases "find (bmatch (blks s) dev unit n) xs")
    case None
    then show ?thesis using assms(3,4) x(2) by (auto simp: find_None_iff)
  next
    case (Some c)
    then have "bmatch (blks s) dev unit n c" "c \<in> set xs" by (auto simp: find_Some_iff)
    with x(2,4) assms(2-4) Some show ?thesis by auto
  qed
  then show ?thesis using x(3) scan_ring [OF x(1), of dev unit n]
    by (simp add: bc_get_def cs_enter_def got_hit_def Let_def cs_leave_def bset_def)
qed

definition got_miss :: "int \<Rightarrow> int \<Rightarrow> u32 \<Rightarrow> int \<Rightarrow> u8 list \<Rightarrow> 'd \<Rightarrow> nat \<Rightarrow> 'd bcache \<Rightarrow> 'd bcache" where
  "got_miss dev unit n rc bytes d b s =
     s\<lparr>blks := (blks s)(b := (blks s b)\<lparr>b_dev := dev, b_unit := unit, b_blkno := n,
          b_inuse := b_inuse (blks s b) + (if rc = int BLKSIZE then 1 else 0)\<rparr>),
       blocklist := b_next (blks s b), cmem := poke (b_data (blks s b)) bytes (cmem s), devst := d,
       bstats := (bstats s)\<lparr>st_gets := st_gets (bstats s) + 1, st_reads := st_reads (bstats s) + 1\<rparr>\<rparr>"

lemma get_miss:
  assumes "bc_ok s" "\<And>b. b < MAX_BLOCK \<Longrightarrow> \<not> bmatch (blks s) dev unit n b"
    and "c < MAX_BLOCK" "b_inuse (blks s c) = 0" "bd_read (bdev dev) unit n BLKSIZE (devst s) = (rc, bytes, d)"
  shows "\<exists>b < MAX_BLOCK. b_inuse (blks s b) = 0 \<and>
    bc_get bdev dev unit n s = Ok (if rc = int BLKSIZE then 0 else rc, b, got_miss dev unit n rc bytes d b s)"
proof -
  obtain xs where x: "ring (blks s) (blocklist s) xs" "set xs = {..<MAX_BLOCK}" "0 < bcs s"
    using assms(1) by (rule bc_okD) blast
  have f: "find (bmatch (blks s) dev unit n) xs = None" using assms(2) x(2) by (auto simp: find_None_iff)
  obtain b where b: "find (bfree (blks s)) xs = Some b"
    using assms(3,4) x(2) by (cases "find (bfree (blks s)) xs") (auto simp: find_None_iff bfree_def)
  then have "b \<in> set xs" "bfree (blks s) b" by (auto simp: find_Some_iff)
  then have bb: "b < MAX_BLOCK" "b_inuse (blks s b) = 0" using x(2) by (auto simp: bfree_def)
  have "bc_get bdev dev unit n s = Ok (if rc = int BLKSIZE then 0 else rc, b, got_miss dev unit n rc bytes d b s)"
    using x(3) scan_ring [OF x(1), of dev unit n] f b assms(5)
    by (simp add: bc_get_def cs_enter_def got_miss_def Let_def cs_leave_def bset_def)
  with bb show ?thesis by blast
qed

lemma get_full:
  assumes "bc_ok s" "\<And>b. b < MAX_BLOCK \<Longrightarrow> \<not> bmatch (blks s) dev unit n b"
    "\<And>b. b < MAX_BLOCK \<Longrightarrow> b_inuse (blks s b) \<noteq> 0"
  shows "bc_get bdev dev unit n s = Panic"
proof -
  obtain xs where x: "ring (blks s) (blocklist s) xs" "set xs = {..<MAX_BLOCK}" "0 < bcs s"
    using assms(1) by (rule bc_okD) blast
  have "find (bmatch (blks s) dev unit n) xs = None" "find (bfree (blks s)) xs = None"
    using assms(2,3) x(2) by (auto simp: find_None_iff bfree_def)
  with x(3) scan_ring [OF x(1), of dev unit n] show ?thesis
    by (simp add: bc_get_def cs_enter_def Let_def)
qed

lemma got_hit_ok: "bc_ok s \<Longrightarrow> bc_ok (got_hit b s)"
proof -
  assume a: "bc_ok s"
  have "ring (blks (got_hit b s)) h xs = ring (blks s) h xs" for h xs
    by (rule ring_frame) (simp add: got_hit_def)
  moreover have "bmatch (blks (got_hit b s)) d u n c = bmatch (blks s) d u n c" for d u n c
    by (simp add: bmatch_def got_hit_def)
  ultimately show ?thesis using a by (simp add: bc_ok_def) (simp add: got_hit_def)
qed

lemma got_miss_ok:
  assumes "bc_ok s" "b < MAX_BLOCK" "\<And>b. b < MAX_BLOCK \<Longrightarrow> \<not> bmatch (blks s) dev unit n b"
  shows "bc_ok (got_miss dev unit n rc bytes d b s)"
proof -
  let ?s = "got_miss dev unit n rc bytes d b s"
  obtain xs where x: "ring (blks s) (blocklist s) xs" "set xs = {..<MAX_BLOCK}"
    using assms(1) by (rule bc_okD) blast
  have fr: "ring (blks ?s) h ys = ring (blks s) h ys" for h ys
    by (rule ring_frame) (simp add: got_miss_def)
  obtain ys where "ring (blks s) (b_next (blks s b)) ys" "set ys = {..<MAX_BLOCK}"
    using ring_next [OF x(1), of b] x(2) assms(2) by auto
  then have "ring (blks ?s) (blocklist ?s) ys" "set ys = {..<MAX_BLOCK}"
    unfolding fr by (simp_all add: got_miss_def)
  moreover have "p = q" if "p < MAX_BLOCK" "q < MAX_BLOCK" "b_dev (blks ?s p) \<noteq> - 1"
    "bmatch (blks ?s) (b_dev (blks ?s p)) (b_unit (blks ?s p)) (b_blkno (blks ?s p)) q" for p q
    using assms(1) assms(3) [OF that(1)] assms(3) [OF that(2)] that
    by (auto simp: got_miss_def bmatch_def bc_ok_def split: if_splits)
  moreover have "b_data (blks ?s p) = BLKSIZE * p \<and> 0 \<le> b_inuse (blks ?s p)" if "p < MAX_BLOCK" for p
    using assms(1) that by (auto simp: got_miss_def bc_ok_def)
  moreover have "0 < bcs ?s" using assms(1) by (simp add: got_miss_def bc_ok_def)
  ultimately show ?thesis unfolding bc_ok_def by blast
qed


text \<open>The state after a reference is given back, and after a block is written.\<close>

definition put_ref :: "nat \<Rightarrow> 'd bcache \<Rightarrow> 'd bcache" where
  "put_ref b s = (bset b (\<lambda>x. x\<lparr>b_inuse := b_inuse x - 1\<rparr>) s)
     \<lparr>bstats := (bstats s)\<lparr>st_puts := st_puts (bstats s) + 1\<rparr>\<rparr>"

definition put_written :: "nat \<Rightarrow> int \<Rightarrow> 'd \<Rightarrow> 'd bcache \<Rightarrow> 'd bcache" where
  "put_written b rc d s =
     (bset b (\<lambda>x. x\<lparr>b_inuse := 0, b_dirty := (b_dirty x \<and> rc \<noteq> 0)\<rparr>) s)
       \<lparr>bstats := (bstats s)\<lparr>st_puts := st_puts (bstats s) + 1, st_writes := st_writes (bstats s) + 1\<rparr>, devst := d\<rparr>"

lemma put_invalid:
  assumes "bc_ok s" "\<not> (b < MAX_BLOCK \<and> b_inuse (blks s b) \<noteq> 0)"
  shows "bc_put bdev b s = Panic"
proof -
  obtain xs where x: "ring (blks s) (blocklist s) xs" "set xs = {..<MAX_BLOCK}" "0 < bcs s"
    using assms(1) by (rule bc_okD) blast
  have "blocklist s \<in> set xs" using x(1) hd_in_set [of xs] by (simp add: ring_def)
  with assms(2) x(2,3) locate_ring [OF x(1), of b] show ?thesis
    by (auto simp: bc_put_def cs_enter_def Let_def)
qed

lemma dirty_upd: "b_dirty x \<Longrightarrow> x\<lparr>b_inuse := k, b_dirty := True\<rparr> = x\<lparr>b_inuse := k\<rparr>" for x :: block
  by (cases x) simp

lemma put_valid:
  assumes "bc_ok s" "b < MAX_BLOCK" "b_inuse (blks s b) \<noteq> 0"
  shows "bc_put bdev b s =
    (if b_inuse (blks s b) = 1 \<and> b_dirty (blks s b)
     then (let (rc, d) = bd_write (bdev (b_dev (blks s b))) (b_unit (blks s b)) (peek (BLKSIZE * b) BLKSIZE (cmem s))
                           (b_blkno (blks s b)) BLKSIZE (devst s)
           in Ok (rc, put_written b rc d s))
     else Ok (0, put_ref b s))"
proof -
  obtain xs where x: "ring (blks s) (blocklist s) xs" "set xs = {..<MAX_BLOCK}" "0 < bcs s"
    using assms(1) by (rule bc_okD) blast
  have d: "b_data (blks s b) = BLKSIZE * b" using assms(1,2) by (simp add: bc_ok_def)
  have "b \<in> set xs" using x(2) assms(2) by simp
  with x(3) locate_ring [OF x(1), of b] assms(3) d show ?thesis
    by (auto simp: dirty_upd bc_put_def cs_enter_def cs_leave_def Let_def put_ref_def put_written_def bset_def
        split: prod.splits)
qed

lemma bc_ok_frame:
  assumes "bc_ok s" "\<And>x. b_next (blks s' x) = b_next (blks s x)" "\<And>x. b_data (blks s' x) = b_data (blks s x)"
    "\<And>d u n x. bmatch (blks s') d u n x = bmatch (blks s) d u n x" "\<And>x. b_dev (blks s' x) = b_dev (blks s x)"
    "\<And>x. b_unit (blks s' x) = b_unit (blks s x)" "\<And>x. b_blkno (blks s' x) = b_blkno (blks s x)"
    "\<And>x. x < MAX_BLOCK \<Longrightarrow> 0 \<le> b_inuse (blks s' x)" "blocklist s' = blocklist s" "bcs s' = bcs s"
  shows "bc_ok s'"
proof -
  have "ring (blks s') h xs = ring (blks s) h xs" for h xs by (rule ring_frame) (rule assms(2))
  then show ?thesis using assms(1,8) by (simp add: bc_ok_def assms(3-7,9,10))
qed

lemma put_ref_ok: "bc_ok s \<Longrightarrow> b < MAX_BLOCK \<Longrightarrow> b_inuse (blks s b) \<noteq> 0 \<Longrightarrow> bc_ok (put_ref b s)"
  by (rule bc_ok_frame) (auto simp: put_ref_def bmatch_def bc_ok_def)

lemma put_written_ok: "bc_ok s \<Longrightarrow> bc_ok (put_written b rc d s)"
  by (rule bc_ok_frame) (auto simp: put_written_def bmatch_def bc_ok_def)

text \<open>Property C4. \<open>bc_put\<close> panics exactly on a block nobody holds; otherwise it gives the reference back,
  and writes the block to its device exactly when that was the last reference to a changed block.
  The block is clean afterwards only if the driver returned 0, whose value is passed on.\<close>

theorem bc_put_correct:
  assumes "bc_ok s"
  shows "if b < MAX_BLOCK \<and> b_inuse (blks s b) \<noteq> 0
    then \<exists>rc s'. bc_put bdev b s = Ok (rc, s') \<and> bc_ok s' \<and> b_inuse (blks s' b) = b_inuse (blks s b) - 1
      \<and> (if b_inuse (blks s b) = 1 \<and> b_dirty (blks s b)
         then (rc, devst s') = bd_write (bdev (b_dev (blks s b))) (b_unit (blks s b)) (peek (BLKSIZE * b) BLKSIZE (cmem s))
                                 (b_blkno (blks s b)) BLKSIZE (devst s)
              \<and> b_dirty (blks s' b) = (rc \<noteq> 0)
         else rc = 0 \<and> devst s' = devst s \<and> b_dirty (blks s' b) = b_dirty (blks s b))
      \<and> cmem s' = cmem s \<and> (\<forall>c. c \<noteq> b \<longrightarrow> blks s' c = blks s c)
    else bc_put bdev b s = Panic"
proof (cases "b < MAX_BLOCK \<and> b_inuse (blks s b) \<noteq> 0")
  case False
  with put_invalid [OF assms] show ?thesis by auto
next
  case True
  then have t: "b < MAX_BLOCK" "b_inuse (blks s b) \<noteq> 0" by auto
  show ?thesis
  proof (cases "b_inuse (blks s b) = 1 \<and> b_dirty (blks s b)")
    case w: True
    obtain rc d where d: "bd_write (bdev (b_dev (blks s b))) (b_unit (blks s b)) (peek (BLKSIZE * b) BLKSIZE (cmem s))
                                 (b_blkno (blks s b)) BLKSIZE (devst s) = (rc, d)" by fastforce
    show ?thesis unfolding if_P [OF True] if_P [OF w]
      using put_valid [OF assms t, of bdev] put_written_ok [OF assms, of b rc d] w d
      by (intro exI [of _ rc] exI [of _ "put_written b rc d s"]) (auto simp: put_written_def)
  next
    case w: False
    show ?thesis unfolding if_P [OF True] if_not_P [OF w]
      using put_valid [OF assms t, of bdev] put_ref_ok [OF assms t] w
      by (intro exI [of _ 0] exI [of _ "put_ref b s"]) (auto simp: put_ref_def)
  qed
qed

text \<open>Remark. A driver that returns the number of bytes it wrote, as the floppy driver does, never
  gets a block clean: \<open>bc_put\<close> returns that number as an error and the block stays changed.\<close>

theorem bc_put_byte_count:
  assumes "bc_ok s" "b < MAX_BLOCK" "b_inuse (blks s b) = 1" "b_dirty (blks s b)"
    and "\<And>unit bytes n d. fst (bd_write (bdev (b_dev (blks s b))) unit bytes n BLKSIZE d) = int BLKSIZE"
  shows "\<exists>s'. bc_put bdev b s = Ok (512, s') \<and> b_dirty (blks s' b)"
proof -
  obtain rc d where d: "bd_write (bdev (b_dev (blks s b))) (b_unit (blks s b)) (peek (BLKSIZE * b) BLKSIZE (cmem s))
                                 (b_blkno (blks s b)) BLKSIZE (devst s) = (rc, d)" by fastforce
  then have "rc = 512" using assms(5) by (metis BLKSIZE_def fst_conv of_nat_numeral)
  with put_valid [OF assms(1,2)] assms(3,4) d show ?thesis by (simp add: put_written_def)
qed

text \<open>Remark. After a read that failed the buffer keeps the number of the block: the next request for
  it succeeds at once, without another read, and with whatever the buffer holds.\<close>

theorem bc_get_failed_read_sticks:
  assumes "bc_ok s" "dev \<noteq> - 1" "\<And>b. b < MAX_BLOCK \<Longrightarrow> \<not> bmatch (blks s) dev unit n b"
    and "c < MAX_BLOCK" "b_inuse (blks s c) = 0"
    and "bd_read (bdev dev) unit n BLKSIZE (devst s) = (rc, [], d)" "rc < 0"
  shows "\<exists>b s1 s2. bc_get bdev dev unit n s = Ok (rc, b, s1) \<and> bc_get bdev dev unit n s1 = Ok (0, b, s2)
    \<and> devst s2 = d \<and> cmem s2 = cmem s"
proof -
  obtain b where b: "b < MAX_BLOCK" "bc_get bdev dev unit n s =
      Ok (if rc = int BLKSIZE then 0 else rc, b, got_miss dev unit n rc [] d b s)"
    using get_miss [of s dev unit n c bdev rc "[]" d] assms by blast
  let ?s = "got_miss dev unit n rc [] d b s"
  have "bmatch (blks ?s) dev unit n b" by (simp add: got_miss_def bmatch_def)
  from get_hit [OF got_miss_ok [OF assms(1) b(1) assms(3)] assms(2) b(1) this, of bdev]
  have "bc_get bdev dev unit n ?s = Ok (0, b, got_hit b ?s)" .
  moreover have "poke a [] m = m" for a and m :: "nat \<Rightarrow> u8"
    by (rule ext) (auto simp: poke_def)
  ultimately show ?thesis using b(2) assms(7)
    by (intro exI [of _ b] exI [of _ ?s] exI [of _ "got_hit b ?s"]) (auto simp: got_hit_def got_miss_def)
qed

lemma read_loop_none:
  assumes "bc_ok s" "\<And>b. b < MAX_BLOCK \<Longrightarrow> \<not> bmatch (blks s) dev unit n b"
  shows "bc_read_loop self bdev dev unit k n n rc out s = Ok (rc, out, s)"
proof -
  obtain xs where x: "ring (blks s) (blocklist s) xs" "set xs = {..<MAX_BLOCK}" "0 < bcs s"
    using assms(1) by (rule bc_okD) blast
  have "find (bmatch (blks s) dev unit n) xs = None" using assms(2) x(2) by (auto simp: find_None_iff)
  then have "bc_cache_get dev unit n s = Ok (None, s)"
    using x(3) lookup_ring [OF x(1), of dev unit n] by (simp add: bc_cache_get_def cs_enter_def cs_leave_def)
  then show ?thesis by (induction k) simp_all
qed

text \<open>Remark. \<open>bc_read\<close> never reads: on blocks that are not cached it returns 0 and stores nothing,
  and on a cached block it waits for ever for the lock that \<open>bc_cache_get\<close> left held.\<close>

theorem bc_read_useless:
  assumes "bc_ok s" "bcs s = 1" "0 < k"
  shows "bc_read bdev dev unit n k s =
    (if \<exists>b < MAX_BLOCK. bmatch (blks s) dev unit n b then Hang else Ok (0, [], s))"
proof (cases "\<exists>b < MAX_BLOCK. bmatch (blks s) dev unit n b")
  case False
  then have "bc_read bdev dev unit n k s = Ok (0, [], s)"
    using read_loop_none [OF assms(1), of dev unit n] by (simp add: bc_read_def)
  with False show ?thesis by auto
next
  case True
  obtain xs where x: "ring (blks s) (blocklist s) xs" "set xs = {..<MAX_BLOCK}"
    using assms(1) by (rule bc_okD) blast
  obtain b where "find (bmatch (blks s) dev unit n) xs = Some b"
    using True x(2) by (cases "find (bmatch (blks s) dev unit n) xs") (auto simp: find_None_iff)
  then have "bc_cache_get dev unit n s = Ok (Some b, bset b (\<lambda>x. x\<lparr>b_inuse := b_inuse x + 1\<rparr>) (s\<lparr>bcs := 0\<rparr>))"
    using assms(2) lookup_ring [OF x(1), of dev unit n] by (simp add: bc_cache_get_def cs_enter_def)
  moreover obtain j where "k = Suc j" using assms(3) by (cases k) auto
  ultimately show ?thesis using True by (simp add: bc_read_def bc_put_def cs_enter_def)
qed

text \<open>The recursive calls of \<open>bc_read\<close> are never reached.\<close>

lemma bc_read_loop_self:
  "bc_read_loop f bdev dev unit k n n rc out s = bc_read_loop g bdev dev unit k n n rc out s"
proof (induction k arbitrary: n rc out s)
  case (Suc k)
  have *: "bind_res r F = bind_res r G" if "\<And>x. F x = G x" for r :: "'x res" and F G :: "'x \<Rightarrow> 'y res"
    using that by (cases r) auto
  show ?case by (auto simp: Let_def Suc.IH intro!: * split: option.split)
qed simp

lemma bc_read_fuel_any: "bc_read_fuel (Suc k) bdev dev unit n j s = bc_read bdev dev unit n j s"
  unfolding bc_read_def One_nat_def bc_read_fuel.simps by (rule bc_read_loop_self)

section \<open>The kernel's cache provides the interface\<close>

definition kernel_bc :: "(int \<Rightarrow> 'd blkdev) \<Rightarrow> 'd bcache bcif" where
  "kernel_bc bdev =
     \<lparr>bget = bc_get bdev, bput = bc_put bdev, bdata = (\<lambda>b s i. cmem s (b_data (blks s b) + i)),
      bstore = (\<lambda>b i bytes s. s\<lparr>cmem := poke (b_data (blks s b) + i) bytes (cmem s)\<rparr>),
      bmark = (\<lambda>b. bset b (\<lambda>x. x\<lparr>b_dirty := True\<rparr>)), bnum = (\<lambda>b s. b_blkno (blks s b))\<rparr>"

text \<open>A device that can be read: in the states \<open>P\<close> a read of block \<open>n\<close> gives the 512 bytes
  \<open>cont d n\<close>, and changes neither \<open>P\<close> nor the content.\<close>

definition drv_ok ::
  "(int \<Rightarrow> 'd blkdev) \<Rightarrow> int \<Rightarrow> int \<Rightarrow> ('d \<Rightarrow> bool) \<Rightarrow> ('d \<Rightarrow> u32 \<Rightarrow> u8 list) \<Rightarrow> bool" where
  "drv_ok bdev dev unit P cont \<longleftrightarrow> dev \<noteq> - 1 \<and> (\<forall>n d. P d \<longrightarrow> length (cont d n) = BLKSIZE \<and>
     (\<exists>d'. bd_read (bdev dev) unit n BLKSIZE d = (int BLKSIZE, cont d n, d') \<and> P d' \<and> cont d' = cont d))"

text \<open>Every buffer that holds a block of the volume holds what the device has there.\<close>

definition vol_inv ::
  "(int \<Rightarrow> 'd blkdev) \<Rightarrow> int \<Rightarrow> int \<Rightarrow> ('d \<Rightarrow> bool) \<Rightarrow> ('d \<Rightarrow> u32 \<Rightarrow> u8 list) \<Rightarrow> 'd bcache \<Rightarrow> bool" where
  "vol_inv bdev dev unit P cont s \<longleftrightarrow> drv_ok bdev dev unit P cont \<and> bc_ok s \<and> bc_clean s \<and> P (devst s)
     \<and> (\<forall>b < MAX_BLOCK. \<forall>n. bmatch (blks s) dev unit n b \<longrightarrow>
          (\<forall>i < BLKSIZE. cmem s (BLKSIZE * b + i) = cont (devst s) n ! i))"

definition vol_pins :: "'d bcache \<Rightarrow> nat \<Rightarrow> nat" where
  "vol_pins s b = nat (b_inuse (blks s b))"

definition vol_ident :: "int \<Rightarrow> int \<Rightarrow> 'd bcache \<Rightarrow> nat \<Rightarrow> u32 \<Rightarrow> bool" where
  "vol_ident dev unit s b n \<longleftrightarrow> b < MAX_BLOCK \<and> bmatch (blks s) dev unit n b"

lemma vol_get:
  assumes inv: "vol_inv bdev dev unit P cont s" and room: "(\<Sum>b<MAX_BLOCK. vol_pins s b) < MAX_BLOCK"
  shows "\<exists>b s'. bc_get bdev dev unit n s = Ok (0, b, s') \<and> b < MAX_BLOCK \<and> vol_inv bdev dev unit P cont s'
    \<and> cont (devst s') = cont (devst s) \<and> vol_ident dev unit s' b n
    \<and> vol_pins s' = (vol_pins s)(b := Suc (vol_pins s b))
    \<and> (\<forall>c k. 0 < vol_pins s c \<longrightarrow> vol_ident dev unit s c k \<longrightarrow> vol_ident dev unit s' c k)"
proof (cases "\<exists>b < MAX_BLOCK. bmatch (blks s) dev unit n b")
  case True
  then obtain b where b: "b < MAX_BLOCK" "bmatch (blks s) dev unit n b" by blast
  have ok: "bc_ok s" "dev \<noteq> - 1" using inv by (auto simp: vol_inv_def drv_ok_def)
  have m: "bmatch (blks (got_hit b s)) d u k c = bmatch (blks s) d u k c" for d u k c
    by (simp add: got_hit_def bmatch_def)
  have pos: "0 \<le> b_inuse (blks s b)" using ok b by (simp add: bc_ok_def)
  have "vol_inv bdev dev unit P cont (got_hit b s)"
    using inv got_hit_ok [OF ok(1), of b] unfolding vol_inv_def m by (simp add: got_hit_def bc_clean_def)
  moreover have "vol_pins (got_hit b s) = (vol_pins s)(b := Suc (vol_pins s b))"
    using pos by (auto simp: vol_pins_def got_hit_def fun_eq_iff nat_add_distrib)
  ultimately show ?thesis using get_hit [OF ok b, of bdev] b m
    by (intro exI [of _ b] exI [of _ "got_hit b s"]) (simp add: vol_ident_def, simp add: got_hit_def)
next
  case no: False
  have ok: "bc_ok s" "bc_clean s" and drv: "drv_ok bdev dev unit P cont" and P: "P (devst s)"
    using inv by (auto simp: vol_inv_def)
  obtain c where c: "c < MAX_BLOCK" "b_inuse (blks s c) = 0"
  proof -
    have "\<exists>c < MAX_BLOCK. vol_pins s c = 0"
    proof (rule ccontr)
      assume "\<not> (\<exists>c < MAX_BLOCK. vol_pins s c = 0)"
      then have "(\<Sum>b<MAX_BLOCK. 1) \<le> (\<Sum>b<MAX_BLOCK. vol_pins s b)" by (intro sum_mono) auto
      with room show False by simp
    qed
    then obtain c where c: "c < MAX_BLOCK" "vol_pins s c = 0" by blast
    then have "0 \<le> b_inuse (blks s c)" using ok(1) by (simp add: bc_ok_def)
    with c(2) have "b_inuse (blks s c) = 0" by (simp add: vol_pins_def)
    with c(1) show ?thesis by (rule that)
  qed
  obtain d where d: "bd_read (bdev dev) unit n BLKSIZE (devst s) = (int BLKSIZE, cont (devst s) n, d)"
      "P d" "cont d = cont (devst s)" "length (cont (devst s) n) = BLKSIZE"
    using drv P unfolding drv_ok_def by blast
  obtain b where b: "b < MAX_BLOCK" "b_inuse (blks s b) = 0"
      "bc_get bdev dev unit n s = Ok (0, b, got_miss dev unit n (int BLKSIZE) (cont (devst s) n) d b s)"
    using get_miss [of s dev unit n c bdev, OF ok(1) _ c d(1)] no by auto
  let ?s = "got_miss dev unit n (int BLKSIZE) (cont (devst s) n) d b s"
  have bd: "b_data (blks s b) = BLKSIZE * b" using ok b by (simp add: bc_ok_def)
  have mem: "cmem ?s (BLKSIZE * c + i) = (if c = b then cont (devst s) n ! i else cmem s (BLKSIZE * c + i))"
    if "i < BLKSIZE" for c i
  proof (cases "c = b")
    case False
    then have "BLKSIZE * c + BLKSIZE \<le> BLKSIZE * b \<or> BLKSIZE * b + BLKSIZE \<le> BLKSIZE * c"
      by (auto simp: BLKSIZE_def)
    with False that bd d(4) show ?thesis by (auto simp: got_miss_def poke_def)
  qed (use that bd d(4) in \<open>simp add: got_miss_def poke_def\<close>)
  have m: "bmatch (blks ?s) dev unit k c \<longleftrightarrow> (if c = b then k = n else bmatch (blks s) dev unit k c)" for k c
    by (auto simp: got_miss_def bmatch_def)
  have "bc_ok ?s" using got_miss_ok [OF ok(1) b(1)] no by blast
  moreover have "bc_clean ?s" using ok(2) by (simp add: got_miss_def bc_clean_def)
  moreover have dv: "devst ?s = d" by (simp add: got_miss_def)
  moreover have "cmem ?s (BLKSIZE * c + i) = cont (devst ?s) k ! i"
    if "c < MAX_BLOCK" "bmatch (blks ?s) dev unit k c" "i < BLKSIZE" for c k i
    using that inv unfolding mem [OF that(3)] m dv d(3) vol_inv_def by (cases "c = b") simp_all
  ultimately have "vol_inv bdev dev unit P cont ?s" using drv d(2) by (simp add: vol_inv_def)
  moreover have "vol_pins ?s = (vol_pins s)(b := Suc (vol_pins s b))"
    using b by (auto simp: vol_pins_def got_miss_def fun_eq_iff)
  moreover have "vol_ident dev unit ?s c k" if "0 < vol_pins s c" "vol_ident dev unit s c k" for c k
    using that b m by (auto simp: vol_ident_def vol_pins_def)
  ultimately show ?thesis using b d m
    by (intro exI [of _ b] exI [of _ ?s]) (simp add: vol_ident_def, simp add: got_miss_def)
qed

lemma vol_put:
  assumes inv: "vol_inv bdev dev unit P cont s" and b: "b < MAX_BLOCK" "0 < vol_pins s b"
  shows "\<exists>s'. bc_put bdev b s = Ok (0, s') \<and> vol_inv bdev dev unit P cont s' \<and> cont (devst s') = cont (devst s)
    \<and> vol_pins s' = (vol_pins s)(b := vol_pins s b - 1)
    \<and> (\<forall>c k. vol_ident dev unit s c k \<longrightarrow> vol_ident dev unit s' c k)"
proof -
  have ok: "bc_ok s" "\<not> b_dirty (blks s b)" using inv b(1) by (auto simp: vol_inv_def bc_clean_def)
  have n: "b_inuse (blks s b) \<noteq> 0" "0 < b_inuse (blks s b)" using b(2) by (auto simp: vol_pins_def)
  have m: "bmatch (blks (put_ref b s)) d u k c = bmatch (blks s) d u k c" for d u k c
    by (simp add: put_ref_def bmatch_def)
  have "vol_inv bdev dev unit P cont (put_ref b s)"
    using inv put_ref_ok [OF ok(1) b(1) n(1)] unfolding vol_inv_def m by (simp add: put_ref_def bc_clean_def)
  moreover have "vol_pins (put_ref b s) = (vol_pins s)(b := vol_pins s b - 1)"
    using n by (auto simp: vol_pins_def put_ref_def fun_eq_iff nat_diff_distrib)
  ultimately show ?thesis using put_valid [OF ok(1) b(1) n(1), of bdev] ok(2) m
    by (intro exI [of _ "put_ref b s"]) (simp add: vol_ident_def, simp add: put_ref_def)
qed

interpretation kvol: block_cache "kernel_bc bdev" dev unit MAX_BLOCK "vol_inv bdev dev unit P cont"
    "\<lambda>s. cont (devst s)" vol_pins "vol_ident dev unit" for bdev dev unit P cont
proof
  fix s :: "'a bcache" and n b i
  assume inv: "vol_inv bdev dev unit P cont s"
  show "\<exists>b s'. bget (kernel_bc bdev) dev unit n s = Ok (0, b, s') \<and> b < MAX_BLOCK \<and> vol_inv bdev dev unit P cont s'
    \<and> cont (devst s') = cont (devst s) \<and> vol_ident dev unit s' b n
    \<and> vol_pins s' = (vol_pins s)(b := Suc (vol_pins s b))
    \<and> (\<forall>c k. 0 < vol_pins s c \<longrightarrow> vol_ident dev unit s c k \<longrightarrow> vol_ident dev unit s' c k)"
    if "(\<Sum>b<MAX_BLOCK. vol_pins s b) < MAX_BLOCK"
    using vol_get [OF inv that, of n] by (simp add: kernel_bc_def)
  show "\<exists>s'. bput (kernel_bc bdev) b s = Ok (0, s') \<and> vol_inv bdev dev unit P cont s' \<and> cont (devst s') = cont (devst s)
    \<and> vol_pins s' = (vol_pins s)(b := vol_pins s b - 1)
    \<and> (\<forall>c k. vol_ident dev unit s c k \<longrightarrow> vol_ident dev unit s' c k)"
    if "b < MAX_BLOCK" "0 < vol_pins s b"
    using vol_put [OF inv that] by (simp add: kernel_bc_def)
  show "bdata (kernel_bc bdev) b s i = cont (devst s) n ! i"
    if "b < MAX_BLOCK" "0 < vol_pins s b" "vol_ident dev unit s b n" "i < 512"
    using inv that by (simp add: kernel_bc_def vol_inv_def vol_ident_def bc_ok_def BLKSIZE_def)
  show "bnum (kernel_bc bdev) b s = n"
    if "b < MAX_BLOCK" "0 < vol_pins s b" "vol_ident dev unit s b n"
    using that by (simp add: kernel_bc_def vol_ident_def bmatch_def)
qed

section \<open>Initialisation establishes the invariant\<close>

lemma ring_insert:
  assumes "ring m h (h # ys)" "k \<notin> set (h # ys)"
    and n: "\<And>x. b_next (m' x) = (if x = h then k else if x = k then b_next (m h) else b_next (m x))"
  shows "ring m' h (h # k # ys)"
proof -
  have s: "bseg m (h # ys @ [h])" "distinct (h # ys)" using assms(1) by (auto simp: ring_def)
  have e: "b_next (m h) = hd (ys @ [h])" using s(1) by (cases ys) auto
  have "bseg m' w = bseg m w" if "h \<notin> set (butlast w)" "k \<notin> set (butlast w)" for w
    using that by (intro bseg_frame) (auto simp: n)
  moreover have "bseg m (ys @ [h])" using s(1) by (cases ys) auto
  ultimately have "bseg m' (ys @ [h])" using s(2) assms(2) by simp
  then show ?thesis using s(2) assms(2) e by (cases ys) (auto simp: ring_def n)
qed

lemma init_fold:
  "0 < k \<Longrightarrow> case fold bc_init_block [0..<k] (s, False) of (s', st) \<Rightarrow>
     st \<and> blocklist s' = 0 \<and> ring (blks s') 0 (0 # rev [1..<k]) \<and>
     (\<forall>j < k. b_data (blks s' j) = BLKSIZE * j \<and> b_inuse (blks s' j) = 0 \<and> \<not> b_dirty (blks s' j) \<and> b_dev (blks s' j) = - 1)"
proof (induction k)
  case (Suc k)
  show ?case
  proof (cases "k = 0")
    case True
    then show ?thesis by (simp add: bc_init_block_def Let_def ring_def mult.commute)
  next
    case False
    obtain s' st where f: "fold bc_init_block [0..<k] (s, False) = (s', st)" by fastforce
    with Suc.IH False have ih: "st" "blocklist s' = 0" "ring (blks s') 0 (0 # rev [1..<k])"
      "\<forall>j < k. b_data (blks s' j) = BLKSIZE * j \<and> b_inuse (blks s' j) = 0 \<and> \<not> b_dirty (blks s' j) \<and> b_dev (blks s' j) = - 1"
      by auto
    obtain s'' st' where g: "bc_init_block k (s', st) = (s'', st')" by fastforce
    have n: "b_next (blks s'' x) = (if x = 0 then k else if x = k then b_next (blks s' 0) else b_next (blks s' x))" for x
      using g ih(1,2) False by (auto simp: bc_init_block_def Let_def)
    have r: "ring (blks s'') 0 (0 # k # rev [1..<k])"
      using ih(3) False by (intro ring_insert [OF _ _ n]) auto
    have o: "st' \<and> blocklist s'' = 0" using g ih(1,2) False by (auto simp: bc_init_block_def Let_def)
    have d: "b_data (blks s'' j) = BLKSIZE * j \<and> b_inuse (blks s'' j) = 0 \<and> \<not> b_dirty (blks s'' j) \<and> b_dev (blks s'' j) = - 1"
      if "j < Suc k" for j
      using g ih(1,2,4) False that by (auto simp: bc_init_block_def Let_def less_Suc_eq mult.commute split: if_splits)
    show ?thesis using f g o r d False by simp
  qed
qed simp

text \<open>Remark. \<open>bc_init\<close> panics exactly when the far heap cannot give it both tables; otherwise the
  cache is consistent, clean and unused.\<close>

theorem bc_init_correct:
  assumes "bc_init m s = Ok (m', s')"
  shows "bc_ok s' \<and> bc_clean s' \<and> (\<forall>b < MAX_BLOCK. b_inuse (blks s' b) = 0 \<and> b_dev (blks s' b) = - 1)"
proof -
  have pos: "0 < MAX_BLOCK" by (simp add: MAX_BLOCK_def)
  from assms have s': "s' = (fst (fold bc_init_block [0..<MAX_BLOCK] (s, False)))\<lparr>bcs := 1\<rparr>"
    by (auto simp: bc_init_def split: if_splits)
  obtain t st where "fold bc_init_block [0..<MAX_BLOCK] (s, False) = (t, st)" by fastforce
  with init_fold [OF pos, of s] s' have t: "blocklist s' = 0" "ring (blks s') 0 (0 # rev [1..<MAX_BLOCK])" "bcs s' = 1"
    "\<And>j. j < MAX_BLOCK \<Longrightarrow> b_data (blks s' j) = BLKSIZE * j \<and> b_inuse (blks s' j) = 0 \<and> \<not> b_dirty (blks s' j) \<and> b_dev (blks s' j) = - 1"
    by auto
  have "set (0 # rev [1..<MAX_BLOCK]) = {..<MAX_BLOCK}" using pos by auto
  with t show ?thesis unfolding bc_ok_def bc_clean_def by fastforce
qed

section \<open>Scenarios\<close>

text \<open>A disk that holds the byte \<open>n mod 256\<close> all over block \<open>n\<close>, with a broken block 99; its
  driver counts the requests and returns byte counts.\<close>

definition w_bdev :: "int \<Rightarrow> nat blkdev" where
  "w_bdev = (\<lambda>_. \<lparr>bd_read = (\<lambda>unit n k d. if n = 99 then (- EIO, [], d + 1) else (int k, replicate k (ucast n), d + 1)),
                  bd_write = (\<lambda>unit bs n k d. (int k, d + 1))\<rparr>)"

definition w_bc0 :: "nat bcache" where
  "w_bc0 = \<lparr>blks = (\<lambda>_. \<lparr>b_next = 0, b_prev = 0, b_inuse = 0, b_dirty = False, b_dev = 0, b_unit = 0, b_blkno = 0, b_data = 0\<rparr>),
     blocklist = 0, cmem = (\<lambda>_. 0), bcs = 0, bstats = \<lparr>st_gets = 0, st_puts = 0, st_reads = 0, st_writes = 0\<rparr>, devst = 0\<rparr>"

definition w_bc :: "nat bcache" where
  "w_bc = (fst (fold bc_init_block [0..<MAX_BLOCK] (w_bc0, False)))\<lparr>bcs := 1\<rparr>"

lemma w_bc_init: "\<exists>m'. bc_init w_mem w_bc0 = Ok (m', w_bc)"
proof -
  obtain m1 where m1: "kmalloc 16384 w_mem = Ok ((0x2000, 16), m1)"
      "far_inv 0x2000 0xa000 [(0x2000, 1024, True), (0x2401, 0x7bfe, False)] m1"
    using kheap.alloc_some [OF w_far, of 16384] by (auto simp: far_paras_def far_ptr_def far_loc_def)
  obtain m2 where m2: "kmalloc 768 m1 = Ok ((0x2401, 16), m2)"
    using kheap.alloc_some [OF m1(2), of 768] by (auto simp: far_paras_def far_ptr_def far_loc_def)
  show ?thesis using m1 m2 by (simp add: bc_init_def w_bc_def)
qed

lemma w_bc_facts: "bc_ok w_bc" "bc_clean w_bc" "b < MAX_BLOCK \<Longrightarrow> b_inuse (blks w_bc b) = 0 \<and> b_dev (blks w_bc b) = - 1"
  using init_fold [of MAX_BLOCK w_bc0]
  by (auto simp: w_bc_def bc_ok_def bc_clean_def MAX_BLOCK_def bmatch_def split: prod.splits
      intro!: exI [of _ "0 # rev [1..<32]"])

lemma w_nomatch: "b < MAX_BLOCK \<Longrightarrow> \<not> bmatch (blks w_bc) 0 0 n b"
  using w_bc_facts(3) [of b] by (simp add: bmatch_def)

lemma w_bc_zero: "0 < MAX_BLOCK" by (simp add: MAX_BLOCK_def)

theorem bc_init_correct_witness: "\<exists>m' s'. bc_init w_mem w_bc0 = Ok (m', s') \<and> bc_ok s'"
proof -
  obtain m' where "bc_init w_mem w_bc0 = Ok (m', w_bc)" using w_bc_init by blast
  with bc_init_correct [OF this] show ?thesis by blast
qed


definition w_bc1 :: "nat bcache" where
  "w_bc1 = bset 3 (\<lambda>x. x\<lparr>b_inuse := 1, b_dirty := True\<rparr>) w_bc"

lemma w_bc1_ok: "bc_ok w_bc1"
  by (rule bc_ok_frame [OF w_bc_facts(1)]) (auto simp: w_bc1_def bmatch_def w_bc_facts(3))

theorem bc_put_correct_witness:
  "(\<exists>rc s'. bc_put w_bdev 3 w_bc1 = Ok (rc, s') \<and> b_inuse (blks s' 3) = 0) \<and> bc_put w_bdev 4 w_bc1 = Panic"
  using bc_put_correct [OF w_bc1_ok, of 3 w_bdev] bc_put_correct [OF w_bc1_ok, of 4 w_bdev] w_bc_facts(3) [of 4]
  by (auto simp: w_bc1_def MAX_BLOCK_def)

theorem bc_put_byte_count_witness: "\<exists>s'. bc_put w_bdev 3 w_bc1 = Ok (512, s') \<and> b_dirty (blks s' 3)"
  using bc_put_byte_count [OF w_bc1_ok, of 3 w_bdev] by (simp add: w_bc1_def MAX_BLOCK_def w_bdev_def)

theorem bc_get_failed_read_sticks_witness:
  "\<exists>b s1 s2. bc_get w_bdev 0 0 99 w_bc = Ok (- EIO, b, s1) \<and> bc_get w_bdev 0 0 99 s1 = Ok (0, b, s2)"
  using bc_get_failed_read_sticks [of w_bc 0 0 99 0 w_bdev "- EIO" "devst w_bc + 1"] w_nomatch w_bc_facts(1)
    w_bc_facts(3) [OF w_bc_zero] w_bc_zero
  by (auto simp: w_bdev_def EIO_def)

theorem bc_read_useless_witness: "bc_read w_bdev 0 0 7 3 w_bc = Ok (0, [], w_bc)"
proof -
  have "bcs w_bc = 1" by (simp add: w_bc_def)
  moreover have "\<not> (\<exists>b < MAX_BLOCK. bmatch (blks w_bc) 0 0 7 b)" using w_nomatch by blast
  ultimately show ?thesis using bc_read_useless [OF w_bc_facts(1), of 3 w_bdev 0 0 7] by simp
qed

text \<open>A volume on this disk, all of whose blocks can be read.\<close>

definition w_rdev :: "int \<Rightarrow> unit blkdev" where
  "w_rdev = (\<lambda>_. \<lparr>bd_read = (\<lambda>unit n k d. (int k, replicate k (ucast n), d)), bd_write = (\<lambda>unit bs n k d. (int k, d))\<rparr>)"

end
