(* ===== verification/FatPath.thy ===== *)
theory FatPath
  imports Prelude
begin

text \<open>
  \<open>kernel/fat/path.c\<close>: file names and paths. A C string is the list of its bytes without the
  terminating zero; \<open>cat xs i\<close> is \<open>xs[i]\<close>, which is zero at the end. A pointer into a path is
  the rest of the path from there, so the characters after an element can be seen as in the code.
\<close>

type_synonym cstr = "u8 list"

definition cat :: "cstr \<Rightarrow> nat \<Rightarrow> u8" where
  "cat xs i = (if i < length xs then xs ! i else 0)"

definition DOT :: u8 where "DOT = 46"
definition SLASH :: u8 where "SLASH = 47"
definition SPACE :: u8 where "SPACE = 32"

lemmas char_defs = DOT_def SLASH_def SPACE_def

section \<open>Definitions\<close>

definition toupper :: "u8 \<Rightarrow> u8" where
  "toupper ch = (if 97 \<le> ch \<and> ch \<le> 122 then 65 + ch - 97 else ch)"

text \<open>The three loops of \<open>path_parse_fn\<close>; \<open>dst\<close> is what is stored so far, its length is \<open>d\<close>.\<close>

function pp_base :: "cstr \<Rightarrow> nat \<Rightarrow> u8 list \<Rightarrow> u8 list" where
  "pp_base src len dst =
     (if length dst < 8 \<and> length dst \<noteq> len \<and> cat src (length dst) \<noteq> DOT
      then pp_base src len (dst @ [toupper (cat src (length dst))])
      else dst)"
  by auto
termination by (relation "measure (\<lambda>(_, _, dst). 8 - length dst)") auto

function pp_ext :: "cstr \<Rightarrow> nat \<Rightarrow> nat \<Rightarrow> u8 list \<Rightarrow> nat \<times> u8 list" where
  "pp_ext src len s dst =
     (if length dst < 11 \<and> s \<noteq> len
      then pp_ext src len (s + 1) (dst @ [toupper (cat src s)])
      else (s, dst))"
  by auto
termination by (relation "measure (\<lambda>(_, _, _, dst). 11 - length dst)") auto

definition pad_to :: "nat \<Rightarrow> u8 \<Rightarrow> u8 list \<Rightarrow> u8 list" where
  "pad_to n c xs = xs @ replicate (n - length xs) c"

definition path_parse_fn :: "cstr \<Rightarrow> nat \<Rightarrow> int \<times> u8 list" where
  "path_parse_fn src len =
     (if cat src 0 = DOT \<and> (len = 1 \<or> (cat src 1 = DOT \<or> len = 2))
      then (0, pad_to 11 0 (if cat src 1 = DOT then [DOT, DOT] else [DOT]))
      else (let dst = pp_base src len []; s = length dst
            in if s < len \<and> cat src s \<noteq> DOT then (- EINVAL, dst)
               else (let dst1 = pad_to 8 SPACE dst
                     in if cat src s = DOT
                        then (let (s2, dst2) = pp_ext src len (s + 1) dst1
                              in if length dst2 = 11 \<and> s2 < len then (- EINVAL, dst2)
                                 else (0, pad_to 11 SPACE dst2))
                        else (0, pad_to 11 SPACE dst1))))"

text \<open>\<open>path_next_dir_ele\<close>: start and length of the next element.\<close>

function skip_slash :: "cstr \<Rightarrow> nat \<Rightarrow> nat" where
  "skip_slash fn i = (if cat fn i = SLASH then skip_slash fn (i + 1) else i)"
  by auto
termination by (relation "measure (\<lambda>(fn, i). length fn - i)") (auto simp: cat_def SLASH_def split: if_splits)

function skip_ele :: "cstr \<Rightarrow> nat \<Rightarrow> nat" where
  "skip_ele fn i = (if cat fn i \<noteq> 0 \<and> cat fn i \<noteq> SLASH then skip_ele fn (i + 1) else i)"
  by auto
termination by (relation "measure (\<lambda>(fn, i). length fn - i)") (auto simp: cat_def split: if_splits)

record substr =
  ss_start :: nat
  ss_len :: nat

definition path_next_dir_ele :: "cstr \<Rightarrow> nat \<Rightarrow> substr" where
  "path_next_dir_ele fn start =
     (let st = skip_slash fn start; en = skip_ele fn st
      in \<lparr>ss_start = st, ss_len = en - st\<rparr>)"

text \<open>\<open>path_split\<close>: what is before and after the last slash.\<close>

definition path_split :: "cstr \<Rightarrow> cstr \<times> cstr" where
  "path_split fn =
     (if SLASH \<in> set fn
      then (rev (tl (dropWhile (\<lambda>c. c \<noteq> SLASH) (rev fn))), rev (takeWhile (\<lambda>c. c \<noteq> SLASH) (rev fn)))
      else ([], fn))"

section \<open>File names\<close>

declare pp_base.simps [simp del] pp_ext.simps [simp del] skip_slash.simps [simp del] skip_ele.simps [simp del]

lemma toupper_idem [simp]: "toupper (toupper c) = toupper c"
proof (cases "97 \<le> c \<and> c \<le> 122")
  case True
  then have "97 \<le> unat c" "unat c \<le> 122" by (auto simp: word_le_nat_alt)
  moreover from this have "unat (65 + c - 97) = unat c - 32" by (simp add: unat_word_ariths unat_sub_if')
  ultimately have "\<not> 97 \<le> 65 + c - 97" by (simp add: word_le_nat_alt)
  with True show ?thesis by (simp add: toupper_def)
qed (auto simp: toupper_def)

lemma pp_base_stop:
  "k \<le> n \<Longrightarrow> n \<le> 8 \<Longrightarrow> n \<le> length src \<Longrightarrow> n \<le> len \<Longrightarrow> DOT \<notin> set (take n src) \<Longrightarrow>
   n = 8 \<or> n = len \<or> cat src n = DOT \<Longrightarrow>
   pp_base src len (map toupper (take k src)) = map toupper (take n src)"
proof (induction "n - k" arbitrary: k)
  case 0
  then have e: "k = n" by simp
  with 0 have l: "length (map toupper (take k src)) = n" by simp
  have "\<not> (n < 8 \<and> n \<noteq> len \<and> cat src n \<noteq> DOT)" using 0 by auto
  then show ?case using l e by (subst pp_base.simps) auto
next
  case (Suc m)
  then have k: "k < n" by simp
  have l: "length (map toupper (take k src)) = k" using Suc.prems k by simp
  have "src ! k \<in> set (take n src)" using k Suc.prems by (auto simp: in_set_conv_nth intro!: exI [of _ k])
  then have "src ! k \<noteq> DOT" using Suc.prems(5) by auto
  then have c: "cat src k = src ! k" "cat src k \<noteq> DOT" using k Suc.prems by (auto simp: cat_def)
  have "map toupper (take k src) @ [toupper (cat src k)] = map toupper (take (Suc k) src)"
    using c k Suc.prems by (simp add: take_Suc_conv_app_nth)
  moreover have "pp_base src len (map toupper (take (Suc k) src)) = map toupper (take n src)"
    using Suc k by (intro Suc.hyps(1)) auto
  ultimately show ?case using c(2) k Suc.prems l by (subst pp_base.simps) simp
qed

lemma pp_base_name:
  assumes "length base \<le> 8" "length base \<le> len" "DOT \<notin> set base"
    "length base = 8 \<or> length base = len \<or> cat rest 0 = DOT"
  shows "pp_base (base @ rest) len [] = map toupper base"
proof -
  have "cat (base @ rest) (length base) = cat rest 0" by (simp add: cat_def nth_append)
  with assms pp_base_stop [of 0 "length base" "base @ rest" len] show ?thesis by auto
qed

lemma pp_ext_name:
  "length ext + length dst \<le> 11 \<Longrightarrow>
   pp_ext (pre @ ext @ rest) (length pre + length ext) (length pre) dst
     = (length pre + length ext, dst @ map toupper ext)"
proof (induction ext arbitrary: pre dst)
  case Nil
  then show ?case by (subst pp_ext.simps) simp
next
  case (Cons c ext)
  have "cat (pre @ (c # ext) @ rest) (length pre) = c" by (simp add: cat_def nth_append)
  moreover have "pp_ext ((pre @ [c]) @ ext @ rest) (length (pre @ [c]) + length ext) (length (pre @ [c])) (dst @ [toupper c])
      = (length (pre @ [c]) + length ext, (dst @ [toupper c]) @ map toupper ext)"
    using Cons.prems by (intro Cons.IH) simp
  ultimately show ?case using Cons.prems by (subst pp_ext.simps) simp
qed

lemma pp_ext_full: "length dst \<ge> 11 \<Longrightarrow> pp_ext src len s dst = (s, dst)"
  by (subst pp_ext.simps) simp

lemma pp_ext_long:
  "length ext + length dst = 11 \<Longrightarrow> length pre + length ext < len \<Longrightarrow>
   pp_ext (pre @ ext @ rest) len (length pre) dst = (length pre + length ext, dst @ map toupper ext)"
proof (induction ext arbitrary: pre dst)
  case Nil
  then show ?case by (simp add: pp_ext_full)
next
  case (Cons c ext)
  have "cat (pre @ (c # ext) @ rest) (length pre) = c" by (simp add: cat_def nth_append)
  moreover have "pp_ext ((pre @ [c]) @ ext @ rest) len (length (pre @ [c])) (dst @ [toupper c])
      = (length (pre @ [c]) + length ext, (dst @ [toupper c]) @ map toupper ext)"
    using Cons.prems by (intro Cons.IH) simp_all
  ultimately show ?case using Cons.prems by (subst pp_ext.simps) simp
qed

definition name83 :: "u8 list \<Rightarrow> u8 list \<Rightarrow> u8 list" where
  "name83 base ext = pad_to 8 SPACE (map toupper base) @ pad_to 3 SPACE (map toupper ext)"

lemma pad_to_pad_to: "length xs \<le> n \<Longrightarrow> n \<le> k \<Longrightarrow> pad_to k c (pad_to n c xs @ ys) = pad_to n c xs @ pad_to (k - n) c ys"
  by (simp add: pad_to_def)

lemma parse_ordinary:
  "base \<noteq> [] \<Longrightarrow> DOT \<notin> set base \<Longrightarrow> cat (base @ rest) 0 \<noteq> DOT"
  by (cases base) (auto simp: cat_def)

lemma path_parse_cases:
  assumes "base \<noteq> []" "DOT \<notin> set base"
  shows "length base \<le> 8 \<Longrightarrow> length ext \<le> 3 \<Longrightarrow>
      path_parse_fn (base @ DOT # ext @ rest) (length base + 1 + length ext) = (0, name83 base ext)"
    and "length base \<le> 8 \<Longrightarrow> cat rest 0 \<noteq> DOT \<Longrightarrow> path_parse_fn (base @ rest) (length base) = (0, name83 base [])"
    and "length base > 8 \<Longrightarrow> length base \<le> len \<Longrightarrow> fst (path_parse_fn (base @ rest) len) = - EINVAL"
    and "length base \<le> 8 \<Longrightarrow> length ext > 3 \<Longrightarrow>
      fst (path_parse_fn (base @ DOT # ext @ rest) (length base + 1 + length ext)) = - EINVAL"
proof -
  let ?b = "pad_to 8 SPACE (map toupper base)"
  have c: "cat (base @ r) (length base) = cat r 0" for r by (simp add: cat_def nth_append)
  have dot: "cat (DOT # r) 0 = DOT" for r by (simp add: cat_def)
  have lb: "length ?b = 8" if "length base \<le> 8" using that by (simp add: pad_to_def)
  note np = parse_ordinary [OF assms]
  show "path_parse_fn (base @ DOT # ext @ rest) (length base + 1 + length ext) = (0, name83 base ext)"
    if l: "length base \<le> 8" "length ext \<le> 3"
  proof -
    have "pp_base (base @ DOT # ext @ rest) (length base + 1 + length ext) [] = map toupper base"
      using l assms dot by (intro pp_base_name) auto
    moreover have "pp_ext ((base @ [DOT]) @ ext @ rest) (length (base @ [DOT]) + length ext) (length (base @ [DOT])) ?b
        = (length (base @ [DOT]) + length ext, ?b @ map toupper ext)"
      using l lb by (intro pp_ext_name) simp
    moreover have "pad_to 11 SPACE (?b @ map toupper ext) = ?b @ pad_to 3 SPACE (map toupper ext)"
      using pad_to_pad_to [of "map toupper base" 8 11 SPACE "map toupper ext"] l by simp
    ultimately show ?thesis using np [of "DOT # ext @ rest"] l
      by (simp add: path_parse_fn_def c dot Let_def name83_def)
  qed
  show "path_parse_fn (base @ rest) (length base) = (0, name83 base [])"
    if l: "length base \<le> 8" "cat rest 0 \<noteq> DOT"
  proof -
    have "pp_base (base @ rest) (length base) [] = map toupper base"
      using l assms by (intro pp_base_name) auto
    moreover have "pad_to 11 SPACE ?b = ?b @ pad_to 3 SPACE []"
      using pad_to_pad_to [of "map toupper base" 8 11 SPACE "[]"] l by simp
    ultimately show ?thesis using np [of rest] l by (simp add: path_parse_fn_def c Let_def name83_def)
  qed
  show "fst (path_parse_fn (base @ rest) len) = - EINVAL" if l: "length base > 8" "length base \<le> len"
  proof -
    have a: "DOT \<notin> set (take 8 base)" using assms(2) by (auto dest: in_set_takeD)
    have "pp_base (base @ rest) len [] = map toupper (take 8 base)"
      using l a pp_base_stop [of 0 8 "base @ rest" len] by simp
    moreover have "base ! 8 \<noteq> DOT" using nth_mem [of 8 base] l(1) assms(2) by metis
    then have "cat (base @ rest) 8 \<noteq> DOT" using l by (simp add: cat_def nth_append)
    ultimately show ?thesis using np [of rest] l by (simp add: path_parse_fn_def Let_def)
  qed
  show "fst (path_parse_fn (base @ DOT # ext @ rest) (length base + 1 + length ext)) = - EINVAL"
    if l: "length base \<le> 8" "length ext > 3"
  proof -
    have "pp_base (base @ DOT # ext @ rest) (length base + 1 + length ext) [] = map toupper base"
      using l assms dot by (intro pp_base_name) auto
    moreover have "pp_ext ((base @ [DOT]) @ take 3 ext @ (drop 3 ext @ rest)) (length base + 1 + length ext) (length (base @ [DOT])) ?b
        = (length (base @ [DOT]) + length (take 3 ext), ?b @ map toupper (take 3 ext))"
      using l lb by (intro pp_ext_long) auto
    moreover have "take 3 ext @ drop 3 ext @ rest = ext @ rest" by (simp flip: append_assoc)
    ultimately show ?thesis using np [of "DOT # ext @ rest"] l lb
      by (simp add: path_parse_fn_def c dot Let_def)
  qed
qed

text \<open>Remark. An 8.3 name is stored in upper case with both parts padded with spaces, whether or not
  it has an extension and whatever follows it in the path; a base of more than eight characters
  or an extension of more than three is rejected.\<close>

theorem path_parse_83:
  assumes "base \<noteq> []" "DOT \<notin> set base"
  shows "(length base \<le> 8 \<and> length ext \<le> 3 \<longrightarrow>
      path_parse_fn (base @ DOT # ext @ rest) (length base + 1 + length ext) = (0, name83 base ext))
    \<and> (length base \<le> 8 \<and> cat rest 0 \<noteq> DOT \<longrightarrow> path_parse_fn (base @ rest) (length base) = (0, name83 base []))
    \<and> (length base > 8 \<and> length base \<le> len \<longrightarrow> fst (path_parse_fn (base @ rest) len) = - EINVAL)
    \<and> (length base \<le> 8 \<and> length ext > 3 \<longrightarrow>
      fst (path_parse_fn (base @ DOT # ext @ rest) (length base + 1 + length ext)) = - EINVAL)"
  using path_parse_cases [OF assms] by blast

theorem path_parse_83_witness:
  "path_parse_fn [109, 107, 46, 99] (Suc (Suc (Suc (Suc 0)))) = (0, [77, 75, 32, 32, 32, 32, 32, 32, 67, 32, 32])"
  using path_parse_83 [of "[109, 107]" "[99]" "[]" 0]
  by (simp add: char_defs name83_def pad_to_def toupper_def rep_num)

text \<open>Remark. A name that begins with a dot and is two characters long is stored as the directory
  itself, padded with zeros: any such name is confused with \<open>.\<close>, and no such entry ever
  matches the space-padded one on the disk.\<close>

theorem path_parse_dot:
  assumes "c \<noteq> DOT"
  shows "path_parse_fn (DOT # c # rest) 2 = (0, DOT # replicate 10 0)
    \<and> path_parse_fn [DOT] 1 = (0, DOT # replicate 10 0)
    \<and> snd (path_parse_fn [DOT] 1) \<noteq> DOT # replicate 10 SPACE"
  using assms by (simp add: path_parse_fn_def cat_def pad_to_def SPACE_def rep_num)

theorem path_parse_dot_witness: "path_parse_fn [46, 97] 2 = path_parse_fn [46] 1"
  using path_parse_dot [of 97 "[]"] by (simp add: char_defs)

section \<open>Paths\<close>

lemma skip_slash_append: "cat rest 0 \<noteq> SLASH \<Longrightarrow> skip_slash (pre @ replicate k SLASH @ rest) (length pre) = length pre + k"
proof (induction k arbitrary: pre)
  case 0
  then show ?case by (subst skip_slash.simps) (cases rest; auto simp: cat_def nth_append SLASH_def)
next
  case (Suc k)
  have "skip_slash ((pre @ [SLASH]) @ replicate k SLASH @ rest) (length (pre @ [SLASH])) = length (pre @ [SLASH]) + k"
    using Suc by blast
  then show ?case by (subst skip_slash.simps) (simp add: cat_def nth_append)
qed

lemma skip_ele_append:
  "SLASH \<notin> set w \<Longrightarrow> 0 \<notin> set w \<Longrightarrow> rest = [] \<or> hd rest = SLASH \<Longrightarrow>
   skip_ele (pre @ w @ rest) (length pre) = length pre + length w"
proof (induction w arbitrary: pre)
  case Nil
  then show ?case by (subst skip_ele.simps) (cases rest, auto simp: cat_def nth_append)
next
  case (Cons c w)
  then have "skip_ele ((pre @ [c]) @ w @ rest) (length (pre @ [c])) = length (pre @ [c]) + length w"
    by (intro Cons.IH) auto
  with Cons.prems show ?case by (subst skip_ele.simps) (auto simp: cat_def nth_append)
qed

text \<open>Remark. \<open>path_next_dir_ele\<close> skips the slashes at the start and gives the bounds of the longest
  run without a slash; its length is zero exactly at the end of the path.\<close>

theorem path_next_dir_ele_correct:
  assumes "SLASH \<notin> set w" "0 \<notin> set w" "rest = [] \<or> hd rest = SLASH" "w = [] \<longrightarrow> rest = []"
  shows "path_next_dir_ele (pre @ replicate k SLASH @ w @ rest) (length pre)
    = \<lparr>ss_start = length pre + k, ss_len = length w\<rparr>"
proof -
  have "cat (w @ rest) 0 \<noteq> SLASH" using assms by (cases w) (auto simp: cat_def SLASH_def)
  moreover have "skip_ele ((pre @ replicate k SLASH) @ w @ rest) (length (pre @ replicate k SLASH)) = length (pre @ replicate k SLASH) + length w"
    by (rule skip_ele_append [OF assms(1-3)])
  ultimately show ?thesis using skip_slash_append [of "w @ rest" pre k]
    by (simp add: path_next_dir_ele_def Let_def)
qed

theorem path_next_dir_ele_correct_witness:
  "path_next_dir_ele [97, 47, 47, 98, 99, 47] 1 = \<lparr>ss_start = 3, ss_len = 2\<rparr>"
  using path_next_dir_ele_correct [of "[98, 99]" "[47]" "[97]" 2] by (simp add: SLASH_def rep_num)

text \<open>Remark. \<open>path_split\<close> cuts a path at its last slash: the name has no slash in it, and putting the
  two together again gives the path.\<close>

theorem path_split_correct:
  "path_split fn = (d, n) \<Longrightarrow> SLASH \<notin> set n \<and> (if SLASH \<in> set fn then fn = d @ SLASH # n else d = [] \<and> n = fn)"
proof -
  assume a: "path_split fn = (d, n)"
  show ?thesis
  proof (cases "SLASH \<in> set fn")
    case True
    let ?t = "takeWhile (\<lambda>c. c \<noteq> SLASH) (rev fn)" and ?d = "dropWhile (\<lambda>c. c \<noteq> SLASH) (rev fn)"
    have ne: "?d \<noteq> []" using True by (auto simp: dropWhile_eq_Nil_conv)
    then have h: "hd ?d = SLASH" using hd_dropWhile [of "\<lambda>c. c \<noteq> SLASH" "rev fn"] by simp
    have "rev fn = ?t @ hd ?d # tl ?d" using ne takeWhile_dropWhile_id [of "\<lambda>c. c \<noteq> SLASH" "rev fn"] by simp
    then have "fn = rev (tl ?d) @ SLASH # rev ?t" using h by (metis append.assoc append_Cons append_Nil rev.simps(2) rev_append rev_rev_ident)
    moreover have "SLASH \<notin> set ?t" by (auto dest: set_takeWhileD)
    ultimately show ?thesis using a True by (auto simp: path_split_def)
  qed (use a in \<open>auto simp: path_split_def\<close>)
qed

theorem path_split_correct_witness: "path_split [47, 97, 47, 98] = ([47, 97], [98]) \<and> [47, 97, 47, 98] = [47, 97] @ SLASH # [98]"
proof -
  have "path_split [47, 97, 47, 98] = ([47, 97], [98])" by (simp add: path_split_def SLASH_def)
  with path_split_correct [OF this] show ?thesis by (simp add: SLASH_def)
qed

end
