(* ===== verification/Fat.thy ===== *)
theory Fat
  imports FatPath BlkIf "HOL-Library.Signed_Division"
begin

text \<open>
  The read path of the FAT file system, \<open>kernel/fat/cluster.c\<close>, \<open>dir.c\<close>, \<open>fileobj.c\<close> and
  \<open>fileops.c\<close>, over the block cache interface \<open>C\<close>. The parts of these files under \<open>#if 0\<close> are
  not compiled and not modelled. A division by a zero field of the boot sector traps (\<open>Panic\<close>).
\<close>

section \<open>On-disk structures\<close>

definition le16 :: "(nat \<Rightarrow> u8) \<Rightarrow> nat \<Rightarrow> u16" where
  "le16 f i = (ucast (f i) :: u16) OR push_bit 8 (ucast (f (i + 1)))"

definition le32 :: "(nat \<Rightarrow> u8) \<Rightarrow> nat \<Rightarrow> u32" where
  "le32 f i = (ucast (le16 f i) :: u32) OR push_bit 16 (ucast (le16 f (i + 2)))"

definition bytes_at :: "(nat \<Rightarrow> u8) \<Rightarrow> nat \<Rightarrow> nat \<Rightarrow> u8 list" where
  "bytes_at f i n = map (\<lambda>k. f (i + k)) [0..<n]"

record bpb =
  fsid :: "u8 list"
  bytes_per_sector :: u16
  sector_per_cluster :: u8
  reserved_sectors :: u16
  fat_count :: u8
  root_entries :: u16
  total_sectors :: u16
  media_descriptor :: u8
  sectors_per_fat :: u16
  sectors_per_track :: u16
  heads :: u16
  hidden_sectors :: u32
  large_sectors :: u32
  drive_no :: u8
  flags :: u8
  ebootsig :: u8
  volser :: u32
  label :: "u8 list"
  fstype :: "u8 list"

text \<open>The structure is packed.\<close>

definition bpb_at :: "(nat \<Rightarrow> u8) \<Rightarrow> nat \<Rightarrow> bpb" where
  "bpb_at f i =
     \<lparr>fsid = bytes_at f i 8, bytes_per_sector = le16 f (i + 8), sector_per_cluster = f (i + 10),
      reserved_sectors = le16 f (i + 11), fat_count = f (i + 13), root_entries = le16 f (i + 14),
      total_sectors = le16 f (i + 16), media_descriptor = f (i + 18), sectors_per_fat = le16 f (i + 19),
      sectors_per_track = le16 f (i + 21), heads = le16 f (i + 23), hidden_sectors = le32 f (i + 25),
      large_sectors = le32 f (i + 29), drive_no = f (i + 33), flags = f (i + 34), ebootsig = f (i + 35),
      volser = le32 f (i + 36), label = bytes_at f (i + 40) 11, fstype = bytes_at f (i + 51) 8\<rparr>"

record dirent =
  de_name :: "u8 list"
  de_attr :: u8
  de_major :: u8
  de_minor :: u8
  de_reserved :: "u8 list"
  de_modtime :: u16
  de_moddate :: u16
  de_cluster0 :: u16
  de_size :: u32

definition dirent_at :: "(nat \<Rightarrow> u8) \<Rightarrow> nat \<Rightarrow> dirent" where
  "dirent_at f i =
     \<lparr>de_name = bytes_at f i 11, de_attr = f (i + 11), de_major = f (i + 12), de_minor = f (i + 13),
      de_reserved = bytes_at f (i + 14) 8, de_modtime = le16 f (i + 22), de_moddate = le16 f (i + 24),
      de_cluster0 = le16 f (i + 26), de_size = le32 f (i + 28)\<rparr>"

definition DELETE_FLAG :: u8 where "DELETE_FLAG = 0xe5"
definition F_MAX_PATH :: nat where "F_MAX_PATH = 128"
definition FA_DIR :: u8 where "FA_DIR = 0x10"
definition FA_DEV :: u8 where "FA_DEV = 0x40"
definition O_ACCESS :: int where "O_ACCESS = 3"
definition O_RDONLY :: int where "O_RDONLY = 0"
definition O_CREAT :: int where "O_CREAT = 4"

record fileinfo =
  fi_ino :: u32
  fi_dir :: dirent

record fatvol =
  fv_dev :: int
  fv_unit :: int
  fv_bpb :: bpb
  fat0sec :: u32
  rootdirsec :: u32
  datasec :: u32
  n_clus :: u32

definition FAT_INO :: "u32 \<Rightarrow> u16 \<Rightarrow> u32" where
  "FAT_INO sec doffs = push_bit 4 sec OR (ucast (drop_bit 5 doffs) AND 0xf)"

definition FAT_INO_SEC :: "u32 \<Rightarrow> u32" where
  "FAT_INO_SEC ino = drop_bit 4 ino AND 0x0FFFFFFF"

definition FAT_INO_OFFS :: "u32 \<Rightarrow> nat" where
  "FAT_INO_OFFS ino = unat (push_bit 5 (ino AND 0x0F))"

text \<open>\<open>blksize\<close> and \<open>blksize * sector_per_cluster\<close> as the 16-bit integers of the code.\<close>

definition blksize :: "fatvol \<Rightarrow> int" where
  "blksize fv = sint (bytes_per_sector (fv_bpb fv))"

definition spc :: "fatvol \<Rightarrow> u32" where
  "spc fv = ucast (sector_per_cluster (fv_bpb fv))"

definition bytes_per_cluster :: "fatvol \<Rightarrow> int" where
  "bytes_per_cluster fv = sint (bytes_per_sector (fv_bpb fv) * ucast (sector_per_cluster (fv_bpb fv)))"

text \<open>A C string that may be \<open>NULL\<close> is an option.\<close>

section \<open>Clusters\<close>

definition fat12_next :: "u32 \<Rightarrow> u8 \<Rightarrow> u8 \<Rightarrow> u32" where
  "fat12_next cluster low high =
     (if cluster AND 1 \<noteq> 0
      then (drop_bit 4 (ucast low) AND 0x0F) OR push_bit 4 (ucast high)
      else push_bit 8 (ucast high AND 0x0F) OR ucast low)"

definition clus_get_next :: "'s bcif \<Rightarrow> fatvol \<Rightarrow> u32 \<Rightarrow> u32 \<Rightarrow> 's \<Rightarrow> (int \<times> u32 \<times> 's) res" where
  "clus_get_next C fv cluster nxt s =
     (let offs = sint ((cluster * 3) div 2); bs = blksize fv
      in if bs = 0 then Panic
         else (let sec0 = fat0sec fv + word_of_int (offs sdiv bs);
                   sec1 = fat0sec fv + word_of_int ((offs + 1) sdiv bs)
               in chk (bget C (fv_dev fv) (fv_unit fv) sec0 s) nxt (\<lambda>blk s1.
                  let low = bdata C blk s1 (nat (offs smod bs));
                      fin = (\<lambda>blk s2.
                        let high = bdata C blk s2 (nat ((offs + 1) smod bs))
                        in chk0 (bput C blk s2) nxt (\<lambda>s3. Ok (0, fat12_next cluster low high, s3)))
                  in if sec1 \<noteq> sec0
                     then chk0 (bput C blk s1) nxt (\<lambda>s2.
                          chk (bget C (fv_dev fv) (fv_unit fv) sec1 s2) nxt fin)
                     else fin blk s1)))"

section \<open>Directories\<close>

text \<open>
  The loop of \<open>dir_find_ent\<close>. \<open>ele\<close> is the name to look for, or \<open>None\<close> for a free slot; the
  end-of-directory mark ends the search without giving the block back.
\<close>

definition dir_match :: "u8 list option \<Rightarrow> dirent \<Rightarrow> bool" where
  "dir_match ele d =
     (case ele of None \<Rightarrow> hd (de_name d) = 0 \<or> hd (de_name d) AND 0xff = DELETE_FLAG
      | Some e \<Rightarrow> de_name d = e)"

partial_function (option) dir_find_loop ::
  "'s bcif \<Rightarrow> fatvol \<Rightarrow> u8 list option \<Rightarrow> fileinfo \<Rightarrow> u32 \<Rightarrow> u32 \<Rightarrow> u16 \<Rightarrow> u16 \<Rightarrow> nat \<Rightarrow> 's \<Rightarrow>
   (int \<times> fileinfo \<times> 's) res option" where
  "dir_find_loop C fv ele info cluster sec offs entleft blk s =
     (let d = dirent_at (bdata C blk s) (unat offs)
      in if ele \<noteq> None \<and> hd (de_name d) = 0 then Some (Ok (- ENOENT, info, s))
         else if dir_match ele d then
           Some (chk0 (bput C blk s) \<lparr>fi_ino = FAT_INO (bnum C blk s) offs, fi_dir = d\<rparr>
                  (\<lambda>s1. Ok (0, \<lparr>fi_ino = FAT_INO (bnum C blk s) offs, fi_dir = d\<rparr>, s1)))
         else if entleft - 1 = 0 then
           (case bput C blk s of
              Panic \<Rightarrow> Some Panic
            | Hang \<Rightarrow> Some Hang
            | Ok (rc, s1) \<Rightarrow>
                if rc \<noteq> 0 then Some (Ok (rc, info, s1))
                else if cluster = 0 then Some (Ok (- ENOENT, info, s1))
                else (case clus_get_next C fv cluster cluster s1 of
                   Panic \<Rightarrow> Some Panic
                 | Hang \<Rightarrow> Some Hang
                 | Ok (rc, cl, s2) \<Rightarrow>
                     if rc \<noteq> 0 then Some (Ok (rc, info, s2))
                     else if 0xff0 \<le> cl then Some (Ok (- ENOENT, info, s2))
                     else (let sec' = datasec fv + (cl - 2) * spc fv
                           in case bget C (fv_dev fv) (fv_unit fv) sec' s2 of
                                Panic \<Rightarrow> Some Panic
                              | Hang \<Rightarrow> Some Hang
                              | Ok (rc, blk', s3) \<Rightarrow>
                                  if rc \<noteq> 0 then Some (Ok (rc, info, s3))
                                  else dir_find_loop C fv ele info cl sec' 0
                                         (of_nat (unat (bytes_per_sector (fv_bpb fv) * ucast (sector_per_cluster (fv_bpb fv))) div 32))
                                         blk' s3)))
         else if offs + 32 = bytes_per_sector (fv_bpb fv) then
           (case bput C blk s of
              Panic \<Rightarrow> Some Panic
            | Hang \<Rightarrow> Some Hang
            | Ok (rc, s1) \<Rightarrow>
                if rc \<noteq> 0 then Some (Ok (rc, info, s1))
                else (case bget C (fv_dev fv) (fv_unit fv) (sec + 1) s1 of
                   Panic \<Rightarrow> Some Panic
                 | Hang \<Rightarrow> Some Hang
                 | Ok (rc, blk', s2) \<Rightarrow>
                     if rc \<noteq> 0 then Some (Ok (rc, info, s2))
                     else dir_find_loop C fv ele info cluster (sec + 1) 0 (entleft - 1) blk' s2))
         else dir_find_loop C fv ele info cluster sec (offs + 32) (entleft - 1) blk s)"

definition dir_find_ent ::
  "'s bcif \<Rightarrow> fatvol \<Rightarrow> cstr option \<Rightarrow> nat \<Rightarrow> u32 \<Rightarrow> fileinfo \<Rightarrow> 's \<Rightarrow> (int \<times> fileinfo \<times> 's) res" where
  "dir_find_ent C fv path len cluster info s =
     (let (rc, ele) = (case path of None \<Rightarrow> (0, None)
                       | Some p \<Rightarrow> (let (rc, e) = path_parse_fn p len in (rc, Some e)))
      in if rc \<noteq> 0 then Ok (- ENOENT, info, s)
         else (let (sec, entleft) =
                     (if cluster = 0 then (rootdirsec fv, root_entries (fv_bpb fv))
                      else (datasec fv + (cluster - 2) * spc fv,
                            of_nat (unat (bytes_per_sector (fv_bpb fv) * ucast (sector_per_cluster (fv_bpb fv))) div 32)))
               in chk (bget C (fv_dev fv) (fv_unit fv) sec s) info (\<lambda>blk s1.
                  of_loopr (dir_find_loop C fv ele info cluster sec 0 entleft blk s1))))"

text \<open>The entry made up for the root directory.\<close>

definition root_info :: fileinfo where
  "root_info = \<lparr>fi_ino = 0, fi_dir = \<lparr>de_name = replicate 11 SPACE, de_attr = FA_DIR, de_major = 0, de_minor = 0,
     de_reserved = replicate 8 0, de_modtime = 0, de_moddate = 0, de_cluster0 = 0, de_size = 0\<rparr>\<rparr>"

text \<open>The elements of a path from an index on, as the loop of \<open>dir_find_path\<close> visits them.\<close>

lemma skip_ele_ge: "i \<le> skip_ele fn i"
  by (induction fn i rule: skip_ele.induct) (subst skip_ele.simps, auto)

lemma skip_slash_ge: "i \<le> skip_slash fn i"
  by (induction fn i rule: skip_slash.induct) (subst skip_slash.simps, auto)

lemma skip_ele_bound: "i \<le> length fn \<Longrightarrow> skip_ele fn i \<le> length fn"
  by (induction fn i rule: skip_ele.induct) (subst skip_ele.simps, auto simp: cat_def split: if_splits)

lemma skip_ele_step: "skip_ele fn i \<noteq> i \<Longrightarrow> i < length fn"
  by (subst (asm) skip_ele.simps) (auto simp: cat_def split: if_splits)

function path_eles :: "cstr \<Rightarrow> nat \<Rightarrow> substr list" where
  "path_eles fn start =
     (let ss = path_next_dir_ele fn start
      in if ss_len ss = 0 then [] else ss # path_eles fn (ss_start ss + ss_len ss))"
  by auto
termination
proof (relation "measure (\<lambda>(fn, i). Suc (length fn) - i)")
  fix fn start ss
  assume ss: "ss = path_next_dir_ele fn start" "ss_len ss \<noteq> 0"
  let ?i = "skip_slash fn start"
  have e: "ss_start ss + ss_len ss = skip_ele fn ?i" "skip_ele fn ?i \<noteq> ?i"
    using ss skip_ele_ge [of ?i fn] by (auto simp: path_next_dir_ele_def Let_def)
  then have "?i < length fn" "?i < skip_ele fn ?i" using skip_ele_step [of fn ?i] skip_ele_ge [of ?i fn] by auto
  then show "((fn, ss_start ss + ss_len ss), (fn, start)) \<in> measure (\<lambda>(fn, i). Suc (length fn) - i)"
    using e(1) skip_slash_ge [of start fn] skip_ele_bound [of ?i fn] by auto
qed auto

declare path_eles.simps [simp del]

text \<open>\<open>cluster\<close> is an \<open>int\<close>: the cluster number of an entry is sign-extended when it is passed on.\<close>

fun dir_walk ::
  "'s bcif \<Rightarrow> fatvol \<Rightarrow> cstr \<Rightarrow> substr list \<Rightarrow> u32 \<Rightarrow> fileinfo \<Rightarrow> 's \<Rightarrow> (int \<times> fileinfo \<times> 's) res" where
  "dir_walk C fv fn [] cluster info s = Ok (0, info, s)"
| "dir_walk C fv fn (ss # sss) cluster info s =
     chk (dir_find_ent C fv (Some (drop (ss_start ss) fn)) (ss_len ss) cluster info s) info (\<lambda>info1 s1.
       if sss \<noteq> [] \<and> de_attr (fi_dir info1) AND FA_DIR = 0 then Ok (- ENOENT, info1, s1)
       else dir_walk C fv fn sss (scast (de_cluster0 (fi_dir info1))) info1 s1)"

definition dir_find_path :: "'s bcif \<Rightarrow> fatvol \<Rightarrow> cstr \<Rightarrow> fileinfo \<Rightarrow> 's \<Rightarrow> (int \<times> fileinfo \<times> 's) res" where
  "dir_find_path C fv fn info s =
     (case path_eles fn 0 of
        [] \<Rightarrow> if cat fn 0 = SLASH then Ok (0, root_info, s) else Ok (- ENOENT, info, s)
      | eles \<Rightarrow> dir_walk C fv fn eles 0 info s)"

text \<open>\<open>dir_set_datetime\<close> of the kernel, on the entry as bytes.\<close>

definition dir_set_datetime :: "dirent \<Rightarrow> dirent" where
  "dir_set_datetime d = d\<lparr>de_modtime := 0, de_moddate := 0\<rparr>"

section \<open>File objects\<close>

definition fobj_create ::
  "'s bcif \<Rightarrow> fatvol \<Rightarrow> cstr \<Rightarrow> u8 \<Rightarrow> fileinfo \<Rightarrow> 's \<Rightarrow> (int \<times> (fileinfo \<times> u32) \<times> 's) res" where
  "fobj_create C fv fn attr info s =
     (if F_MAX_PATH < length fn then Ok (- EINVAL, (info, 0), s)
      else (let (dir, name) = path_split fn;
                (rc, ele) = path_parse_fn name (length name)
            in if rc \<noteq> 0 then Ok (rc, (info, 0), s)
               else chk (if dir \<noteq> []
                         then chk (dir_find_path C fv dir info s) (info, 0) (\<lambda>info1 s1.
                                if de_attr (fi_dir info1) AND FA_DIR = 0 then Ok (- ENOENT, (info1, 0), s1)
                                else Ok (0, (info1, scast (de_cluster0 (fi_dir info1))), s1))
                         else Ok (0, (info, 0), s)) (info, 0) (\<lambda>(info2, clus) s2.
                    bind_res (dir_find_ent C fv (Some name) (length name) clus info2 s2) (\<lambda>(rc, info3, s3).
                    if rc \<noteq> - ENOENT then Ok (if rc = 0 then - EEXIST else rc, (info3, clus), s3)
                    else chk (dir_find_ent C fv None 0 clus info3 s3) (info3, clus) (\<lambda>info4 s4.
                         chk (bget C (fv_dev fv) (fv_unit fv) (FAT_INO_SEC (fi_ino info4)) s4) (info4, clus) (\<lambda>blk s5.
                           let eo = FAT_INO_OFFS (fi_ino info4);
                               s6 = bstore C blk eo ele s5;
                               s7 = bstore C blk (eo + 11) [attr] s6;
                               s8 = bstore C blk (eo + 14) (replicate 8 0) s7;
                               s9 = bstore C blk (eo + 22) [0, 0, 0, 0] s8;
                               info5 = info4\<lparr>fi_dir := dirent_at (bdata C blk s9) eo\<rparr>;
                               s10 = bmark C blk s9
                           in chk0 (bput C blk s10) (info5, clus) (\<lambda>s11. Ok (0, (info5, clus), s11))))))))"

text \<open>Follow \<open>n\<close> links of a cluster chain; the mark of the end of the chain is \<open>- EIO\<close>.\<close>

fun clus_follow :: "'s bcif \<Rightarrow> fatvol \<Rightarrow> nat \<Rightarrow> u32 \<Rightarrow> 's \<Rightarrow> (int \<times> u32 \<times> 's) res" where
  "clus_follow C fv 0 ci s = Ok (0, ci, s)"
| "clus_follow C fv (Suc n) ci s =
     chk (clus_get_next C fv ci ci s) ci (\<lambda>ci1 s1.
       if 0xff0 \<le> ci1 then Ok (- EIO, ci1, s1) else clus_follow C fv n ci1 s1)"

definition fobj_get_sec_at_offs :: "'s bcif \<Rightarrow> fatvol \<Rightarrow> u32 \<Rightarrow> u32 \<Rightarrow> 's \<Rightarrow> (int \<times> nat \<times> 's) res" where
  "fobj_get_sec_at_offs C fv clus0 offs s =
     (if blksize fv = 0 \<or> bytes_per_cluster fv = 0 then Panic
      else (let clus = (word_of_int (sint offs sdiv bytes_per_cluster fv) :: u32);
                offs1 = offs - clus * word_of_int (bytes_per_cluster fv);
                sec = (word_of_int (sint offs1 sdiv blksize fv) :: u32)
            in chk (clus_follow C fv (unat clus) clus0 s) 0 (\<lambda>ci s1.
               bget C (fv_dev fv) (fv_unit fv) (sec + datasec fv + (ci - 2) * spc fv) s1)))"

section \<open>File operations\<close>

definition bpb0 :: bpb where "bpb0 = bpb_at (\<lambda>_. 0) 0"

definition fat_umount :: fatvol where
  "fat_umount = \<lparr>fv_dev = 0, fv_unit = 0, fv_bpb = bpb0, fat0sec = 0, rootdirsec = 0, datasec = 0, n_clus = 0\<rparr>"

definition fat_mount :: "'s bcif \<Rightarrow> int \<Rightarrow> int \<Rightarrow> 's \<Rightarrow> (int \<times> fatvol \<times> 's) res" where
  "fat_mount C dev unit s =
     (let fv0 = fat_umount\<lparr>fv_dev := dev, fv_unit := unit\<rparr>
      in chk (bget C dev unit 0 s) fv0 (\<lambda>b s1.
         let p = bpb_at (bdata C b s1) 3; fv1 = fv0\<lparr>fv_bpb := p\<rparr>
         in chk0 (bput C b s1) fv1 (\<lambda>s2.
            let f0 = hidden_sectors p + ucast (reserved_sectors p);
                r0 = f0 + ucast ((ucast (fat_count p) :: u16) * sectors_per_fat p);
                d0 = r0 + ucast ((root_entries p * 32 + 512 - 1) div 512)
            in if sector_per_cluster p = 0 then Panic
               else Ok (0, fv1\<lparr>fat0sec := f0, rootdirsec := r0, datasec := d0,
                              n_clus := 2 + (ucast (total_sectors p) - d0) div ucast (sector_per_cluster p)\<rparr>, s2))))"

definition fat_ino_get :: "'s bcif \<Rightarrow> fatvol \<Rightarrow> cstr \<Rightarrow> int \<Rightarrow> fileinfo \<Rightarrow> 's \<Rightarrow> (u32 \<times> 's) res" where
  "fat_ino_get C fv path fl info s =
     bind_res (dir_find_path C fv path info s) (\<lambda>(rc, info1, s1).
       if rc = 0 \<and> de_attr (fi_dir info1) AND FA_DIR \<noteq> 0 \<and> fl AND O_ACCESS \<noteq> O_RDONLY
       then Ok (word_of_int (- EACCES), s1)
       else if rc \<noteq> 0 then
         (if rc = - ENOENT \<and> fl AND O_CREAT \<noteq> 0
          then bind_res (fobj_create C fv path 0 info1 s1) (\<lambda>(rc, (info2, _), s2).
               if rc \<noteq> 0 then Ok (word_of_int rc, s2) else Ok (fi_ino info2, s2))
          else Ok (word_of_int rc, s1))
       else Ok (fi_ino info1, s1))"

record stat =
  st_ino :: u32
  st_mtime :: u32
  st_size :: u32
  st_nlink :: u16
  st_blksize :: u16
  st_mode :: u16
  st_rdev :: u16

definition S_IFREG :: u16 where "S_IFREG = 0x8000"
definition S_IFBLK :: u16 where "S_IFBLK = 0x6000"
definition S_IFDIR :: u16 where "S_IFDIR = 0x4000"
definition S_IFCHR :: u16 where "S_IFCHR = 0x2000"

definition S_RDEV :: "u8 \<Rightarrow> u8 \<Rightarrow> u16" where
  "S_RDEV mjr mnr = push_bit 8 (ucast mjr) OR (ucast mnr AND 0xff)"

definition fillstat :: "fatvol \<Rightarrow> fileinfo \<Rightarrow> stat" where
  "fillstat fv info =
     (let d = fi_dir info;
          st = \<lparr>st_ino = fi_ino info, st_mtime = 0, st_size = de_size d, st_nlink = 1,
                st_blksize = bytes_per_sector (fv_bpb fv), st_mode = S_IFREG, st_rdev = 0\<rparr>
      in if de_attr d AND FA_DIR \<noteq> 0 then st\<lparr>st_mode := S_IFDIR\<rparr>
         else if de_attr d AND FA_DEV \<noteq> 0
         then st\<lparr>st_mode := (if de_major d AND 0x80 \<noteq> 0 then S_IFBLK else S_IFCHR),
                 st_rdev := S_RDEV (de_major d) (de_minor d)\<rparr>
         else st)"

text \<open>The block is not given back.\<close>

definition fat_stat :: "'s bcif \<Rightarrow> fatvol \<Rightarrow> u32 \<Rightarrow> stat \<Rightarrow> 's \<Rightarrow> (int \<times> stat \<times> 's) res" where
  "fat_stat C fv ino st s =
     chk (bget C (fv_dev fv) (fv_unit fv) (FAT_INO_SEC ino) s) st (\<lambda>blk s1.
       Ok (0, fillstat fv \<lparr>fi_ino = ino, fi_dir = dirent_at (bdata C blk s1) (FAT_INO_OFFS ino)\<rparr>, s1))"

text \<open>\<open>out\<close> collects what is stored at \<open>buf\<close>; \<open>off\<close> does not advance.\<close>

partial_function (option) read_root_loop ::
  "'s bcif \<Rightarrow> fatvol \<Rightarrow> u32 \<Rightarrow> u32 \<Rightarrow> u16 \<Rightarrow> u16 \<Rightarrow> u8 list \<Rightarrow> 's \<Rightarrow> (u16 \<times> u8 list \<times> 's) res option" where
  "read_root_loop C fv off sec0 sz got out s =
     (if sz \<noteq> 0 \<and> sec0 < datasec fv then
        (case bget C (fv_dev fv) (fv_unit fv) sec0 s of
           Panic \<Rightarrow> Some Panic
         | Hang \<Rightarrow> Some Hang
         | Ok (rc, blk, s1) \<Rightarrow>
             if rc \<noteq> 0 then Some (Ok (word_of_int rc, out, s1))
             else (let dataoffs = (word_of_int (sint off smod blksize fv) :: u16);
                       dl = (word_of_int (blksize fv) :: u16) - dataoffs;
                       datalen = (if sz < dl then sz else dl);
                       out' = out @ bytes_at (bdata C blk s1) (unat dataoffs) (unat datalen)
                   in case bput C blk s1 of
                        Panic \<Rightarrow> Some Panic
                      | Hang \<Rightarrow> Some Hang
                      | Ok (rc, s2) \<Rightarrow>
                          if rc \<noteq> 0 then Some (Ok (word_of_int rc, out', s2))
                          else read_root_loop C fv off (sec0 + 1) (sz - datalen) (got + datalen) out' s2))
      else Some (Ok (got, out, s)))"

definition read_root_dir :: "'s bcif \<Rightarrow> fatvol \<Rightarrow> u32 \<Rightarrow> u16 \<Rightarrow> 's \<Rightarrow> (u16 \<times> u8 list \<times> 's) res" where
  "read_root_dir C fv off sz s =
     (if blksize fv = 0 then Panic
      else of_loopr (read_root_loop C fv off (rootdirsec fv + word_of_int (sint off sdiv blksize fv)) sz 0 [] s))"

text \<open>The walk to the first cluster of \<open>fat_read\<close>: only negative codes count as errors there.\<close>

fun read_follow :: "'s bcif \<Rightarrow> fatvol \<Rightarrow> nat \<Rightarrow> u32 \<Rightarrow> int \<Rightarrow> 's \<Rightarrow> (int \<times> u32 \<times> 's) res" where
  "read_follow C fv 0 ci rc s = Ok (rc, ci, s)"
| "read_follow C fv (Suc n) ci rc s =
     bind_res (clus_get_next C fv ci ci s) (\<lambda>(rc1, ci1, s1).
       if rc1 < 0 then Ok (rc1, ci1, s1)
       else if 0xff0 \<le> ci1 then Ok (- EIO, ci1, s1)
       else read_follow C fv n ci1 rc1 s1)"

text \<open>The loop over the data: return code, bytes stored, bytes counted.\<close>

partial_function (option) fat_read_loop ::
  "'s bcif \<Rightarrow> fatvol \<Rightarrow> u32 \<Rightarrow> u32 \<Rightarrow> u32 \<Rightarrow> u32 \<Rightarrow> u16 \<Rightarrow> u16 \<Rightarrow> int \<Rightarrow> u8 list \<Rightarrow> 's \<Rightarrow>
   (int \<times> u16 \<times> u8 list \<times> 's) res option" where
  "fat_read_loop C fv ci sec secleft off sz got rc0 out s =
     (if sz = 0 then Some (Ok (rc0, got, out, s))
      else (case bget C (fv_dev fv) (fv_unit fv) sec s of
          Panic \<Rightarrow> Some Panic
        | Hang \<Rightarrow> Some Hang
        | Ok (rc, blk, s1) \<Rightarrow>
            if rc < 0 then Some (Ok (rc, got, out, s1))
            else (let dataoffs = (word_of_int (sint off smod int (unat (bytes_per_sector (fv_bpb fv)))) :: u16);
                      dl = bytes_per_sector (fv_bpb fv) - dataoffs;
                      datalen = (if sz < dl then sz else dl);
                      out' = out @ bytes_at (bdata C blk s1) (unat dataoffs) (unat datalen)
                  in case bput C blk s1 of
                       Panic \<Rightarrow> Some Panic
                     | Hang \<Rightarrow> Some Hang
                     | Ok (rc, s2) \<Rightarrow>
                         if rc < 0 then Some (Ok (rc, got, out', s2))
                         else if secleft - 1 \<noteq> 0
                         then fat_read_loop C fv ci (sec + 1) (secleft - 1) (off + ucast datalen) (sz - datalen)
                                (got + datalen) rc out' s2
                         else (case clus_get_next C fv ci ci s2 of
                              Panic \<Rightarrow> Some Panic
                            | Hang \<Rightarrow> Some Hang
                            | Ok (rc, ci', s3) \<Rightarrow>
                                if rc < 0 then Some (Ok (rc, got, out', s3))
                                else fat_read_loop C fv ci' (datasec fv + (ci' - 2) * spc fv) (spc fv)
                                       (off + ucast datalen) (sz - datalen) (got + datalen) rc out' s3))))"

definition fat_read :: "'s bcif \<Rightarrow> fatvol \<Rightarrow> u32 \<Rightarrow> u32 \<Rightarrow> u16 \<Rightarrow> 's \<Rightarrow> (u16 \<times> u8 list \<times> 's) res" where
  "fat_read C fv ino off sz s =
     (if sint (off + ucast sz) < sint off then Ok (word_of_int (- EINVAL), [], s)
      else if ino = 0 then read_root_dir C fv off sz s
      else bind_res (bget C (fv_dev fv) (fv_unit fv) (FAT_INO_SEC ino) s) (\<lambda>(rc, dirblk, s1).
        if rc < 0 then Ok (word_of_int rc, [], s1)
        else (let dir = dirent_at (bdata C dirblk s1) (FAT_INO_OFFS ino);
                  sz1 = (if de_size dir < off + ucast sz then ucast (de_size dir - off) else sz)
              in if blksize fv = 0 \<or> bytes_per_cluster fv = 0 then Panic
                 else (let clcnt = (word_of_int (sint off sdiv bytes_per_cluster fv) :: u32);
                           off1 = off - clcnt * word_of_int (bytes_per_cluster fv);
                           sec = (word_of_int (sint off1 sdiv blksize fv) :: u32);
                           secleft = spc fv - sec
                       in bind_res (bind_res (read_follow C fv (unat clcnt) (ucast (de_cluster0 dir)) rc s1) (\<lambda>(rc, ci, s2).
                              if rc < 0 then Ok (rc, 0, [], s2)
                              else of_loopr (fat_read_loop C fv ci (sec + datasec fv + (ci - 2) * spc fv) secleft off1 sz1 0 rc [] s2)))
                            (\<lambda>(rc, got, out, s3).
                              bind_res (bput C dirblk s3) (\<lambda>(rc2, s4).
                                if rc \<noteq> 0 then Ok (word_of_int rc, out, s4)
                                else if rc2 \<noteq> 0 then Ok (word_of_int rc2, out, s4)
                                else Ok (got, out, s4)))))))"

end
