(* ===== verification/FatRead.thy ===== *)
theory FatRead
  imports Fat
begin

text \<open>
  The read path of the file system is correct over every block cache that keeps the contract
  \<open>block_cache\<close>. The properties, for the kernel's own cache, are in \<open>FatThms\<close>.
\<close>

section \<open>The view of the volume\<close>

text \<open>Sectors of 512 bytes, and clusters of fewer than 64 sectors, as the 16-bit \<open>int\<close> needs.\<close>

definition good_vol :: "int \<Rightarrow> int \<Rightarrow> fatvol \<Rightarrow> bool" where
  "good_vol dev unit fv \<longleftrightarrow> fv_dev fv = dev \<and> fv_unit fv = unit \<and> bytes_per_sector (fv_bpb fv) = 512
     \<and> 0 < sector_per_cluster (fv_bpb fv) \<and> sector_per_cluster (fv_bpb fv) < 64"

definition nspc :: "fatvol \<Rightarrow> nat" where
  "nspc fv = unat (sector_per_cluster (fv_bpb fv))"

text \<open>Byte \<open>i\<close> of the first FAT, and the FAT12 entry of a cluster.\<close>

definition fat_byte :: "(u32 \<Rightarrow> u8 list) \<Rightarrow> fatvol \<Rightarrow> nat \<Rightarrow> u8" where
  "fat_byte D fv i = D (fat0sec fv + of_nat (i div 512)) ! (i mod 512)"

definition fat_entry :: "(u32 \<Rightarrow> u8 list) \<Rightarrow> fatvol \<Rightarrow> u32 \<Rightarrow> u32" where
  "fat_entry D fv c = (let i = 3 * unat c div 2 in fat12_next c (fat_byte D fv i) (fat_byte D fv (i + 1)))"

text \<open>A chain of clusters none of which but the last is followed by the end mark.\<close>

fun fat_chain :: "(u32 \<Rightarrow> u8 list) \<Rightarrow> fatvol \<Rightarrow> u32 list \<Rightarrow> bool" where
  "fat_chain D fv (c # d # cs) = (fat_entry D fv c = d \<and> d < 0xff0 \<and> fat_chain D fv (d # cs))"
| "fat_chain D fv _ = True"

text \<open>The sector \<open>t\<close> and the byte \<open>p\<close> of the file with the clusters \<open>cs\<close>.\<close>

definition file_sec :: "fatvol \<Rightarrow> u32 list \<Rightarrow> nat \<Rightarrow> u32" where
  "file_sec fv cs t = datasec fv + (cs ! (t div nspc fv) - 2) * spc fv + of_nat (t mod nspc fv)"

definition file_byte :: "(u32 \<Rightarrow> u8 list) \<Rightarrow> fatvol \<Rightarrow> u32 list \<Rightarrow> nat \<Rightarrow> u8" where
  "file_byte D fv cs p = D (file_sec fv cs (p div 512)) ! (p mod 512)"

definition disk_dirent :: "(u32 \<Rightarrow> u8 list) \<Rightarrow> u32 \<Rightarrow> dirent" where
  "disk_dirent D ino = dirent_at (\<lambda>i. D (FAT_INO_SEC ino) ! i) (FAT_INO_OFFS ino)"

text \<open>
  Entry \<open>k\<close> of the root directory, and the search for a name: the first entry with it before the
  end mark.
\<close>

definition root_sec :: "fatvol \<Rightarrow> nat \<Rightarrow> u32" where
  "root_sec fv k = rootdirsec fv + of_nat (k div 16)"

definition root_offs :: "nat \<Rightarrow> u16" where
  "root_offs k = of_nat (32 * (k mod 16))"

definition root_ent :: "(u32 \<Rightarrow> u8 list) \<Rightarrow> fatvol \<Rightarrow> nat \<Rightarrow> dirent" where
  "root_ent D fv k = dirent_at (\<lambda>i. D (root_sec fv k) ! i) (32 * (k mod 16))"

fun find_ent :: "(nat \<Rightarrow> dirent) \<Rightarrow> u8 list \<Rightarrow> nat \<Rightarrow> nat \<Rightarrow> nat option" where
  "find_ent E e k 0 = None"
| "find_ent E e k (Suc n) =
     (if hd (de_name (E k)) = 0 then None else if de_name (E k) = e then Some k else find_ent E e (Suc k) n)"

section \<open>Arithmetic\<close>

lemma good_blksize: "good_vol dev unit fv \<Longrightarrow> blksize fv = 512"
  by (simp add: good_vol_def blksize_def)

lemma nspc_bounds: "good_vol dev unit fv \<Longrightarrow> 0 < nspc fv \<and> nspc fv < 64"
  by (simp add: good_vol_def nspc_def word_less_nat_alt)

lemma spc_nspc: "spc fv = of_nat (nspc fv)"
  by (simp add: spc_def nspc_def)

lemma sint_small: "unat (w :: 32 word) < 2147483648 \<Longrightarrow> sint w = int (unat w)"
proof -
  assume "unat w < 2147483648"
  then have "int (unat w) < int 2147483648" by (simp only: of_nat_less_iff)
  then have u: "uint w < 2147483648" by simp
  have z: "0 \<le> uint w" by (rule uint_ge_0)
  from z u have "uint w div 2147483648 = 0" by (rule div_pos_pos_trivial)
  then have "\<not> bit (uint w) 31" by (simp add: bit_iff_odd)
  then have "sint w = take_bit 31 (uint w)" by (simp add: sint_uint signed_take_bit_eq_if_positive)
  also have "\<dots> = uint w" using u z by (simp add: take_bit_int_eq_self)
  finally show ?thesis by simp
qed

lemma sint_small16: "unat (w :: 16 word) < 32768 \<Longrightarrow> sint w = int (unat w)"
proof -
  assume "unat w < 32768"
  then have "int (unat w) < int 32768" by (simp only: of_nat_less_iff)
  then have u: "uint w < 32768" by simp
  have z: "0 \<le> uint w" by (rule uint_ge_0)
  from z u have "uint w div 32768 = 0" by (rule div_pos_pos_trivial)
  then have "\<not> bit (uint w) 15" by (simp add: bit_iff_odd)
  then have "sint w = take_bit 15 (uint w)" by (simp add: sint_uint signed_take_bit_eq_if_positive)
  also have "\<dots> = uint w" using u z by (simp add: take_bit_int_eq_self)
  finally show ?thesis by simp
qed

lemma sdiv_nonneg: "0 \<le> a \<Longrightarrow> 0 < b \<Longrightarrow> (a :: int) sdiv b = a div b"
  by (cases "a = 0") (simp_all add: signed_divide_int_def)

lemma smod_nonneg: "0 \<le> a \<Longrightarrow> 0 < b \<Longrightarrow> (a :: int) smod b = a mod b"
  by (simp add: smod_mod_positive)

lemma div_mod_512: "r < 512 \<Longrightarrow> (r + 512 * q) div 512 = q \<and> (r + 512 * q) mod 512 = (r :: nat)"
  by simp

lemma pos_mod_512: "p mod 512 < (512 :: nat)"
  by simp

lemma sector_end: "d = 512 - r \<Longrightarrow> r + 512 * q = p \<Longrightarrow> r < 512 \<Longrightarrow> p + d = 512 * Suc q"
  by simp

lemma mul_512_less: "512 * a < b * 512 \<Longrightarrow> a < (b :: nat)"
  by simp

lemma min_word: "unat a = m \<Longrightarrow> unat b = n \<Longrightarrow> (if a < b then a else b :: u16) = of_nat (min m n)"
  by (auto simp: word_less_nat_alt min_def)

lemma of_nat32_zero_iff: "m < 4294967296 \<Longrightarrow> (of_nat m :: u32) = 0 \<longleftrightarrow> m = 0"
  using of_nat_inverse [of m "0 :: u32"] by auto

lemma secs_left: "r < m \<Longrightarrow> m < 64 \<Longrightarrow> (of_nat (m - r) - 1 :: u32) = of_nat (m - Suc r)
    \<and> ((of_nat (m - Suc r) :: u32) = 0 \<longleftrightarrow> Suc r = m)"
  using of_nat32_zero_iff [of "m - Suc r"] by (auto simp: of_nat_diff Suc_leI [of r m])

lemma good_bpc: "good_vol dev unit fv \<Longrightarrow> bytes_per_cluster fv = int (512 * nspc fv)"
proof -
  assume g: "good_vol dev unit fv"
  have "unat ((512 :: u16) * ucast (sector_per_cluster (fv_bpb fv))) = 512 * nspc fv"
    using nspc_bounds [OF g] by (simp add: unat_word_ariths nspc_def unsigned_ucast_eq take_bit_nat_eq_self)
  then show ?thesis using g nspc_bounds [OF g]
    by (simp add: bytes_per_cluster_def good_vol_def sint_small16)
qed

lemma end_no_wrap: "unat off + unat (sz :: u16) < 2147483648 \<Longrightarrow>
    \<not> sint (off + ucast sz) < sint (off :: u32) \<and> unat (off + ucast sz) = unat off + unat sz"
proof -
  assume a: "unat off + unat sz < 2147483648"
  have u: "unat (off + ucast sz) = unat off + unat sz"
    using a by (simp add: unat_word_ariths unsigned_ucast_eq take_bit_nat_eq_self)
  then have "sint (off + ucast sz) = int (unat off + unat sz)" "sint off = int (unat off)"
    using a sint_small [of "off + ucast sz"] by (simp_all add: sint_small del: of_nat_unat)
  then show ?thesis using u by linarith
qed

lemma dirent_at_cong: "(\<And>i. i < k + 32 \<Longrightarrow> f i = g i) \<Longrightarrow> dirent_at f k = dirent_at g k"
  by (simp add: dirent_at_def bytes_at_def le16_def le32_def)

lemma ino_offs: "FAT_INO_OFFS ino + 32 \<le> 512"
proof -
  have "ino AND 0xF = take_bit 4 ino" by (simp add: take_bit_eq_mask mask_eq_exp_minus_1)
  then have "unat (ino AND 0xF) = unat ino mod 16" by (simp add: take_bit_eq_mod unat_mod)
  then have "unat (ino AND 0xF) < 16" by simp
  then show ?thesis by (simp add: FAT_INO_OFFS_def push_bit_eq_mult unat_word_ariths)
qed

lemma pos_split: "a = q * 512 + r \<Longrightarrow> q = c * m + s \<Longrightarrow> a = c * (512 * m) + (512 * s + (r :: nat))"
  by (simp add: algebra_simps)

lemma unat_of_nat31: "a < 2147483648 \<Longrightarrow> unat (of_nat a :: u32) = a"
  by (simp add: unat_of_nat take_bit_nat_eq_self)

lemma read_pos:
  assumes "0 < m" "unat (off :: u32) < 2147483648"
  defines "t \<equiv> unat off div 512"
  shows "(word_of_int (sint off sdiv int (512 * m)) :: u32) = of_nat (t div m)"
    "unat (of_nat (t div m) :: u32) = t div m"
    "off - of_nat (t div m) * word_of_int (int (512 * m)) = of_nat (512 * (t mod m) + unat off mod 512)"
    "unat (of_nat (512 * (t mod m) + unat off mod 512) :: u32) = 512 * (t mod m) + unat off mod 512"
    "(word_of_int (sint (of_nat (512 * (t mod m) + unat off mod 512) :: u32) sdiv 512) :: u32) = of_nat (t mod m)"
proof -
  have so: "sint off = int (unat off)" by (rule sint_small [OF assms(2)])
  have dd: "unat off div (512 * m) = t div m" by (simp add: t_def div_mult2_eq)
  show "(word_of_int (sint off sdiv int (512 * m)) :: u32) = of_nat (t div m)"
    unfolding so dd [symmetric] using assms(1)
    by (metis sdiv_nonneg of_nat_0_le_iff of_nat_0_less_iff nat_0_less_mult_iff zero_less_numeral zdiv_int of_int_of_nat_eq)
  have "t div m \<le> t" "t \<le> unat off" by (simp_all add: t_def)
  then have b1: "t div m < 2147483648" using assms(2) by linarith
  then show "unat (of_nat (t div m) :: u32) = t div m" by (simp add: unat_of_nat take_bit_nat_eq_self)
  have e: "unat off = t div m * (512 * m) + (512 * (t mod m) + unat off mod 512)"
    by (rule pos_split [of _ t]) (simp_all add: t_def mult.commute)
  have "off = of_nat (unat off)" by simp
  also have "\<dots> = of_nat (t div m) * of_nat (512 * m) + of_nat (512 * (t mod m) + unat off mod 512)"
    by (subst e) (simp only: of_nat_add of_nat_mult)
  finally have "off = of_nat (t div m) * of_nat (512 * m) + of_nat (512 * (t mod m) + unat off mod 512)" .
  then show "off - of_nat (t div m) * word_of_int (int (512 * m)) = of_nat (512 * (t mod m) + unat off mod 512)"
    by (metis add_diff_cancel_left' of_int_of_nat_eq)
  have b2: "512 * (t mod m) + unat off mod 512 < 2147483648" using e assms(2) by linarith
  then show u: "unat (of_nat (512 * (t mod m) + unat off mod 512) :: u32) = 512 * (t mod m) + unat off mod 512"
    by (rule unat_of_nat31)
  have "sint (of_nat (512 * (t mod m) + unat off mod 512) :: u32) = int (512 * (t mod m) + unat off mod 512)"
    using sint_small [of "of_nat (512 * (t mod m) + unat off mod 512)"] u b2 by (simp only: u)
  moreover have "(512 * (t mod m) + unat off mod 512) div 512 = t mod m"
    using div_mod_512 [OF pos_mod_512, of "unat off" "t mod m"] by (simp only: add.commute)
  ultimately show "(word_of_int (sint (of_nat (512 * (t mod m) + unat off mod 512) :: u32) sdiv 512) :: u32) = of_nat (t mod m)"
    by (metis sdiv_nonneg of_nat_0_le_iff zero_less_numeral of_nat_numeral zdiv_int of_int_of_nat_eq)
qed

lemma unat_root_offs: "unat (root_offs k) = 32 * (k mod 16)"
proof -
  have "k mod 16 < 16" by simp
  then show ?thesis unfolding root_offs_def by (intro unat_of_nat16) linarith
qed

lemma root_offs_end: "root_offs k + 32 = 512 \<longleftrightarrow> k mod 16 = 15"
proof -
  have k: "k mod 16 < 16" by simp
  have "unat (root_offs k + 32) = 32 * (k mod 16) + 32"
    using k by (simp add: unat_word_ariths unat_root_offs)
  then show ?thesis by (simp add: word_unat_eq_iff)
qed

lemma root_next:
  "k mod 16 \<noteq> 15 \<Longrightarrow> root_offs k + 32 = root_offs (Suc k) \<and> root_sec fv (Suc k) = root_sec fv k"
  "k mod 16 = 15 \<Longrightarrow> root_offs (Suc k) = 0 \<and> root_sec fv (Suc k) = root_sec fv k + 1"
  by (simp_all add: root_offs_def root_sec_def mod_Suc div_Suc add.commute)

lemma take_bit_small: "unat (w :: 'a::len word) < 2 ^ n \<Longrightarrow> take_bit n w = w"
  by (simp add: word_unat_eq_iff unsigned_take_bit_eq take_bit_nat_eq_self)
lemma ino_sec: assumes "unat sec < 2 ^ 28" "unat (x :: u32) < 16"
  shows "drop_bit 4 (push_bit 4 sec OR x) AND 0x0FFFFFFF = sec" "(push_bit 4 sec OR x) AND 0xF = x"
proof -
  have x: "take_bit 4 x = x" "drop_bit 4 x = 0" using assms(2) take_bit_small [of x 4]
    by (simp_all add: word_unat_eq_iff drop_bit_eq_div unat_div)
  have m: "0x0FFFFFFF = (mask 28 :: u32)" "0xF = (mask 4 :: u32)" by (simp_all add: mask_eq_exp_minus_1)
  have "drop_bit 4 (push_bit 4 sec) = take_bit 28 sec"
    by (rule bit_word_eqI) (auto simp: bit_simps)
  then show "drop_bit 4 (push_bit 4 sec OR x) AND 0x0FFFFFFF = sec" 
    unfolding m using x take_bit_small [OF assms(1)] by (simp add: drop_bit_or flip: take_bit_eq_mask)
  show "(push_bit 4 sec OR x) AND 0xF = x"
    unfolding m take_bit_eq_mask [symmetric] using x by (simp add: take_bit_or take_bit_push_bit)
qed

section \<open>Over any block cache\<close>

text \<open>The client of the cache: its lemmas hold for every instance of the contract.\<close>

locale fat_reader = block_cache C dev unit cap inv disk pins ident
  for C :: "'s bcif" and dev unit :: int and cap :: nat and inv :: "'s \<Rightarrow> bool"
    and disk :: "'s \<Rightarrow> u32 \<Rightarrow> u8 list" and pins :: "'s \<Rightarrow> nat \<Rightarrow> nat" and ident :: "'s \<Rightarrow> nat \<Rightarrow> u32 \<Rightarrow> bool"
begin

lemma clus_get_next_ok:
  assumes "inv s" "room s (Suc k)" "good_vol dev unit fv" "unat c < 65536"
  shows "\<exists>s'. clus_get_next C fv c nxt s = Ok (0, fat_entry (disk s) fv c, s') \<and> same s s'"
proof -
  define i where "i = 3 * unat c div 2"
  have u: "unat ((c * 3) div 2) = i"
    using assms(4) by (simp add: i_def unat_div unat_word_ariths mult.commute)
  have o: "sint ((c * 3) div 2) = int i"
    using assms(4) by (subst sint_small) (simp_all add: u, simp add: i_def)
  have dm: "int i sdiv 512 = int (i div 512)" "(int i + 1) sdiv 512 = int ((i + 1) div 512)"
    "nat (int i smod 512) = i mod 512" "nat ((int i + 1) smod 512) = (i + 1) mod 512"
    by (simp_all add: sdiv_nonneg smod_nonneg nat_mod_distrib zdiv_int nat_add_distrib)
  let ?s0 = "fat0sec fv + word_of_int (int (i div 512))" and ?s1 = "fat0sec fv + word_of_int (int ((i + 1) div 512))"
  have fe: "fat_entry (disk s) fv c = fat12_next c (disk s ?s0 ! (i mod 512)) (disk s ?s1 ! ((i + 1) mod 512))"
    by (simp add: fat_entry_def fat_byte_def i_def Let_def)
  have gv: "fv_dev fv = dev" "fv_unit fv = unit" using assms(3) by (simp_all add: good_vol_def)
  from get_block [OF assms(1,2), of ?s0] obtain b s1 where
    g: "bget C dev unit ?s0 s = Ok (0, b, s1)" and i1: "inv s1" "disk s1 = disk s" and
    d1: "\<And>i. i < 512 \<Longrightarrow> bdata C b s1 i = disk s ?s0 ! i" and
    p1: "\<And>t. same s1 t \<Longrightarrow> \<exists>t'. bput C b t = Ok (0, t') \<and> same s t'" by metis
  from p1 [OF same_refl [OF i1(1)]] obtain s2 where p2: "bput C b s1 = Ok (0, s2)" "same s s2" by blast
  show ?thesis
  proof (cases "?s1 = ?s0")
    case True
    then show ?thesis
      using g p2 d1 [of "i mod 512"] d1 [of "(i + 1) mod 512"]
      by (simp add: clus_get_next_def Let_def good_blksize [OF assms(3)] o dm gv fe del: of_int_of_nat_eq)
  next
    case False
    have "inv s2" "room s2 (Suc k)" "disk s2 = disk s" using p2 assms(2) by (simp_all add: same_inv same_room same_disk)
    with get_block [of s2 k ?s1] obtain b' s3 where
      g': "bget C dev unit ?s1 s2 = Ok (0, b', s3)" and i3: "inv s3" and
      d3: "\<And>i. i < 512 \<Longrightarrow> bdata C b' s3 i = disk s ?s1 ! i" and
      p3: "\<And>t. same s3 t \<Longrightarrow> \<exists>t'. bput C b' t = Ok (0, t') \<and> same s2 t'" by metis
    from p3 [OF same_refl [OF i3]] obtain s4 where p4: "bput C b' s3 = Ok (0, s4)" "same s2 s4" by blast
    show ?thesis
      using g p2 g' p4 False d1 [of "i mod 512"] d3 [of "(i + 1) mod 512"] same_trans [OF p2(2) p4(2)]
      by (simp add: clus_get_next_def Let_def good_blksize [OF assms(3)] o dm gv fe del: of_int_of_nat_eq)
  qed
qed

text \<open>Following \<open>n\<close> links of a chain reaches its cluster \<open>n\<close>.\<close>

lemma fat_chain_step:
  "fat_chain D fv cs \<Longrightarrow> Suc k < length cs \<Longrightarrow> fat_entry D fv (cs ! k) = cs ! Suc k \<and> cs ! Suc k < 0xff0"
proof (induction D fv cs arbitrary: k rule: fat_chain.induct)
  case (1 D fv c d cs)
  then show ?case by (cases k) auto
qed auto

lemma chain_small:
  assumes "fat_chain D fv cs" "unat (cs ! 0) < 65536" "k < length cs"
  shows "unat (cs ! k) < 65536"
proof (cases k)
  case 0 then show ?thesis using assms(2) by simp
next
  case (Suc j)
  then have "cs ! k < 0xff0" using fat_chain_step [OF assms(1), of j] assms(3) by simp
  then show ?thesis by (simp add: word_less_nat_alt)
qed

lemma clus_follow_ok:
  "inv s \<Longrightarrow> room s (Suc k) \<Longrightarrow> good_vol dev unit fv \<Longrightarrow> fat_chain (disk s) fv cs \<Longrightarrow> unat (cs ! 0) < 65536 \<Longrightarrow>
   j + n < length cs \<Longrightarrow> \<exists>s'. clus_follow C fv n (cs ! j) s = Ok (0, cs ! (j + n), s') \<and> same s s'"
proof (induction n arbitrary: j s)
  case 0 then show ?case by (simp add: same_refl)
next
  case (Suc n)
  have c: "unat (cs ! j) < 65536" using chain_small [OF Suc.prems(4,5), of j] Suc.prems(6) by simp
  have st: "fat_entry (disk s) fv (cs ! j) = cs ! Suc j" "\<not> 0xff0 \<le> cs ! Suc j"
    using fat_chain_step [OF Suc.prems(4), of j] Suc.prems(6) by auto
  obtain s1 where g: "clus_get_next C fv (cs ! j) (cs ! j) s = Ok (0, cs ! Suc j, s1)" "same s s1"
    using clus_get_next_ok [OF Suc.prems(1-3) c, of "cs ! j"] unfolding st(1) by blast
  have "\<exists>s'. clus_follow C fv n (cs ! Suc j) s1 = Ok (0, cs ! (Suc j + n), s') \<and> same s1 s'"
    by (rule Suc.IH) (use Suc.prems g(2) in \<open>simp_all add: same_inv same_room same_disk\<close>)
  then show ?case using g st(2) same_trans [OF g(2)] by auto
qed

lemma read_follow_ok:
  "inv s \<Longrightarrow> room s (Suc k) \<Longrightarrow> good_vol dev unit fv \<Longrightarrow> fat_chain (disk s) fv cs \<Longrightarrow> unat (cs ! 0) < 65536 \<Longrightarrow>
   j + n < length cs \<Longrightarrow> \<exists>s'. read_follow C fv n (cs ! j) 0 s = Ok (0, cs ! (j + n), s') \<and> same s s'"
proof (induction n arbitrary: j s)
  case 0 then show ?case by (simp add: same_refl)
next
  case (Suc n)
  have c: "unat (cs ! j) < 65536" using chain_small [OF Suc.prems(4,5), of j] Suc.prems(6) by simp
  have st: "fat_entry (disk s) fv (cs ! j) = cs ! Suc j" "\<not> 0xff0 \<le> cs ! Suc j"
    using fat_chain_step [OF Suc.prems(4), of j] Suc.prems(6) by auto
  obtain s1 where g: "clus_get_next C fv (cs ! j) (cs ! j) s = Ok (0, cs ! Suc j, s1)" "same s s1"
    using clus_get_next_ok [OF Suc.prems(1-3) c, of "cs ! j"] unfolding st(1) by blast
  have "\<exists>s'. read_follow C fv n (cs ! Suc j) 0 s1 = Ok (0, cs ! (Suc j + n), s') \<and> same s1 s'"
    by (rule Suc.IH) (use Suc.prems g(2) in \<open>simp_all add: same_inv same_room same_disk\<close>)
  then show ?case using g st(2) same_trans [OF g(2)] by auto
qed

text \<open>One step of the loop of \<open>fat_read\<close>: the bytes of one sector are stored and counted.\<close>

lemma sector_bytes:
  assumes "\<And>i. i < 512 \<Longrightarrow> g i = D (file_sec fv cs (p div 512)) ! i" "d \<le> 512 - p mod 512"
  shows "bytes_at g (p mod 512) d = map (file_byte D fv cs) [p..<p + d]"
proof (rule nth_equalityI)
  fix i assume "i < length (bytes_at g (p mod 512) d)"
  then have i: "i < d" by (simp add: bytes_at_def)
  then have l: "p mod 512 + i < 512" using assms(2) by linarith
  have "p + i = p mod 512 + i + 512 * (p div 512)" by simp
  with div_mod_512 [OF l, of "p div 512"] have "(p + i) div 512 = p div 512" "(p + i) mod 512 = p mod 512 + i"
    by metis+
  then show "bytes_at g (p mod 512) d ! i = map (file_byte D fv cs) [p..<p + d] ! i"
    using i l assms(1) [of "p mod 512 + i"] by (simp add: bytes_at_def file_byte_def)
qed (simp add: bytes_at_def)

text \<open>The next sector is in the same cluster, or the first one of the next cluster.\<close>

lemma next_sec:
  assumes "good_vol dev unit fv"
  shows "Suc (t mod nspc fv) \<noteq> nspc fv \<Longrightarrow> file_sec fv cs (Suc t) = file_sec fv cs t + 1
           \<and> Suc t div nspc fv = t div nspc fv \<and> Suc t mod nspc fv = Suc (t mod nspc fv)"
    "Suc (t mod nspc fv) = nspc fv \<Longrightarrow> file_sec fv cs (Suc t) = datasec fv + (cs ! Suc (t div nspc fv) - 2) * spc fv
           \<and> Suc t div nspc fv = Suc (t div nspc fv) \<and> Suc t mod nspc fv = 0"
  by (auto simp: file_sec_def div_Suc mod_Suc)

text \<open>The loop of \<open>fat_read\<close> from byte \<open>p\<close> of the file, \<open>n\<close> bytes left.\<close>

lemma fat_read_loop_ok:
  assumes gv: "good_vol dev unit fv" and c0: "unat (cs ! 0) < 65536"
  shows "inv s \<Longrightarrow> room s (Suc k) \<Longrightarrow> fat_chain (disk s) fv cs \<Longrightarrow> unat sz = n \<Longrightarrow>
    unat off mod 512 = p mod 512 \<Longrightarrow> unat off + n < 2147483648 \<Longrightarrow>
    p + n \<le> length cs * nspc fv * 512 \<Longrightarrow>
    (0 < n \<longrightarrow> ci = cs ! (p div 512 div nspc fv) \<and> sec = file_sec fv cs (p div 512)
      \<and> secleft = of_nat (nspc fv - p div 512 mod nspc fv)) \<Longrightarrow>
    \<exists>s'. fat_read_loop C fv ci sec secleft off sz got 0 out s
         = Some (Ok (0, got + sz, out @ map (file_byte (disk s) fv cs) [p..<p + n], s')) \<and> same s s'"
proof (induction n arbitrary: s ci sec secleft off sz got out p rule: less_induct)
  case (less n)
  show ?case
  proof (cases "n = 0")
    case True
    then have "sz = 0" using less.prems(4) by (simp add: unat_eq_0)
    then show ?thesis using True less.prems(1) by (subst fat_read_loop.simps) (simp add: same_refl)
  next
    case False
    define t d where "t = p div 512" and "d = min n (512 - p mod 512)"
    have d: "0 < d" "d \<le> n" "d \<le> 512 - p mod 512" "d < 65536" using False by (simp_all add: d_def)
    have gvs: "fv_dev fv = dev" "fv_unit fv = unit" "bytes_per_sector (fv_bpb fv) = 512"
      using gv by (simp_all add: good_vol_def)
    have sz0: "sz \<noteq> 0" using False less.prems(4) by auto
    have ci: "ci = cs ! (t div nspc fv)" "sec = file_sec fv cs t" "secleft = of_nat (nspc fv - t mod nspc fv)"
      using less.prems(8) False by (simp_all add: t_def)
    from get_block [OF less.prems(1,2), of sec] obtain b s1 where
      g: "bget C dev unit sec s = Ok (0, b, s1)" and i1: "inv s1" "disk s1 = disk s" and
      d1: "\<And>i. i < 512 \<Longrightarrow> bdata C b s1 i = disk s sec ! i" and
      p1: "\<And>t. same s1 t \<Longrightarrow> \<exists>t'. bput C b t = Ok (0, t') \<and> same s t'" by metis
    from p1 [OF same_refl [OF i1(1)]] obtain s2 where p2: "bput C b s1 = Ok (0, s2)" "same s s2" by blast
    note s2 = same_inv [OF p2(2)] same_disk [OF p2(2)] same_room [OF p2(2)]
    let ?do = "word_of_int (sint off smod int (unat (bytes_per_sector (fv_bpb fv)))) :: u16"
    let ?dl = "bytes_per_sector (fv_bpb fv) - ?do"
    have so: "sint off = int (unat off)" using less.prems(6) by (intro sint_small) linarith
    have "int (unat off) smod 512 = int (p mod 512)"
      unfolding less.prems(5) [symmetric]
      by (simp only: zmod_int smod_nonneg of_nat_0_le_iff zero_less_numeral of_nat_numeral)
    then have dof: "?do = of_nat (p mod 512)" by (simp add: gvs so del: of_nat_unat)
    then have udl: "unat ?dl = 512 - p mod 512" by (simp add: gvs unat_sub_if' unat_of_nat take_bit_nat_eq_self)
    have dw: "(if sz < ?dl then sz else ?dl) = of_nat d"
      using min_word [OF less.prems(4) udl] by (simp only: d_def)
    have uc: "(ucast (of_nat d :: u16) :: u32) = of_nat d" "unat (of_nat d :: u16) = d"
      using d(4) by (simp_all add: word_unat_eq_iff unsigned_ucast_eq take_bit_nat_eq_self unat_of_nat)
    have ud: "unat (of_nat (p mod 512) :: u16) = p mod 512" by (simp add: less_trans [of "p mod 512" 512])
    define out' where "out' = out @ map (file_byte (disk s) fv cs) [p..<p + d]"
    have byt: "bytes_at (bdata C b s1) (p mod 512) d = map (file_byte (disk s) fv cs) [p..<p + d]"
      by (rule sector_bytes) (use d1 d(3) ci(2) in \<open>simp_all add: t_def\<close>)
    have tm: "t mod nspc fv < nspc fv" using nspc_bounds [OF gv] by simp
    have sl: "secleft - 1 = of_nat (nspc fv - Suc (t mod nspc fv))"
      "of_nat (nspc fv - Suc (t mod nspc fv)) = (0 :: u32) \<longleftrightarrow> Suc (t mod nspc fv) = nspc fv"
      unfolding ci(3) using secs_left [OF tm] nspc_bounds [OF gv] by simp_all
    have step: "fat_read_loop C fv ci sec secleft off sz got 0 out s =
      (if Suc (t mod nspc fv) \<noteq> nspc fv
       then fat_read_loop C fv ci (sec + 1) (secleft - 1) (off + of_nat d) (sz - of_nat d) (got + of_nat d) 0 out' s2
       else (case clus_get_next C fv ci ci s2 of Panic \<Rightarrow> Some Panic | Hang \<Rightarrow> Some Hang
               | Ok (rc, ci', s3) \<Rightarrow>
                   if rc < 0 then Some (Ok (rc, got, out', s3))
                   else fat_read_loop C fv ci' (datasec fv + (ci' - 2) * spc fv) (spc fv)
                          (off + of_nat d) (sz - of_nat d) (got + of_nat d) rc out' s3))"
      by (subst fat_read_loop.simps, simp only: Let_def gvs(1,2) g p2(1) sz0 res.case prod.case if_False dw,
        simp only: dof byt uc ud sl out'_def [symmetric]) simp
    have pd: "p + d = 512 * Suc t" "(p + d) div 512 = Suc t" if "0 < n - d"
    proof -
      have "d = 512 - p mod 512" using that by (auto simp: d_def min_def split: if_splits)
      then show "p + d = 512 * Suc t"
        unfolding t_def by (rule sector_end [OF _ mod_mult_div_eq pos_mod_512])
      then show "(p + d) div 512 = Suc t" using div_mod_512 [of 0 "Suc t"] by simp
    qed
    have rec: "\<exists>s'. fat_read_loop C fv ci' sec' secl' (off + of_nat d) (sz - of_nat d) (got + of_nat d) 0 out' s3
        = Some (Ok (0, got + sz, out @ map (file_byte (disk s) fv cs) [p..<p + n], s')) \<and> same s s'"
      if s3: "same s2 s3" and nx: "0 < n - d \<Longrightarrow> ci' = cs ! (Suc t div nspc fv) \<and> sec' = file_sec fv cs (Suc t)
        \<and> secl' = of_nat (nspc fv - Suc t mod nspc fv)" for ci' sec' secl' s3
    proof -
      have uo: "unat (off + of_nat d) = unat off + d"
        using less.prems(6) d(2,4) by (simp add: unat_word_ariths unat_of_nat take_bit_nat_eq_self)
      have us: "unat (sz - of_nat d) = n - d"
        using less.prems(4) d(2,4) by (simp add: unat_sub_if')
      have om: "unat (off + of_nat d) mod 512 = (p + d) mod 512"
        unfolding uo using less.prems(5) by (metis mod_add_left_eq)
      have "\<exists>s'. fat_read_loop C fv ci' sec' secl' (off + of_nat d) (sz - of_nat d) (got + of_nat d) 0 out' s3
          = Some (Ok (0, got + of_nat d + (sz - of_nat d), out' @ map (file_byte (disk s3) fv cs) [p + d..<p + d + (n - d)], s'))
            \<and> same s3 s'"
      proof (rule less.IH [OF _ same_inv [OF s3] _ _ us om])
        show "n - d < n" using d(1,2) by linarith
        show "room s3 (Suc k)" using same_room [OF s3] s2(3) less.prems(2) by simp
        show "fat_chain (disk s3) fv cs" using same_disk [OF s3] s2(2) less.prems(3) by simp
        show "unat (off + of_nat d) + (n - d) < 2147483648" unfolding uo using less.prems(6) d(2) by linarith
        show "p + d + (n - d) \<le> length cs * nspc fv * 512" using less.prems(7) d(2) by linarith
        show "0 < n - d \<longrightarrow> ci' = cs ! ((p + d) div 512 div nspc fv) \<and> sec' = file_sec fv cs ((p + d) div 512)
            \<and> secl' = of_nat (nspc fv - (p + d) div 512 mod nspc fv)"
          using pd(2) nx by auto
      qed
      then obtain s' where s': "same s3 s'"
        and r: "fat_read_loop C fv ci' sec' secl' (off + of_nat d) (sz - of_nat d) (got + of_nat d) 0 out' s3
          = Some (Ok (0, got + of_nat d + (sz - of_nat d), out' @ map (file_byte (disk s3) fv cs) [p + d..<p + d + (n - d)], s'))"
        by blast
      have up: "map f [p..<p + n] = map f [p..<p + d] @ map f [p + d..<p + n]" for f :: "nat \<Rightarrow> u8"
        using upt_add_eq_append [of p "p + d" "n - d"] d(2) by simp
      have "out' @ map (file_byte (disk s3) fv cs) [p + d..<p + d + (n - d)] = out @ map (file_byte (disk s) fv cs) [p..<p + n]"
        using d(2) s2(2) same_disk [OF s3] by (simp add: out'_def up)
      with r show ?thesis using same_trans [OF p2(2) same_trans [OF s3 s']] by simp
    qed
    show ?thesis
    proof (cases "Suc (t mod nspc fv) = nspc fv")
      case True
      have tl: "t div nspc fv < length cs"
        using less.prems(7) d(1,2) tm unfolding t_def by (simp add: less_mult_imp_div_less)
      obtain s3 where g3: "clus_get_next C fv ci ci s2 = Ok (0, fat_entry (disk s) fv ci, s3)" "same s2 s3"
        using clus_get_next_ok [of s2 k fv ci ci] chain_small [OF less.prems(3) c0 tl] s2 less.prems(2) gv ci(1) by auto
      have nx: "fat_entry (disk s) fv ci = cs ! (Suc t div nspc fv) \<and>
          datasec fv + (fat_entry (disk s) fv ci - 2) * spc fv = file_sec fv cs (Suc t)" if nd: "0 < n - d"
      proof -
        have "512 * Suc t < length cs * nspc fv * 512" using pd(1) [OF nd] nd less.prems(7) d(2) by linarith
        then have "Suc t < length cs * nspc fv" by (rule mul_512_less)
        then have "Suc t div nspc fv < length cs" by (rule less_mult_imp_div_less)
        then have "Suc (t div nspc fv) < length cs" using next_sec(2) [OF gv True] by simp
        from fat_chain_step [OF less.prems(3) this] show ?thesis
          using next_sec(2) [OF gv True, of cs] by (simp add: ci(1))
      qed
      show ?thesis using rec [OF g3(2)] nx next_sec(2) [OF gv True, of cs] by (simp add: step True g3(1) spc_nspc)
    next
      case False
      show ?thesis unfolding step if_P [OF False]
        by (rule rec [OF same_refl]) (use next_sec(1) [OF gv False, of cs] s2 ci sl in simp_all)
    qed
  qed
qed

text \<open>The whole of \<open>fat_read\<close>: the bytes of the file, cut at its size.\<close>

lemma fat_read_ok:
  assumes s: "inv s" "room s (Suc (Suc k))" and gv: "good_vol dev unit fv" and ino: "ino \<noteq> 0"
    and ch: "fat_chain (disk s) fv cs" and c0: "cs ! 0 = ucast (de_cluster0 (disk_dirent (disk s) ino))"
    and off: "unat off \<le> unat (de_size (disk_dirent (disk s) ino))" "unat off + unat sz < 2147483648"
    and n: "n = min (unat sz) (unat (de_size (disk_dirent (disk s) ino)) - unat off)"
    and len: "unat off div 512 div nspc fv < length cs" "unat off + n \<le> length cs * nspc fv * 512"
  shows "\<exists>s'. fat_read C fv ino off sz s = Ok (of_nat n, map (file_byte (disk s) fv cs) [unat off..<unat off + n], s')
    \<and> same s s'"
proof -
  let ?d = "disk_dirent (disk s) ino" and ?o = "unat off"
  have gvs: "fv_dev fv = dev" "fv_unit fv = unit" "blksize fv = 512" "bytes_per_cluster fv = int (512 * nspc fv)"
    using gv good_blksize [OF gv] good_bpc [OF gv] by (simp_all add: good_vol_def)
  have sm: "\<not> sint (off + ucast sz) < sint off" and uo: "unat (off + ucast sz) = ?o + unat sz"
    using off(2) end_no_wrap [OF off(2)] by simp_all
  from get_block [OF s, of "FAT_INO_SEC ino"] obtain b s1 where
    g: "bget C dev unit (FAT_INO_SEC ino) s = Ok (0, b, s1)" and i1: "inv s1" "disk s1 = disk s" "room s1 (Suc k)" and
    d1: "\<And>i. i < 512 \<Longrightarrow> bdata C b s1 i = disk s (FAT_INO_SEC ino) ! i" and
    p1: "\<And>t. same s1 t \<Longrightarrow> \<exists>t'. bput C b t = Ok (0, t') \<and> same s t'" by metis
  have dir: "dirent_at (bdata C b s1) (FAT_INO_OFFS ino) = ?d"
    unfolding disk_dirent_def by (rule dirent_at_cong) (use d1 ino_offs [of ino] in auto)
  let ?t = "?o div 512"
  let ?off1 = "of_nat (512 * (?t mod nspc fv) + ?o mod 512) :: u32"
  have m: "0 < nspc fv" "nspc fv < 64" using nspc_bounds [OF gv] by auto
  note pos = read_pos [OF m(1), of off, folded gvs(4)]
  have ol: "?o < 2147483648" using off(2) by linarith
  define sz1 :: u16 where "sz1 = (if de_size ?d < off + ucast sz then ucast (de_size ?d - off) else sz)"
  have sz1: "unat sz1 = n"
  proof (cases "de_size ?d < off + ucast sz")
    case True
    then have "unat (de_size ?d) < ?o + unat sz" unfolding word_less_nat_alt uo .
    moreover from this have "unat (de_size ?d) - ?o < 65536" using unat_u16_lt [of sz] by linarith
    ultimately show ?thesis using True off(1) n
      by (simp add: sz1_def unat_ucast_16 unat_sub_if')
  next
    case False
    then have "\<not> unat (de_size ?d) < ?o + unat sz" unfolding word_less_nat_alt uo .
    moreover have "sz1 = sz" unfolding sz1_def by (rule if_not_P [OF False])
    ultimately show ?thesis using n off(1) by simp
  qed
  have ci: "ucast (de_cluster0 ?d) = cs ! 0" "unat (cs ! 0) < 65536"
    using c0 less_trans [OF unat_u16_lt [of "de_cluster0 ?d"], of "2 ^ 32"]
    by (simp_all add: unsigned_ucast_eq take_bit_nat_eq_self)
  obtain s2 where f2: "read_follow C fv (?t div nspc fv) (cs ! 0) 0 s1 = Ok (0, cs ! (?t div nspc fv), s2)" "same s1 s2"
    using read_follow_ok [OF i1(1,3) gv _ ci(2), of 0 "?t div nspc fv"] ch i1(2) len(1) by auto
  note s2 = same_inv [OF f2(2)] same_disk [OF f2(2)] same_room [OF f2(2)]
  have sl: "spc fv - of_nat (?t mod nspc fv) = of_nat (nspc fv - ?t mod nspc fv)"
    using m by (simp add: spc_nspc of_nat_diff less_imp_le)
  have sc: "of_nat (?t mod nspc fv) + datasec fv + (cs ! (?t div nspc fv) - 2) * spc fv = file_sec fv cs ?t"
    by (simp add: file_sec_def)
  have "\<exists>s'. fat_read_loop C fv (cs ! (?t div nspc fv)) (file_sec fv cs ?t) (of_nat (nspc fv - ?t mod nspc fv)) ?off1 sz1 0 0 [] s2
      = Some (Ok (0, 0 + sz1, [] @ map (file_byte (disk s2) fv cs) [?o..<?o + n], s')) \<and> same s2 s'"
  proof (rule fat_read_loop_ok [OF gv ci(2) s2(1) _ _ sz1])
    show "room s2 (Suc k)" using s2(3) i1(3) by simp
    show "fat_chain (disk s2) fv cs" using s2(2) i1(2) ch by simp
    have le: "512 * (?t mod nspc fv) + ?o mod 512 \<le> ?o"
      using pos_split [of ?o ?t "?o mod 512" "?t div nspc fv" "nspc fv" "?t mod nspc fv"] by simp
    show "unat ?off1 mod 512 = ?o mod 512" unfolding pos(4) [OF ol] by simp
    show "unat ?off1 + n < 2147483648" unfolding pos(4) [OF ol] using le n off(2) by linarith
  qed (use len in simp_all)
  then obtain s3 where l3: "fat_read_loop C fv (cs ! (?t div nspc fv)) (file_sec fv cs ?t) (of_nat (nspc fv - ?t mod nspc fv)) ?off1 sz1 0 0 [] s2
      = Some (Ok (0, sz1, map (file_byte (disk s) fv cs) [?o..<?o + n], s3))" "same s2 s3"
    using s2(2) i1(2) by auto
  from p1 [OF same_trans [OF f2(2) l3(2)]] obtain s4 where p4: "bput C b s3 = Ok (0, s4)" "same s s4" by blast
  have bp: "\<not> (blksize fv = 0 \<or> bytes_per_cluster fv = 0)" using gvs(3,4) m(1) by simp
  have "fat_read C fv ino off sz s = Ok (sz1, map (file_byte (disk s) fv cs) [?o..<?o + n], s4)"
    unfolding fat_read_def if_not_P [OF sm] if_not_P [OF ino] gvs(1,2) g bind_res.simps prod.case
      Let_def dir sz1_def [symmetric] if_not_P [OF bp] pos(1) [OF ol] pos(2) [OF ol] pos(3) [OF ol] ci(1)
      gvs(3) pos(5) [OF ol] sl sc
    using f2(1) l3(1) p4(1) bp by (simp add: sc)
  moreover have "sz1 = of_nat n" by (simp add: sz1 [symmetric])
  ultimately show ?thesis using p4(2) by blast
qed

text \<open>What a routine that holds the block \<open>b\<close> with number \<open>n\<close> knows, when it began in state \<open>s\<close>.\<close>

definition holds_blk :: "'s \<Rightarrow> 's \<Rightarrow> nat \<Rightarrow> u32 \<Rightarrow> nat \<Rightarrow> bool" where
  "holds_blk s s1 b n k \<longleftrightarrow> inv s1 \<and> disk s1 = disk s \<and> room s k \<and> (\<forall>i<512. bdata C b s1 i = disk s n ! i) \<and> bnum C b s1 = n
     \<and> (\<exists>t. bput C b s1 = Ok (0, t) \<and> same s t)"

lemma get_holds:
  assumes "inv s" "room s (Suc k)"
  shows "\<exists>b s1. bget C dev unit n s = Ok (0, b, s1) \<and> holds_blk s s1 b n (Suc k)"
proof -
  from get_block [OF assms, of n] obtain b s1 where g: "bget C dev unit n s = Ok (0, b, s1)"
    "inv s1" "disk s1 = disk s" "\<And>i. i < 512 \<Longrightarrow> bdata C b s1 i = disk s n ! i" "bnum C b s1 = n"
    "\<And>t. same s1 t \<Longrightarrow> \<exists>t'. bput C b t = Ok (0, t') \<and> same s t'" by metis
  then show ?thesis using g(6) [OF same_refl [OF g(2)]] assms(2) by (auto simp: holds_blk_def)
qed

lemma loop_ent:
  assumes "holds_blk s s1 b (root_sec fv j) k"
  shows "dirent_at (bdata C b s1) (unat (root_offs j)) = root_ent (disk s) fv j"
  unfolding root_ent_def unat_root_offs
  by (rule dirent_at_cong) (use assms mod_less_divisor [of 16 j] in \<open>auto simp: holds_blk_def simp del: mod_less_divisor\<close>)

lemma dir_find_step:
  assumes "holds_blk s s1 b (root_sec fv j) k" "bput C b s1 = Ok (0, t)" "good_vol dev unit fv" "Suc n < 65536"
  shows "dir_find_loop C fv (Some e) info 0 (root_sec fv j) (root_offs j) (of_nat (Suc n)) b s1 =
    (let d = root_ent (disk s) fv j
     in if hd (de_name d) = 0 then Some (Ok (- ENOENT, info, s1))
        else if de_name d = e then Some (Ok (0, \<lparr>fi_ino = FAT_INO (root_sec fv j) (root_offs j), fi_dir = d\<rparr>, t))
        else if n = 0 then Some (Ok (- ENOENT, info, t))
        else if j mod 16 = 15 then
          (case bget C dev unit (root_sec fv j + 1) t of Panic \<Rightarrow> Some Panic | Hang \<Rightarrow> Some Hang
           | Ok (rc, b', s2) \<Rightarrow> if rc \<noteq> 0 then Some (Ok (rc, info, s2))
               else dir_find_loop C fv (Some e) info 0 (root_sec fv j + 1) 0 (of_nat n) b' s2)
        else dir_find_loop C fv (Some e) info 0 (root_sec fv (Suc j)) (root_offs (Suc j)) (of_nat n) b s1)"
proof -
  have gv: "fv_dev fv = dev" "fv_unit fv = unit" "bytes_per_sector (fv_bpb fv) = 512"
    using assms(3) by (simp_all add: good_vol_def)
  have l: "(of_nat (Suc n) :: u16) - 1 = of_nat n" "(of_nat n = (0 :: u16)) = (n = 0)"
    using assms(4) of_nat16_eq_iff [of n 0] by simp_all
  have b: "bnum C b s1 = root_sec fv j" using assms(1) by (simp add: holds_blk_def)
  show ?thesis
    by (subst dir_find_loop.simps, simp only: Let_def gv l loop_ent [OF assms(1)] assms(2) b root_offs_end
        dir_match_def option.case option.distinct res.case prod.case)
      (simp add: root_next)
qed

text \<open>The search of the root directory from entry \<open>j\<close> on.\<close>

lemma dir_find_loop_ok:
  assumes gv: "good_vol dev unit fv"
  shows "same s0 s \<Longrightarrow> holds_blk s s1 b (root_sec fv j) (Suc k) \<Longrightarrow> Suc n < 65536 \<Longrightarrow>
    \<exists>info' s'. dir_find_loop C fv (Some e) info 0 (root_sec fv j) (root_offs j) (of_nat (Suc n)) b s1
      = Some (Ok (if find_ent (root_ent (disk s0) fv) e j (Suc n) = None then - ENOENT else 0, info', s'))
      \<and> inv s' \<and> disk s' = disk s0
      \<and> (case find_ent (root_ent (disk s0) fv) e j (Suc n) of None \<Rightarrow> info' = info
         | Some i \<Rightarrow> info' = \<lparr>fi_ino = FAT_INO (root_sec fv i) (root_offs i), fi_dir = root_ent (disk s0) fv i\<rparr> \<and> same s0 s')"
proof (induction n arbitrary: j b s s1)
  case 0
  from 0(2) obtain t where t: "bput C b s1 = Ok (0, t)" "same s t" by (auto simp: holds_blk_def)
  show ?case unfolding dir_find_step [OF 0(2) t(1) gv 0(3)] Let_def
    using t same_trans [OF 0(1) t(2)] 0(1,2) same_disk [OF 0(1)] by (simp add: holds_blk_def same_inv same_disk)
next
  case (Suc n)
  from Suc.prems(2) obtain t where t: "bput C b s1 = Ok (0, t)" "same s t" by (auto simp: holds_blk_def)
  note D = same_disk [OF Suc.prems(1)] and st = same_trans [OF Suc.prems(1) t(2)]
  let ?d = "root_ent (disk s0) fv j"
  have h: "inv s1" "disk s1 = disk s0" using Suc.prems(2) D by (simp_all add: holds_blk_def)
  note step = dir_find_step [OF Suc.prems(2) t(1) gv Suc.prems(3), of e info, unfolded D]
  consider "hd (de_name ?d) = 0" | "hd (de_name ?d) \<noteq> 0" "de_name ?d = e"
    | "hd (de_name ?d) \<noteq> 0" "de_name ?d \<noteq> e" "j mod 16 = 15"
    | "hd (de_name ?d) \<noteq> 0" "de_name ?d \<noteq> e" "j mod 16 \<noteq> 15" by blast
  then show ?case
  proof cases
    case 1 with h show ?thesis unfolding step Let_def by simp
  next
    case 2 then show ?thesis using st unfolding step Let_def by (simp add: same_inv same_disk)
  next
    case 3
    have "room t (Suc k)" using same_room [OF t(2)] Suc.prems(2) by (simp add: holds_blk_def)
    from get_holds [OF same_inv [OF st] this, of "root_sec fv j + 1"] obtain b' s2 where
      g: "bget C dev unit (root_sec fv j + 1) t = Ok (0, b', s2)" "holds_blk t s2 b' (root_sec fv j + 1) (Suc k)" by blast
    note nx = root_next(2) [OF 3(3), of fv]
    have "holds_blk t s2 b' (root_sec fv (Suc j)) (Suc k)" using g(2) nx by simp
    from Suc.IH [OF st this] Suc.prems(3) show ?thesis using 3 g(1) nx unfolding step Let_def by simp
  next
    case 4
    note nx = root_next(1) [OF 4(3), of fv]
    have "holds_blk s s1 b (root_sec fv (Suc j)) (Suc k)" using Suc.prems(2) nx by simp
    from Suc.IH [OF Suc.prems(1) this] Suc.prems(3) show ?thesis using 4 unfolding step Let_def by simp
  qed
qed

text \<open>Looking a name up in the root directory.\<close>

lemma dir_find_root_ok:
  assumes "inv s" "room s (Suc k)" "good_vol dev unit fv" "path_parse_fn p len = (0, e)" "0 < unat (root_entries (fv_bpb fv))"
  shows "\<exists>info' s'. dir_find_ent C fv (Some p) len 0 info s
      = Ok (if find_ent (root_ent (disk s) fv) e 0 (unat (root_entries (fv_bpb fv))) = None then - ENOENT else 0, info', s')
      \<and> inv s' \<and> disk s' = disk s
      \<and> (case find_ent (root_ent (disk s) fv) e 0 (unat (root_entries (fv_bpb fv))) of None \<Rightarrow> info' = info
         | Some i \<Rightarrow> info' = \<lparr>fi_ino = FAT_INO (root_sec fv i) (root_offs i), fi_dir = root_ent (disk s) fv i\<rparr> \<and> same s s')"
proof -
  obtain n where n: "unat (root_entries (fv_bpb fv)) = Suc n" using assms(5) by (cases "unat (root_entries (fv_bpb fv))") auto
  then have n': "root_entries (fv_bpb fv) = of_nat (Suc n)" "Suc n < 65536"
    using unat_u16_lt [of "root_entries (fv_bpb fv)"] by (simp_all flip: n)
  have gv: "fv_dev fv = dev" "fv_unit fv = unit" using assms(3) by (simp_all add: good_vol_def)
  have z: "rootdirsec fv = root_sec fv 0" "root_offs 0 = 0" by (simp_all add: root_sec_def root_offs_def)
  from get_holds [OF assms(1,2), of "root_sec fv 0"] obtain b s1 where
    g: "bget C dev unit (root_sec fv 0) s = Ok (0, b, s1)" "holds_blk s s1 b (root_sec fv 0) (Suc k)" by blast
  have "Suc n = unat (root_entries (fv_bpb fv))" using n by simp
  from dir_find_loop_ok [OF assms(3) same_refl [OF assms(1)] g(2) n'(2), of e info, unfolded this] show ?thesis
    using g(1) assms(4) by (auto simp: dir_find_ent_def gv z)
qed

text \<open>\<open>fat_stat\<close> returns the entry, and one more reference to its block than there was.\<close>

lemma fat_stat_ok:
  assumes "inv s" "room s (Suc k)" "good_vol dev unit fv"
  shows "\<exists>b s'. fat_stat C fv ino st s
      = Ok (0, fillstat fv \<lparr>fi_ino = ino, fi_dir = disk_dirent (disk s) ino\<rparr>, s')
      \<and> inv s' \<and> disk s' = disk s \<and> b < cap \<and> pins s' = (pins s)(b := Suc (pins s b))"
proof -
  have "(\<Sum>b<cap. pins s b) < cap" using assms(2) by (simp add: room_def)
  from get_ok [OF assms(1) this, of "FAT_INO_SEC ino"] obtain b s1 where
    g: "bget C dev unit (FAT_INO_SEC ino) s = Ok (0, b, s1)" "b < cap" "inv s1" "disk s1 = disk s"
      "ident s1 b (FAT_INO_SEC ino)" "pins s1 = (pins s)(b := Suc (pins s b))" by blast
  have "dirent_at (bdata C b s1) (FAT_INO_OFFS ino) = disk_dirent (disk s) ino"
    unfolding disk_dirent_def using data_ok [OF g(3,2) _ g(5)] g(4,6) ino_offs [of ino]
    by (intro dirent_at_cong) simp
  then show ?thesis using g assms(3) by (intro exI [of _ b]) (simp add: fat_stat_def good_vol_def)
qed

end

end
