(* ===== verification/FatThms.thy ===== *)
theory FatThms
  imports FatRead BlkCache
begin

text \<open>
  The properties of the file system, over the kernel's own block cache and every driver that can
  be read: the interpretation \<open>kfat\<close> gives them from the lemmas of \<open>FatRead\<close>.
\<close>

interpretation kfat: fat_reader "kernel_bc bdev" dev unit MAX_BLOCK "vol_inv bdev dev unit P cont"
    "\<lambda>s. cont (devst s)" vol_pins "vol_ident dev unit" for bdev dev unit P cont
  by unfold_locales

text \<open>Property C5.
  Reading a file: \<open>fat_read\<close> at an offset within the file returns exactly the bytes of the
  file's clusters from there, cut at the size in the directory entry, for a FAT12 chain of any
  length; it returns every block it took, leaves the disk unchanged, and never panics. The file is
  given by the directory entry of its inode and the chain \<open>cs\<close> the first FAT has for it.\<close>

theorem fat_read_correct:
  assumes "vol_inv bdev dev unit P cont s" "(\<Sum>b<MAX_BLOCK. vol_pins s b) + 2 \<le> MAX_BLOCK"
    and "good_vol dev unit fv" "ino \<noteq> 0" "fat_chain (cont (devst s)) fv cs"
    and "cs ! 0 = ucast (de_cluster0 (disk_dirent (cont (devst s)) ino))"
    and "unat off \<le> unat (de_size (disk_dirent (cont (devst s)) ino))" "unat off + unat sz < 2147483648"
    and "n = min (unat sz) (unat (de_size (disk_dirent (cont (devst s)) ino)) - unat off)"
    and "unat off div 512 div nspc fv < length cs" "unat off + n \<le> length cs * nspc fv * 512"
  shows "\<exists>s'. fat_read (kernel_bc bdev) fv ino off sz s
      = Ok (of_nat n, map (file_byte (cont (devst s)) fv cs) [unat off..<unat off + n], s')
    \<and> vol_inv bdev dev unit P cont s' \<and> cont (devst s') = cont (devst s) \<and> vol_pins s' = vol_pins s"
proof -
  have "kvol.room s (Suc (Suc 0))" using assms(2) by (simp add: kvol.room_def)
  from kfat.fat_read_ok [OF assms(1) this assms(3-11)] show ?thesis by (auto simp: kvol.same_def)
qed

text \<open>Property C6.
  Looking a name up in the root directory finds the first entry with the name before the end mark,
  in any sector of the directory, with the inode number that encodes its place, and gives back the
  blocks it took; a name that is not there is \<open>- ENOENT\<close>.\<close>

theorem dir_find_root:
  assumes "vol_inv bdev dev unit P cont s" "(\<Sum>b<MAX_BLOCK. vol_pins s b) < MAX_BLOCK"
    and "good_vol dev unit fv" "path_parse_fn p len = (0, e)" "0 < unat (root_entries (fv_bpb fv))"
  shows "\<exists>info' s'. dir_find_ent (kernel_bc bdev) fv (Some p) len 0 info s
      = Ok (if find_ent (root_ent (cont (devst s)) fv) e 0 (unat (root_entries (fv_bpb fv))) = None then - ENOENT else 0, info', s')
    \<and> vol_inv bdev dev unit P cont s' \<and> cont (devst s') = cont (devst s)
    \<and> (case find_ent (root_ent (cont (devst s)) fv) e 0 (unat (root_entries (fv_bpb fv))) of None \<Rightarrow> info' = info
       | Some i \<Rightarrow> info' = \<lparr>fi_ino = FAT_INO (root_sec fv i) (root_offs i), fi_dir = root_ent (cont (devst s)) fv i\<rparr>
           \<and> vol_pins s' = vol_pins s)"
proof -
  have "kvol.room s (Suc 0)" using assms(2) by (simp add: kvol.room_def)
  note r = kfat.dir_find_root_ok [OF assms(1) this assms(3-5), of info, unfolded kvol.same_def]
  show ?thesis
    by (cases "find_ent (root_ent (cont (devst s)) fv) e 0 (unat (root_entries (fv_bpb fv)))") (use r in auto)
qed

text \<open>Remark.
  An inode number gives back the sector and the offset of the directory entry it was made of, for
  every sector number of 28 bits and every entry of the sector.\<close>

theorem fat_ino_roundtrip:
  assumes "unat sec < 2 ^ 28" "k < 16"
  shows "FAT_INO_SEC (FAT_INO sec (of_nat (32 * k))) = sec \<and> FAT_INO_OFFS (FAT_INO sec (of_nat (32 * k))) = 32 * k"
proof -
  have k: "unat (of_nat (32 * k) :: u16) = 32 * k" "unat (of_nat k :: u32) = k"
    by (rule unat_of_nat16, use assms(2) in linarith) (rule unat_of_nat31, use assms(2) in linarith)
  have "ucast (drop_bit 5 (of_nat (32 * k) :: u16)) = (of_nat k :: u32)"
    using assms(2) k less_trans [of k 16 "2 ^ 32"]
    by (simp add: word_unat_eq_iff unsigned_ucast_eq drop_bit_eq_div unat_div take_bit_nat_eq_self)
  moreover have "of_nat k AND 0xF = (of_nat k :: u32)" using ino_sec(2) [of 0 "of_nat k"] k assms(2) by simp
  ultimately have "FAT_INO sec (of_nat (32 * k)) = push_bit 4 sec OR of_nat k" by (simp add: FAT_INO_def)
  then show ?thesis using ino_sec [OF assms(1), of "of_nat k"] k assms(2)
    by (simp add: FAT_INO_SEC_def FAT_INO_OFFS_def push_bit_eq_mult unat_word_ariths mult.commute)
qed

text \<open>Remark.
  \<open>fat_stat\<close> returns the data of the directory entry, and keeps the reference to its block: after
  it some buffer has one user more, for good.\<close>

theorem fat_stat_leaks:
  assumes "vol_inv bdev dev unit P cont s" "(\<Sum>b<MAX_BLOCK. vol_pins s b) < MAX_BLOCK" "good_vol dev unit fv"
  shows "\<exists>b s'. fat_stat (kernel_bc bdev) fv ino st s
      = Ok (0, fillstat fv \<lparr>fi_ino = ino, fi_dir = disk_dirent (cont (devst s)) ino\<rparr>, s')
    \<and> vol_inv bdev dev unit P cont s' \<and> b < MAX_BLOCK \<and> vol_pins s' = (vol_pins s)(b := Suc (vol_pins s b))"
proof -
  have "kvol.room s (Suc 0)" using assms(2) by (simp add: kvol.room_def)
  from kfat.fat_stat_ok [OF assms(1) this assms(3), of ino st] show ?thesis by blast
qed

section \<open>Witnesses\<close>

text \<open>
  A disk whose sector \<open>n\<close> holds 512 times the low byte of \<open>n\<close>, a cache of it as \<open>bc_init\<close> leaves
  it, and a volume with its FAT in sector \<open>0x20\<close>, its root directory from sector \<open>0x40\<close> on, and
  clusters of one sector.
\<close>

definition w_cont :: "unit \<Rightarrow> u32 \<Rightarrow> u8 list" where
  "w_cont d n = replicate BLKSIZE (ucast n)"

definition w_vbc0 :: "unit bcache" where
  "w_vbc0 = \<lparr>blks = (\<lambda>_. \<lparr>b_next = 0, b_prev = 0, b_inuse = 0, b_dirty = False, b_dev = 0, b_unit = 0, b_blkno = 0, b_data = 0\<rparr>),
     blocklist = 0, cmem = (\<lambda>_. 0), bcs = 0, bstats = \<lparr>st_gets = 0, st_puts = 0, st_reads = 0, st_writes = 0\<rparr>, devst = ()\<rparr>"

definition w_vbc :: "unit bcache" where
  "w_vbc = (fst (fold bc_init_block [0..<MAX_BLOCK] (w_vbc0, False)))\<lparr>bcs := 1\<rparr>"

definition w_fv :: fatvol where
  "w_fv = fat_umount\<lparr>fv_bpb := bpb0\<lparr>bytes_per_sector := 512, sector_per_cluster := 1, root_entries := 32\<rparr>,
     fat0sec := 0x20, rootdirsec := 0x40\<rparr>"

lemma w_vbc_facts: "bc_ok w_vbc" "bc_clean w_vbc" "b < MAX_BLOCK \<Longrightarrow> b_inuse (blks w_vbc b) = 0 \<and> b_dev (blks w_vbc b) = - 1"
  using init_fold [of MAX_BLOCK w_vbc0]
  by (auto simp: w_vbc_def bc_ok_def bc_clean_def MAX_BLOCK_def bmatch_def split: prod.splits
      intro!: exI [of _ "0 # rev [1..<32]"])

lemma w_vol: "vol_inv w_rdev 0 0 (\<lambda>_. True) w_cont w_vbc" "(\<Sum>b<MAX_BLOCK. vol_pins w_vbc b) = 0"
  using w_vbc_facts by (auto simp: vol_inv_def drv_ok_def w_rdev_def w_cont_def bmatch_def vol_pins_def)

lemma w_fv_good: "good_vol 0 0 w_fv" "nspc w_fv = 1"
  by (simp_all add: good_vol_def w_fv_def fat_umount_def nspc_def)

lemma w_sector: "i < 512 \<Longrightarrow> w_cont d n ! i = ucast n"
  by (simp add: w_cont_def BLKSIZE_def)

text \<open>Inode 16 is the entry at the beginning of sector 1; its chain begins 257, 514.\<close>

theorem fat_read_correct_witness:
  "\<exists>s'. fat_read (kernel_bc w_rdev) w_fv 16 510 4 w_vbc = Ok (4, [255, 255, 0, 0], s')"
proof -
  have d: "disk_dirent (w_cont ()) 16 = dirent_at (\<lambda>i. w_cont () 1 ! i) 0"
    by (simp add: disk_dirent_def FAT_INO_SEC_def FAT_INO_OFFS_def)
  have c: "de_cluster0 (disk_dirent (w_cont ()) 16) = 257" "unat (de_size (disk_dirent (w_cont ()) 16)) = 16843009"
    unfolding d by (simp_all add: dirent_at_def le32_def le16_def w_sector)
  have "fat_chain (w_cont ()) w_fv [257, 514]"
    by (simp add: fat_entry_def fat_byte_def fat12_next_def w_fv_def fat_umount_def w_sector)
  then have ch: "fat_chain (w_cont (devst w_vbc)) w_fv [257, 514]" by simp
  have b: "map (file_byte (w_cont (devst w_vbc)) w_fv [257, 514]) [510..<510 + 4] = [255, 255, 0, 0]"
    by (simp add: upt_rec file_byte_def file_sec_def w_fv_good(2) w_sector) (simp add: w_fv_def fat_umount_def spc_def)
  have "\<exists>s'. fat_read (kernel_bc w_rdev) w_fv 16 510 4 w_vbc
      = Ok (of_nat 4, map (file_byte (w_cont (devst w_vbc)) w_fv [257, 514]) [unat (510 :: u32)..<unat (510 :: u32) + 4], s')
    \<and> vol_inv w_rdev 0 0 (\<lambda>_. True) w_cont s' \<and> w_cont (devst s') = w_cont (devst w_vbc) \<and> vol_pins s' = vol_pins w_vbc"
    by (rule fat_read_correct [OF w_vol(1) _ w_fv_good(1) _ ch]) (use c in \<open>simp_all add: w_vol(2) w_fv_good(2), simp add: MAX_BLOCK_def\<close>)
  then show ?thesis using b by auto
qed

lemma find_ent_skip:
  "\<forall>j<m. hd (de_name (E (k + j))) \<noteq> 0 \<and> de_name (E (k + j)) \<noteq> e \<Longrightarrow> find_ent E e k (m + n) = find_ent E e (k + m) n"
proof (induction m arbitrary: k)
  case (Suc m)
  have "\<forall>j<m. hd (de_name (E (Suc k + j))) \<noteq> 0 \<and> de_name (E (Suc k + j)) \<noteq> e"
    using Suc.prems by (metis add_Suc_right add_Suc Suc_mono)
  from Suc.IH [OF this] Suc.prems [rule_format, of 0] show ?case by simp
qed simp

lemma w_root_name: "de_name (root_ent (w_cont ()) w_fv k) = replicate 11 (ucast (root_sec w_fv k))"
proof -
  have "32 * (k mod 16) + j < 512" if "j < 11" for j
    using that mod_less_divisor [of 16 k] by linarith
  then show ?thesis
    by (auto simp: root_ent_def dirent_at_def bytes_at_def w_sector intro!: nth_equalityI)
qed

lemma w_root_find: "find_ent (root_ent (w_cont ()) w_fv) (replicate 11 0x41) 0 32 = Some 16"
proof -
  have s: "root_sec w_fv k = 0x40" if "k < 16" for k using that by (simp add: root_sec_def w_fv_def fat_umount_def)
  have "root_sec w_fv 16 = 0x41" by (simp add: root_sec_def w_fv_def fat_umount_def)
  then have "find_ent (root_ent (w_cont ()) w_fv) (replicate 11 0x41) 16 (Suc 15) = Some 16"
    unfolding find_ent.simps w_root_name by (simp add: rep_num)
  moreover have "find_ent (root_ent (w_cont ()) w_fv) (replicate 11 0x41) 0 (16 + 16)
      = find_ent (root_ent (w_cont ()) w_fv) (replicate 11 0x41) (0 + 16) 16"
    by (rule find_ent_skip) (simp add: w_root_name s rep_num)
  ultimately show ?thesis by simp
qed

lemma w_root_ino: "FAT_INO (root_sec w_fv 16) (root_offs 16) = 0x410"
  by (simp add: FAT_INO_def root_sec_def root_offs_def w_fv_def fat_umount_def)

theorem dir_find_root_witness:
  "\<exists>info' s'. dir_find_ent (kernel_bc w_rdev) w_fv (Some [97, 97, 97, 97, 97, 97, 97, 97, 46, 97, 97, 97]) 12 0
      \<lparr>fi_ino = 0, fi_dir = root_ent (w_cont ()) w_fv 0\<rparr> w_vbc = Ok (0, info', s') \<and> fi_ino info' = 0x410"
proof -
  have p: "path_parse_fn [97, 97, 97, 97, 97, 97, 97, 97, 46, 97, 97, 97] 12 = (0, replicate 11 0x41)"
    by code_simp
  have "unat (root_entries (fv_bpb w_fv)) = 32" by (simp add: w_fv_def fat_umount_def)
  then show ?thesis
    using dir_find_root [OF w_vol(1) _ w_fv_good(1) p, of "\<lparr>fi_ino = 0, fi_dir = root_ent (w_cont ()) w_fv 0\<rparr>"]
    by (auto simp: w_vol(2) [unfolded MAX_BLOCK_def] MAX_BLOCK_def w_root_find w_root_ino)
qed

theorem fat_ino_roundtrip_witness: "FAT_INO_SEC (FAT_INO 1234567 96) = 1234567 \<and> FAT_INO_OFFS (FAT_INO 1234567 96) = 96"
  using fat_ino_roundtrip [of 1234567 3] by simp

theorem fat_stat_leaks_witness:
  "\<exists>b s' st. fat_stat (kernel_bc w_rdev) w_fv 16 (fillstat w_fv root_info) w_vbc = Ok (0, st, s') \<and> b < MAX_BLOCK \<and> vol_pins s' b = 1"
proof -
  have "b < MAX_BLOCK \<Longrightarrow> vol_pins w_vbc b = 0" for b using w_vol(2) by simp
  moreover have "(\<Sum>b<MAX_BLOCK. vol_pins w_vbc b) < MAX_BLOCK" using w_vol(2) by (simp add: MAX_BLOCK_def)
  ultimately show ?thesis
    using fat_stat_leaks [OF w_vol(1) _ w_fv_good(1), of 16 "fillstat w_fv root_info"] by (metis fun_upd_same One_nat_def)
qed

end
