(* ===== verification/FileIO.thy ===== *)
theory FileIO
  imports Fat
begin

text \<open>
  The kernel's files: the device table \<open>kernel/DEVICE.C\<close>, the root file system \<open>kernel/FS.C\<close> and the
  table of open files \<open>kernel/FILEIO.C\<close>. The character devices are records of functions on the
  state \<open>'d\<close> of all devices; the block cache is the interface \<open>C\<close> on its state \<open>'c\<close>. What
  \<open>kprintf\<close> prints is not modelled.
\<close>

section \<open>Devices\<close>

record 'd chardev =
  cd_init :: "'d \<Rightarrow> 'd res"
  cd_open :: "int \<Rightarrow> 'd \<Rightarrow> (int \<times> 'd) res"
  cd_close :: "int \<Rightarrow> 'd \<Rightarrow> (int \<times> 'd) res"
  cd_read :: "int \<Rightarrow> u16 \<Rightarrow> 'd \<Rightarrow> (int \<times> u8 list \<times> 'd) res"
  cd_write :: "int \<Rightarrow> u8 list \<Rightarrow> u16 \<Rightarrow> 'd \<Rightarrow> (int \<times> 'd) res"

text \<open>The tables without their final \<open>NULL\<close>, and the counts that \<open>dev_init\<close> sets.\<close>

record ('b, 'd) devtab =
  bdevtab :: "'b list"
  cdevtab :: "'d chardev list"
  nblkdev :: int
  nchardev :: int

fun init_all :: "('d \<Rightarrow> 'd res) list \<Rightarrow> 'd \<Rightarrow> 'd res" where
  "init_all [] d = Ok d"
| "init_all (f # fs) d = bind_res (f d) (init_all fs)"

definition dev_init :: "('b \<Rightarrow> 'd \<Rightarrow> 'd res) \<Rightarrow> ('b, 'd) devtab \<Rightarrow> 'd \<Rightarrow> (('b, 'd) devtab \<times> 'd) res" where
  "dev_init binit t d =
     bind_res (init_all (map binit (bdevtab t)) d) (\<lambda>d1.
     let t1 = t\<lparr>nblkdev := int (length (bdevtab t))\<rparr>
     in bind_res (init_all (map cd_init (cdevtab t)) d1) (\<lambda>d2.
        Ok (t1\<lparr>nchardev := int (length (cdevtab t))\<rparr>, d2)))"

definition dev_getbdev :: "('b, 'd) devtab \<Rightarrow> int \<Rightarrow> 'b option" where
  "dev_getbdev t idx = (if idx < 0 \<or> nblkdev t \<le> idx then None else Some (bdevtab t ! nat idx))"

definition dev_getcdev :: "('b, 'd) devtab \<Rightarrow> int \<Rightarrow> 'd chardev option" where
  "dev_getcdev t idx = (if idx < 0 \<or> nchardev t \<le> idx then None else Some (cdevtab t ! nat idx))"

definition DEVNO :: "u8 \<Rightarrow> int" where "DEVNO x = int (unat (x AND 0x7f))"

section \<open>The table of open files\<close>

definition MAX_OPEN_FILE :: nat where "MAX_OPEN_FILE = 10"

text \<open>\<open>ops\<close> points to one of three tables of functions.\<close>

datatype iov = Fileio | Cdevio | Bdevio

record openfile =
  of_ino :: u32
  of_refcnt :: int
  of_offset :: u32
  of_blksize :: u16
  of_size :: u32
  of_maj :: u8
  of_min :: u8
  of_ops :: iov

record ('c, 'd) fio =
  oft :: "nat \<Rightarrow> openfile"
  fcrit :: nat
  fvol :: fatvol
  fcache :: 'c
  fdevs :: 'd

definition oset :: "nat \<Rightarrow> (openfile \<Rightarrow> openfile) \<Rightarrow> ('c, 'd) fio \<Rightarrow> ('c, 'd) fio" where
  "oset i f s = s\<lparr>oft := (oft s)(i := f (oft s i))\<rparr>"

text \<open>The critical section: taking it when it is taken waits for its owner.\<close>

definition fdown :: "('c, 'd) fio \<Rightarrow> ('c, 'd) fio res" where
  "fdown s = (if fcrit s = 0 then Hang else Ok (s\<lparr>fcrit := fcrit s - 1\<rparr>))"

definition fup :: "('c, 'd) fio \<Rightarrow> ('c, 'd) fio" where
  "fup s = s\<lparr>fcrit := fcrit s + 1\<rparr>"

definition fio_init :: "('c, 'd) fio \<Rightarrow> ('c, 'd) fio" where
  "fio_init s = s\<lparr>fcrit := 1\<rparr>"

section \<open>The root file system\<close>

definition with_cache :: "('c, 'd) fio \<Rightarrow> ('a \<times> 'b \<times> 'c) res \<Rightarrow> ('a \<times> 'b \<times> ('c, 'd) fio) res" where
  "with_cache s r = bind_res r (\<lambda>(a, b, c). Ok (a, b, s\<lparr>fcache := c\<rparr>))"

definition fs_mount :: "'c bcif \<Rightarrow> int \<Rightarrow> int \<Rightarrow> ('c, 'd) fio \<Rightarrow> (int \<times> ('c, 'd) fio) res" where
  "fs_mount C dev unit s =
     bind_res (fat_mount C dev unit (fcache s)) (\<lambda>(rc, fv, c). Ok (rc, s\<lparr>fvol := fv, fcache := c\<rparr>))"

definition fs_umount :: "('c, 'd) fio \<Rightarrow> int \<times> ('c, 'd) fio" where
  "fs_umount s = (0, s\<lparr>fvol := fat_umount\<rparr>)"

text \<open>\<open>u\<close> is what the local variable of the caller holds before it is set.\<close>

definition ino_get :: "'c bcif \<Rightarrow> fileinfo \<Rightarrow> cstr \<Rightarrow> int \<Rightarrow> ('c, 'd) fio \<Rightarrow> (u32 \<times> ('c, 'd) fio) res" where
  "ino_get C u path fl s =
     bind_res (fat_ino_get C (fvol s) path fl u (fcache s)) (\<lambda>(ino, c). Ok (ino, s\<lparr>fcache := c\<rparr>))"

definition ino_put :: "u32 \<Rightarrow> int" where "ino_put ino = 0"

definition ino_stat :: "'c bcif \<Rightarrow> u32 \<Rightarrow> stat \<Rightarrow> ('c, 'd) fio \<Rightarrow> (int \<times> stat \<times> ('c, 'd) fio) res" where
  "ino_stat C ino st s = with_cache s (fat_stat C (fvol s) ino st (fcache s))"

definition ino_read :: "'c bcif \<Rightarrow> u32 \<Rightarrow> u32 \<Rightarrow> u16 \<Rightarrow> ('c, 'd) fio \<Rightarrow> (u16 \<times> u8 list \<times> ('c, 'd) fio) res" where
  "ino_read C ino off sz s = with_cache s (fat_read C (fvol s) ino off sz (fcache s))"

definition INO_ERR :: "u32 \<Rightarrow> int" where
  "INO_ERR ino = (if - EMAX \<le> sint ino \<and> sint ino < 0 then sint (ucast ino :: u16) else 0)"

section \<open>The functions of the three kinds of files\<close>

definition cdev_open :: "('b, 'd) devtab \<Rightarrow> nat \<Rightarrow> ('c, 'd) fio \<Rightarrow> (int \<times> ('c, 'd) fio) res" where
  "cdev_open T fd s =
     (case dev_getcdev T (DEVNO (of_maj (oft s fd))) of
        None \<Rightarrow> Ok (- ENODEV, s)
      | Some dev \<Rightarrow> bind_res (cd_open dev (int (unat (of_min (oft s fd)))) (fdevs s)) (\<lambda>(rc, d). Ok (rc, s\<lparr>fdevs := d\<rparr>)))"

definition cdev_close :: "('b, 'd) devtab \<Rightarrow> nat \<Rightarrow> ('c, 'd) fio \<Rightarrow> (int \<times> ('c, 'd) fio) res" where
  "cdev_close T fd s =
     (case dev_getcdev T (DEVNO (of_maj (oft s fd))) of
        None \<Rightarrow> Ok (- ENODEV, s)
      | Some dev \<Rightarrow> bind_res (cd_close dev (int (unat (of_min (oft s fd)))) (fdevs s)) (\<lambda>(rc, d). Ok (rc, s\<lparr>fdevs := d\<rparr>)))"

definition cdev_read :: "('b, 'd) devtab \<Rightarrow> nat \<Rightarrow> u16 \<Rightarrow> ('c, 'd) fio \<Rightarrow> (u16 \<times> u8 list \<times> ('c, 'd) fio) res" where
  "cdev_read T fd sz s =
     (case dev_getcdev T (DEVNO (of_maj (oft s fd))) of
        None \<Rightarrow> Ok (word_of_int (- ENODEV), [], s)
      | Some dev \<Rightarrow> bind_res (cd_read dev (int (unat (of_min (oft s fd)))) sz (fdevs s))
                      (\<lambda>(rc, bs, d). Ok (word_of_int rc, bs, s\<lparr>fdevs := d\<rparr>)))"

definition cdev_write :: "('b, 'd) devtab \<Rightarrow> nat \<Rightarrow> u8 list \<Rightarrow> u16 \<Rightarrow> ('c, 'd) fio \<Rightarrow> (u16 \<times> ('c, 'd) fio) res" where
  "cdev_write T fd buf sz s =
     (case dev_getcdev T (DEVNO (of_maj (oft s fd))) of
        None \<Rightarrow> Ok (word_of_int (- ENODEV), s)
      | Some dev \<Rightarrow> bind_res (cd_write dev (int (unat (of_min (oft s fd)))) buf sz (fdevs s))
                      (\<lambda>(rc, d). Ok (word_of_int rc, s\<lparr>fdevs := d\<rparr>)))"

definition file_read :: "'c bcif \<Rightarrow> nat \<Rightarrow> u32 \<Rightarrow> u16 \<Rightarrow> ('c, 'd) fio \<Rightarrow> (u16 \<times> u8 list \<times> ('c, 'd) fio) res" where
  "file_read C fd off sz s = ino_read C (of_ino (oft s fd)) off sz s"

definition file_write :: u16 where "file_write = 0"
definition bdev_read :: u16 where "bdev_read = 0"
definition bdev_write :: u16 where "bdev_write = 0"

section \<open>Opening and closing\<close>

definition S_IFMT :: u16 where "S_IFMT = 0xf000"
definition S_MAJOR :: "u16 \<Rightarrow> u8" where "S_MAJOR rdev = ucast (drop_bit 8 rdev)"
definition S_MINOR :: "u16 \<Rightarrow> u8" where "S_MINOR rdev = ucast (rdev AND 0xff)"

definition mode_ops :: "u16 \<Rightarrow> iov option" where
  "mode_ops md =
     (if md AND S_IFMT = S_IFREG \<or> md AND S_IFMT = S_IFDIR then Some Fileio
      else if md AND S_IFMT = S_IFBLK then Some Bdevio
      else if md AND S_IFMT = S_IFCHR then Some Cdevio else None)"

definition free_slot :: "('c, 'd) fio \<Rightarrow> nat option" where
  "free_slot s = List.find (\<lambda>i. of_refcnt (oft s i) = 0) [0..<MAX_OPEN_FILE]"

text \<open>Undo the opening of slot \<open>i\<close>, with and without the critical section.\<close>

definition unref :: "nat \<Rightarrow> ('c, 'd) fio \<Rightarrow> ('c, 'd) fio" where
  "unref i = oset i (\<lambda>e. e\<lparr>of_refcnt := of_refcnt e - 1\<rparr>)"

definition unref_locked :: "nat \<Rightarrow> ('c, 'd) fio \<Rightarrow> ('c, 'd) fio res" where
  "unref_locked i s = bind_res (fdown s) (\<lambda>s1. Ok (fup (unref i s1)))"

definition fill_slot :: "nat \<Rightarrow> u32 \<Rightarrow> stat \<Rightarrow> iov \<Rightarrow> ('c, 'd) fio \<Rightarrow> ('c, 'd) fio" where
  "fill_slot i ino st fops =
     oset i (\<lambda>e. e\<lparr>of_ino := ino, of_blksize := st_blksize st, of_offset := 0, of_size := st_size st,
                  of_maj := S_MAJOR (st_rdev st), of_min := S_MINOR (st_rdev st), of_ops := fops\<rparr>)"

definition kopen ::
  "'c bcif \<Rightarrow> ('b, 'd) devtab \<Rightarrow> fileinfo \<Rightarrow> stat \<Rightarrow> cstr \<Rightarrow> int \<Rightarrow> ('c, 'd) fio \<Rightarrow> (int \<times> ('c, 'd) fio) res" where
  "kopen C T u ust path fl s =
     bind_res (fdown s) (\<lambda>s1.
     case free_slot s1 of
       None \<Rightarrow> Ok (- ENFILE, fup s1)
     | Some i \<Rightarrow>
         bind_res (ino_get C u path fl (fup (oset i (\<lambda>e. e\<lparr>of_refcnt := of_refcnt e + 1\<rparr>) s1))) (\<lambda>(ino, s2).
         if INO_ERR ino \<noteq> 0 then Ok (INO_ERR ino, unref i s2)
         else bind_res (ino_stat C ino ust s2) (\<lambda>(err, st, s3).
           if err \<noteq> 0 then Ok (err, unref i s3)
           else (case mode_ops (st_mode st) of
                   None \<Rightarrow> bind_res (unref_locked i s3) (\<lambda>s4. Ok (- EINVAL, s4))
                 | Some fops \<Rightarrow>
                     (let s4 = fill_slot i ino st fops s3
                      in if fops = Cdevio
                         then bind_res (cdev_open T i s4) (\<lambda>(err, s5).
                              if err < 0 then bind_res (unref_locked i s5) (\<lambda>s6. Ok (err, s6))
                              else Ok (int i, s5))
                         else Ok (int i, s4))))))"

definition bad_fd :: "int \<Rightarrow> ('c, 'd) fio \<Rightarrow> bool" where
  "bad_fd fd s \<longleftrightarrow> fd < 0 \<or> int MAX_OPEN_FILE \<le> fd \<or> of_refcnt (oft s (nat fd)) = 0"

text \<open>The close function is called with the minor number in place of the file.\<close>

definition kclose :: "('b, 'd) devtab \<Rightarrow> int \<Rightarrow> ('c, 'd) fio \<Rightarrow> (int \<times> ('c, 'd) fio) res" where
  "kclose T fd s =
     (if bad_fd fd s then Ok (- EINVAL, s)
      else bind_res (fdown s) (\<lambda>s1.
        let s2 = unref (nat fd) s1; e = oft s2 (nat fd)
        in if of_refcnt e \<noteq> 0 then Ok (0, fup s2)
           else if of_ops e = Cdevio
           then bind_res (cdev_close T (unat (of_min e)) s2) (\<lambda>(clrc, s3).
                Ok (if ino_put (of_ino e) = 0 then clrc else ino_put (of_ino e), fup s3))
           else Ok (ino_put (of_ino e), fup s2)))"

definition kfstat :: "'c bcif \<Rightarrow> int \<Rightarrow> stat \<Rightarrow> ('c, 'd) fio \<Rightarrow> (int \<times> stat \<times> ('c, 'd) fio) res" where
  "kfstat C fd st s =
     (if bad_fd fd s then Ok (- EINVAL, st, s) else ino_stat C (of_ino (oft s (nat fd))) st s)"

definition kdup :: "int \<Rightarrow> ('c, 'd) fio \<Rightarrow> (int \<times> ('c, 'd) fio) res" where
  "kdup fd s =
     (if bad_fd fd s then Ok (- EINVAL, s)
      else bind_res (fdown s) (\<lambda>s1. Ok (fd, fup (oset (nat fd) (\<lambda>e. e\<lparr>of_refcnt := of_refcnt e + 1\<rparr>) s1))))"

section \<open>Reading, writing and seeking\<close>

text \<open>A result counts as an error between \<open>- EMAX\<close> and zero, both excluded.\<close>

definition advance :: "nat \<Rightarrow> u16 \<Rightarrow> ('c, 'd) fio \<Rightarrow> ('c, 'd) fio" where
  "advance fd n s =
     (if 0 \<le> sint n \<or> sint n \<le> - EMAX then oset fd (\<lambda>e. e\<lparr>of_offset := of_offset e + ucast n\<rparr>) s else s)"

definition kread ::
  "'c bcif \<Rightarrow> ('b, 'd) devtab \<Rightarrow> int \<Rightarrow> u16 \<Rightarrow> ('c, 'd) fio \<Rightarrow> (u16 \<times> u8 list \<times> ('c, 'd) fio) res" where
  "kread C T fd sz s =
     (if bad_fd fd s then Ok (word_of_int (- EINVAL), [], s)
      else bind_res (case of_ops (oft s (nat fd)) of
                       Fileio \<Rightarrow> file_read C (nat fd) (of_offset (oft s (nat fd))) sz s
                     | Cdevio \<Rightarrow> cdev_read T (nat fd) sz s
                     | Bdevio \<Rightarrow> Ok (bdev_read, [], s))
             (\<lambda>(n, bs, s1). Ok (n, bs, advance (nat fd) n s1)))"

definition kwrite :: "('b, 'd) devtab \<Rightarrow> int \<Rightarrow> u8 list \<Rightarrow> u16 \<Rightarrow> ('c, 'd) fio \<Rightarrow> (u16 \<times> ('c, 'd) fio) res" where
  "kwrite T fd buf sz s =
     (if bad_fd fd s then Ok (word_of_int (- EINVAL), s)
      else bind_res (case of_ops (oft s (nat fd)) of
                       Fileio \<Rightarrow> Ok (file_write, s)
                     | Cdevio \<Rightarrow> cdev_write T (nat fd) buf sz s
                     | Bdevio \<Rightarrow> Ok (bdev_write, s))
             (\<lambda>(n, s1). Ok (n, advance (nat fd) n s1)))"

definition SEEK_SET :: int where "SEEK_SET = 0"
definition SEEK_CUR :: int where "SEEK_CUR = 1"
definition SEEK_END :: int where "SEEK_END = 2"

definition kseek :: "'c bcif \<Rightarrow> stat \<Rightarrow> int \<Rightarrow> u32 \<Rightarrow> int \<Rightarrow> ('c, 'd) fio \<Rightarrow> (u32 \<times> ('c, 'd) fio) res" where
  "kseek C ust fd offset whence s =
     (if bad_fd fd s then Ok (ucast (word_of_int (- EINVAL) :: u16), s)
      else bind_res
        (if whence = SEEK_SET then Ok (0, 0, s)
         else if whence = SEEK_CUR then Ok (0, of_offset (oft s (nat fd)), s)
         else if whence = SEEK_END then
           bind_res (kfstat C fd ust s) (\<lambda>(err, st, s1). Ok (if err < 0 then err else 0, st_size st, s1))
         else Ok (- EINVAL, 0, s)) (\<lambda>(err, base, s1).
        let newoffs = base + offset
        in if err < 0 then Ok (word_of_int err, s1)
           else if sint offset < 0 \<and> sint offset < sint newoffs \<or> 0 < sint offset \<and> sint newoffs < sint offset
           then Ok (word_of_int (- EOVERFLOW), s1)
           else Ok (newoffs, oset (nat fd) (\<lambda>e. e\<lparr>of_offset := newoffs\<rparr>) s1)))"

end
