(* ===== verification/FileIOThms.thy ===== *)
theory FileIOThms
  imports FileIO FatThms
begin

text \<open>
  The properties of the open files: what \<open>kopen\<close> does to the table on every path, reading in
  sequence over the file system and the block cache of the kernel, seeking, and the count of
  references.
\<close>

lemma oset_simps [simp]:
  "oft (oset i f s) j = (if j = i then f (oft s i) else oft s j)" "fcrit (oset i f s) = fcrit s"
  "fvol (oset i f s) = fvol s" "fcache (oset i f s) = fcache s" "fdevs (oset i f s) = fdevs s"
  by (simp_all add: oset_def)

lemma fup_simps [simp]:
  "oft (fup s) = oft s" "fcrit (fup s) = fcrit s + 1" "fvol (fup s) = fvol s" "fcache (fup s) = fcache s"
  by (simp_all add: fup_def)

lemma fdown_Ok [simp]: "fdown s = Ok t \<longleftrightarrow> fcrit s \<noteq> 0 \<and> t = s\<lparr>fcrit := fcrit s - 1\<rparr>"
  by (auto simp: fdown_def)

lemma fdown_fup [simp]: "fdown (fup s) = Ok s"
  by (simp add: fup_def)

section \<open>Opening\<close>

text \<open>The operations on inodes and devices leave the table of files and the lock alone.\<close>

definition ftab :: "('c, 'd) fio \<Rightarrow> (nat \<Rightarrow> int) \<times> nat" where
  "ftab s = (\<lambda>i. of_refcnt (oft s i), fcrit s)"

lemma ino_get_ftab: "ino_get C u path fl s = Ok (ino, s') \<Longrightarrow> ftab s' = ftab s"
  by (auto simp: ino_get_def ftab_def)

lemma ino_stat_ftab: "ino_stat C ino st s = Ok (rc, st', s') \<Longrightarrow> ftab s' = ftab s"
  by (auto simp: ino_stat_def with_cache_def ftab_def)

lemma cdev_open_ftab: "cdev_open T i s = Ok (rc, s') \<Longrightarrow> ftab s' = ftab s"
  by (auto simp: cdev_open_def ftab_def split: option.splits)

lemma free_slot_Some: "free_slot s = Some i \<Longrightarrow> i < MAX_OPEN_FILE \<and> of_refcnt (oft s i) = 0 \<and> (\<forall>j<i. of_refcnt (oft s j) \<noteq> 0)"
  unfolding free_slot_def find_Some_iff by auto

lemma free_slot_None: "free_slot s = None \<longleftrightarrow> (\<forall>j<MAX_OPEN_FILE. of_refcnt (oft s j) \<noteq> 0)"
  unfolding free_slot_def find_None_iff by auto

lemma ftab_unref: "ftab (unref i s) = ((fst (ftab s))(i := fst (ftab s) i - 1), snd (ftab s))"
  by (auto simp: ftab_def unref_def)

lemma ftab_unref_locked: "unref_locked i s = Ok s' \<Longrightarrow> ftab s' = ((fst (ftab s))(i := fst (ftab s) i - 1), snd (ftab s))"
  by (auto simp: ftab_def unref_def unref_locked_def)

lemma ftab_fill: "ftab (fill_slot i ino st fops s) = ftab s"
  by (auto simp: ftab_def fill_slot_def)

lemma fup_fcrit: "fcrit s \<noteq> 0 \<Longrightarrow> ftab (fup (oset i f (s\<lparr>fcrit := fcrit s - 1\<rparr>))) = ((fst (ftab s))(i := of_refcnt (f (oft s i))), snd (ftab s))"
  by (auto simp: ftab_def fup_def oset_def)

text \<open>A block cache whose errors are negative, as all error numbers are.\<close>

definition bget_neg :: "'c bcif \<Rightarrow> bool" where
  "bget_neg C \<longleftrightarrow> (\<forall>d u n s rc b s'. bget C d u n s = Ok (rc, b, s') \<longrightarrow> rc \<le> 0)"

lemma bget_negD: "bget_neg C \<Longrightarrow> bget C d u n s = Ok (rc, b, s') \<Longrightarrow> rc \<le> 0"
  unfolding bget_neg_def by blast

lemma ino_stat_neg: "bget_neg C \<Longrightarrow> ino_stat C ino st s = Ok (rc, st', s') \<Longrightarrow> rc \<le> 0"
  by (auto simp: ino_stat_def with_cache_def fat_stat_def chk_def split: if_splits dest: bget_negD)

lemma INO_ERR_neg: "INO_ERR ino \<noteq> 0 \<Longrightarrow> INO_ERR ino < 0"
proof -
  assume "INO_ERR ino \<noteq> 0"
  then have i: "- 32 \<le> sint ino" "sint ino < 0" "INO_ERR ino = sint (ucast ino :: u16)"
    by (auto simp: INO_ERR_def EMAX_def split: if_splits)
  have "uint ino = sint ino + 4294967296" using i sint_u32 [of ino] by (simp split: if_splits)
  then have "uint (ucast ino :: u16) = (sint ino + 4294967296) mod 65536" by (simp add: unsigned_ucast_eq take_bit_eq_mod)
  also have "sint ino + 4294967296 = (sint ino + 65536) + 65535 * 65536" by simp
  also have "\<dots> mod 65536 = (sint ino + 65536) mod 65536" by (simp only: mod_mult_self1)
  also have "\<dots> = sint ino + 65536" by (rule mod_pos_pos_trivial) (use i in linarith)+
  finally show ?thesis using i sint_u16 [of "ucast ino"] by simp
qed

lemma kopen_tab:
  assumes "kopen C T u ust path fl s = Ok (rc, s')"
  shows "fcrit s' = fcrit s
    \<and> ((\<forall>j<MAX_OPEN_FILE. of_refcnt (oft s j) \<noteq> 0) \<longrightarrow> rc = - ENFILE)
    \<and> (rc \<noteq> 0 \<and> (bget_neg C \<longrightarrow> rc < 0) \<and> (\<forall>j. of_refcnt (oft s' j) = of_refcnt (oft s j))
       \<or> (\<exists>i<MAX_OPEN_FILE. rc = int i \<and> of_refcnt (oft s i) = 0 \<and> (\<forall>j<i. of_refcnt (oft s j) \<noteq> 0)
            \<and> of_refcnt (oft s' i) = 1 \<and> (\<forall>j. j \<noteq> i \<longrightarrow> of_refcnt (oft s' j) = of_refcnt (oft s j))))"
proof (cases "free_slot s")
  case None
  then have "free_slot (s\<lparr>fcrit := fcrit s - 1\<rparr>) = None" by (simp add: free_slot_def)
  with assms show ?thesis by (auto simp: kopen_def errno_defs)
next
  case (Some i)
  then have fs: "free_slot (s\<lparr>fcrit := fcrit s - 1\<rparr>) = Some i" by (simp add: free_slot_def)
  note i = free_slot_Some [OF Some]
  have c: "fcrit s \<noteq> 0" using assms by (auto simp: kopen_def)
  define s1 where "s1 = fup (oset i (\<lambda>e. e\<lparr>of_refcnt := of_refcnt e + 1\<rparr>) (s\<lparr>fcrit := fcrit s - 1\<rparr>))"
  have t1: "ftab s1 = ((fst (ftab s))(i := 1), snd (ftab s))"
    unfolding s1_def fup_fcrit [OF c] using i by simp
  have fd: "fdown s = Ok (s\<lparr>fcrit := fcrit s - 1\<rparr>)" using c by simp
  have un: "((fst (ftab s1))(i := fst (ftab s1) i - 1), snd (ftab s1)) = ftab s"
    unfolding t1 using i by (simp add: ftab_def fun_eq_iff)
  note K = assms [unfolded kopen_def fd bind_res.simps fs option.case, folded s1_def]
  have tab: "rc \<noteq> 0 \<and> (bget_neg C \<longrightarrow> rc < 0) \<and> ftab s' = ftab s \<or> rc = int i \<and> ftab s' = ftab s1"
  proof -
    from K obtain ino s2 where g: "ino_get C u path fl s1 = Ok (ino, s2)" by (cases "ino_get C u path fl s1") auto
    note K1 = K [unfolded g bind_res.simps prod.case]
    show ?thesis
    proof (cases "INO_ERR ino = 0")
      case False
      with K1 show ?thesis using ino_get_ftab [OF g] INO_ERR_neg [of ino] by (auto simp: ftab_unref un)
    next
      case True
      with K1 obtain err st s3 where st: "ino_stat C ino ust s2 = Ok (err, st, s3)" by (cases "ino_stat C ino ust s2") auto
      have t3: "ftab s3 = ftab s1" using ino_stat_ftab [OF st] ino_get_ftab [OF g] by simp
      note K2 = K1 [unfolded st bind_res.simps prod.case True]
      show ?thesis
      proof (cases "err = 0")
        case False
        have "bget_neg C \<Longrightarrow> err \<le> 0" using ino_stat_neg [OF _ st] .
        with False K2 t3 show ?thesis by (auto simp: ftab_unref un)
      next
        case True
        have "0 < EINVAL" by (simp add: EINVAL_def)
        with K2 True t3 show ?thesis
          by (cases "mode_ops (st_mode st)")
            (auto simp: Let_def ftab_fill un split: if_splits dest!: cdev_open_ftab ftab_unref_locked)
      qed
    qed
  qed
  show ?thesis using tab i unfolding t1 by (auto simp: ftab_def fun_eq_iff)
qed

text \<open>Property C11.
  What \<open>kopen\<close> leaves in the table of files, on every path and for every file system and driver:
  either it returns the lowest free slot, which now has one user, or it returns something other than
  zero and every count of users is as before; with no free slot it is \<open>- ENFILE\<close>. The lock is free again.\<close>

theorem kopen_slots:
  assumes "kopen C T u ust path fl s = Ok (rc, s')"
  shows "fcrit s' = fcrit s
    \<and> ((\<forall>j<MAX_OPEN_FILE. of_refcnt (oft s j) \<noteq> 0) \<longrightarrow> rc = - ENFILE)
    \<and> (rc \<noteq> 0 \<and> (\<forall>j. of_refcnt (oft s' j) = of_refcnt (oft s j))
       \<or> (\<exists>i<MAX_OPEN_FILE. rc = int i \<and> of_refcnt (oft s i) = 0 \<and> (\<forall>j<i. of_refcnt (oft s j) \<noteq> 0)
            \<and> of_refcnt (oft s' i) = 1 \<and> (\<forall>j. j \<noteq> i \<longrightarrow> of_refcnt (oft s' j) = of_refcnt (oft s j))))"
  using kopen_tab [OF assms] by blast

section \<open>Reading in sequence\<close>

text \<open>File \<open>fd\<close> is open on a regular file with the inode \<open>ino\<close>, at \<open>off\<close>.\<close>

definition open_at :: "('c, 'd) fio \<Rightarrow> int \<Rightarrow> u32 \<Rightarrow> u32 \<Rightarrow> bool" where
  "open_at s fd ino off \<longleftrightarrow> \<not> bad_fd fd s \<and> of_ops (oft s (nat fd)) = Fileio \<and> of_ino (oft s (nat fd)) = ino
     \<and> of_offset (oft s (nat fd)) = off"

lemma advance_ok:
  assumes "unat n \<le> 65504"
  shows "advance fd n s = oset fd (\<lambda>e. e\<lparr>of_offset := of_offset e + ucast n\<rparr>) s"
proof -
  have "uint n \<le> 65504" using assms by (metis of_nat_le_iff of_nat_numeral uint_nat)
  then have "0 \<le> sint n \<or> sint n \<le> - EMAX" by (auto simp: sint_u16 EMAX_def)
  then show ?thesis by (simp add: advance_def)
qed

lemma kread_step:
  assumes v: "vol_inv bdev dev unit P cont (fcache s)" "(\<Sum>b<MAX_BLOCK. vol_pins (fcache s) b) + 2 \<le> MAX_BLOCK"
    "good_vol dev unit (fvol s)" "ino \<noteq> 0" and op: "open_at s fd ino off"
    and D: "cont (devst (fcache s)) = D" and ch: "fat_chain D (fvol s) cs" "cs ! 0 = ucast (de_cluster0 (disk_dirent D ino))"
    and sz: "unat off + unat sz \<le> unat (de_size (disk_dirent D ino))" "unat (de_size (disk_dirent D ino)) < 2147483648"
    "unat sz \<le> 65504" "unat off div 512 div nspc (fvol s) < length cs" "unat off + unat sz \<le> length cs * nspc (fvol s) * 512"
  shows "\<exists>s'. kread (kernel_bc bdev) T fd sz s = Ok (sz, map (file_byte D (fvol s) cs) [unat off..<unat off + unat sz], s')
    \<and> open_at s' fd ino (off + ucast sz) \<and> vol_inv bdev dev unit P cont (fcache s') \<and> cont (devst (fcache s')) = D
    \<and> vol_pins (fcache s') = vol_pins (fcache s) \<and> fvol s' = fvol s"
proof -
  have "kvol.room (fcache s) (Suc (Suc 0))" using v(2) by (simp add: kvol.room_def)
  moreover have "unat sz = min (unat sz) (unat (de_size (disk_dirent D ino)) - unat off)" using sz(1) by simp
  ultimately obtain c where c: "fat_read (kernel_bc bdev) (fvol s) ino off sz (fcache s)
      = Ok (of_nat (unat sz), map (file_byte D (fvol s) cs) [unat off..<unat off + unat sz], c)" "kvol.same bdev dev unit P cont (fcache s) c"
    using kfat.fat_read_ok [OF v(1) _ v(3,4), of 0 cs off sz "unat sz"] ch sz D by auto
  have "open_at (oset (nat fd) (\<lambda>e. e\<lparr>of_offset := of_offset e + ucast sz\<rparr>) (s\<lparr>fcache := c\<rparr>)) fd ino (off + ucast sz)"
    using op by (simp add: open_at_def bad_fd_def)
  moreover have "advance (nat fd) sz (s\<lparr>fcache := c\<rparr>) = oset (nat fd) (\<lambda>e. e\<lparr>of_offset := of_offset e + ucast sz\<rparr>) (s\<lparr>fcache := c\<rparr>)"
    by (rule advance_ok [OF sz(3)])
  ultimately show ?thesis
    using c op D by (auto simp: kread_def open_at_def file_read_def ino_read_def with_cache_def kvol.same_def)
qed

text \<open>Property C9.
  Reading in sequence: two calls of \<open>kread\<close> on an open file return two consecutive pieces of the
  file, the second from where the first ended, and leave the offset behind both. This goes through
  the table of files, the file system, the block cache and the driver.\<close>

theorem kread_sequence:
  assumes "vol_inv bdev dev unit P cont (fcache s)" "(\<Sum>b<MAX_BLOCK. vol_pins (fcache s) b) + 2 \<le> MAX_BLOCK"
    and "good_vol dev unit (fvol s)" "ino \<noteq> 0" "open_at s fd ino off"
    and "cont (devst (fcache s)) = D" "fat_chain D (fvol s) cs" "cs ! 0 = ucast (de_cluster0 (disk_dirent D ino))"
    and "unat off + unat sz1 + unat sz2 \<le> unat (de_size (disk_dirent D ino))" "unat (de_size (disk_dirent D ino)) < 2147483648"
    and "unat sz1 \<le> 65504" "unat sz2 \<le> 65504" "(unat off + unat sz1) div 512 div nspc (fvol s) < length cs"
    and "unat off + unat sz1 + unat sz2 \<le> length cs * nspc (fvol s) * 512"
  shows "\<exists>s1 s2. kread (kernel_bc bdev) T fd sz1 s
        = Ok (sz1, map (file_byte D (fvol s) cs) [unat off..<unat off + unat sz1], s1)
    \<and> kread (kernel_bc bdev) T fd sz2 s1
        = Ok (sz2, map (file_byte D (fvol s) cs) [unat off + unat sz1..<unat off + unat sz1 + unat sz2], s2)
    \<and> open_at s2 fd ino (off + ucast sz1 + ucast sz2)"
proof -
  have "unat off div 512 div nspc (fvol s) < length cs"
    by (rule le_less_trans [OF _ assms(13)]) (simp add: div_le_mono)
  then obtain s1 where s1: "kread (kernel_bc bdev) T fd sz1 s = Ok (sz1, map (file_byte D (fvol s) cs) [unat off..<unat off + unat sz1], s1)"
    "open_at s1 fd ino (off + ucast sz1)" "vol_inv bdev dev unit P cont (fcache s1)" "cont (devst (fcache s1)) = D"
    "vol_pins (fcache s1) = vol_pins (fcache s)" "fvol s1 = fvol s"
    using kread_step [OF assms(1-8), of sz1 T] assms(9-14) by auto
  have u: "unat (off + ucast sz1) = unat off + unat sz1"
  proof -
    have "unat off + unat sz1 < 2147483648" using assms(9,10) by linarith
    then show ?thesis by (simp add: unat_word_ariths unat_ucast_u16)
  qed
  obtain s2 where "kread (kernel_bc bdev) T fd sz2 s1
      = Ok (sz2, map (file_byte D (fvol s1) cs) [unat (off + ucast sz1)..<unat (off + ucast sz1) + unat sz2], s2)"
    "open_at s2 fd ino (off + ucast sz1 + ucast sz2)"
    using kread_step [OF s1(3) _ _ assms(4) s1(2,4), of cs sz2 T] assms s1(5,6) unfolding u by auto
  then show ?thesis using s1 u by auto
qed

section \<open>Seeking\<close>

lemma seek_overflow:
  fixes x y :: int
  assumes "x < 2147483648" "0 \<le> y" "y < 4294967296" "0 \<le> x"
  shows "((if y < 2147483648 then y else y - 4294967296) < 0
      \<and> (if y < 2147483648 then y else y - 4294967296)
        < (if (if x + y < 4294967296 then x + y else x + y - 4294967296) < 2147483648
           then (if x + y < 4294967296 then x + y else x + y - 4294967296)
           else (if x + y < 4294967296 then x + y else x + y - 4294967296) - 4294967296)
      \<or> 0 < (if y < 2147483648 then y else y - 4294967296)
      \<and> (if (if x + y < 4294967296 then x + y else x + y - 4294967296) < 2147483648
           then (if x + y < 4294967296 then x + y else x + y - 4294967296)
           else (if x + y < 4294967296 then x + y else x + y - 4294967296) - 4294967296)
        < (if y < 2147483648 then y else y - 4294967296))
    \<longleftrightarrow> (2147483648 \<le> x + (if y < 2147483648 then y else y - 4294967296)
      \<or> (if y < 2147483648 then y else y - 4294967296) < 0 \<and> x \<noteq> 0)"
  using assms by (cases "y < 2147483648"; cases "x + y < 2147483648"; cases "x + y < 4294967296") auto

text \<open>Remark.
  \<open>kseek\<close> from the beginning or from the current offset, by the signed distance: it adds, and
  reports an overflow when the sum does not fit; but it also refuses every step back from an offset
  that is not zero, and takes a negative offset from the beginning. An error leaves the offset.\<close>

theorem kseek_moves:
  assumes "\<not> bad_fd fd s" "whence = SEEK_SET \<and> base = 0 \<or> whence = SEEK_CUR \<and> base = of_offset (oft s (nat fd))" "0 \<le> sint base"
  shows "kseek C ust fd d whence s =
    (if sint base + sint d \<ge> 2147483648 \<or> sint d < 0 \<and> base \<noteq> 0
     then Ok (word_of_int (- EOVERFLOW), s)
     else Ok (base + d, oset (nat fd) (\<lambda>e. e\<lparr>of_offset := base + d\<rparr>) s))"
proof -
  have b: "uint base < 2147483648" "sint base = uint base"
    using assms(3) unsigned_less [of base, where 'a = int] by (auto simp: sint_u32 split: if_splits)
  have d: "0 \<le> uint d" "uint d < 4294967296" "0 \<le> uint base" "uint base = 0 \<longleftrightarrow> base = 0"
    using unsigned_less [of d, where 'a = int] by (simp_all add: uint_0_iff)
  have m: "uint (base + d) = (if uint base + uint d < 4294967296 then uint base + uint d else uint base + uint d - 4294967296)"
    by (subst uint_plus_if') simp
  have E: "(sint d < 0 \<and> sint d < sint (base + d) \<or> 0 < sint d \<and> sint (base + d) < sint d)
      \<longleftrightarrow> (sint base + sint d \<ge> 2147483648 \<or> sint d < 0 \<and> base \<noteq> 0)"
    using b(1) d(1-3) unfolding b(2) sint_u32 [of d] sint_u32 [of "base + d"] m d(4) [symmetric]
    by (rule seek_overflow)
  have "kseek C ust fd d whence s =
    (if sint d < 0 \<and> sint d < sint (base + d) \<or> 0 < sint d \<and> sint (base + d) < sint d
     then Ok (word_of_int (- EOVERFLOW), s)
     else Ok (base + d, oset (nat fd) (\<lambda>e. e\<lparr>of_offset := base + d\<rparr>) s))"
    using assms(1,2) by (elim disjE conjE)
      (simp_all only: kseek_def SEEK_SET_def SEEK_CUR_def Let_def if_False if_True refl zero_neq_one one_neq_zero bind_res.simps prod.case less_irrefl)
  then show ?thesis unfolding E .
qed

section \<open>Counting users\<close>

text \<open>Call \<open>f\<close> again and again as long as it returns \<open>rc\<close>.\<close>

fun calls :: "nat \<Rightarrow> int \<Rightarrow> ('s \<Rightarrow> (int \<times> 's) res) \<Rightarrow> 's \<Rightarrow> 's option" where
  "calls 0 rc f s = Some s"
| "calls (Suc n) rc f s = (case f s of Ok (rc', s') \<Rightarrow> if rc' = rc then calls n rc f s' else None | _ \<Rightarrow> None)"

definition more_users :: "int \<Rightarrow> int \<Rightarrow> ('c, 'd) fio \<Rightarrow> ('c, 'd) fio" where
  "more_users fd n = oset (nat fd) (\<lambda>e. e\<lparr>of_refcnt := of_refcnt e + n\<rparr>)"

lemma more_users_add: "more_users fd n (more_users fd m s) = more_users fd (m + n) s" "more_users fd 0 s = s"
  by (simp_all add: more_users_def oset_def add.assoc)

lemma kdup_step:
  assumes "\<not> bad_fd fd s" "fcrit s \<noteq> 0"
  shows "kdup fd s = Ok (fd, more_users fd 1 s)"
  using assms by (auto simp: kdup_def more_users_def fdown_def fup_def oset_def)

lemma kclose_step:
  assumes "\<not> bad_fd fd s" "fcrit s \<noteq> 0" "of_refcnt (oft s (nat fd)) \<noteq> 1"
  shows "kclose T fd s = Ok (0, more_users fd (- 1) s)"
  using assms by (auto simp: kclose_def more_users_def fdown_def fup_def oset_def unref_def Let_def)

lemma cdev_close_ftab: "cdev_close T i s = Ok (rc, s') \<Longrightarrow> ftab s' = ftab s"
  by (auto simp: cdev_close_def ftab_def split: option.splits)

lemma ftab_simps: "ftab (fup s) = (fst (ftab s), Suc (snd (ftab s)))" "ftab (s\<lparr>fcrit := n\<rparr>) = (fst (ftab s), n)"
  by (simp_all add: ftab_def)

lemma kclose_tab:
  assumes "kclose T fd s = Ok (rc, s')" "\<not> bad_fd fd s"
  shows "ftab s' = ((fst (ftab s))(nat fd := fst (ftab s) (nat fd) - 1), snd (ftab s))"
proof -
  have "snd (ftab s) = fcrit s" by (simp add: ftab_def)
  then show ?thesis
    using assms unfolding kclose_def
    by (auto simp: Let_def ftab_simps ftab_unref split: if_splits dest!: cdev_close_ftab)
qed

lemma kdups:
  "\<not> bad_fd fd s \<Longrightarrow> 0 < of_refcnt (oft s (nat fd)) \<Longrightarrow> fcrit s \<noteq> 0 \<Longrightarrow> calls n fd (kdup fd) s = Some (more_users fd (int n) s)"
proof (induction n arbitrary: s)
  case (Suc n)
  have "\<not> bad_fd fd (more_users fd 1 s)" "0 < of_refcnt (oft (more_users fd 1 s) (nat fd))" "fcrit (more_users fd 1 s) \<noteq> 0"
    using Suc.prems by (auto simp: more_users_def bad_fd_def)
  from Suc.IH [OF this] show ?case by (simp add: kdup_step [OF Suc.prems(1,3)] more_users_add add.commute)
qed (simp add: more_users_add)

lemma kcloses:
  "\<not> bad_fd fd s \<Longrightarrow> int n < of_refcnt (oft s (nat fd)) \<Longrightarrow> fcrit s \<noteq> 0 \<Longrightarrow> calls n 0 (kclose T fd) s = Some (more_users fd (- int n) s)"
proof (induction n arbitrary: s)
  case (Suc n)
  have "\<not> bad_fd fd (more_users fd (- 1) s)" "int n < of_refcnt (oft (more_users fd (- 1) s) (nat fd))" "fcrit (more_users fd (- 1) s) \<noteq> 0"
    using Suc.prems by (auto simp: more_users_def bad_fd_def)
  from Suc.IH [OF this] Suc.prems(2) show ?case
    by (simp add: kclose_step [OF Suc.prems(1,3)] more_users_add)
qed (simp add: more_users_add)

text \<open>Remark.
  A file stays open for as long as it has users: after \<open>n\<close> calls of \<open>kdup\<close>, which each return the
  file, \<open>n\<close> calls of \<open>kclose\<close> succeed without touching the inode or the device and leave the state
  as it was.\<close>

theorem kdup_kclose:
  assumes "0 \<le> fd" "fd < int MAX_OPEN_FILE" "0 < of_refcnt (oft s (nat fd))" "fcrit s \<noteq> 0"
  shows "\<exists>s'. calls n fd (kdup fd) s = Some s' \<and> of_refcnt (oft s' (nat fd)) = of_refcnt (oft s (nat fd)) + int n
    \<and> calls n 0 (kclose T fd) s' = Some s"
proof -
  have b: "\<not> bad_fd fd s" "\<not> bad_fd fd (more_users fd (int n) s)" using assms by (auto simp: bad_fd_def more_users_def)
  have "calls n 0 (kclose T fd) (more_users fd (int n) s) = Some s"
    using kcloses [OF b(2), of n T] assms by (simp add: more_users_add, simp add: more_users_def)
  moreover have "of_refcnt (oft (more_users fd (int n) s) (nat fd)) = of_refcnt (oft s (nat fd)) + int n"
    by (simp add: more_users_def)
  ultimately show ?thesis using kdups [OF b(1) assms(3,4), of n] by blast
qed

section \<open>Witnesses\<close>

text \<open>The volume of \<open>FatThms\<close>, and a table whose file 0 has \<open>n\<close> users and stands at 510 in the inode 16.\<close>

definition w_fio :: "int \<Rightarrow> (unit bcache, unit) fio" where
  "w_fio n = \<lparr>oft = (\<lambda>i. \<lparr>of_ino = 16, of_refcnt = (if i = 0 then n else 0), of_offset = 510, of_blksize = 512,
     of_size = 0, of_maj = 0, of_min = 0, of_ops = Fileio\<rparr>), fcrit = 1, fvol = w_fv, fcache = w_vbc, fdevs = ()\<rparr>"

definition w_devs :: "(unit, unit) devtab" where
  "w_devs = \<lparr>bdevtab = [], cdevtab = [], nblkdev = 0, nchardev = 0\<rparr>"

theorem kopen_slots_witness:
  "\<exists>s'. kopen (kernel_bc w_rdev) w_devs root_info (fillstat w_fv root_info) [47] 0 (w_fio 0) = Ok (0, s') \<and> of_refcnt (oft s' 0) = 1"
proof -
  have "(\<Sum>b<MAX_BLOCK. vol_pins w_vbc b) < MAX_BLOCK" using w_vol(2) by (simp add: MAX_BLOCK_def)
  then obtain c where c: "fat_stat (kernel_bc w_rdev) w_fv 0 (fillstat w_fv root_info) w_vbc
      = Ok (0, fillstat w_fv \<lparr>fi_ino = 0, fi_dir = disk_dirent (w_cont ()) 0\<rparr>, c)"
    using kfat.fat_stat_ok [OF w_vol(1) _ w_fv_good(1), of 0 0 "fillstat w_fv root_info"] by (auto simp: kvol.room_def)
  have d: "st_mode (fillstat w_fv \<lparr>fi_ino = 0, fi_dir = disk_dirent (w_cont ()) 0\<rparr>) = S_IFREG"
    by (simp add: disk_dirent_def fillstat_def dirent_at_def FAT_INO_SEC_def FAT_INO_OFFS_def w_sector Let_def)
  have g: "free_slot (w_fio 0\<lparr>fcrit := fcrit (w_fio 0) - 1\<rparr>) = Some 0"
    by (simp add: free_slot_def MAX_OPEN_FILE_def w_fio_def upt_rec)
  have fd: "fdown (w_fio 0) = Ok (w_fio 0\<lparr>fcrit := fcrit (w_fio 0) - 1\<rparr>)" by (simp add: w_fio_def)
  define s1 where "s1 = fup (oset 0 (\<lambda>e. e\<lparr>of_refcnt := of_refcnt e + 1\<rparr>) (w_fio 0\<lparr>fcrit := fcrit (w_fio 0) - 1\<rparr>))"
  have s1: "fcache s1 = w_vbc" "fvol s1 = w_fv" by (simp_all add: s1_def w_fio_def)
  have p: "path_eles [47] 0 = []" by code_simp
  have i: "ino_get (kernel_bc w_rdev) root_info [47] 0 s1 = Ok (0, s1)"
    by (simp add: ino_get_def fat_ino_get_def dir_find_path_def p cat_def SLASH_def s1 O_ACCESS_def O_RDONLY_def)
      (simp add: s1 [symmetric] root_info_def)
  have st: "ino_stat (kernel_bc w_rdev) 0 (fillstat w_fv root_info) s1
      = Ok (0, fillstat w_fv \<lparr>fi_ino = 0, fi_dir = disk_dirent (w_cont ()) 0\<rparr>, s1\<lparr>fcache := c\<rparr>)"
    by (simp add: ino_stat_def with_cache_def s1 c)
  have m: "mode_ops S_IFREG = Some Fileio" by (simp add: mode_ops_def S_IFREG_def S_IFMT_def)
  have "\<exists>s'. kopen (kernel_bc w_rdev) w_devs root_info (fillstat w_fv root_info) [47] 0 (w_fio 0) = Ok (0, s')"
    unfolding kopen_def fd bind_res.simps g option.case s1_def [symmetric] i prod.case st d m
    by (simp add: INO_ERR_def EMAX_def Let_def)
  then obtain s' where s': "kopen (kernel_bc w_rdev) w_devs root_info (fillstat w_fv root_info) [47] 0 (w_fio 0) = Ok (0, s')" ..
  have r: "of_refcnt (oft (w_fio 0) j) = 0" for j by (simp add: w_fio_def)
  note k = kopen_slots [OF s']
  then have "of_refcnt (oft s' 0) = 1" by auto
  then show ?thesis using s' by blast
qed

lemma w_file: "de_cluster0 (disk_dirent (w_cont ()) 16) = 257" "unat (de_size (disk_dirent (w_cont ()) 16)) = 16843009"
  "fat_chain (w_cont ()) w_fv [257, 514]"
proof -
  have d: "disk_dirent (w_cont ()) 16 = dirent_at (\<lambda>i. w_cont () 1 ! i) 0"
    by (simp add: disk_dirent_def FAT_INO_SEC_def FAT_INO_OFFS_def)
  show "de_cluster0 (disk_dirent (w_cont ()) 16) = 257" "unat (de_size (disk_dirent (w_cont ()) 16)) = 16843009"
    unfolding d by (simp_all add: dirent_at_def le32_def le16_def w_sector)
  show "fat_chain (w_cont ()) w_fv [257, 514]"
    by (simp add: fat_entry_def fat_byte_def fat12_next_def w_fv_def fat_umount_def w_sector)
qed

theorem kread_sequence_witness:
  "\<exists>s1 s2. kread (kernel_bc w_rdev) w_devs 0 1 (w_fio 1) = Ok (1, [255], s1)
    \<and> kread (kernel_bc w_rdev) w_devs 0 2 s1 = Ok (2, [255, 0], s2)"
proof -
  have b: "map (file_byte (w_cont ()) w_fv [257, 514]) [510..<511] = [255]"
    "map (file_byte (w_cont ()) w_fv [257, 514]) [511..<513] = [255, 0]"
    by (simp add: upt_rec file_byte_def file_sec_def w_fv_good(2) w_sector, simp add: w_fv_def fat_umount_def spc_def)
      (simp add: upt_rec file_byte_def file_sec_def w_fv_good(2) w_sector, simp add: w_fv_def fat_umount_def spc_def)
  have v: "fcache (w_fio 1) = w_vbc" "fvol (w_fio 1) = w_fv" "open_at (w_fio 1) 0 16 510"
    by (simp_all add: w_fio_def open_at_def bad_fd_def MAX_OPEN_FILE_def)
  have "\<exists>s1 s2. kread (kernel_bc w_rdev) w_devs 0 1 (w_fio 1)
        = Ok (1, map (file_byte (w_cont ()) (fvol (w_fio 1)) [257, 514]) [unat (510 :: u32)..<unat (510 :: u32) + unat (1 :: u16)], s1)
    \<and> kread (kernel_bc w_rdev) w_devs 0 2 s1
        = Ok (2, map (file_byte (w_cont ()) (fvol (w_fio 1)) [257, 514]) [unat (510 :: u32) + unat (1 :: u16)..<unat (510 :: u32) + unat (1 :: u16) + unat (2 :: u16)], s2)
    \<and> open_at s2 0 16 (510 + ucast (1 :: u16) + ucast (2 :: u16))"
    by (rule kread_sequence [where unit = 0 and dev = 0 and P = "\<lambda>_. True" and cont = w_cont])
      (use v w_vol w_fv_good w_file in \<open>simp_all add: MAX_BLOCK_def\<close>)
  then show ?thesis using b by (auto simp: v)
qed

theorem kseek_moves_witness:
  "kseek (kernel_bc w_rdev) (fillstat w_fv root_info) 0 (- 1) SEEK_CUR (w_fio 1) = Ok (word_of_int (- EOVERFLOW), w_fio 1)"
  using kseek_moves [of 0 "w_fio 1" SEEK_CUR 510 "kernel_bc w_rdev" "fillstat w_fv root_info" "- 1"]
  by (simp add: bad_fd_def MAX_OPEN_FILE_def w_fio_def SEEK_CUR_def)

theorem kdup_kclose_witness:
  "\<exists>s'. calls 3 0 (kdup 0) (w_fio 1) = Some s' \<and> of_refcnt (oft s' 0) = 4 \<and> calls 3 0 (kclose w_devs 0) s' = Some (w_fio 1)"
  using kdup_kclose [of 0 "w_fio 1" 3 w_devs] by (simp add: MAX_OPEN_FILE_def w_fio_def)

end
