(* ===== verification/Ring.thy ===== *)
theory Ring
  imports Prelude
begin

text \<open>
  Circular buffers: what the bytes between the head and the tail are as a list, and how the list
  changes when the tail or the head moves. The line discipline, the keyboard and the echo queue
  keep their bytes this way.
\<close>

definition ring_len :: "nat \<Rightarrow> nat \<Rightarrow> nat \<Rightarrow> nat" where
  "ring_len n h t = (if h \<le> t then t - h else t + n - h)"

definition ring_list :: "(nat \<Rightarrow> 'a) \<Rightarrow> nat \<Rightarrow> nat \<Rightarrow> nat \<Rightarrow> 'a list" where
  "ring_list b n h t = map (\<lambda>k. b ((h + k) mod n)) [0..<ring_len n h t]"

definition nxt :: "nat \<Rightarrow> nat \<Rightarrow> nat" where
  "nxt n i = (if Suc i = n then 0 else Suc i)"

definition prv :: "nat \<Rightarrow> nat \<Rightarrow> nat" where
  "prv n i = (if i = 0 then n - 1 else i - 1)"

lemma nxt_lt [simp]: "i < n \<Longrightarrow> nxt n i < n" and prv_lt [simp]: "i < n \<Longrightarrow> prv n i < n"
  by (auto simp: nxt_def prv_def)

lemma nxt_mod: "i < n \<Longrightarrow> (i + 1) mod n = nxt n i"
  by (cases "Suc i = n") (auto simp: nxt_def)

lemma prv_mod: "i < n \<Longrightarrow> (i + n - 1) mod n = prv n i"
  by (cases i) (auto simp: prv_def)

lemma ring_len_lt: "h < n \<Longrightarrow> t < n \<Longrightarrow> ring_len n h t < n"
  by (auto simp: ring_len_def)

lemma length_ring [simp]: "length (ring_list b n h t) = ring_len n h t"
  by (simp add: ring_list_def)

lemma ring_len_0: "h < n \<Longrightarrow> t < n \<Longrightarrow> ring_len n h t = 0 \<longleftrightarrow> h = t"
  by (auto simp: ring_len_def)

lemma ring_Nil [simp]: "h < n \<Longrightarrow> t < n \<Longrightarrow> ring_list b n h t = [] \<longleftrightarrow> h = t"
  using ring_len_0 [of h n t] by (metis length_0_conv length_ring)

lemma ring_same [simp]: "ring_list b n h h = []"
  by (simp add: ring_list_def ring_len_def)

lemma ring_len_push: "h < n \<Longrightarrow> t < n \<Longrightarrow> ring_len n h (nxt n t) = (if Suc (ring_len n h t) = n then 0 else Suc (ring_len n h t))"
  by (auto simp: ring_len_def nxt_def split: if_splits)

lemma ring_pos: "h < n \<Longrightarrow> t < n \<Longrightarrow> (h + ring_len n h t) mod n = t"
  by (auto simp: ring_len_def)

lemma ring_push:
  assumes "h < n" "t < n"
  shows "ring_list (b(t := x)) n h (nxt n t) = (if Suc (ring_len n h t) = n then [] else ring_list b n h t @ [x])"
proof (cases "Suc (ring_len n h t) = n")
  case True
  then show ?thesis using assms by (simp add: ring_list_def ring_len_push)
next
  case False
  have "(h + k) mod n \<noteq> t" if k: "k < ring_len n h t" for k
  proof
    assume e: "(h + k) mod n = t"
    have "(h + k) mod n = (if h + k < n then h + k else h + k - n)"
      using assms k ring_len_lt [OF assms] by (auto simp: mod_if)
    then show False using e k assms by (auto simp: ring_len_def split: if_splits)
  qed
  then have "map (\<lambda>k. (b(t := x)) ((h + k) mod n)) [0..<ring_len n h t] = ring_list b n h t"
    by (auto simp: ring_list_def)
  then show ?thesis
    using False assms ring_pos [OF assms] by (simp add: ring_list_def ring_len_push)
qed

lemma ring_pop:
  assumes "h < n" "t < n" "h \<noteq> t"
  shows "ring_list b n h t = b h # ring_list b n (nxt n h) t"
proof -
  have l: "ring_len n h t = Suc (ring_len n (nxt n h) t)" using assms by (auto simp: ring_len_def nxt_def)
  have "(nxt n h + k) mod n = (h + Suc k) mod n" for k
  proof (cases "Suc h = n")
    case True
    then have "h + Suc k = k + n" by simp
    then have "(h + Suc k) mod n = k mod n" by (simp only: mod_add_self2)
    then show ?thesis using True by (simp add: nxt_def)
  qed (simp add: nxt_def)
  then have "ring_list b n (nxt n h) t = map (\<lambda>k. b ((h + Suc k) mod n)) [0..<ring_len n (nxt n h) t]"
    by (simp add: ring_list_def)
  moreover have "ring_list b n h t = b h # map (\<lambda>k. b ((h + Suc k) mod n)) [0..<ring_len n (nxt n h) t]"
    unfolding ring_list_def l using assms(1) by (simp add: upt_rec [of 0 "Suc _"] map_Suc_upt [symmetric] comp_def del: upt_Suc map_Suc_upt)
  ultimately show ?thesis by simp
qed

lemma ring_unpush:
  assumes "h < n" "t < n" "h \<noteq> t"
  shows "ring_list b n h (prv n t) = butlast (ring_list b n h t)"
proof -
  have "ring_len n h t = Suc (ring_len n h (prv n t))" using assms by (auto simp: ring_len_def prv_def)
  then show ?thesis by (simp add: ring_list_def butlast_append)
qed

end
