(* ===== verification/Ttycook.thy ===== *)
theory Ttycook
  imports Ring Sched
begin

text \<open>
  The line discipline of the serial lines, \<open>kernel/ttycook/TTYCOOK.C\<close>: characters that arrive are
  edited into lines and echoed, lines are read, and output gets its carriage returns. The critical
  section of the echo queue is a semaphore with the count \<open>tc_echocs\<close>: taking it when it is taken
  waits for its owner, which never comes in an interrupt handler (\<open>Hang\<close>).
\<close>

section \<open>State\<close>

definition TTYC_LINE_SIZE :: nat where "TTYC_LINE_SIZE = 128"
definition TTYC_ECHO_QUEUE :: nat where "TTYC_ECHO_QUEUE = 32"

lemmas ttyc_consts = TTYC_LINE_SIZE_def TTYC_ECHO_QUEUE_def

text \<open>\<open>blockq\<close> is the queue \<open>tc_blockq\<close> of the scheduler; \<open>unit\<close> and \<open>write\<close> belong to the caller.\<close>

record ttyc =
  tc_buf :: "nat \<Rightarrow> u8"
  tc_echobuf :: "nat \<Rightarrow> u8"
  tc_tail :: nat
  tc_head :: nat
  tc_ehead :: nat
  tc_etail :: nat
  tc_echocs :: nat
  tc_crs :: int
  tc_echotask :: taskp
  tc_blockq :: taskq

definition Q_NEXT :: "nat \<Rightarrow> nat \<Rightarrow> nat" where "Q_NEXT x sz = (x + 1) AND (sz - 1)"
definition Q_PREV :: "nat \<Rightarrow> nat \<Rightarrow> nat" where "Q_PREV x sz = (x + sz - 1) AND (sz - 1)"

abbreviation (input) BS :: u8 where "BS \<equiv> 8"
abbreviation (input) LF :: u8 where "LF \<equiv> 10"
abbreviation (input) CR :: u8 where "CR \<equiv> 13"
abbreviation (input) DEL :: u8 where "DEL \<equiv> 127"

section \<open>Input\<close>

text \<open>\<open>heap\<close> and \<open>ds\<close> are those of \<open>task_reserve\<close>, \<open>stub\<close> the entry of the echo task and \<open>pc\<close> the
  address it gets as its argument.\<close>

definition ttyc_init :: "u16 \<Rightarrow> u16 \<Rightarrow> farptr \<Rightarrow> u16 \<Rightarrow> ttyc \<Rightarrow> sched \<Rightarrow> (ttyc \<times> sched) res" where
  "ttyc_init heap ds stub pc tc s =
     (let tc1 = tc\<lparr>tc_head := 0, tc_tail := 0, tc_crs := 0\<rparr>
      in if tc_echotask tc1 = 0
         then (let tc2 = tc1\<lparr>tc_echocs := 1, tc_ehead := 0, tc_etail := 0\<rparr>
               in bind_res (task_reserve heap ds 256 TASK_PRI_NORM s) (\<lambda>(t, s1).
                  bind_res (task_sch_async stub ds t 1 [pc] s1) (\<lambda>s2. Ok (tc2\<lparr>tc_echotask := t\<rparr>, s2))))
         else Ok (tc1, s))"

definition TTYC_ECHO :: "u8 \<Rightarrow> ttyc \<Rightarrow> ttyc res" where
  "TTYC_ECHO ch tc =
     (if tc_echocs tc = 0 then Hang
      else Ok (tc\<lparr>tc_echobuf := (tc_echobuf tc)(tc_etail tc := ch), tc_etail := Q_NEXT (tc_etail tc) TTYC_ECHO_QUEUE\<rparr>))"

fun echo_all :: "u8 list \<Rightarrow> ttyc \<Rightarrow> ttyc res" where
  "echo_all [] tc = Ok tc"
| "echo_all (c # cs) tc = bind_res (TTYC_ECHO c tc) (echo_all cs)"

text \<open>What a character is echoed as.\<close>

definition echo_of :: "u8 \<Rightarrow> u8 list" where
  "echo_of ch = (if ch = LF then [CR, LF] else if ch < 0x20 then [0x5e, ch OR 0x40] else [ch])"

definition room_left :: "ttyc \<Rightarrow> int" where
  "room_left tc =
     (if tc_head tc \<le> tc_tail tc
      then int TTYC_LINE_SIZE - int (tc_tail tc) + int (tc_head tc) - 1
      else int (tc_head tc) - int (tc_tail tc))"

definition ttyc_putc :: "u8 \<Rightarrow> ttyc \<Rightarrow> sched \<Rightarrow> (ttyc \<times> sched) res" where
  "ttyc_putc ch tc s =
     (if ch = BS \<or> ch = DEL then
        (if tc_head tc = tc_tail tc then Ok (tc, s)
         else bind_res (echo_all [BS, 0x20, BS] (tc\<lparr>tc_tail := Q_PREV (tc_tail tc) TTYC_LINE_SIZE\<rparr>)) (\<lambda>tc1.
              Ok (tc1, task_unblock (tc_echotask tc1) s)))
      else if room_left tc \<le> 1 \<or> room_left tc \<le> 2 \<and> ch \<noteq> CR \<and> ch \<noteq> LF then Ok (tc, s)
      else (let ch1 = (if ch = CR then LF else ch);
                tc1 = tc\<lparr>tc_buf := (tc_buf tc)(tc_tail tc := ch1), tc_tail := Q_NEXT (tc_tail tc) TTYC_LINE_SIZE\<rparr>
            in bind_res (echo_all (echo_of ch1) tc1) (\<lambda>tc2.
               let tc3 = (if ch1 = LF then tc2\<lparr>tc_crs := tc_crs tc2 + 1\<rparr> else tc2)
               in Ok (tc3, task_unblock (tc_echotask tc3) s))))"

section \<open>Reading\<close>

text \<open>The first argument is \<open>size - got\<close>.\<close>

fun read_line :: "nat \<Rightarrow> ttyc \<Rightarrow> u8 list \<times> ttyc" where
  "read_line 0 tc = ([], tc)"
| "read_line (Suc n) tc =
     (if tc_crs tc = 0 then ([], tc)
      else (let ch = tc_buf tc (tc_head tc);
                tc1 = tc\<lparr>tc_head := Q_NEXT (tc_head tc) TTYC_LINE_SIZE\<rparr>
            in if ch = LF then ([ch], tc1\<lparr>tc_crs := tc_crs tc1 - 1\<rparr>)
               else if tc_head tc1 = tc_tail tc1 then ([ch], tc1)
               else (let (bs, tc2) = read_line n tc1 in (ch # bs, tc2))))"

text \<open>The bytes stored at \<open>buf\<close>; their number is the result.\<close>

definition ttyc_read :: "int \<Rightarrow> ttyc \<Rightarrow> u8 list \<times> ttyc" where
  "ttyc_read sz tc =
     (if tc_crs tc = 0 \<or> tc_head tc = tc_tail tc then ([], tc) else read_line (nat sz) tc)"

section \<open>Output\<close>

fun cook :: "u8 list \<Rightarrow> u8 list" where
  "cook [] = []"
| "cook (c # cs) = (if c = LF then CR # c # cook cs else c # cook cs)"

record tty_iob =
  iob_data :: farptr
  iob_bytes :: "u8 list"
  iob_ptr :: u16
  iob_size :: u16

text \<open>A 16-bit \<open>int\<close>; the structure has 10 bytes. The first component is the address of the new
  structure, 0 when there is no memory.\<close>

definition cook_len :: "u8 list \<Rightarrow> int" where
  "cook_len buf = sint (of_nat (length buf + length (filter (\<lambda>c. c = LF) buf)) :: u16)"

definition ttyc_cook_output :: "u16 \<Rightarrow> u8 list \<Rightarrow> kmem \<Rightarrow> ((u16 \<times> tty_iob) \<times> kmem) res" where
  "ttyc_cook_output heap buf m =
     bind_res (near_malloc heap 10 m) (\<lambda>(iob, m1).
       let none = \<lparr>iob_data = far_null, iob_bytes = [], iob_ptr = 0, iob_size = 0\<rparr>
       in if iob = 0 then Ok ((0, none), m1)
          else bind_res (kmalloc (word_of_int (cook_len buf)) m1) (\<lambda>(p, m2).
               if p = far_null then bind_res (near_free heap iob m2) (\<lambda>m3. Ok ((0, none), m3))
               else Ok ((iob, none\<lparr>iob_data := p, iob_bytes := cook buf, iob_size := word_of_int (cook_len buf)\<rparr>), m2)))"

section \<open>The echo task\<close>

fun echo_drain :: "nat \<Rightarrow> ttyc \<Rightarrow> u8 list \<times> ttyc" where
  "echo_drain 0 tc = ([], tc)"
| "echo_drain (Suc n) tc =
     (if tc_ehead tc = tc_etail tc then ([], tc)
      else (let (bs, tc1) = echo_drain n (tc\<lparr>tc_ehead := Q_NEXT (tc_ehead tc) TTYC_ECHO_QUEUE\<rparr>)
            in (tc_echobuf tc (tc_ehead tc) # bs, tc1)))"

text \<open>One turn of the loop: block (\<open>None\<close>), or the bytes to write to the device.\<close>

definition echo_turn :: "ctx \<Rightarrow> ttyc \<Rightarrow> sched \<Rightarrow> (u8 list option \<times> ttyc \<times> sched) res" where
  "echo_turn c tc s =
     (if tc_echocs tc = 0 then Hang
      else if tc_ehead tc = tc_etail tc
      then bind_res (task_block c (tc_blockq tc) s) (\<lambda>s1. Ok (None, tc, s1))
      else (let (bs, tc1) = echo_drain 16 tc in Ok (Some bs, tc1, s)))"

section \<open>Rings\<close>

lemma Q_NEXT_line: "x < TTYC_LINE_SIZE \<Longrightarrow> Q_NEXT x TTYC_LINE_SIZE = nxt TTYC_LINE_SIZE x"
  and Q_PREV_line: "x < TTYC_LINE_SIZE \<Longrightarrow> Q_PREV x TTYC_LINE_SIZE = prv TTYC_LINE_SIZE x"
  and Q_NEXT_echo: "x < TTYC_ECHO_QUEUE \<Longrightarrow> Q_NEXT x TTYC_ECHO_QUEUE = nxt TTYC_ECHO_QUEUE x"
proof -
  have m: "y AND 127 = y mod 128" "y AND 31 = y mod 32" for y :: nat
    using take_bit_eq_mask [of 7 y] take_bit_eq_mask [of 5 y] by (simp_all add: mask_eq_exp_minus_1 take_bit_eq_mod)
  show "x < TTYC_LINE_SIZE \<Longrightarrow> Q_NEXT x TTYC_LINE_SIZE = nxt TTYC_LINE_SIZE x"
    using nxt_mod [of x 128] m(1) [of "x + 1"] by (simp add: Q_NEXT_def TTYC_LINE_SIZE_def)
  show "x < TTYC_LINE_SIZE \<Longrightarrow> Q_PREV x TTYC_LINE_SIZE = prv TTYC_LINE_SIZE x"
    using prv_mod [of x 128] m(1) [of "x + 128 - 1"] by (simp add: Q_PREV_def TTYC_LINE_SIZE_def)
  show "x < TTYC_ECHO_QUEUE \<Longrightarrow> Q_NEXT x TTYC_ECHO_QUEUE = nxt TTYC_ECHO_QUEUE x"
    using nxt_mod [of x 32] m(2) [of "x + 1"] by (simp add: Q_NEXT_def TTYC_ECHO_QUEUE_def)
qed

section \<open>The line as a list\<close>

text \<open>What waits to be read, and what waits to be echoed.\<close>

definition tline :: "ttyc \<Rightarrow> u8 list" where
  "tline tc = ring_list (tc_buf tc) TTYC_LINE_SIZE (tc_head tc) (tc_tail tc)"

definition eline :: "ttyc \<Rightarrow> u8 list" where
  "eline tc = ring_list (tc_echobuf tc) TTYC_ECHO_QUEUE (tc_ehead tc) (tc_etail tc)"

text \<open>The indices are in range, the lock is free, and every end of line that waits is counted.\<close>

definition ttyc_ok :: "ttyc \<Rightarrow> bool" where
  "ttyc_ok tc \<longleftrightarrow> tc_head tc < TTYC_LINE_SIZE \<and> tc_tail tc < TTYC_LINE_SIZE \<and> tc_ehead tc < TTYC_ECHO_QUEUE
     \<and> tc_etail tc < TTYC_ECHO_QUEUE \<and> tc_echocs tc = 1 \<and> int (count_list (tline tc) LF) \<le> tc_crs tc"

lemma ttyc_okD:
  assumes "ttyc_ok tc"
  shows "tc_head tc < TTYC_LINE_SIZE" "tc_tail tc < TTYC_LINE_SIZE" "tc_ehead tc < TTYC_ECHO_QUEUE"
    "tc_etail tc < TTYC_ECHO_QUEUE" "tc_echocs tc = 1" "int (count_list (tline tc) LF) \<le> tc_crs tc"
  using assms by (simp_all add: ttyc_ok_def)

text \<open>Echoing loses everything that waits when the queue runs full.\<close>

definition echo_put :: "u8 list \<Rightarrow> u8 \<Rightarrow> u8 list" where
  "echo_put es c = (if Suc (length es) = TTYC_ECHO_QUEUE then [] else es @ [c])"

text \<open>Only the echo queue changes when something is echoed.\<close>

definition same_line :: "ttyc \<Rightarrow> ttyc \<Rightarrow> bool" where
  "same_line tc tc' \<longleftrightarrow> tc_buf tc' = tc_buf tc \<and> tc_head tc' = tc_head tc \<and> tc_tail tc' = tc_tail tc
     \<and> tc_crs tc' = tc_crs tc \<and> tc_echotask tc' = tc_echotask tc \<and> tc_ehead tc' = tc_ehead tc"

lemma echo_ok:
  assumes "tc_echocs tc = 1" "tc_ehead tc < TTYC_ECHO_QUEUE" "tc_etail tc < TTYC_ECHO_QUEUE"
  shows "\<exists>tc'. TTYC_ECHO c tc = Ok tc' \<and> same_line tc tc' \<and> eline tc' = echo_put (eline tc) c
    \<and> tc_echocs tc' = 1 \<and> tc_etail tc' < TTYC_ECHO_QUEUE"
  using assms ring_push [of "tc_ehead tc" TTYC_ECHO_QUEUE "tc_etail tc" "tc_echobuf tc" c]
  by (simp add: TTYC_ECHO_def same_line_def Q_NEXT_echo eline_def echo_put_def)

lemma echo_all_ok:
  "tc_echocs tc = 1 \<Longrightarrow> tc_ehead tc < TTYC_ECHO_QUEUE \<Longrightarrow> tc_etail tc < TTYC_ECHO_QUEUE \<Longrightarrow>
   \<exists>tc'. echo_all cs tc = Ok tc' \<and> same_line tc tc' \<and> eline tc' = foldl echo_put (eline tc) cs
     \<and> tc_echocs tc' = 1 \<and> tc_etail tc' < TTYC_ECHO_QUEUE"
proof (induction cs arbitrary: tc)
  case (Cons c cs)
  from echo_ok [OF Cons.prems] obtain t where t: "TTYC_ECHO c tc = Ok t" "same_line tc t"
    "eline t = echo_put (eline tc) c" "tc_echocs t = 1" "tc_etail t < TTYC_ECHO_QUEUE" by blast
  with Cons.prems have "tc_ehead t < TTYC_ECHO_QUEUE" by (simp add: same_line_def)
  from Cons.IH [OF t(4) this t(5)] t show ?case by (auto simp: same_line_def)
qed (simp add: same_line_def)

lemma room_left_len:
  assumes "ttyc_ok tc"
  shows "room_left tc = 127 - int (length (tline tc)) + (if tc_tail tc < tc_head tc then 1 else 0)"
  using ttyc_okD [OF assms] by (auto simp: room_left_def tline_def ring_len_def ttyc_consts)

text \<open>What the line becomes, as a function on lists. \<open>w\<close>: the tail is before the head.\<close>

definition edit :: "bool \<Rightarrow> u8 \<Rightarrow> u8 list \<Rightarrow> u8 list" where
  "edit w ch xs =
     (if ch = BS \<or> ch = DEL then butlast xs
      else if length xs + (if w then 0 else 1) + (if ch = CR \<or> ch = LF then 0 else 1) \<le> 126
      then xs @ [if ch = CR then LF else ch] else xs)"

definition echoes :: "bool \<Rightarrow> u8 \<Rightarrow> u8 list \<Rightarrow> u8 list" where
  "echoes w ch xs =
     (if edit w ch xs = xs then []
      else if ch = BS \<or> ch = DEL then [BS, 0x20, BS] else echo_of (if ch = CR then LF else ch))"

lemma tline_same: "same_line tc tc' \<Longrightarrow> tline tc' = tline tc"
  by (simp add: same_line_def tline_def)

lemma tline_push:
  assumes "ttyc_ok tc" "Suc (length (tline tc)) < TTYC_LINE_SIZE"
  shows "tline (tc\<lparr>tc_buf := (tc_buf tc)(tc_tail tc := c), tc_tail := Q_NEXT (tc_tail tc) TTYC_LINE_SIZE\<rparr>) = tline tc @ [c]"
  using ttyc_okD [OF assms(1)] assms(2) ring_push [of "tc_head tc" TTYC_LINE_SIZE "tc_tail tc" "tc_buf tc" c]
  by (simp add: tline_def Q_NEXT_line)

lemma tline_pop:
  assumes "ttyc_ok tc" "tline tc \<noteq> []"
  shows "tline tc = tc_buf tc (tc_head tc) # tline (tc\<lparr>tc_head := Q_NEXT (tc_head tc) TTYC_LINE_SIZE\<rparr>)"
  using ttyc_okD [OF assms(1)] assms(2) ring_pop [of "tc_head tc" TTYC_LINE_SIZE "tc_tail tc" "tc_buf tc"]
  by (simp add: tline_def Q_NEXT_line)

lemma tline_unpush:
  assumes "ttyc_ok tc" "tline tc \<noteq> []"
  shows "tline (tc\<lparr>tc_tail := Q_PREV (tc_tail tc) TTYC_LINE_SIZE\<rparr>) = butlast (tline tc)"
  using ttyc_okD [OF assms(1)] assms(2) ring_unpush [of "tc_head tc" TTYC_LINE_SIZE "tc_tail tc" "tc_buf tc"]
  by (simp add: tline_def Q_PREV_line)

lemma tline_Nil: "ttyc_ok tc \<Longrightarrow> tline tc = [] \<longleftrightarrow> tc_head tc = tc_tail tc"
  using ttyc_okD [of tc] by (simp add: tline_def)

lemma count_butlast: "count_list (butlast xs) c \<le> count_list xs c"
  by (cases xs rule: rev_cases) auto

lemma butlast_neq: "xs \<noteq> [] \<Longrightarrow> butlast xs \<noteq> xs"
  by (metis append_self_conv append_butlast_last_id not_Cons_self2)

lemma putc_ok:
  assumes "ttyc_ok tc"
  shows "\<exists>tc' s'. ttyc_putc ch tc s = Ok (tc', s') \<and> ttyc_ok tc'
    \<and> tline tc' = edit (tc_tail tc < tc_head tc) ch (tline tc)
    \<and> eline tc' = foldl echo_put (eline tc) (echoes (tc_tail tc < tc_head tc) ch (tline tc))
    \<and> tc_crs tc' = tc_crs tc + (if (ch = CR \<or> ch = LF) \<and> tline tc' \<noteq> tline tc then 1 else 0)"
proof (cases "ch = BS \<or> ch = DEL")
  case True
  show ?thesis
  proof (cases "tline tc = []")
    case True
    then show ?thesis using assms \<open>ch = BS \<or> ch = DEL\<close> tline_Nil [OF assms]
      by (auto simp: ttyc_putc_def edit_def echoes_def)
  next
    case False
    let ?t = "tc\<lparr>tc_tail := Q_PREV (tc_tail tc) TTYC_LINE_SIZE\<rparr>"
    note t = tline_unpush [OF assms False] and k = ttyc_okD [OF assms]
    have b: "int (count_list (butlast (tline tc)) LF) \<le> tc_crs tc"
      using k(6) count_butlast [of "tline tc" LF] by linarith
    obtain u where u: "echo_all [BS, 0x20, BS] ?t = Ok u" "same_line ?t u" "tc_echocs u = 1" "tc_etail u < TTYC_ECHO_QUEUE"
      "eline u = foldl echo_put (eline ?t) [BS, 0x20, BS]"
      using echo_all_ok [of ?t "[BS, 0x20, BS]"] k by auto
    have "ttyc_ok u" unfolding ttyc_ok_def tline_same [OF u(2)] t using u k b
      by (simp add: same_line_def Q_PREV_line)
    moreover have "edit w ch (tline tc) = butlast (tline tc)" "echoes w ch (tline tc) = [BS, 0x20, BS]" for w
      using True False butlast_neq [OF False] by (simp_all add: edit_def echoes_def)
    moreover have "ttyc_putc ch tc s = Ok (u, task_unblock (tc_echotask u) s)"
      using True False tline_Nil [OF assms] unfolding ttyc_putc_def u(1) by simp
    moreover have "tline u = butlast (tline tc)" "eline ?t = eline tc" "tc_crs u = tc_crs tc"
      using tline_same [OF u(2)] t u(2) by (simp_all add: eline_def same_line_def)
    moreover have "\<not> (ch = CR \<or> ch = LF)" using True by auto
    ultimately show ?thesis using u(5) by (intro exI [of _ u] exI) auto
  qed
next
  case False
  let ?w = "tc_tail tc < tc_head tc" and ?c = "if ch = CR then LF else ch"
  have r: "room_left tc \<le> 1 \<or> room_left tc \<le> 2 \<and> ch \<noteq> CR \<and> ch \<noteq> LF
      \<longleftrightarrow> \<not> length (tline tc) + (if ?w then 0 else 1) + (if ch = CR \<or> ch = LF then 0 else 1) \<le> 126"
    unfolding room_left_len [OF assms] by auto
  show ?thesis
  proof (cases "length (tline tc) + (if ?w then 0 else 1) + (if ch = CR \<or> ch = LF then 0 else 1) \<le> 126")
    case no: False
    then have "edit ?w ch (tline tc) = tline tc" "echoes ?w ch (tline tc) = []"
      using False by (auto simp: edit_def echoes_def)
    moreover have "ttyc_putc ch tc s = Ok (tc, s)"
      using False no unfolding ttyc_putc_def r by (simp only: if_False if_True simp_thms)
    ultimately show ?thesis using assms by simp
  next
    case yes: True
    let ?t = "tc\<lparr>tc_buf := (tc_buf tc)(tc_tail tc := ?c), tc_tail := Q_NEXT (tc_tail tc) TTYC_LINE_SIZE\<rparr>"
    note k = ttyc_okD [OF assms]
    have e: "edit ?w ch (tline tc) = tline tc @ [?c]" "echoes ?w ch (tline tc) = echo_of ?c"
      using False yes by (auto simp: edit_def echoes_def)
    have "Suc (length (tline tc)) < TTYC_LINE_SIZE" using yes by (simp add: TTYC_LINE_SIZE_def split: if_splits)
    note t = tline_push [OF assms this, of ?c]
    obtain u where u: "echo_all (echo_of ?c) ?t = Ok u" "same_line ?t u" "tc_echocs u = 1" "tc_etail u < TTYC_ECHO_QUEUE"
      "eline u = foldl echo_put (eline ?t) (echo_of ?c)"
      using echo_all_ok [of ?t "echo_of ?c"] k by auto
    define v where "v = (if ?c = LF then u\<lparr>tc_crs := tc_crs u + 1\<rparr> else u)"
    have v: "tline v = tline tc @ [?c]" "eline v = foldl echo_put (eline tc) (echo_of ?c)"
      using tline_same [OF u(2)] t u(5) by (auto simp: v_def tline_def eline_def)
    have "int (count_list (tline tc @ [?c]) LF) \<le> tc_crs v"
      using k(6) u(2) by (auto simp: v_def same_line_def)
    then have "ttyc_ok v" unfolding ttyc_ok_def v using u k by (auto simp: v_def same_line_def Q_NEXT_line)
    moreover have "ttyc_putc ch tc s = Ok (v, task_unblock (tc_echotask v) s)"
      using False yes u(1) unfolding ttyc_putc_def r by (simp only: if_False if_True simp_thms Let_def bind_res.simps v_def)
    moreover have "tc_crs v = tc_crs tc + (if ch = CR \<or> ch = LF then 1 else 0)"
      using u(2) by (auto simp: v_def same_line_def)
    ultimately show ?thesis unfolding e using v by (intro exI [of _ v] exI) auto
  qed
qed

section \<open>Reading a line\<close>

text \<open>The bytes up to the first line feed, with it.\<close>

fun upto_lf :: "u8 list \<Rightarrow> u8 list" where
  "upto_lf [] = []"
| "upto_lf (c # cs) = (if c = LF then [c] else c # upto_lf cs)"

text \<open>Reading moves the head and changes the count of lines.\<close>

lemma read_line_ok:
  "ttyc_ok tc \<Longrightarrow> tline tc \<noteq> [] \<Longrightarrow> 0 < tc_crs tc \<Longrightarrow> read_line n tc = (bs, tc') \<Longrightarrow>
   bs = take n (upto_lf (tline tc)) \<and> tline tc' = drop (length bs) (tline tc) \<and> ttyc_ok tc' \<and> eline tc' = eline tc
   \<and> tc_crs tc' = tc_crs tc - (if LF \<in> set bs then 1 else 0)"
proof (induction n arbitrary: tc bs tc')
  case (Suc n)
  let ?t = "tc\<lparr>tc_head := Q_NEXT (tc_head tc) TTYC_LINE_SIZE\<rparr>" and ?c = "tc_buf tc (tc_head tc)"
  note k = ttyc_okD [OF Suc.prems(1)] and p = tline_pop [OF Suc.prems(1,2)]
  have e: "eline ?t = eline tc" by (simp add: eline_def)
  have c: "int (count_list (tline ?t) LF) + (if ?c = LF then 1 else 0) \<le> tc_crs tc" using k(6) p by (auto split: if_splits)
  have t: "ttyc_ok ?t" unfolding ttyc_ok_def using k c by (auto simp: Q_NEXT_line split: if_splits)
  have l: "ttyc_ok (?t\<lparr>tc_crs := tc_crs tc - 1\<rparr>)" "tline (?t\<lparr>tc_crs := tc_crs tc - 1\<rparr>) = tline ?t" if "?c = LF"
    using t c that by (simp_all add: ttyc_ok_def tline_def)
  show ?case
  proof (cases "?c = LF \<or> tline ?t = []")
    case True
    have "upto_lf (tline tc) = [?c]" using True by (subst p) auto
    moreover have "drop 1 (tline tc) = tline ?t" by (subst p) simp
    moreover have "bs = [?c] \<and> tc' = (if ?c = LF then ?t\<lparr>tc_crs := tc_crs tc - 1\<rparr> else ?t)"
      using True Suc.prems tline_Nil [OF t] by (auto simp: Let_def)
    ultimately show ?thesis using t l e by (auto simp: eline_def)
  next
    case False
    then have nn: "tline ?t \<noteq> []" and nl: "?c \<noteq> LF" by auto
    obtain bs1 t1 where r: "read_line n ?t = (bs1, t1)" by fastforce
    have "bs = ?c # bs1 \<and> tc' = t1" using False Suc.prems r tline_Nil [OF t] by (auto simp: Let_def split: prod.splits)
    moreover have "upto_lf (tline tc) = ?c # upto_lf (tline ?t)" using nl by (subst p) simp
    moreover have "drop (Suc m) (tline tc) = drop m (tline ?t)" for m by (subst p) simp
    ultimately show ?thesis using Suc.IH [OF t nn _ r] Suc.prems(3) e nl by auto
  qed
qed auto


section \<open>Properties\<close>


text \<open>Remark.
  An end of line that is erased again stays counted: what is typed after it is handed to the reader
  at once, without waiting for an end of line.\<close>

theorem ttyc_erased_line:
  assumes "ttyc_ok tc" "tline tc = []" "tc_crs tc = 0" "ch \<notin> {BS, DEL, CR, LF}"
  shows "\<exists>t1 s1 t2 s2 t3 s3. ttyc_putc LF tc s = Ok (t1, s1) \<and> ttyc_putc BS t1 s1 = Ok (t2, s2)
    \<and> ttyc_putc ch t2 s2 = Ok (t3, s3) \<and> fst (ttyc_read 80 t3) = [ch]"
proof -
  have e: "\<not> tc_tail tc < tc_head tc" using tline_Nil [OF assms(1)] assms(2) by simp
  obtain t1 s1 where 1: "ttyc_putc LF tc s = Ok (t1, s1)" "ttyc_ok t1" "tline t1 = [LF]" "tc_crs t1 = 1"
    using putc_ok [OF assms(1), of LF s] assms(2,3) e by (auto simp: edit_def)
  obtain t2 s2 where 2: "ttyc_putc BS t1 s1 = Ok (t2, s2)" "ttyc_ok t2" "tline t2 = []" "tc_crs t2 = 1"
    using putc_ok [OF 1(2), of BS s1] 1 by (auto simp: edit_def)
  obtain t3 s3 where 3: "ttyc_putc ch t2 s2 = Ok (t3, s3)" "ttyc_ok t3" "tline t3 = [ch]" "tc_crs t3 = 1"
    using putc_ok [OF 2(2), of ch s2] 2 assms(4) by (auto simp: edit_def)
  obtain bs t4 where r: "read_line 80 t3 = (bs, t4)" by fastforce
  have "bs = [ch]" using read_line_ok [OF 3(2) _ _ r] 3 assms(4) by auto
  moreover have "ttyc_read 80 t3 = read_line 80 t3"
    using 3 tline_Nil [OF 3(2)] by (simp add: ttyc_read_def)
  ultimately show ?thesis using 1 2 3 r by auto
qed

text \<open>Remark.
  The interrupt that brings a character while the echo task is in its critical section never ends:
  every character that changes the line hangs, since the section is a semaphore and the interrupted
  task holds it.\<close>

theorem ttyc_putc_deadlock:
  assumes "ttyc_ok tc" "edit (tc_tail tc < tc_head tc) ch (tline tc) \<noteq> tline tc"
  shows "ttyc_putc ch (tc\<lparr>tc_echocs := 0\<rparr>) s = Hang"
proof -
  have e: "bs \<noteq> [] \<Longrightarrow> tc_echocs t = 0 \<Longrightarrow> echo_all bs t = Hang" for bs t
    by (cases bs) (simp_all add: TTYC_ECHO_def)
  show ?thesis
  proof (cases "ch = BS \<or> ch = DEL")
    case True
    then have "tline tc \<noteq> []" using assms(2) by (auto simp: edit_def)
    then show ?thesis using True tline_Nil [OF assms(1)] by (auto simp: ttyc_putc_def TTYC_ECHO_def)
  next
    case False
    have r: "room_left (tc\<lparr>tc_echocs := 0\<rparr>) = room_left tc" by (simp add: room_left_def)
    have "\<not> (room_left tc \<le> 1 \<or> room_left tc \<le> 2 \<and> ch \<noteq> CR \<and> ch \<noteq> LF)"
      using assms(2) False unfolding room_left_len [OF assms(1)] by (auto simp: edit_def split: if_splits)
    moreover have "echo_of c \<noteq> []" for c by (simp add: echo_of_def)
    ultimately show ?thesis using False e unfolding ttyc_putc_def r by (simp add: Let_def)
  qed
qed

lemma eline_pop:
  assumes "ttyc_ok tc" "tc_ehead tc \<noteq> tc_etail tc"
  shows "eline tc = tc_echobuf tc (tc_ehead tc) # eline (tc\<lparr>tc_ehead := Q_NEXT (tc_ehead tc) TTYC_ECHO_QUEUE\<rparr>)"
  using ttyc_okD [OF assms(1)] assms(2) ring_pop [of "tc_ehead tc" TTYC_ECHO_QUEUE "tc_etail tc" "tc_echobuf tc"]
  by (simp add: eline_def Q_NEXT_echo)

lemma echo_drain_ok:
  "ttyc_ok tc \<Longrightarrow> echo_drain n tc = (bs, tc') \<Longrightarrow>
   bs = take n (eline tc) \<and> eline tc' = drop n (eline tc) \<and> ttyc_ok tc' \<and> tline tc' = tline tc"
proof (induction n arbitrary: tc bs tc')
  case (Suc n)
  let ?t = "tc\<lparr>tc_ehead := Q_NEXT (tc_ehead tc) TTYC_ECHO_QUEUE\<rparr>"
  note k = ttyc_okD [OF Suc.prems(1)]
  show ?case
  proof (cases "tc_ehead tc = tc_etail tc")
    case True
    then show ?thesis using Suc.prems k by (simp add: eline_def)
  next
    case False
    have t: "ttyc_ok ?t" using k by (simp add: ttyc_ok_def Q_NEXT_echo tline_def)
    obtain bs1 t1 where r: "echo_drain n ?t = (bs1, t1)" by fastforce
    have "tline ?t = tline tc" by (simp add: tline_def)
    then show ?thesis
      using Suc.prems(2) False r Suc.IH [OF t r] by (subst (1 2) eline_pop [OF Suc.prems(1) False]) auto
  qed
qed auto

text \<open>Remark.
  The echo task writes what was echoed in the order it was, at most 16 bytes at a time, and blocks
  when nothing is left; the line is not touched.\<close>

theorem echo_turn_fifo:
  assumes "ttyc_ok tc" "tc_ehead tc \<noteq> tc_etail tc"
  shows "\<exists>tc'. echo_turn c tc s = Ok (Some (take 16 (eline tc)), tc', s) \<and> eline tc' = drop 16 (eline tc)
    \<and> ttyc_ok tc' \<and> tline tc' = tline tc"
proof -
  obtain bs tc' where d: "echo_drain 16 tc = (bs, tc')" by fastforce
  show ?thesis using echo_drain_ok [OF assms(1) d] d assms(2) ttyc_okD(5) [OF assms(1)] by (simp add: echo_turn_def)
qed

lemma length_cook: "length (cook bs) = length bs + length (filter (\<lambda>c. c = LF) bs)"
  by (induction bs) auto

text \<open>Remark.
  The buffer for cooked output has exactly the size of the output, as long as that is less than
  32768, and the output is the input but for one carriage return before every line feed. When there
  is no memory for it the structure is freed again.\<close>

theorem cook_output_fits:
  assumes "ttyc_cook_output heap buf m = Ok ((iob, b), m')" "length (cook buf) < 32768"
  shows "(iob \<noteq> 0 \<longrightarrow> iob_bytes b = cook buf \<and> unat (iob_size b) = length (cook buf)
      \<and> (\<exists>m1. kmalloc (of_nat (length (cook buf))) m1 = Ok (iob_data b, m') \<and> iob_data b \<noteq> far_null))
    \<and> (iob = 0 \<longrightarrow> (\<exists>p m1. near_malloc heap 10 m = Ok (p, m1)
      \<and> (p = 0 \<and> m' = m1 \<or> p \<noteq> 0 \<and> (\<exists>m2. kmalloc (of_nat (length (cook buf))) m1 = Ok (far_null, m2) \<and> near_free heap p m2 = Ok m'))))"
proof -
  let ?n = "length (cook buf)"
  have u: "unat (of_nat ?n :: u16) = ?n" using assms(2) by (intro unat_of_nat16) linarith
  have "uint (of_nat ?n :: u16) = int ?n" using u by (metis uint_nat)
  then have c: "cook_len buf = int ?n"
    unfolding cook_len_def length_cook [symmetric] sint_u16 using assms(2) by simp
  show ?thesis using assms(1) u unfolding ttyc_cook_output_def c
    by (auto simp: Let_def split: if_splits)
qed

section \<open>Witnesses\<close>

definition w_ttyc :: ttyc where
  "w_ttyc = \<lparr>tc_buf = (\<lambda>_. 0), tc_echobuf = (\<lambda>_. 0x41), tc_tail = 0, tc_head = 0, tc_ehead = 0, tc_etail = 20, tc_echocs = 1,
     tc_crs = 0, tc_echotask = 0, tc_blockq = DevQ 0\<rparr>"

lemma w_ttyc_ok: "ttyc_ok w_ttyc" "tline w_ttyc = []" "eline w_ttyc = replicate 20 0x41"
  by (simp_all add: ttyc_ok_def w_ttyc_def ttyc_consts tline_def eline_def ring_list_def ring_len_def map_replicate_const)



theorem ttyc_erased_line_witness:
  "\<forall>s. \<exists>t1 s1 t2 s2 t3 s3. ttyc_putc LF w_ttyc s = Ok (t1, s1) \<and> ttyc_putc BS t1 s1 = Ok (t2, s2)
    \<and> ttyc_putc 0x61 t2 s2 = Ok (t3, s3) \<and> fst (ttyc_read 80 t3) = [0x61]"
  by (rule allI, rule ttyc_erased_line [OF w_ttyc_ok(1,2)]) (simp_all add: w_ttyc_def)

theorem ttyc_putc_deadlock_witness: "\<forall>s. ttyc_putc 0x61 (w_ttyc\<lparr>tc_echocs := 0\<rparr>) s = Hang"
  by (rule allI, rule ttyc_putc_deadlock [OF w_ttyc_ok(1)]) (simp add: w_ttyc_ok edit_def)

theorem echo_turn_fifo_witness:
  "\<forall>c s. \<exists>tc'. echo_turn c w_ttyc s = Ok (Some (replicate 16 0x41), tc', s) \<and> eline tc' = replicate 4 0x41"
proof (intro allI)
  fix c s
  have "tc_ehead w_ttyc \<noteq> tc_etail w_ttyc" by (simp add: w_ttyc_def)
  from echo_turn_fifo [OF w_ttyc_ok(1) this, of c s]
  show "\<exists>tc'. echo_turn c w_ttyc s = Ok (Some (replicate 16 0x41), tc', s) \<and> eline tc' = replicate 4 0x41" by (auto simp: w_ttyc_ok(3))
qed

lemma w_cooked: "\<exists>b m'. ttyc_cook_output 0x100 [0x61, 10] w_mem = Ok ((0x104, b), m')"
proof -
  have a: "NHDR_GET_SIZE (nearhdrs w_mem 0x100) = 32764" "\<not> NHDR_GET_USED (nearhdrs w_mem 0x100)"
    by (simp_all add: w_mem_def mem_init_def Let_def NEAR_HEAP_SIZE_def) (simp add: NHDR_GET_USED_def)
  have "near_find (nearhdrs w_mem) (near_round 10) 0x100 = Some 0x100"
    using a by (simp add: near_find.simps near_round_def)
  then obtain h where n: "near_malloc 0x100 10 w_mem = Ok (0x104, w_mem\<lparr>nearhdrs := h\<rparr>)"
    by (simp add: near_malloc_def Let_def)
  have "far_inv 0x2000 0xa000 [(0x2000, 0x7fff, False)] (w_mem\<lparr>nearhdrs := h\<rparr>)" using w_far unfolding far_inv_def by simp (metis)
  from kheap.alloc_some [OF this, of 3] obtain m' where
    m: "kmalloc 3 (w_mem\<lparr>nearhdrs := h\<rparr>) = Ok ((0x2000, 16), m')"
    by (auto simp: far_paras_def far_ptr_def far_loc_def)
  have "cook_len [0x61, 10] = 3" by (simp add: cook_len_def)
  then show ?thesis using n m by (simp add: ttyc_cook_output_def Let_def)
qed

theorem cook_output_fits_witness:
  "\<exists>b m'. ttyc_cook_output 0x100 [0x61, 10] w_mem = Ok ((0x104, b), m') \<and> iob_bytes b = [0x61, 13, 10] \<and> unat (iob_size b) = 3"
proof -
  obtain b m' where b: "ttyc_cook_output 0x100 [0x61, 10] w_mem = Ok ((0x104, b), m')" using w_cooked by blast
  from b cook_output_fits [OF b] show ?thesis by auto
qed

end
