(* ===== verification/Process.thy ===== *)
theory Process
  imports FileIO Sched
begin

text \<open>
  Processes: the process table \<open>kernel/PROCESS.C\<close>, the files of a process \<open>kernel/UFILEIO.C\<close>, the
  loader \<open>kernel/EXEC.C\<close> and the dispatch of system calls \<open>kernel/SYSCALL.C\<close>, over the scheduler, the
  memory allocators and the open files. A process pointer is the number of its slot counted from
  1, and 0 is \<open>NULL\<close>. Memory outside the data segment is \<open>kram\<close>, by linear address.
\<close>

section \<open>State\<close>

definition PROC_FILES :: nat where "PROC_FILES = 8"
definition MAX_PROCESS :: nat where "MAX_PROCESS = 32"

record proc =
  p_pid :: u16
  p_parent :: nat
  p_task :: taskp
  p_zombie :: bool
  p_rc :: u8
  p_image :: farptr
  p_fds :: "nat \<Rightarrow> int"

record ('c, 'd) kst =
  kprocs :: "nat \<Rightarrow> proc"
  nextpid :: u16
  pcrit :: nat
  ksch :: sched
  kfio :: "('c, 'd) fio"
  kram :: "u32 \<Rightarrow> u8"

text \<open>What the code below relies on: the block cache, the devices, the near heap, and what local
  variables hold before they are set.\<close>

record ('b, 'c, 'd) env =
  e_bc :: "'c bcif"
  e_dev :: "('b, 'd) devtab"
  e_heap :: u16
  e_info :: fileinfo
  e_stat :: stat
  e_hdr :: "u8 list"

definition pset :: "nat \<Rightarrow> (proc \<Rightarrow> proc) \<Rightarrow> ('c, 'd) kst \<Rightarrow> ('c, 'd) kst" where
  "pset p f K = K\<lparr>kprocs := (kprocs K)(p := f (kprocs K p))\<rparr>"

definition with_sch :: "(sched \<Rightarrow> sched) \<Rightarrow> ('c, 'd) kst \<Rightarrow> ('c, 'd) kst" where
  "with_sch f K = K\<lparr>ksch := f (ksch K)\<rparr>"

definition with_mem :: "(kmem \<Rightarrow> ('a \<times> kmem) res) \<Rightarrow> ('c, 'd) kst \<Rightarrow> ('a \<times> ('c, 'd) kst) res" where
  "with_mem f K = bind_res (f (smem (ksch K))) (\<lambda>(x, m). Ok (x, with_sch (\<lambda>s. s\<lparr>smem := m\<rparr>) K))"

definition with_fio :: "(('c, 'd) fio \<Rightarrow> ('a \<times> ('c, 'd) fio) res) \<Rightarrow> ('c, 'd) kst \<Rightarrow> ('a \<times> ('c, 'd) kst) res" where
  "with_fio f K = bind_res (f (kfio K)) (\<lambda>(x, s). Ok (x, K\<lparr>kfio := s\<rparr>))"

definition no_val :: "'m res \<Rightarrow> (unit \<times> 'm) res" where
  "no_val r = bind_res r (\<lambda>m. Ok ((), m))"

definition pdown :: "('c, 'd) kst \<Rightarrow> ('c, 'd) kst res" where
  "pdown K = (if pcrit K = 0 then Hang else Ok (K\<lparr>pcrit := pcrit K - 1\<rparr>))"

definition pup :: "('c, 'd) kst \<Rightarrow> ('c, 'd) kst" where
  "pup K = K\<lparr>pcrit := pcrit K + 1\<rparr>"

section \<open>The process table\<close>

definition proc_init :: "('c, 'd) kst \<Rightarrow> ('c, 'd) kst" where
  "proc_init K = K\<lparr>pcrit := 1\<rparr>"

text \<open>The wait queue, the image and the zombie flag that are reset are those of the first slot.\<close>

definition proc_alloc :: "('c, 'd) kst \<Rightarrow> (nat \<times> ('c, 'd) kst) res" where
  "proc_alloc K =
     bind_res (pdown K) (\<lambda>K1.
     case List.find (\<lambda>i. p_pid (kprocs K1 (i + 1)) = 0) [0..<MAX_PROCESS] of
       None \<Rightarrow> Ok (0, pup K1)
     | Some i \<Rightarrow>
         (let K2 = pset (i + 1) (\<lambda>p. p\<lparr>p_pid := nextpid K1\<rparr>) K1;
              K3 = pup (K2\<lparr>nextpid := nextpid K2 + 1\<rparr>);
              K4 = pset (i + 1) (\<lambda>p. p\<lparr>p_fds := (\<lambda>j. if j < PROC_FILES then - 1 else p_fds p j)\<rparr>) K3;
              K5 = with_sch (taskq_init (WaitQ 1)) K4
          in Ok (i + 1, pset 1 (\<lambda>p. p\<lparr>p_image := far_null, p_zombie := False\<rparr>) K5)))"

fun close_fds :: "('b, 'd) devtab \<Rightarrow> nat \<Rightarrow> nat list \<Rightarrow> ('c, 'd) kst \<Rightarrow> ('c, 'd) kst res" where
  "close_fds T p [] K = Ok K"
| "close_fds T p (i # is) K =
     (if p_fds (kprocs K p) i \<noteq> - 1
      then bind_res (with_fio (kclose T (p_fds (kprocs K p) i)) K) (\<lambda>(_, K1).
           close_fds T p is (pset p (\<lambda>r. r\<lparr>p_fds := (p_fds r)(i := - 1)\<rparr>) K1))
      else close_fds T p is K)"

definition proc_free :: "('b, 'd) devtab \<Rightarrow> nat \<Rightarrow> ('c, 'd) kst \<Rightarrow> ('c, 'd) kst res" where
  "proc_free T p K =
     bind_res (close_fds T p [0..<PROC_FILES] K) (\<lambda>K1.
     bind_res (if p_image (kprocs K1 p) \<noteq> far_null
               then bind_res (with_mem (\<lambda>m. no_val (kfree (p_image (kprocs K1 p)) m)) K1) (\<lambda>(_, K2).
                    Ok (pset p (\<lambda>r. r\<lparr>p_image := far_null\<rparr>) K2))
               else Ok K1) (\<lambda>K3.
     bind_res (pdown (pset p (\<lambda>r. r\<lparr>p_task := 0, p_zombie := False\<rparr>) K3)) (\<lambda>K4.
     Ok (pup (pset p (\<lambda>r. r\<lparr>p_pid := 0\<rparr>) K4)))))"

definition get_curproc :: "('c, 'd) kst \<Rightarrow> nat" where
  "get_curproc K = t_process (tk (ksch K) (curtask (ksch K)))"

text \<open>An \<open>int\<close> as the long result of a system call, and a \<open>size_t\<close> as one.\<close>

definition ret :: "int \<Rightarrow> u32" where "ret i = word_of_int i"
definition ret_sz :: "u16 \<Rightarrow> u32" where "ret_sz w = ucast w"

definition sys_exit :: "('b, 'd) devtab \<Rightarrow> int \<Rightarrow> ('c, 'd) kst \<Rightarrow> (u32 \<times> ('c, 'd) kst) res" where
  "sys_exit T rc K =
     (let p = get_curproc K
      in if p = 0 then Ok (ret (- EINVAL), K)
         else (let task = p_task (kprocs K p);
                   K1 = pset p (\<lambda>r. r\<lparr>p_task := 0\<rparr>) K;
                   parent = p_parent (kprocs K1 p)
               in bind_res
                    (if parent \<noteq> 0
                     then (let K2 = pset p (\<lambda>r. r\<lparr>p_zombie := True, p_rc := word_of_int rc\<rparr>) K1
                           in Ok (if qhead (ksch K2) (WaitQ parent) \<noteq> 0
                                  then with_sch (\<lambda>s. task_unblock (qhead s (WaitQ parent)) s) K2 else K2))
                     else proc_free T p K1) (\<lambda>K3.
                  Ok (0, with_sch (tset task (\<lambda>r. r\<lparr>t_process := 0, t_state := TS_FREEING\<rparr>)) K3))))"

definition WIFEXITED_bit :: u16 where "WIFEXITED_bit = 0x100"

text \<open>One turn of the loop of \<open>_wait\<close>: \<open>Inl\<close> with the process id and the status that is stored, or
  \<open>Inr\<close>, blocked, on the queue of the first slot.\<close>

definition sys_wait ::
  "('b, 'd) devtab \<Rightarrow> ctx \<Rightarrow> ('c, 'd) kst \<Rightarrow> ((u32 \<times> u16 option) \<times> ('c, 'd) kst + ('c, 'd) kst) res" where
  "sys_wait T c K =
     (let cur = get_curproc K
      in if cur = 0 then Ok (Inl ((ret (- EINVAL), None), K))
         else case List.find (\<lambda>i. p_pid (kprocs K (i + 1)) \<noteq> 0 \<and> p_zombie (kprocs K (i + 1)) \<and> p_parent (kprocs K (i + 1)) = cur)
                     [0..<MAX_PROCESS] of
             None \<Rightarrow> bind_res (task_block c (WaitQ 1) (ksch K)) (\<lambda>s. Ok (Inr (K\<lparr>ksch := s\<rparr>)))
           | Some i \<Rightarrow>
               (let pr = kprocs K (i + 1)
                in bind_res (proc_free T (i + 1) K) (\<lambda>K1.
                   Ok (Inl ((scast (p_pid pr), Some (WIFEXITED_bit OR ucast (p_rc pr))), K1)))))"

section \<open>The files of a process\<close>

definition bad_ufd :: "int \<Rightarrow> proc \<Rightarrow> bool" where
  "bad_ufd fd p \<longleftrightarrow> fd < 0 \<or> int PROC_FILES \<le> fd \<or> p_fds p (nat fd) = - 1"

definition free_fd :: "proc \<Rightarrow> nat option" where
  "free_fd p = List.find (\<lambda>i. p_fds p i = - 1) [0..<PROC_FILES]"

definition set_fd :: "nat \<Rightarrow> nat \<Rightarrow> int \<Rightarrow> ('c, 'd) kst \<Rightarrow> ('c, 'd) kst" where
  "set_fd p i k = pset p (\<lambda>r. r\<lparr>p_fds := (p_fds r)(i := k)\<rparr>)"

definition uopen :: "('b, 'c, 'd) env \<Rightarrow> cstr \<Rightarrow> int \<Rightarrow> ('c, 'd) kst \<Rightarrow> (u32 \<times> ('c, 'd) kst) res" where
  "uopen E path fl K =
     (let p = get_curproc K
      in if p = 0 then Ok (ret (- EINVAL), K)
         else case free_fd (kprocs K p) of
           None \<Rightarrow> Ok (ret (- ENOMEM), K)
         | Some i \<Rightarrow>
             bind_res (with_mem (near_malloc (e_heap E) (of_nat (length path) + 1)) K) (\<lambda>(npath, K1).
             if npath = 0 then Ok (ret (- ENOMEM), K1)
             else bind_res (with_fio (kopen (e_bc E) (e_dev E) (e_info E) (e_stat E) path fl) K1) (\<lambda>(kfd, K2).
                  let K3 = (if kfd < 0 then K2 else set_fd p i kfd K2)
                  in bind_res (with_mem (\<lambda>m. no_val (near_free (e_heap E) npath m)) K3) (\<lambda>(_, K4).
                     Ok (if kfd < 0 then ret kfd else ret (int i), K4)))))"

text \<open>Errors are cast to \<open>size_t\<close> here, so they become positive.\<close>

definition uclose :: "('b, 'd) devtab \<Rightarrow> int \<Rightarrow> ('c, 'd) kst \<Rightarrow> (u32 \<times> ('c, 'd) kst) res" where
  "uclose T fd K =
     (let p = get_curproc K
      in if p = 0 then Ok (ret_sz (word_of_int (- EINVAL)), K)
         else if bad_ufd fd (kprocs K p) then Ok (ret_sz (word_of_int (- EBADF)), K)
         else bind_res (with_fio (kclose T (p_fds (kprocs K p) (nat fd))) K) (\<lambda>(_, K1).
              Ok (0, set_fd p (nat fd) (- 1) K1)))"

definition uwrite :: "('b, 'd) devtab \<Rightarrow> int \<Rightarrow> u8 list \<Rightarrow> u16 \<Rightarrow> ('c, 'd) kst \<Rightarrow> (u32 \<times> ('c, 'd) kst) res" where
  "uwrite T fd buf sz K =
     (let p = get_curproc K
      in if p = 0 then Ok (ret (- EINVAL), K)
         else if bad_ufd fd (kprocs K p) then Ok (ret (- EBADF), K)
         else bind_res (with_fio (kwrite T (p_fds (kprocs K p) (nat fd)) buf sz) K) (\<lambda>(wrote, K1). Ok (ret_sz wrote, K1)))"

text \<open>Bytes stored from a far pointer on: the offset wraps within the segment.\<close>

fun store_far :: "farptr \<Rightarrow> u8 list \<Rightarrow> (u32 \<Rightarrow> u8) \<Rightarrow> u32 \<Rightarrow> u8" where
  "store_far p [] m = m"
| "store_far p (b # bs) m = store_far (fst p, snd p + 1) bs (m(KLINEAR p := b))"

definition kread_at ::
  "('b, 'c, 'd) env \<Rightarrow> int \<Rightarrow> u16 \<Rightarrow> ('c, 'd) kst \<Rightarrow> ((u16 \<times> u8 list) \<times> ('c, 'd) kst) res" where
  "kread_at E fd sz K =
     with_fio (\<lambda>s. bind_res (kread (e_bc E) (e_dev E) fd sz s) (\<lambda>(n, bs, s1). Ok ((n, bs), s1))) K"

definition uread :: "('b, 'c, 'd) env \<Rightarrow> int \<Rightarrow> farptr \<Rightarrow> u16 \<Rightarrow> ('c, 'd) kst \<Rightarrow> (u32 \<times> ('c, 'd) kst) res" where
  "uread E fd buf sz K =
     (let p = get_curproc K
      in if p = 0 then Ok (ret (- EINVAL), K)
         else if bad_ufd fd (kprocs K p) then Ok (ret (- EBADF), K)
         else bind_res (kread_at E (p_fds (kprocs K p) (nat fd)) sz K) (\<lambda>((got, bs), K1).
              Ok (ret_sz got, K1\<lparr>kram := store_far buf bs (kram K1)\<rparr>)))"

definition udup :: "int \<Rightarrow> ('c, 'd) kst \<Rightarrow> (u32 \<times> ('c, 'd) kst) res" where
  "udup fd K =
     (let p = get_curproc K
      in if p = 0 then Ok (ret_sz (word_of_int (- EINVAL)), K)
         else if bad_ufd fd (kprocs K p) then Ok (ret_sz (word_of_int (- EBADF)), K)
         else case free_fd (kprocs K p) of
           None \<Rightarrow> Ok (ret (- ENOMEM), K)
         | Some i \<Rightarrow>
             bind_res (with_fio (kdup (p_fds (kprocs K p) (nat fd))) K) (\<lambda>(nfd, K1).
             if nfd < 0 then Ok (ret nfd, K1) else Ok (ret (int i), set_fd p i nfd K1)))"

end
