(* ===== verification/Exec.thy ===== *)
theory Exec
  imports Process
begin

text \<open>
  The program loader \<open>kernel/EXEC.C\<close> and the dispatch of system calls \<open>kernel/SYSCALL.C\<close>. The image is
  written to \<open>kram\<close> by linear address, as the \<open>huge\<close> pointers of the code do.
\<close>

section \<open>The header of a program\<close>

definition READ_SIZE :: u32 where "READ_SIZE = 16384"
definition RELOC_BUF :: u16 where "RELOC_BUF = 32"
definition NEAR_HEAP :: u32 where "NEAR_HEAP = 4096"
definition MZ_PAGE_SIZE :: u16 where "MZ_PAGE_SIZE = 512"

record exehdr =
  x_sig :: u16
  x_extra :: u16
  x_pages :: u16
  x_nreloc :: u16
  x_hdrpara :: u16
  x_minaloc :: u16
  x_maxaloc :: u16
  x_ssinit :: u16
  x_spinit :: u16
  x_chksum :: u16
  x_ipinit :: u16
  x_csinit :: u16
  x_reloc :: u16
  x_ovly :: u16
  x_ovdata :: u16

definition hdr_size :: nat where "hdr_size = 30"

definition exehdr_at :: "(nat \<Rightarrow> u8) \<Rightarrow> exehdr" where
  "exehdr_at f =
     \<lparr>x_sig = le16 f 0, x_extra = le16 f 2, x_pages = le16 f 4, x_nreloc = le16 f 6, x_hdrpara = le16 f 8,
      x_minaloc = le16 f 10, x_maxaloc = le16 f 12, x_ssinit = le16 f 14, x_spinit = le16 f 16, x_chksum = le16 f 18,
      x_ipinit = le16 f 20, x_csinit = le16 f 22, x_reloc = le16 f 24, x_ovly = le16 f 26, x_ovdata = le16 f 28\<rparr>"

text \<open>What the header says about sizes: both products are of 16 bits.\<close>

definition image_size :: "exehdr \<Rightarrow> u32" where
  "image_size h =
     (let sz = (ucast (MZ_PAGE_SIZE * x_pages h) :: u32);
          sz1 = (if x_extra h \<noteq> 0 then sz - ucast MZ_PAGE_SIZE + ucast (x_extra h) else sz)
      in sz1 - ucast (push_bit 4 (x_hdrpara h)))"

definition image_alloc :: "exehdr \<Rightarrow> u32" where
  "image_alloc h = ((image_size h + 16 - 1) AND NOT (16 - 1)) + ucast (push_bit 4 (x_minaloc h)) + NEAR_HEAP"

section \<open>Loading the image\<close>

fun store_lin :: "u32 \<Rightarrow> u8 list \<Rightarrow> (u32 \<Rightarrow> u8) \<Rightarrow> u32 \<Rightarrow> u8" where
  "store_lin a [] m = m"
| "store_lin a (b # bs) m = store_lin (a + 1) bs (m(a := b))"

text \<open>The loops below take the rest of a number in pieces.\<close>

lemma chunk_less: "(sz :: 'a :: len word) \<noteq> 0 \<Longrightarrow> 0 < r \<Longrightarrow> unat (sz - (if r < sz then r else sz)) < unat sz"
  using word_gt_0 [of sz] by (auto simp: unat_sub_if' word_less_nat_alt)

function load_loop ::
  "('b, 'c, 'd) env \<Rightarrow> int \<Rightarrow> u32 \<Rightarrow> u32 \<Rightarrow> u32 \<Rightarrow> ('c, 'd) kst \<Rightarrow> (bool \<times> ('c, 'd) kst) res" where
  "load_loop E fd base sofar sz K =
     (if sz = 0 then Ok (True, K)
      else (let toread = (if READ_SIZE < sz then READ_SIZE else sz)
            in bind_res (kread_at E fd (ucast toread) K) (\<lambda>((got, bs), K1).
               let K2 = K1\<lparr>kram := store_lin (base + sofar) bs (kram K1)\<rparr>
               in if got \<noteq> ucast toread then Ok (False, K2)
                  else load_loop E fd base (sofar + toread) (sz - toread) K2)))"
  by auto
termination
  by (relation "measure (\<lambda>(E, fd, base, sofar, sz, K). unat sz)")
    (use chunk_less [of _ READ_SIZE] in \<open>auto simp: READ_SIZE_def simp del: if_split\<close>)

declare load_loop.simps [simp del]

text \<open>Returns the data pointer (\<open>NULL\<close> on failure), the error and the number of paragraphs.\<close>

definition read_image ::
  "('b, 'c, 'd) env \<Rightarrow> int \<Rightarrow> exehdr \<Rightarrow> ('c, 'd) kst \<Rightarrow> ((farptr \<times> int \<times> u16) \<times> ('c, 'd) kst) res" where
  "read_image E fd h K =
     bind_res (with_fio (kseek (e_bc E) (e_stat E) fd (ucast (push_bit 4 (x_hdrpara h))) SEEK_SET) K) (\<lambda>(_, K1).
     bind_res (with_mem (kmalloc (image_alloc h)) K1) (\<lambda>(p, K2).
     let palloc = ucast (drop_bit 4 (image_alloc h))
     in if p = far_null then Ok ((far_null, - ENOMEM, palloc), K2)
        else (let data = (fst p + drop_bit 4 (snd p), 0)
              in bind_res (load_loop E fd (KLINEAR data) 0 (image_size h) K2) (\<lambda>(ok, K3).
                 if ok then Ok ((data, 0, palloc), K3)
                 else bind_res (with_mem (\<lambda>m. no_val (kfree data m)) K3) (\<lambda>(_, K4). Ok ((far_null, - EIO, palloc), K4))))))"

section \<open>Relocation\<close>

text \<open>Relocation entries, offset first, as they are in the file.\<close>

fun reloc_entries :: "u8 list \<Rightarrow> (u16 \<times> u16) list" where
  "reloc_entries (a # b # c # d # r) =
     ((ucast a :: u16) OR push_bit 8 (ucast b), (ucast c :: u16) OR push_bit 8 (ucast d)) # reloc_entries r"
| "reloc_entries _ = []"

text \<open>The segment is shifted as a 16-bit number.\<close>

definition reloc_lin :: "u16 \<times> u16 \<Rightarrow> u32" where
  "reloc_lin e = ucast (push_bit 4 (snd e)) + ucast (fst e)"

definition word_at :: "(u32 \<Rightarrow> u8) \<Rightarrow> u32 \<Rightarrow> u16" where
  "word_at m a = (ucast (m a) :: u16) OR push_bit 8 (ucast (m (a + 1)))"

definition put_word :: "u32 \<Rightarrow> u16 \<Rightarrow> (u32 \<Rightarrow> u8) \<Rightarrow> u32 \<Rightarrow> u8" where
  "put_word a w m = m(a := ucast w, a + 1 := ucast (drop_bit 8 w))"

definition reloc_one :: "u32 \<Rightarrow> u16 \<Rightarrow> (u16 \<times> u16) \<Rightarrow> (u32 \<Rightarrow> u8) \<Rightarrow> u32 \<Rightarrow> u8" where
  "reloc_one base seg e m = put_word (base + reloc_lin e) (word_at m (base + reloc_lin e) + seg) m"

function reloc_loop ::
  "('b, 'c, 'd) env \<Rightarrow> int \<Rightarrow> u32 \<Rightarrow> u16 \<Rightarrow> u16 \<Rightarrow> ('c, 'd) kst \<Rightarrow> (bool \<times> ('c, 'd) kst) res" where
  "reloc_loop E fd base seg n K =
     (if n = 0 then Ok (True, K)
      else (let k = (if RELOC_BUF < n then RELOC_BUF else n)
            in bind_res (kread_at E fd (k * 4) K) (\<lambda>((got, bs), K1).
               if got \<noteq> k * 4 then Ok (False, K1)
               else reloc_loop E fd base seg (n - k) (K1\<lparr>kram := fold (reloc_one base seg) (reloc_entries bs) (kram K1)\<rparr>))))"
  by auto
termination
  by (relation "measure (\<lambda>(E, fd, base, seg, n, K). unat n)")
    (use chunk_less [of _ RELOC_BUF] in \<open>auto simp: RELOC_BUF_def simp del: if_split\<close>)

declare reloc_loop.simps [simp del]

definition relocate ::
  "('b, 'c, 'd) env \<Rightarrow> int \<Rightarrow> exehdr \<Rightarrow> farptr \<Rightarrow> ('c, 'd) kst \<Rightarrow> (int \<times> ('c, 'd) kst) res" where
  "relocate E fd h data K =
     bind_res (with_mem (kmalloc 128) K) (\<lambda>(buf, K1).
     if buf = far_null then Ok (- ENOMEM, K1)
     else bind_res (with_fio (kseek (e_bc E) (e_stat E) fd (ucast (x_reloc h)) SEEK_SET) K1) (\<lambda>(_, K2).
          bind_res (reloc_loop E fd (KLINEAR data) (fst data) (x_nreloc h) K2) (\<lambda>(ok, K3).
          bind_res (with_mem (\<lambda>m. no_val (kfree buf m)) K3) (\<lambda>(_, K4).
          Ok (if ok then 0 else - EIO, K4)))))"

section \<open>The new process\<close>

definition make_process ::
  "('b, 'c, 'd) env \<Rightarrow> exehdr \<Rightarrow> farptr \<Rightarrow> u16 \<Rightarrow> ('c, 'd) kst \<Rightarrow> (nat \<times> ('c, 'd) kst) res" where
  "make_process E h data palloc K =
     bind_res (proc_alloc K) (\<lambda>(p, K1).
     if p = 0 then bind_res (with_mem (\<lambda>m. no_val (kfree data m)) K1) (\<lambda>(_, K2). Ok (0, K2))
     else (let K2 = pset p (\<lambda>r. r\<lparr>p_image := data\<rparr>) K1; seg = fst data;
               (t, s) = task_from_proc p (x_csinit h + seg) (x_ipinit h) (x_ssinit h + seg) (x_spinit h) palloc (ksch K2);
               K3 = pset p (\<lambda>r. r\<lparr>p_task := t\<rparr>) (K2\<lparr>ksch := s\<rparr>)
           in if t = 0 then bind_res (proc_free (e_dev E) p K3) (\<lambda>K4. Ok (0, K4))
              else Ok (p, pset p (\<lambda>r. r\<lparr>p_parent := get_curproc K3\<rparr>) K3)))"

fun dup_loop :: "nat \<Rightarrow> nat \<Rightarrow> nat list \<Rightarrow> ('c, 'd) kst \<Rightarrow> (int \<times> ('c, 'd) kst) res" where
  "dup_loop par p [] K = Ok (0, K)"
| "dup_loop par p (i # is) K =
     (if p_fds (kprocs K par) i \<noteq> - 1
      then bind_res (with_fio (kdup (p_fds (kprocs K par) i)) K) (\<lambda>(nfd, K1).
           if nfd < 0 then Ok (nfd, K1) else dup_loop par p is (set_fd p i nfd K1))
      else dup_loop par p is K)"

definition dup_handles :: "nat \<Rightarrow> ('c, 'd) kst \<Rightarrow> (int \<times> ('c, 'd) kst) res" where
  "dup_handles p K =
     (if p_parent (kprocs K p) = 0 then Ok (0, K) else dup_loop (p_parent (kprocs K p)) p [0..<PROC_FILES] K)"

text \<open>The header is read into a local variable; a short read leaves the rest of it as it was.\<close>

definition exec :: "('b, 'c, 'd) env \<Rightarrow> cstr \<Rightarrow> ('c, 'd) kst \<Rightarrow> (u32 \<times> ('c, 'd) kst) res" where
  "exec E fn K =
     bind_res (with_mem (near_malloc (e_heap E) (of_nat (length fn) + 1)) K) (\<lambda>(npath, K1).
     if npath = 0 then Ok (ret (- ENOMEM), K1)
     else bind_res (with_fio (kopen (e_bc E) (e_dev E) (e_info E) (e_stat E) fn O_RDONLY) K1) (\<lambda>(fd, K2).
     bind_res (with_mem (\<lambda>m. no_val (near_free (e_heap E) npath m)) K2) (\<lambda>(_, K3).
     if fd < 0 then Ok (ret fd, K3)
     else bind_res (kread_at E fd (of_nat hdr_size) K3) (\<lambda>((got, bs), K4).
     if sint got < 0 then bind_res (with_fio (kclose (e_dev E) fd) K4) (\<lambda>(_, K5). Ok (ret (sint got), K5))
     else (let h = exehdr_at (\<lambda>i. (bs @ drop (length bs) (e_hdr E)) ! i)
           in bind_res (read_image E fd h K4) (\<lambda>((data, err, palloc), K5).
              if data = far_null then bind_res (with_fio (kclose (e_dev E) fd) K5) (\<lambda>(_, K6). Ok (ret err, K6))
              else bind_res (relocate E fd h data K5) (\<lambda>(err, K6).
                if err < 0 then
                  bind_res (with_mem (\<lambda>m. no_val (kfree data m)) K6) (\<lambda>(_, K7).
                  bind_res (with_fio (kclose (e_dev E) fd) K7) (\<lambda>(_, K8). Ok (ret err, K8)))
                else bind_res (with_fio (kclose (e_dev E) fd) K6) (\<lambda>(_, K7).
                     bind_res (make_process E h data palloc K7) (\<lambda>(p, K8).
                     if p = 0 then Ok (ret (- ENOMEM), K8)
                     else bind_res (dup_handles p K8) (\<lambda>(err, K9).
                          if err \<noteq> 0 then bind_res (proc_free (e_dev E) p K9) (\<lambda>K10. Ok (ret err, K10))
                          else Ok (scast (p_pid (kprocs K9 p)), K9)))))))))))"

section \<open>System calls\<close>

definition nsyscall :: nat where "nsyscall = 9"

text \<open>The kernel stacks for system calls, the one allocated last first.\<close>

fun sc_stacks :: "u16 \<Rightarrow> nat \<Rightarrow> u16 list \<Rightarrow> ('c, 'd) kst \<Rightarrow> (u16 list \<times> ('c, 'd) kst) res" where
  "sc_stacks heap 0 st K = Ok (st, K)"
| "sc_stacks heap (Suc n) st K =
     bind_res (with_mem (near_malloc heap 512) K) (\<lambda>(p, K1).
     if p = 0 then Panic else sc_stacks heap n (p # st) K1)"

definition sc_init :: "u16 \<Rightarrow> ('c, 'd) kst \<Rightarrow> (u16 list \<times> ('c, 'd) kst) res" where
  "sc_init heap K = sc_stacks heap 4 [] K"

text \<open>A string in memory, up to its zero; without one in its segment the search goes on for ever.\<close>

partial_function (option) far_str :: "(u32 \<Rightarrow> u8) \<Rightarrow> farptr \<Rightarrow> cstr option" where
  "far_str m p =
     (if m (KLINEAR p) = 0 then Some []
      else Option.bind (far_str m (fst p, snd p + 1)) (\<lambda>s. Some (m (KLINEAR p) # s)))"

definition far_bytes :: "(u32 \<Rightarrow> u8) \<Rightarrow> farptr \<Rightarrow> u16 \<Rightarrow> u8 list" where
  "far_bytes m p n = map (\<lambda>i. m (KLINEAR (fst p, snd p + of_nat i))) [0..<unat n]"

record ustack =
  u_di :: u16  u_si :: u16  u_bp :: u16  u_sp :: u16  u_bx :: u16  u_dx :: u16  u_cx :: u16  u_ax :: u16
  u_ds :: u16  u_es :: u16  u_ip :: u16  u_cs :: u16  u_fl :: u16

text \<open>The function of a number in the table: its arguments are the words \<open>cx\<close>, \<open>dx\<close>, \<open>bx\<close>, \<open>si\<close>, a far
  pointer being offset and segment. \<open>Inr\<close>: blocked.\<close>

definition syscall ::
  "('b, 'c, 'd) env \<Rightarrow> ctx \<Rightarrow> nat \<Rightarrow> ustack \<Rightarrow> ('c, 'd) kst \<Rightarrow> ((u32 \<times> ('c, 'd) kst) + ('c, 'd) kst) res" where
  "syscall E c n u K =
     (let done = (\<lambda>r. bind_res r (\<lambda>x. Ok (Inl x)));
          cx = u_cx u; dx = u_dx u; bx = u_bx u; si = u_si u
      in if n = 0 then done (sys_exit (e_dev E) (sint cx) K)
         else if n = 1 then
           bind_res (of_loop (far_str (kram K) (dx, cx))) (\<lambda>path. done (uopen E path (sint bx) K))
         else if n = 2 then done (uclose (e_dev E) (sint cx) K)
         else if n = 3 then done (uread E (sint cx) (bx, dx) si K)
         else if n = 4 then done (uwrite (e_dev E) (sint cx) (far_bytes (kram K) (bx, dx) si) si K)
         else if n = 5 then
           bind_res (of_loop (far_str (kram K) (dx, cx))) (\<lambda>fn. done (exec E fn K))
         else if n = 6 then
           bind_res (sys_wait (e_dev E) c K) (\<lambda>r.
             case r of
               Inl ((pid, st), K1) \<Rightarrow>
                 Ok (Inl (pid, case st of None \<Rightarrow> K1
                                | Some w \<Rightarrow> K1\<lparr>kram := store_far (dx, cx) [ucast w, ucast (drop_bit 8 w)] (kram K1)\<rparr>))
             | Inr K1 \<Rightarrow> Ok (Inr K1))
         else if n = 7 then done (udup (sint cx) K)
         else bind_res (sys_sleep c (ucast cx OR push_bit 16 (ucast dx)) (ksch K)) (\<lambda>s. Ok (Inr (K\<lparr>ksch := s\<rparr>))))"

text \<open>The dispatcher, with the number it returns.\<close>

definition sc_disp ::
  "('b, 'c, 'd) env \<Rightarrow> ctx \<Rightarrow> ustack \<Rightarrow> ('c, 'd) kst \<Rightarrow> ((u16 \<times> ustack \<times> ('c, 'd) kst) + ('c, 'd) kst) res" where
  "sc_disp E c u K =
     (let n = u_ax u
      in if nsyscall \<le> unat n then Ok (Inl (n, u\<lparr>u_ax := word_of_int (- EINVAL)\<rparr>, K))
         else bind_res (syscall E c (unat n) u K) (\<lambda>r.
           case r of
             Inl (v, K1) \<Rightarrow> Ok (Inl (n, u\<lparr>u_ax := ucast v, u_dx := ucast (drop_bit 16 v)\<rparr>, K1))
           | Inr K1 \<Rightarrow> Ok (Inr K1)))"

end
