(* ===== verification/ProcThms.thy ===== *)
theory ProcThms
  imports Exec FileIOThms SchedThms
begin

text \<open>
  The properties of processes. The users of the open files are counted right whatever calls the
  processes make: the contract between the two tables is the locale \<open>file_refs\<close>, which the kernel's
  files implement. Then the end of a process and waiting for it, loading a program, relocation,
  and the results of system calls.
\<close>

section \<open>Descriptors and users\<close>

text \<open>The descriptors \<open>F x\<close>, for \<open>x\<close> in \<open>I\<close>, that name the file \<open>k\<close>.\<close>

definition uses :: "('a \<Rightarrow> int) \<Rightarrow> 'a set \<Rightarrow> nat \<Rightarrow> nat" where
  "uses F I k = card {x \<in> I. F x = int k}"

text \<open>Every file has as many users as there are descriptors of it, besides the \<open>own\<close> users of the kernel.\<close>

definition accounted :: "(nat \<Rightarrow> int) \<Rightarrow> nat \<Rightarrow> (nat \<Rightarrow> int) \<Rightarrow> ('a \<Rightarrow> int) \<Rightarrow> 'a set \<Rightarrow> bool" where
  "accounted r lim own F I \<longleftrightarrow> finite I \<and> (\<forall>x\<in>I. F x = - 1 \<or> 0 \<le> F x \<and> F x < int lim)
     \<and> (\<forall>k<lim. r k = int (uses F I k) + own k \<and> 0 \<le> own k)"

lemma uses_upd:
  assumes "finite I" "x \<in> I"
  shows "int (uses (F(x := y)) I k) = int (uses F I k) - (if F x = int k then 1 else 0) + (if y = int k then 1 else 0)"
proof -
  have d: "{z \<in> I. (F(x := y)) z = int k} = (if y = int k then insert x ({z \<in> I. F z = int k} - {x}) else {z \<in> I. F z = int k} - {x})"
    using assms(2) by auto
  have f: "finite {z \<in> I. F z = int k}" using assms(1) by simp
  have "int (card ({z \<in> I. F z = int k} - {x})) = int (card {z \<in> I. F z = int k}) - (if F x = int k then 1 else 0)"
  proof (cases "F x = int k")
    case True
    then have m: "x \<in> {z \<in> I. F z = int k}" using assms(2) by simp
    have "0 < card {z \<in> I. F z = int k}" using m f card_gt_0_iff by blast
    then show ?thesis using card_Diff_singleton [OF m] True by simp
  qed auto
  moreover have "card (insert x ({z \<in> I. F z = int k} - {x})) = Suc (card ({z \<in> I. F z = int k} - {x}))"
    by (rule card_insert_disjoint) (use f in auto)
  ultimately show ?thesis unfolding uses_def d by (simp split: if_splits)
qed

lemma uses_pos: "finite I \<Longrightarrow> x \<in> I \<Longrightarrow> F x = int k \<Longrightarrow> 0 < uses F I k"
  unfolding uses_def by (auto simp: card_gt_0_iff)

lemma uses_cong: "(\<And>x. x \<in> I \<Longrightarrow> F x = G x) \<Longrightarrow> uses F I = uses G I"
  unfolding uses_def by (rule ext, rule arg_cong [of _ _ card]) auto

text \<open>Slots without a descriptor do not count.\<close>

lemma uses_unused:
  assumes "\<And>x. x \<in> I - J \<Longrightarrow> F x = - 1" "\<And>x. x \<in> J - I \<Longrightarrow> F x = - 1"
  shows "uses F I = uses F J"
proof
  fix k
  have "{x \<in> I. F x = int k} = {x \<in> J. F x = int k}"
  proof (intro set_eqI iffI; elim CollectE conjE; intro CollectI conjI)
    fix x assume "x \<in> I" "F x = int k"
    then show "x \<in> J" using assms(1) [of x] by (cases "x \<in> J") auto
  next
    fix x assume "x \<in> J" "F x = int k"
    then show "x \<in> I" using assms(2) [of x] by (cases "x \<in> I") auto
  qed
  then show "uses F I k = uses F J k" by (simp add: uses_def)
qed

text \<open>What a table of descriptors relies on: how opening, closing and duplicating count.\<close>

locale file_refs =
  fixes refs :: "'s \<Rightarrow> nat \<Rightarrow> int" and lim :: nat
    and opn :: "'p \<Rightarrow> 's \<Rightarrow> (int \<times> 's) res" and cls :: "int \<Rightarrow> 's \<Rightarrow> (int \<times> 's) res"
    and dupl :: "int \<Rightarrow> 's \<Rightarrow> (int \<times> 's) res"
  assumes opn_refs: "opn p s = Ok (rc, s') \<Longrightarrow> rc \<noteq> 0 \<and> refs s' = refs s
      \<or> (\<exists>i<lim. rc = int i \<and> refs s i = 0 \<and> refs s' = (refs s)(i := 1))"
    and cls_refs: "cls (int k) s = Ok (rc, s') \<Longrightarrow> k < lim \<Longrightarrow> refs s k \<noteq> 0 \<Longrightarrow> refs s' = (refs s)(k := refs s k - 1)"
    and dup_refs: "dupl (int k) s = Ok (rc, s') \<Longrightarrow> k < lim \<Longrightarrow> refs s k \<noteq> 0 \<Longrightarrow>
      rc = int k \<and> refs s' = (refs s)(k := refs s k + 1)"
begin

lemma in_use:
  assumes "accounted (refs s) lim own F I" "x \<in> I" "F x = int k" "k < lim"
  shows "refs s k \<noteq> 0"
  using assms uses_pos [of I x F k] unfolding accounted_def by force

lemma open_accounted:
  assumes a: "accounted (refs s) lim own F I" and x: "x \<in> I" "F x = - 1" and o: "opn p s = Ok (rc, s')"
  shows "refs s' = refs s \<and> rc \<noteq> 0 \<or> 0 \<le> rc \<and> accounted (refs s') lim own (F(x := rc)) I"
  using opn_refs [OF o] a x unfolding accounted_def by (auto simp: uses_upd)

lemma close_accounted:
  assumes a: "accounted (refs s) lim own F I" and x: "x \<in> I" "F x = int k" "k < lim" and c: "cls (int k) s = Ok (rc, s')"
  shows "accounted (refs s') lim own (F(x := - 1)) I"
  using cls_refs [OF c x(3) in_use [OF a x]] a x unfolding accounted_def by (auto simp: uses_upd)

lemma dup_accounted:
  assumes a: "accounted (refs s) lim own F I" and x: "x \<in> I" "F x = int k" "k < lim" and y: "y \<in> I" "F y = - 1"
    and d: "dupl (int k) s = Ok (rc, s')"
  shows "rc = int k \<and> accounted (refs s') lim own (F(y := rc)) I"
  using dup_refs [OF d x(3) in_use [OF a x]] a x y unfolding accounted_def by (auto simp: uses_upd)

end

section \<open>The files of the kernel\<close>

definition refs :: "('c, 'd) fio \<Rightarrow> nat \<Rightarrow> int" where
  "refs s = (\<lambda>k. of_refcnt (oft s k))"

lemma refs_ftab: "refs s = fst (ftab s)"
  by (simp add: refs_def ftab_def)

lemma kdup_tab:
  assumes "kdup fd s = Ok (rc, s')" "\<not> bad_fd fd s"
  shows "rc = fd \<and> refs s' = (refs s)(nat fd := refs s (nat fd) + 1)"
  using assms by (auto simp: kdup_def refs_def)

interpretation kfiles: file_refs refs MAX_OPEN_FILE "\<lambda>(C, T, u, ust, path, fl) s. kopen C T u ust path fl s" "kclose T" kdup
  for T
proof (unfold_locales, goal_cases)
  case (1 p s rc s')
  then show ?case by (cases p) (auto dest!: kopen_tab simp: refs_def fun_eq_iff)
next
  case (2 k s rc s')
  then have "\<not> bad_fd (int k) s" by (auto simp: bad_fd_def refs_def)
  from kclose_tab [OF 2(1) this] show ?case by (simp add: refs_ftab)
next
  case (3 k s rc s')
  then have "\<not> bad_fd (int k) s" by (auto simp: bad_fd_def refs_def)
  from kdup_tab [OF 3(1) this] show ?case by simp
qed

text \<open>Reading and writing change no count of users.\<close>

lemma kread_refs: "kread C T fd sz s = Ok (n, bs, s') \<Longrightarrow> refs s' = refs s"
  by (auto simp: kread_def advance_def file_read_def ino_read_def with_cache_def cdev_read_def refs_def fun_eq_iff
      split: if_splits iov.splits option.splits)

lemma kwrite_refs: "kwrite T fd buf sz s = Ok (n, s') \<Longrightarrow> refs s' = refs s"
  by (auto simp: kwrite_def advance_def cdev_write_def refs_def fun_eq_iff split: if_splits iov.splits option.splits)

section \<open>The processes\<close>

definition fd_slots :: "('c, 'd) kst \<Rightarrow> (nat \<times> nat) set" where
  "fd_slots K = {(p, i). 1 \<le> p \<and> p \<le> MAX_PROCESS \<and> p_pid (kprocs K p) \<noteq> 0 \<and> i < PROC_FILES}"

definition fd_of :: "('c, 'd) kst \<Rightarrow> nat \<times> nat \<Rightarrow> int" where
  "fd_of K x = p_fds (kprocs K (fst x)) (snd x)"

definition files_ok :: "(nat \<Rightarrow> int) \<Rightarrow> ('c, 'd) kst \<Rightarrow> bool" where
  "files_ok own K \<longleftrightarrow> accounted (refs (kfio K)) MAX_OPEN_FILE own (fd_of K) (fd_slots K)"

definition live :: "('c, 'd) kst \<Rightarrow> nat \<Rightarrow> bool" where
  "live K p \<longleftrightarrow> 1 \<le> p \<and> p \<le> MAX_PROCESS \<and> p_pid (kprocs K p) \<noteq> 0"

lemma finite_fd_slots: "finite (fd_slots K)"
  by (rule finite_subset [of _ "{..MAX_PROCESS} \<times> {..<PROC_FILES}"]) (auto simp: fd_slots_def)

lemma kst_simps [simp]:
  "kprocs (set_fd p i k K) q = (if q = p then (kprocs K p)\<lparr>p_fds := (p_fds (kprocs K p))(i := k)\<rparr> else kprocs K q)"
  "kfio (set_fd p i k K) = kfio K" "kfio (pset p f K) = kfio K"
  "kprocs (pset p f K) q = (if q = p then f (kprocs K p) else kprocs K q)"
  "kprocs (with_sch g K) = kprocs K" "kfio (with_sch g K) = kfio K"
  "kprocs (pup K) = kprocs K" "kfio (pup K) = kfio K" "nextpid (pset p f K) = nextpid K"
  by (simp_all add: set_fd_def pset_def with_sch_def pup_def)

lemma set_fd_slots: "fd_slots (set_fd p i k K) = fd_slots K"
  by (auto simp: fd_slots_def split: if_splits)

lemma set_fd_of: "fd_of (set_fd p i k K) = (fd_of K)((p, i) := k)"
  by (auto simp: fd_of_def)

text \<open>Only descriptors, process ids and counts matter.\<close>

lemma files_ok_cong:
  assumes "refs (kfio K') = refs (kfio K)" "\<And>p. p_pid (kprocs K' p) = p_pid (kprocs K p)"
    "\<And>p i. live K p \<Longrightarrow> i < PROC_FILES \<Longrightarrow> p_fds (kprocs K' p) i = p_fds (kprocs K p) i"
  shows "files_ok own K' = files_ok own K"
proof -
  have s: "fd_slots K' = fd_slots K" using assms(2) by (simp add: fd_slots_def)
  have f: "fd_of K' x = fd_of K x" if "x \<in> fd_slots K" for x
    using that assms(3) by (auto simp: fd_slots_def fd_of_def live_def)
  have u: "uses (fd_of K') (fd_slots K) = uses (fd_of K) (fd_slots K)" using f by (rule uses_cong)
  show ?thesis unfolding files_ok_def accounted_def s assms(1) u using f by auto
qed

lemma with_mem_same: "with_mem f K = Ok (x, K') \<Longrightarrow> kprocs K' = kprocs K \<and> kfio K' = kfio K"
  by (auto simp: with_mem_def)

lemma with_fio_same: "with_fio f K = Ok (x, K') \<Longrightarrow> f (kfio K) = Ok (x, kfio K') \<and> kprocs K' = kprocs K"
  by (auto simp: with_fio_def)

lemma files_ok_mem: "with_mem f K = Ok (x, K') \<Longrightarrow> files_ok own K' = files_ok own K"
  by (rule files_ok_cong) (use with_mem_same [of f K x K'] in auto)

lemma files_ok_sch [simp]: "files_ok own (K\<lparr>ksch := s\<rparr>) = files_ok own K" "files_ok own (with_sch g K) = files_ok own K"
  "files_ok own (K\<lparr>kram := m\<rparr>) = files_ok own K"
  by (rule files_ok_cong; simp)+

lemma uopen_files:
  assumes o: "uopen E path fl K = Ok (v, K')" and K: "files_ok own K" and b: "bget_neg (e_bc E)" and l: "live K (get_curproc K)"
  shows "files_ok own K'"
proof (cases "free_fd (kprocs K (get_curproc K))")
  case None
  with o K l show ?thesis by (simp add: uopen_def live_def)
next
  case (Some i)
  let ?p = "get_curproc K"
  have i: "i < PROC_FILES" "p_fds (kprocs K ?p) i = - 1"
    using Some unfolding free_fd_def find_Some_iff by auto
  from o Some l obtain np K1 where m: "with_mem (near_malloc (e_heap E) (of_nat (length path) + 1)) K = Ok (np, K1)"
    by (auto simp: uopen_def live_def)
  note s1 = with_mem_same [OF m]
  have K1: "files_ok own K1" using files_ok_mem [OF m] K by simp
  show ?thesis
  proof (cases "np = 0")
    case True
    with o Some l m K1 show ?thesis by (auto simp: uopen_def live_def)
  next
    case False
    with o Some l m obtain kfd K2 where
      k: "with_fio (kopen (e_bc E) (e_dev E) (e_info E) (e_stat E) path fl) K1 = Ok (kfd, K2)"
      by (auto simp: uopen_def live_def)
    let ?K3 = "if kfd < 0 then K2 else set_fd ?p i kfd K2"
    from o Some l m False k obtain y where f: "with_mem (\<lambda>m. no_val (near_free (e_heap E) np m)) ?K3 = Ok (y, K')"
      by (auto simp: uopen_def live_def Let_def)
    note s2 = with_fio_same [OF k]
    have e: "fd_slots K2 = fd_slots K1" "fd_of K2 = fd_of K1" using s2 by (simp_all add: fd_slots_def fd_of_def fun_eq_iff)
    have x: "(?p, i) \<in> fd_slots K1" "fd_of K1 (?p, i) = - 1"
      using s1 l i by (simp_all add: fd_slots_def fd_of_def live_def)
    have o2: "(case (e_bc E, e_dev E, e_info E, e_stat E, path, fl) of (C, T, u, ust, path, fl) \<Rightarrow> \<lambda>s. kopen C T u ust path fl s) (kfio K1)
        = Ok (kfd, kfio K2)" using s2 by simp
    have "files_ok own ?K3"
    proof (cases "kfd < 0")
      case True
      then have "refs (kfio K2) = refs (kfio K1)"
        using kopen_tab [OF s2 [THEN conjunct1]] by (auto simp: refs_def)
      then show ?thesis using True K1 e by (simp add: files_ok_def)
    next
      case False
      have "refs (kfio K2) \<noteq> refs (kfio K1) \<or> kfd < 0"
        using kopen_tab [OF s2 [THEN conjunct1]] b by (auto simp: refs_def fun_eq_iff simp del: of_nat_eq_iff) (metis zero_neq_one)+
      then show ?thesis
        using kfiles.open_accounted [OF K1 [unfolded files_ok_def] x o2] False
        by (auto simp: files_ok_def set_fd_slots set_fd_of e)
    qed
    then show ?thesis using files_ok_mem [OF f] by simp
  qed
qed

lemma uclose_files:
  assumes c: "uclose T fd K = Ok (v, K')" and K: "files_ok own K" and l: "live K (get_curproc K)"
  shows "files_ok own K'"
proof (cases "bad_ufd fd (kprocs K (get_curproc K))")
  case True
  with c K show ?thesis by (auto simp: uclose_def Let_def split: if_splits)
next
  case False
  let ?p = "get_curproc K" let ?k = "p_fds (kprocs K ?p) (nat fd)"
  from False have i: "nat fd < PROC_FILES" "?k \<noteq> - 1" by (auto simp: bad_ufd_def)
  have x: "(?p, nat fd) \<in> fd_slots K" using l i by (simp add: fd_slots_def live_def)
  have k: "0 \<le> ?k" "?k < int MAX_OPEN_FILE"
    using K x i unfolding files_ok_def accounted_def by (auto simp: fd_of_def)
  from c False l obtain rc K1 where r: "with_fio (kclose T ?k) K = Ok (rc, K1)" "K' = set_fd ?p (nat fd) (- 1) K1"
    by (auto simp: uclose_def live_def Let_def)
  note s = with_fio_same [OF r(1)]
  have e: "fd_slots K1 = fd_slots K" "fd_of K1 = fd_of K" using s by (simp_all add: fd_slots_def fd_of_def fun_eq_iff)
  have "kclose T (int (nat ?k)) (kfio K) = Ok (rc, kfio K1)" using s k by simp
  from kfiles.close_accounted [OF K [unfolded files_ok_def] x _ _ this] k
  show ?thesis by (simp add: r(2) files_ok_def set_fd_slots set_fd_of e fd_of_def)
qed

lemma udup_files:
  assumes c: "udup fd K = Ok (v, K')" and K: "files_ok own K" and l: "live K (get_curproc K)"
  shows "files_ok own K'"
proof (cases "bad_ufd fd (kprocs K (get_curproc K)) \<or> free_fd (kprocs K (get_curproc K)) = None")
  case True
  with c K show ?thesis by (auto simp: udup_def Let_def split: if_splits)
next
  case False
  let ?p = "get_curproc K" let ?k = "p_fds (kprocs K ?p) (nat fd)"
  from False obtain i where f: "free_fd (kprocs K ?p) = Some i" by blast
  from False have d: "nat fd < PROC_FILES" "?k \<noteq> - 1" by (auto simp: bad_ufd_def)
  have i: "i < PROC_FILES" "p_fds (kprocs K ?p) i = - 1"
    using f unfolding free_fd_def find_Some_iff by auto
  have x: "(?p, nat fd) \<in> fd_slots K" "(?p, i) \<in> fd_slots K" using l d i by (simp_all add: fd_slots_def live_def)
  have k: "0 \<le> ?k" "?k < int MAX_OPEN_FILE"
    using K x(1) d unfolding files_ok_def accounted_def by (auto simp: fd_of_def)
  from c False f l obtain rc K1 where r: "with_fio (kdup ?k) K = Ok (rc, K1)" "K' = (if rc < 0 then K1 else set_fd ?p i rc K1)"
    by (auto simp: udup_def live_def Let_def split: if_splits)
  note s = with_fio_same [OF r(1)]
  have e: "fd_slots K1 = fd_slots K" "fd_of K1 = fd_of K" using s by (simp_all add: fd_slots_def fd_of_def fun_eq_iff)
  have "kdup (int (nat ?k)) (kfio K) = Ok (rc, kfio K1)" "nat ?k < MAX_OPEN_FILE" using s k by simp_all
  from kfiles.dup_accounted [OF K [unfolded files_ok_def] x(1) _ this(2) x(2) _ this(1)] k i
  show ?thesis by (auto simp: r(2) files_ok_def set_fd_slots set_fd_of e fd_of_def)
qed

lemma kread_at_same: "kread_at E fd sz K = Ok (x, K') \<Longrightarrow> kprocs K' = kprocs K \<and> refs (kfio K') = refs (kfio K)"
  unfolding kread_at_def by (auto dest!: with_fio_same kread_refs)

lemma uread_files: "uread E fd buf sz K = Ok (v, K') \<Longrightarrow> files_ok own K' = files_ok own K"
  by (rule files_ok_cong) (auto simp: uread_def Let_def split: if_splits dest!: kread_at_same)

lemma uwrite_files: "uwrite T fd buf sz K = Ok (v, K') \<Longrightarrow> files_ok own K' = files_ok own K"
  by (rule files_ok_cong) (auto simp: uwrite_def Let_def split: if_splits dest!: with_fio_same kwrite_refs)

text \<open>A slot without descriptors may come and go.\<close>

lemma files_ok_unused:
  assumes "refs (kfio K') = refs (kfio K)"
    "\<And>x. x \<in> fd_slots K \<Longrightarrow> x \<in> fd_slots K' \<Longrightarrow> fd_of K' x = fd_of K x"
    "\<And>x. x \<in> fd_slots K - fd_slots K' \<Longrightarrow> fd_of K x = - 1" "\<And>x. x \<in> fd_slots K' - fd_slots K \<Longrightarrow> fd_of K' x = - 1"
    "files_ok own K"
  shows "files_ok own K'"
proof -
  let ?F = "\<lambda>x. if x \<in> fd_slots K \<inter> fd_slots K' then fd_of K x else - 1"
  have "uses (fd_of K) (fd_slots K) = uses ?F (fd_slots K)" using assms(3) by (intro uses_cong) auto
  also have "\<dots> = uses ?F (fd_slots K')" by (rule uses_unused) auto
  also have "\<dots> = uses (fd_of K') (fd_slots K')" using assms(2,4) by (intro uses_cong) auto
  finally have u: "uses (fd_of K) (fd_slots K) = uses (fd_of K') (fd_slots K')" .
  have "fd_of K' x = - 1 \<or> 0 \<le> fd_of K' x \<and> fd_of K' x < int MAX_OPEN_FILE" if "x \<in> fd_slots K'" for x
    using that assms(2,4,5) by (cases "x \<in> fd_slots K") (auto simp: files_ok_def accounted_def)
  then show ?thesis using assms(1,5) u finite_fd_slots unfolding files_ok_def accounted_def by auto
qed

lemma proc_alloc_files:
  assumes "proc_alloc K = Ok (p, K')" "files_ok own K"
  shows "files_ok own K'"
proof (cases "List.find (\<lambda>i. p_pid (kprocs K (i + 1)) = 0) [0..<MAX_PROCESS]")
  case None
  with assms show ?thesis by (auto simp: proc_alloc_def pdown_def split: if_splits intro: files_ok_cong [THEN iffD2, of _ K])
next
  case (Some i)
  have i: "p_pid (kprocs K (i + 1)) = 0" using Some unfolding find_Some_iff by auto
  obtain K1 where K1: "pdown K = Ok K1" "kprocs K1 = kprocs K" "kfio K1 = kfio K" "nextpid K1 = nextpid K"
    using assms(1) by (auto simp: proc_alloc_def pdown_def split: if_splits)
  have k: "p_pid (kprocs K' q) = (if q = i + 1 then nextpid K else p_pid (kprocs K q))"
    "p_fds (kprocs K' q) j = (if q = i + 1 \<and> j < PROC_FILES then - 1 else p_fds (kprocs K q) j)" "kfio K' = kfio K" for q j
    using assms(1) Some K1 by (auto simp: proc_alloc_def Let_def)
  show ?thesis
    by (rule files_ok_unused [OF _ _ _ _ assms(2)]) (use k i in \<open>auto simp: fd_slots_def fd_of_def split: if_splits\<close>)
qed

text \<open>Freeing a process closes its files.\<close>

lemma close_fds_files:
  "close_fds T p is K = Ok K' \<Longrightarrow> files_ok own K \<Longrightarrow> live K p \<Longrightarrow> set is \<subseteq> {..<PROC_FILES} \<Longrightarrow>
   files_ok own K' \<and> live K' p \<and> (\<forall>q. p_pid (kprocs K' q) = p_pid (kprocs K q)) \<and> ksch K' = ksch K
   \<and> (\<forall>q j. p_fds (kprocs K' q) j = (if q = p \<and> j \<in> set is then - 1 else p_fds (kprocs K q) j))"
proof (induction "is" arbitrary: K)
  case (Cons i "is")
  let ?k = "p_fds (kprocs K p) i"
  show ?case
  proof (cases "?k = - 1")
    case True
    then show ?thesis using Cons by auto
  next
    case False
    then obtain rc K1 where r: "with_fio (kclose T ?k) K = Ok (rc, K1)"
      and c: "close_fds T p is (pset p (\<lambda>r. r\<lparr>p_fds := (p_fds r)(i := - 1)\<rparr>) K1) = Ok K'"
      using Cons.prems(1) by auto
    let ?K = "pset p (\<lambda>r. r\<lparr>p_fds := (p_fds r)(i := - 1)\<rparr>) K1"
    have K: "?K = set_fd p i (- 1) K1" by (simp add: set_fd_def)
    have x: "(p, i) \<in> fd_slots K" using Cons.prems(3,4) by (auto simp: fd_slots_def live_def)
    have k: "0 \<le> ?k" "?k < int MAX_OPEN_FILE"
      using Cons.prems(2) x False unfolding files_ok_def accounted_def by (auto simp: fd_of_def)
    note s = with_fio_same [OF r]
    have ks: "ksch K1 = ksch K" using r by (auto simp: with_fio_def)
    have e: "fd_slots K1 = fd_slots K" "fd_of K1 = fd_of K" using s by (simp_all add: fd_slots_def fd_of_def fun_eq_iff)
    have "kclose T (int (nat ?k)) (kfio K) = Ok (rc, kfio K1)" using s k by simp
    from kfiles.close_accounted [OF Cons.prems(2) [unfolded files_ok_def] x _ _ this] k
    have f: "files_ok own ?K" unfolding K by (simp add: files_ok_def set_fd_slots set_fd_of e fd_of_def)
    have l: "live ?K p" using Cons.prems(3) s by (simp add: live_def)
    have "ksch ?K = ksch K" using ks by (simp add: pset_def)
    with Cons.IH [OF c f l] Cons.prems(4) s show ?thesis by (auto split: if_splits)
  qed
qed auto

lemma proc_free_files:
  assumes "proc_free T p K = Ok K'" "files_ok own K" "live K p"
  shows "files_ok own K'" "\<And>q. p_pid (kprocs K' q) = (if q = p then 0 else p_pid (kprocs K q))"
proof -
  obtain K1 where K1: "close_fds T p [0..<PROC_FILES] K = Ok K1" using assms(1) by (auto simp: proc_free_def)
  have "set [0..<PROC_FILES] \<subseteq> {..<PROC_FILES}" by auto
  note c = close_fds_files [OF K1 assms(2,3) this]
  have f1: "files_ok own K1" and a1: "\<And>j. j < PROC_FILES \<Longrightarrow> p_fds (kprocs K1 p) j = - 1"
    and p1: "\<And>q. p_pid (kprocs K1 q) = p_pid (kprocs K q)" using c by auto
  from assms(1) K1 have k: "kfio K' = kfio K1 \<and> (\<forall>q. p_fds (kprocs K' q) = p_fds (kprocs K1 q))
      \<and> (\<forall>q. p_pid (kprocs K' q) = (if q = p then 0 else p_pid (kprocs K1 q)))"
    by (auto simp: proc_free_def pdown_def split: if_splits dest!: with_mem_same)
  show "files_ok own K'"
    by (rule files_ok_unused [OF _ _ _ _ f1]) (use k a1 in \<open>auto simp: fd_slots_def fd_of_def split: if_splits\<close>)
  show "p_pid (kprocs K' q) = (if q = p then 0 else p_pid (kprocs K q))" for q using k p1 by simp
qed

lemma sys_exit_files:
  assumes "sys_exit T rc K = Ok (v, K')" "files_ok own K" "live K (get_curproc K)"
  shows "files_ok own K'"
proof -
  let ?p = "get_curproc K" let ?K1 = "pset ?p (\<lambda>r. r\<lparr>p_task := 0\<rparr>) K"
  have f1: "files_ok own ?K1" "live ?K1 ?p" using assms(2,3) by (auto intro: files_ok_cong [THEN iffD2, of _ K] simp: live_def)
  have w: "files_ok own (with_sch g K2) = files_ok own K2" for g and K2 :: "('a, 'b) kst"
    by (rule files_ok_cong) auto
  show ?thesis
  proof (cases "p_parent (kprocs K ?p) = 0")
    case True
    then obtain K2 where "proc_free T ?p ?K1 = Ok K2" "K' = with_sch (tset (p_task (kprocs K ?p)) (\<lambda>r. r\<lparr>t_process := 0, t_state := TS_FREEING\<rparr>)) K2"
      using assms(1,3) by (auto simp: sys_exit_def Let_def live_def)
    then show ?thesis using proc_free_files(1) [OF _ f1] w by simp
  next
    case False
    let ?K2 = "pset ?p (\<lambda>r. r\<lparr>p_zombie := True, p_rc := word_of_int rc\<rparr>) ?K1"
    have "files_ok own ?K2" using f1(1) by (auto intro: files_ok_cong [THEN iffD2, of _ ?K1])
    then show ?thesis using assms(1,3) False by (auto simp: sys_exit_def Let_def live_def w split: if_splits)
  qed
qed

lemma sys_wait_files:
  assumes "sys_wait T c K = Ok r" "files_ok own K"
  shows "case r of Inl (_, K') \<Rightarrow> files_ok own K' | Inr K' \<Rightarrow> files_ok own K'"
proof (cases "get_curproc K = 0")
  case True
  with assms show ?thesis by (auto simp: sys_wait_def)
next
  case False
  show ?thesis
  proof (cases "List.find (\<lambda>i. p_pid (kprocs K (i + 1)) \<noteq> 0 \<and> p_zombie (kprocs K (i + 1)) \<and> p_parent (kprocs K (i + 1)) = get_curproc K)
                     [0..<MAX_PROCESS]")
    case None
    then show ?thesis using assms False by (auto simp: sys_wait_def Let_def)
  next
    case (Some i)
    then have "live K (i + 1)" unfolding find_Some_iff live_def by auto
    with Some assms False show ?thesis
      by (auto simp: sys_wait_def Let_def dest!: proc_free_files(1))
  qed
qed

text \<open>The loader opens the file of the program for itself, so its own use of it counts for a while.\<close>

lemma kopen_refs:
  assumes "kopen C T u ust path fl s = Ok (rc, s')" "bget_neg C"
  shows "rc < 0 \<and> refs s' = refs s \<or> (\<exists>i<MAX_OPEN_FILE. rc = int i \<and> refs s i = 0 \<and> refs s' = (refs s)(i := 1))"
proof -
  from kopen_tab [OF assms(1)] assms(2) consider
    "rc < 0" "\<forall>j. of_refcnt (oft s' j) = of_refcnt (oft s j)"
    | i where "i < MAX_OPEN_FILE" "rc = int i" "of_refcnt (oft s i) = 0" "of_refcnt (oft s' i) = 1"
        "\<forall>j. j \<noteq> i \<longrightarrow> of_refcnt (oft s' j) = of_refcnt (oft s j)"
    by blast
  then show ?thesis by cases (auto simp: refs_def fun_eq_iff)
qed

lemma own_open:
  assumes o: "kopen C T u ust path fl (kfio K) = Ok (rc, s')" and K: "files_ok own K" and b: "bget_neg C"
  shows "rc < 0 \<and> files_ok own (K\<lparr>kfio := s'\<rparr>)
    \<or> (0 \<le> rc \<and> rc < int MAX_OPEN_FILE \<and> own (nat rc) = 0 \<and> files_ok (own(nat rc := 1)) (K\<lparr>kfio := s'\<rparr>))"
proof -
  have e: "fd_slots (K\<lparr>kfio := s'\<rparr>) = fd_slots K" "fd_of (K\<lparr>kfio := s'\<rparr>) = fd_of K"
    by (simp_all add: fd_slots_def fd_of_def fun_eq_iff)
  from kopen_refs [OF o b] consider (err) "rc < 0" "refs s' = refs (kfio K)"
    | (new) i where "i < MAX_OPEN_FILE" "rc = int i" "refs (kfio K) i = 0" "refs s' = (refs (kfio K))(i := 1)"
    by blast
  then show ?thesis
  proof cases
    case err
    then show ?thesis using K by (simp add: files_ok_def e)
  next
    case new
    then have "own i = 0 \<and> uses (fd_of K) (fd_slots K) i = 0"
      using K unfolding files_ok_def accounted_def by (metis add_nonneg_eq_0_iff of_nat_0_le_iff of_nat_eq_0_iff)
    then show ?thesis using new K unfolding files_ok_def e by (auto simp: accounted_def)
  qed
qed

lemma own_close:
  assumes c: "kclose T fd (kfio K) = Ok (rc, s')" and K: "files_ok (own(nat fd := 1)) K"
    and fd: "0 \<le> fd" "fd < int MAX_OPEN_FILE" "own (nat fd) = 0"
  shows "files_ok own (K\<lparr>kfio := s'\<rparr>)"
proof -
  have e: "fd_slots (K\<lparr>kfio := s'\<rparr>) = fd_slots K" "fd_of (K\<lparr>kfio := s'\<rparr>) = fd_of K"
    by (simp_all add: fd_slots_def fd_of_def fun_eq_iff)
  have r: "refs (kfio K) (nat fd) = int (uses (fd_of K) (fd_slots K) (nat fd)) + 1"
    using K fd unfolding files_ok_def accounted_def by (auto simp: nat_less_iff)
  have "refs s' = (refs (kfio K))(nat fd := refs (kfio K) (nat fd) - 1)"
    using kfiles.cls_refs [of T "nat fd" "kfio K"] c fd r by simp
  then show ?thesis using K fd r unfolding files_ok_def e accounted_def by (auto split: if_splits)
qed

text \<open>Steps that count for nothing.\<close>

definition quiet :: "('c, 'd) kst \<Rightarrow> ('c, 'd) kst \<Rightarrow> bool" where
  "quiet K K' \<longleftrightarrow> kprocs K' = kprocs K \<and> refs (kfio K') = refs (kfio K) \<and> nextpid K' = nextpid K \<and> get_curproc K' = get_curproc K"

lemma quiet_refl: "quiet K K" and quiet_trans: "quiet K K1 \<Longrightarrow> quiet K1 K2 \<Longrightarrow> quiet K K2"
  by (simp_all add: quiet_def)

lemma quiet_files: "quiet K K' \<Longrightarrow> files_ok own K' = files_ok own K"
  by (rule files_ok_cong) (auto simp: quiet_def)

lemma quiet_ram: "quiet K (K'\<lparr>kram := m\<rparr>) = quiet K K'" "quiet (K\<lparr>kram := m\<rparr>) K' = quiet K K'"
  by (simp_all add: quiet_def get_curproc_def)

lemma quiet_mem: "with_mem f K = Ok (x, K') \<Longrightarrow> quiet K K'"
  by (auto simp: quiet_def with_mem_def with_sch_def get_curproc_def)

lemma quiet_fio: "with_fio f K = Ok (x, K') \<Longrightarrow> refs (kfio K') = refs (kfio K) \<Longrightarrow> quiet K K'"
  by (auto simp: quiet_def with_fio_def get_curproc_def)

lemma quiet_read: "kread_at E fd sz K = Ok (x, K') \<Longrightarrow> quiet K K'"
  using kread_at_same [of E fd sz K x K'] unfolding kread_at_def by (auto intro: quiet_fio)

lemma kfstat_refs: "kfstat C fd st s = Ok (rc, st', s') \<Longrightarrow> refs s' = refs s"
  by (auto simp: kfstat_def ino_stat_def with_cache_def refs_def split: if_splits)

lemma refs_offset [simp]: "refs (oset i (of_offset_update f) s) = refs s"
  by (simp add: refs_def fun_eq_iff)

lemma kseek_refs: "kseek C ust fd off wh s = Ok (x, s') \<Longrightarrow> refs s' = refs s"
  by (auto simp: kseek_def Let_def split: if_splits dest!: kfstat_refs)

lemma quiet_seek: "with_fio (kseek C ust fd off wh) K = Ok (x, K') \<Longrightarrow> quiet K K'"
  by (rule quiet_fio) (auto dest!: with_fio_same kseek_refs)

lemma load_loop_quiet: "load_loop E fd base sofar sz K = Ok (b, K') \<Longrightarrow> quiet K K'"
proof (induction E fd base sofar sz K arbitrary: b K' rule: load_loop.induct)
  case (1 E fd base sofar sz K)
  show ?case
  proof (cases "sz = 0")
    case True
    with 1 show ?thesis by (simp add: load_loop.simps quiet_refl)
  next
    case False
    let ?t = "if READ_SIZE < sz then READ_SIZE else sz"
    obtain got bs K1 where r: "kread_at E fd (ucast ?t) K = Ok ((got, bs), K1)"
      using 1 False by (subst (asm) load_loop.simps) (auto simp: Let_def)
    from "1.prems" False r have "K' = K1\<lparr>kram := store_lin (base + sofar) bs (kram K1)\<rparr>
        \<or> \<not> got \<noteq> ucast ?t \<and> load_loop E fd base (sofar + ?t) (sz - ?t) (K1\<lparr>kram := store_lin (base + sofar) bs (kram K1)\<rparr>) = Ok (b, K')"
      by (subst (asm) load_loop.simps) (auto simp: Let_def split: if_splits)
    then show ?thesis
    proof
      assume "\<not> got \<noteq> ucast ?t \<and> load_loop E fd base (sofar + ?t) (sz - ?t) (K1\<lparr>kram := store_lin (base + sofar) bs (kram K1)\<rparr>) = Ok (b, K')"
      then have "quiet (K1\<lparr>kram := store_lin (base + sofar) bs (kram K1)\<rparr>) K'"
        by (elim conjE, intro "1.IH" [OF False refl refl]) simp_all
      then show ?thesis using quiet_read [OF r] quiet_trans by (metis quiet_ram(2))
    qed (use quiet_read [OF r] in \<open>simp add: quiet_ram\<close>)
  qed
qed

lemma reloc_loop_quiet: "reloc_loop E fd base seg n K = Ok (b, K') \<Longrightarrow> quiet K K'"
proof (induction E fd base seg n K arbitrary: b K' rule: reloc_loop.induct)
  case (1 E fd base seg n K)
  show ?case
  proof (cases "n = 0")
    case True
    with 1 show ?thesis by (simp add: reloc_loop.simps quiet_refl)
  next
    case False
    let ?k = "if RELOC_BUF < n then RELOC_BUF else n"
    obtain got bs K1 where r: "kread_at E fd (?k * 4) K = Ok ((got, bs), K1)"
      using 1 False by (subst (asm) reloc_loop.simps) (auto simp: Let_def)
    from "1.prems" False r have "K' = K1
        \<or> \<not> got \<noteq> ?k * 4 \<and> reloc_loop E fd base seg (n - ?k) (K1\<lparr>kram := fold (reloc_one base seg) (reloc_entries bs) (kram K1)\<rparr>) = Ok (b, K')"
      by (subst (asm) reloc_loop.simps) (auto simp: Let_def split: if_splits)
    then show ?thesis
    proof
      assume "\<not> got \<noteq> ?k * 4 \<and> reloc_loop E fd base seg (n - ?k) (K1\<lparr>kram := fold (reloc_one base seg) (reloc_entries bs) (kram K1)\<rparr>) = Ok (b, K')"
      then have "quiet (K1\<lparr>kram := fold (reloc_one base seg) (reloc_entries bs) (kram K1)\<rparr>) K'"
        by (elim conjE, intro "1.IH" [OF False refl]) simp_all
      then show ?thesis using quiet_read [OF r] quiet_trans by (metis quiet_ram(2))
    qed (use quiet_read [OF r] in simp)
  qed
qed

lemma read_image_quiet: "read_image E fd h K = Ok (x, K') \<Longrightarrow> quiet K K'"
  by (auto simp: read_image_def Let_def split: if_splits
      dest!: quiet_seek quiet_mem load_loop_quiet intro: quiet_trans)

lemma relocate_quiet: "relocate E fd h data K = Ok (x, K') \<Longrightarrow> quiet K K'"
  by (auto simp: relocate_def Let_def split: if_splits
      dest!: quiet_seek quiet_mem reloc_loop_quiet intro: quiet_trans)

lemma push_process [simp]: "t_process (tk (taskq_push q t s) x) = t_process (tk s x)"
  by (simp add: taskq_push_def Let_def)

lemma task_from_proc_process:
  assumes "task_from_proc p cs ip ss sp ax s = (t, s')"
  shows "curtask s' = curtask s" "t_process (tk s' x) = p \<or> t_process (tk s' x) = t_process (tk s x)"
  using assms by (auto simp: task_from_proc_def task_alloc_def ENQUEUE_def Let_def split: if_splits)

lemma proc_alloc_slot:
  assumes "proc_alloc K = Ok (p, K')" "p \<noteq> 0"
  shows "1 \<le> p" "p \<le> MAX_PROCESS" "p_pid (kprocs K p) = 0" "p_pid (kprocs K' p) = nextpid K"
    "\<And>j. j < PROC_FILES \<Longrightarrow> p_fds (kprocs K' p) j = - 1" "\<And>q. q \<noteq> p \<Longrightarrow> p_pid (kprocs K' q) = p_pid (kprocs K q)"
    "get_curproc K' = get_curproc K"
proof -
  obtain K1 where K1: "pdown K = Ok K1" "kprocs K1 = kprocs K" "kfio K1 = kfio K" "nextpid K1 = nextpid K" "ksch K1 = ksch K"
    using assms(1) by (auto simp: proc_alloc_def pdown_def split: if_splits)
  obtain i where i: "List.find (\<lambda>i. p_pid (kprocs K (i + 1)) = 0) [0..<MAX_PROCESS] = Some i" "p = i + 1"
    using assms K1 by (cases "List.find (\<lambda>i. p_pid (kprocs K (i + 1)) = 0) [0..<MAX_PROCESS]") (auto simp: proc_alloc_def Let_def)
  show "1 \<le> p" "p \<le> MAX_PROCESS" "p_pid (kprocs K p) = 0" using i unfolding find_Some_iff by auto
  show "p_pid (kprocs K' p) = nextpid K" "\<And>j. j < PROC_FILES \<Longrightarrow> p_fds (kprocs K' p) j = - 1"
    "\<And>q. q \<noteq> p \<Longrightarrow> p_pid (kprocs K' q) = p_pid (kprocs K q)" "get_curproc K' = get_curproc K"
    using assms(1) i K1 by (auto simp: proc_alloc_def Let_def get_curproc_def with_sch_def taskq_init_def pset_def pup_def qset_def)
qed

lemma dup_loop_files:
  "dup_loop par p is K = Ok (rc, K') \<Longrightarrow> files_ok own K \<Longrightarrow> live K par \<Longrightarrow> live K p \<Longrightarrow> distinct is \<Longrightarrow>
   set is \<subseteq> {..<PROC_FILES} \<Longrightarrow> (\<forall>i \<in> set is. p_fds (kprocs K p) i = - 1) \<Longrightarrow> files_ok own K' \<and> live K' p"
proof (induction "is" arbitrary: K)
  case (Cons i "is")
  let ?k = "p_fds (kprocs K par) i"
  show ?case
  proof (cases "?k = - 1")
    case True
    then show ?thesis using Cons by auto
  next
    case False
    have x: "(par, i) \<in> fd_slots K" "(p, i) \<in> fd_slots K" using Cons.prems by (auto simp: fd_slots_def live_def)
    have k: "0 \<le> ?k" "?k < int MAX_OPEN_FILE"
      using Cons.prems(2) x False unfolding files_ok_def accounted_def by (auto simp: fd_of_def)
    from False Cons.prems(1) obtain nfd K1 where r: "with_fio (kdup ?k) K = Ok (nfd, K1)"
      "if nfd < 0 then K' = K1 else dup_loop par p is (set_fd p i nfd K1) = Ok (rc, K')" by (auto split: if_splits)
    note s = with_fio_same [OF r(1)]
    have e: "fd_slots K1 = fd_slots K" "fd_of K1 = fd_of K" using s by (simp_all add: fd_slots_def fd_of_def fun_eq_iff)
    have d: "kdup (int (nat ?k)) (kfio K) = Ok (nfd, kfio K1)" "nat ?k < MAX_OPEN_FILE" using s k by simp_all
    have "fd_of K (p, i) = - 1" "fd_of K (par, i) = int (nat ?k)" using Cons.prems(7) k by (simp_all add: fd_of_def)
    from kfiles.dup_accounted [OF Cons.prems(2) [unfolded files_ok_def] x(1) this(2) d(2) x(2) this(1) d(1)] k
    have f: "\<not> nfd < 0" "files_ok own (set_fd p i nfd K1)" by (auto simp: files_ok_def set_fd_slots set_fd_of e)
    have l: "live (set_fd p i nfd K1) par" "live (set_fd p i nfd K1) p" using Cons.prems(3,4) s by (simp_all add: live_def)
    have "\<forall>j \<in> set is. p_fds (kprocs (set_fd p i nfd K1) p) j = - 1" using Cons.prems(5,7) s by auto
    with Cons.IH [OF _ f(2) l] r f(1) Cons.prems(5,6) show ?thesis by simp
  qed
qed auto

lemma make_process_files:
  assumes m: "make_process E h data palloc K = Ok (p, K')" and K: "files_ok own K" and n: "nextpid K \<noteq> 0"
    and c: "get_curproc K = 0 \<or> live K (get_curproc K)"
  shows "files_ok own K' \<and> (p \<noteq> 0 \<longrightarrow> live K' p \<and> (p_parent (kprocs K' p) = 0 \<or> live K' (p_parent (kprocs K' p)))
    \<and> (\<forall>j<PROC_FILES. p_fds (kprocs K' p) j = - 1))"
proof -
  obtain q K1 where a: "proc_alloc K = Ok (q, K1)" using m by (auto simp: make_process_def)
  have f1: "files_ok own K1" by (rule proc_alloc_files [OF a K])
  show ?thesis
  proof (cases "q = 0")
    case True
    then show ?thesis using m a f1 by (auto simp: make_process_def files_ok_mem)
  next
    case False
    note q = proc_alloc_slot [OF a False]
    obtain t s where t: "task_from_proc q (x_csinit h + fst data) (x_ipinit h) (x_ssinit h + fst data) (x_spinit h) palloc
        (ksch (pset q (\<lambda>r. r\<lparr>p_image := data\<rparr>) K1)) = (t, s)" by fastforce
    let ?K3 = "pset q (\<lambda>r. r\<lparr>p_task := t\<rparr>) ((pset q (\<lambda>r. r\<lparr>p_image := data\<rparr>) K1)\<lparr>ksch := s\<rparr>)"
    have l3: "live ?K3 q" "\<And>r. live K r \<Longrightarrow> live ?K3 r" using q n by (auto simp: live_def)
    have f3: "files_ok own ?K3" using f1 by (auto intro: files_ok_cong [THEN iffD2, of _ K1])
    have c3: "get_curproc ?K3 = q \<or> get_curproc ?K3 = get_curproc K"
      using task_from_proc_process(1) [OF t] task_from_proc_process(2) [OF t, of "curtask (ksch K1)"] q(7)
      by (auto simp: get_curproc_def pset_def)
    show ?thesis
    proof (cases "t = 0")
      case True
      then obtain K4 where "proc_free (e_dev E) q ?K3 = Ok K4" "p = 0" "K' = K4"
        using m a False t by (auto simp: make_process_def Let_def)
      then show ?thesis using proc_free_files(1) [OF _ f3 l3(1)] by simp
    next
      case t0: False
      then have K': "p = q" "K' = pset q (\<lambda>r. r\<lparr>p_parent := get_curproc ?K3\<rparr>) ?K3"
        using m a False t by (auto simp: make_process_def Let_def)
      have "files_ok own K'" unfolding K' using f3 by (auto intro: files_ok_cong [THEN iffD2, of _ ?K3])
      moreover have "live K' r = live ?K3 r" for r unfolding K' by (auto simp: live_def)
      ultimately show ?thesis using K' l3 c c3 q(5) by auto
    qed
  qed
qed

lemma quiet_live: "quiet K K' \<Longrightarrow> live K' = live K" "quiet K K' \<Longrightarrow> fd_slots K' = fd_slots K"
  by (auto simp: quiet_def live_def fd_slots_def fun_eq_iff)

lemma exec_finish:
  assumes e: "bind_res (make_process E h data palloc K) (\<lambda>(p, K8).
      if p = 0 then Ok (ret (- ENOMEM), K8)
      else bind_res (dup_handles p K8) (\<lambda>(err, K9).
           if err \<noteq> 0 then bind_res (proc_free (e_dev E) p K9) (\<lambda>K10. Ok (ret err, K10))
           else Ok (scast (p_pid (kprocs K9 p)), K9))) = Ok (v, K')"
    and K: "files_ok own K" and c: "get_curproc K = 0 \<or> live K (get_curproc K)" "nextpid K \<noteq> 0"
  shows "files_ok own K'"
proof -
  obtain p K8 where m: "make_process E h data palloc K = Ok (p, K8)" using e by auto
  note f = make_process_files [OF m K c(2,1)]
  show ?thesis
  proof (cases "p = 0")
    case True
    then show ?thesis using e m f by simp
  next
    case False
    then obtain err K9 where d: "dup_handles p K8 = Ok (err, K9)" using e m by auto
    have "files_ok own K9 \<and> live K9 p"
    proof (cases "p_parent (kprocs K8 p) = 0")
      case True
      then show ?thesis using d f False by (simp add: dup_handles_def)
    next
      case par: False
      have "set [0..<PROC_FILES] \<subseteq> {..<PROC_FILES}" "distinct [0..<PROC_FILES]" by auto
      then show ?thesis
        using d par f False dup_loop_files [of "p_parent (kprocs K8 p)" p "[0..<PROC_FILES]" K8 err K9 own]
        by (simp add: dup_handles_def)
    qed
    then show ?thesis using e m d False proc_free_files(1) [of "e_dev E" p K9] by (auto split: if_splits)
  qed
qed

lemma exec_files:
  assumes e: "exec E fn K = Ok (v, K')" and K: "files_ok own K" and b: "bget_neg (e_bc E)" and n: "nextpid K \<noteq> 0"
    and c: "get_curproc K = 0 \<or> live K (get_curproc K)"
  shows "files_ok own K'"
proof -
  obtain np K1 where m1: "with_mem (near_malloc (e_heap E) (of_nat (length fn) + 1)) K = Ok (np, K1)"
    using e by (auto simp: exec_def)
  note q1 = quiet_mem [OF m1] and e1 = e [unfolded exec_def m1 bind_res.simps prod.case]
  have f1: "files_ok own K1" using quiet_files [OF q1] K by simp
  show ?thesis
  proof (cases "np = 0")
    case True
    with e1 f1 show ?thesis by simp
  next
    case False
    note e2 = e1 [unfolded if_not_P [OF False]]
    obtain fd K2 where k: "with_fio (kopen (e_bc E) (e_dev E) (e_info E) (e_stat E) fn O_RDONLY) K1 = Ok (fd, K2)"
      using e2 by auto
    note e3 = e2 [unfolded k bind_res.simps prod.case]
    obtain y K3 where m3: "with_mem (\<lambda>m. no_val (near_free (e_heap E) np m)) K2 = Ok (y, K3)" using e3 by auto
    note q3 = quiet_mem [OF m3] and e4 = e3 [unfolded m3 bind_res.simps prod.case]
    obtain s2 where K2: "K2 = K1\<lparr>kfio := s2\<rparr>" and ko: "kopen (e_bc E) (e_dev E) (e_info E) (e_stat E) fn O_RDONLY (kfio K1) = Ok (fd, s2)"
      using k by (auto simp: with_fio_def)
    show ?thesis
    proof (cases "fd < 0")
      case True
      then have "files_ok own K2" using own_open [OF ko f1 b] K2 by auto
      then show ?thesis using e4 True quiet_files [OF q3] by simp
    next
      case fd: False
      note e5 = e4 [unfolded if_not_P [OF fd]]
      let ?o = "own(nat fd := 1)"
      have o: "0 \<le> fd" "fd < int MAX_OPEN_FILE" "own (nat fd) = 0" "files_ok ?o K3"
        using own_open [OF ko f1 b] fd K2 quiet_files [OF q3] by auto
      have c1: "get_curproc K1 = 0 \<or> live K1 (get_curproc K1)" "nextpid K1 \<noteq> 0"
        using c n q1 quiet_live(1) [OF q1] by (auto simp: quiet_def)
      then have c2: "get_curproc K2 = 0 \<or> live K2 (get_curproc K2)" "nextpid K2 \<noteq> 0"
        by (auto simp: K2 get_curproc_def live_def)
      then have c3: "get_curproc K3 = 0 \<or> live K3 (get_curproc K3)" "nextpid K3 \<noteq> 0"
        using q3 quiet_live(1) [OF q3] by (auto simp: quiet_def)
      have close: "files_ok own B" if cl: "with_fio (kclose (e_dev E) fd) A = Ok (x, B)" and qa: "quiet K3 A" for A B x
      proof -
        obtain s where B: "kclose (e_dev E) fd (kfio A) = Ok (x, s)" "B = A\<lparr>kfio := s\<rparr>" using cl by (auto simp: with_fio_def)
        have "files_ok ?o A" using quiet_files [OF qa] o(4) by simp
        from own_close [OF B(1) this o(1-3)] show ?thesis unfolding B(2) .
      qed
      obtain got bs K4 where r: "kread_at E fd (of_nat hdr_size) K3 = Ok ((got, bs), K4)" using e5 by auto
      note q4 = quiet_read [OF r] and e6 = e5 [unfolded r bind_res.simps prod.case]
      show ?thesis
      proof (cases "sint got < 0")
        case True
        then show ?thesis using e6 close [OF _ q4] by auto
      next
        case False
        let ?h = "exehdr_at (\<lambda>i. (bs @ drop (length bs) (e_hdr E)) ! i)"
        note e7 = e6 [unfolded if_not_P [OF False] Let_def]
        obtain data err palloc K5 where ri: "read_image E fd ?h K4 = Ok ((data, err, palloc), K5)" using e7 by auto
        note q5 = quiet_trans [OF q4 read_image_quiet [OF ri]] and e8 = e7 [unfolded ri bind_res.simps prod.case]
        show ?thesis
        proof (cases "data = far_null")
          case True
          then show ?thesis using e8 close [OF _ q5] by auto
        next
          case False
          note e9 = e8 [unfolded if_not_P [OF False]]
          obtain er K6 where re: "relocate E fd ?h data K5 = Ok (er, K6)" using e9 by auto
          note q6 = quiet_trans [OF q5 relocate_quiet [OF re]] and e10 = e9 [unfolded re bind_res.simps prod.case]
          show ?thesis
          proof (cases "er < 0")
            case True
            then show ?thesis using e10 close [OF _ quiet_trans [OF q6 quiet_mem]] by auto
          next
            case False
            note e11 = e10 [unfolded if_not_P [OF False]]
            obtain x K7 where cl: "with_fio (kclose (e_dev E) fd) K6 = Ok (x, K7)" using e11 by auto
            note e12 = e11 [unfolded cl bind_res.simps prod.case]
            have f7: "files_ok own K7" by (rule close [OF cl q6])
            have "get_curproc K6 = 0 \<or> live K6 (get_curproc K6)" "nextpid K6 \<noteq> 0"
              using c3 q6 quiet_live(1) [OF q6] by (auto simp: quiet_def)
            then have c7: "get_curproc K7 = 0 \<or> live K7 (get_curproc K7)" "nextpid K7 \<noteq> 0"
              using cl by (auto simp: with_fio_def get_curproc_def live_def)
            show ?thesis using e12 f7 c7 by (rule exec_finish)
          qed
        qed
      qed
    qed
  qed
qed

section \<open>System calls\<close>

text \<open>The state after a call, whether it returned or blocked.\<close>

fun after :: "('a \<times> ('c, 'd) kst) + ('c, 'd) kst \<Rightarrow> ('c, 'd) kst" where
  "after (Inl (_, K)) = K"
| "after (Inr K) = K"

lemma syscall_files:
  assumes c: "syscall E c n u K = Ok r" and K: "files_ok own K" and b: "bget_neg (e_bc E)" and p: "nextpid K \<noteq> 0"
    and l: "live K (get_curproc K)"
  shows "files_ok own (after r)"
proof -
  have ram: "files_ok own (K1\<lparr>kram := f\<rparr>)" if "files_ok own K1" for K1 :: "('b, 'c) kst" and f using that by simp
  note k = sys_exit_files [OF _ K l] uopen_files [OF _ K b l] uclose_files [OF _ K l] exec_files [OF _ K b p disjI2 [OF l]] udup_files [OF _ K l]
  show ?thesis
  proof (cases "n = 6")
    case True
    then obtain w where w: "sys_wait (e_dev E) c K = Ok w" using c by (auto simp: syscall_def)
    show ?thesis
      using True c w sys_wait_files [OF w K] by (auto simp: syscall_def split: sum.splits prod.splits option.splits)
  next
    case False
    then show ?thesis
      using c K k uread_files [of E _ _ _ K] uwrite_files [of "e_dev E" _ _ _ K] unfolding syscall_def Let_def
      by (auto split: if_splits)
  qed
qed

text \<open>What happens to a kernel over time: system calls of live processes, and anything the scheduler,
  the interrupts or the programs do to the tasks and to memory.\<close>

fun disp_state :: "(u16 \<times> ustack \<times> ('c, 'd) kst) + ('c, 'd) kst \<Rightarrow> ('c, 'd) kst" where
  "disp_state (Inl (_, _, K)) = K"
| "disp_state (Inr K) = K"

inductive kernel_step :: "('b, 'c, 'd) env \<Rightarrow> ('c, 'd) kst \<Rightarrow> ('c, 'd) kst \<Rightarrow> bool" for E where
  call: "live K (get_curproc K) \<Longrightarrow> nextpid K \<noteq> 0 \<Longrightarrow> sc_disp E c u K = Ok r \<Longrightarrow> kernel_step E K (disp_state r)"
| other: "kernel_step E K (K\<lparr>ksch := s, kram := m\<rparr>)"

lemma sc_disp_files:
  assumes "sc_disp E c u K = Ok r" "files_ok own K" "bget_neg (e_bc E)" "nextpid K \<noteq> 0" "live K (get_curproc K)"
  shows "files_ok own (disp_state r)"
proof (cases "nsyscall \<le> unat (u_ax u)")
  case True
  with assms show ?thesis by (auto simp: sc_disp_def)
next
  case False
  then obtain w where w: "syscall E c (unat (u_ax u)) u K = Ok w" using assms(1) by (auto simp: sc_disp_def Let_def)
  show ?thesis
    using False assms(1) w syscall_files [OF w assms(2-5)] by (auto simp: sc_disp_def Let_def split: sum.splits)
qed

lemma kernel_step_files: "kernel_step E K K' \<Longrightarrow> bget_neg (e_bc E) \<Longrightarrow> files_ok own K \<Longrightarrow> files_ok own K'"
proof (induction rule: kernel_step.induct)
  case (call K c u r)
  then show ?case by (intro sc_disp_files)
next
  case (other K s m)
  then show ?case by (auto intro: files_ok_cong [THEN iffD2, of _ K])
qed

section \<open>Loading an image\<close>

lemma store_lin_nth:
  "length bs \<le> 65536 \<Longrightarrow> store_lin a bs m x = (if unat (x - a) < length bs then bs ! unat (x - a) else m x)"
proof (induction bs arbitrary: a m)
  case (Cons b bs)
  have m1: "unat (- 1 :: u32) = 4294967295" by (simp add: unsigned_minus_1_eq_mask mask_eq_exp_minus_1)
  have "store_lin a (b # bs) m x = (if unat (x - (a + 1)) < length bs then bs ! unat (x - (a + 1)) else (m(a := b)) x)"
    using Cons by simp
  moreover have "x = a \<Longrightarrow> \<not> unat (x - (a + 1)) < length bs" using Cons.prems m1 by auto
  moreover have "x \<noteq> a \<Longrightarrow> unat (x - a) = Suc (unat (x - (a + 1)))"
  proof -
    assume "x \<noteq> a"
    then have "x - a \<noteq> 0" by simp
    then show "unat (x - a) = Suc (unat (x - (a + 1)))" using unat_minus_one [of "x - a"] unat_gt_0 [of "x - a"]
      by (simp add: diff_diff_eq2 diff_add_eq_diff_diff_swap add.commute)
  qed
  ultimately show ?case by auto
qed simp

lemma after_chunk:
  fixes d t n :: u32
  assumes "unat t \<le> unat n" "0 < unat t"
  shows "unat (d - t) < unat n - unat t \<longleftrightarrow> unat t \<le> unat d \<and> unat d < unat n"
    "unat t \<le> unat d \<Longrightarrow> unat (d - t) = unat d - unat t"
  using assms unsigned_less [of n, where 'a = nat] by (auto simp: unat_sub_if')

lemma load_loop_ok:
  "vol_inv bdev dev unit P cont (fcache (kfio K)) \<Longrightarrow> (\<Sum>b<MAX_BLOCK. vol_pins (fcache (kfio K)) b) + 2 \<le> MAX_BLOCK \<Longrightarrow>
   good_vol dev unit (fvol (kfio K)) \<Longrightarrow> ino \<noteq> 0 \<Longrightarrow> open_at (kfio K) fd ino off \<Longrightarrow> cont (devst (fcache (kfio K))) = D \<Longrightarrow>
   fat_chain D (fvol (kfio K)) cs \<Longrightarrow> cs ! 0 = ucast (de_cluster0 (disk_dirent D ino)) \<Longrightarrow>
   unat off + unat sz \<le> unat (de_size (disk_dirent D ino)) \<Longrightarrow> unat (de_size (disk_dirent D ino)) < 2147483648 \<Longrightarrow>
   (unat off + unat sz) div 512 div nspc (fvol (kfio K)) < length cs \<Longrightarrow> unat off + unat sz \<le> length cs * nspc (fvol (kfio K)) * 512 \<Longrightarrow>
   e_bc E = kernel_bc bdev \<Longrightarrow>
   \<exists>K'. load_loop E fd base sofar sz K = Ok (True, K')
     \<and> (\<forall>x. kram K' x = (if unat (x - (base + sofar)) < unat sz
            then file_byte D (fvol (kfio K)) cs (unat off + unat (x - (base + sofar))) else kram K x))"
proof (induction "unat sz" arbitrary: sz sofar off K rule: less_induct)
  case less
  let ?fv = "fvol (kfio K)"
  show ?case
  proof (cases "sz = 0")
    case True
    then show ?thesis by (simp add: load_loop.simps)
  next
    case False
    define t where "t = (if READ_SIZE < sz then READ_SIZE else sz)"
    have t: "unat t \<le> unat sz" "0 < unat t" "unat t \<le> 16384"
      using False unat_gt_0 [of sz] by (auto simp: t_def READ_SIZE_def word_less_nat_alt word_le_nat_alt not_less simp del: unat_gt_0)
    have u: "unat (ucast t :: u16) = unat t" using t(3) by (simp add: unat_ucast_16)
    have uu: "ucast (ucast t :: u16) = t" using u by (simp add: word_unat_eq_iff unat_ucast_u16)
    have d: "unat off div 512 div nspc ?fv < length cs"
      by (rule le_less_trans [OF _ less.prems(11)]) (simp add: div_le_mono)
    obtain s where s: "kread (e_bc E) (e_dev E) fd (ucast t) (kfio K)
        = Ok (ucast t, map (file_byte D ?fv cs) [unat off..<unat off + unat t], s)"
      "open_at s fd ino (off + t)" "vol_inv bdev dev unit P cont (fcache s)" "cont (devst (fcache s)) = D"
      "vol_pins (fcache s) = vol_pins (fcache (kfio K))" "fvol s = ?fv"
      using kread_step [OF less.prems(1-8), of "ucast t" "e_dev E"] less.prems(9-13) t d unfolding u uu by auto
    let ?bs = "map (file_byte D ?fv cs) [unat off..<unat off + unat t]"
    let ?K = "K\<lparr>kfio := s, kram := store_lin (base + sofar) ?bs (kram K)\<rparr>"
    have st: "load_loop E fd base sofar sz K = load_loop E fd base (sofar + t) (sz - t) ?K"
      using False s(1) by (subst load_loop.simps) (simp add: t_def [symmetric] kread_at_def with_fio_def Let_def)
    have us: "unat (sz - t) = unat sz - unat t" using t(1) by (simp add: unat_sub word_le_nat_alt)
    have uo: "unat (off + t) = unat off + unat t"
      using t(1) less.prems(9,10) by (simp add: unat_word_ariths)
    obtain K' where K': "load_loop E fd base (sofar + t) (sz - t) ?K = Ok (True, K')"
      "\<And>x. kram K' x = (if unat (x - (base + (sofar + t))) < unat (sz - t)
            then file_byte D ?fv cs (unat (off + t) + unat (x - (base + (sofar + t)))) else kram ?K x)"
      using less.hyps [of "sz - t" ?K "off + t" "sofar + t"] less.prems s us uo t by auto
    have "kram K' x = (if unat (x - (base + sofar)) < unat sz
            then file_byte D ?fv cs (unat off + unat (x - (base + sofar))) else kram K x)" for x
    proof -
      have e: "x - (base + (sofar + t)) = (x - (base + sofar)) - t" by (simp add: algebra_simps)
      have b: "kram ?K x = (if unat (x - (base + sofar)) < unat t then file_byte D ?fv cs (unat off + unat (x - (base + sofar))) else kram K x)"
        using t(3) by (simp add: store_lin_nth)
      show ?thesis
        unfolding K'(2) b us uo e after_chunk(1) [OF t(1,2)] using after_chunk(2) [OF t(1,2), of "x - (base + sofar)"] t(1) by auto
    qed
    then show ?thesis using st K'(1) by auto
  qed
qed

section \<open>Relocation\<close>

lemma word_halves: "(ucast (ucast w :: u8) :: u16) OR push_bit 8 (ucast (ucast (drop_bit 8 w) :: u8)) = w"
proof (rule bit_word_eqI)
  fix n assume "n < LENGTH(16)"
  then show "bit ((ucast (ucast w :: u8) :: u16) OR push_bit 8 (ucast (ucast (drop_bit 8 w) :: u8))) n = bit w n"
    by (cases "n < 8") (auto simp: bit_simps)
qed

lemma put_word_at: "word_at (put_word a w m) a = w"
  by (simp add: word_at_def put_word_def word_halves)

text \<open>The bytes that a list of relocations touches.\<close>

definition reloc_bytes :: "u32 \<Rightarrow> (u16 \<times> u16) list \<Rightarrow> u32 list" where
  "reloc_bytes base es = concat (map (\<lambda>e. [base + reloc_lin e, base + reloc_lin e + 1]) es)"

lemma fold_reloc_other: "x \<notin> set (reloc_bytes base es) \<Longrightarrow> fold (reloc_one base seg) es m x = m x"
  by (induction es arbitrary: m) (auto simp: reloc_bytes_def reloc_one_def put_word_def)

lemma fold_reloc_word:
  "distinct (reloc_bytes base es) \<Longrightarrow> e \<in> set es \<Longrightarrow>
   word_at (fold (reloc_one base seg) es m) (base + reloc_lin e) = word_at m (base + reloc_lin e) + seg"
proof (induction es arbitrary: m)
  case (Cons f es)
  let ?a = "base + reloc_lin f" and ?b = "base + reloc_lin e"
  have d: "distinct (reloc_bytes base es)" "?a \<notin> set (reloc_bytes base es)" "?a + 1 \<notin> set (reloc_bytes base es)"
    using Cons.prems(1) by (auto simp: reloc_bytes_def)
  show ?case
  proof (cases "e \<in> set es")
    case True
    have "?b \<in> set (reloc_bytes base es)" "?b + 1 \<in> set (reloc_bytes base es)" using True by (auto simp: reloc_bytes_def)
    then have n: "?b \<noteq> ?a" "?b \<noteq> ?a + 1" "?b + 1 \<noteq> ?a" "?b + 1 \<noteq> ?a + 1" using d(2,3) by metis+
    have "word_at (reloc_one base seg f m) ?b = word_at m ?b"
      unfolding reloc_one_def put_word_def word_at_def using n by (simp del: add_right_cancel)
    then show ?thesis using Cons.IH [OF d(1) True] by simp
  next
    case False
    then have e: "e = f" using Cons.prems(2) by simp
    have "word_at (fold (reloc_one base seg) es (reloc_one base seg f m)) ?a = word_at (reloc_one base seg f m) ?a"
      unfolding word_at_def using fold_reloc_other [OF d(2)] fold_reloc_other [OF d(3)] by simp
    moreover have "word_at (reloc_one base seg f m) ?a = word_at m ?a + seg" by (simp add: reloc_one_def put_word_at)
    ultimately show ?thesis unfolding e by simp
  qed
qed simp

lemma unat_reloc_lin: "unat (reloc_lin e) = 16 * unat (snd e) mod 65536 + unat (fst e)"
proof -
  have p: "unat (push_bit 4 (snd e)) = 16 * unat (snd e) mod 65536"
    by (simp add: push_bit_eq_mult unat_word_ariths mult.commute)
  have "16 * unat (snd e) mod 65536 < 65536" by simp
  then have "16 * unat (snd e) mod 65536 + unat (fst e) < 4294967296" using unat_u16_lt [of "fst e"] by linarith
  then show ?thesis by (simp add: reloc_lin_def unat_word_ariths unat_ucast_u16 p)
qed

section \<open>Properties\<close>


text \<open>Property C12.
  Loading a program: with the file of the program open and long enough, the loop of the loader
  returns, and memory from the base on holds exactly the bytes of the file from its offset on;
  nothing else in memory changes. This goes down to the sectors of the disk.\<close>

theorem load_loop_image:
  assumes "vol_inv bdev dev unit P cont (fcache (kfio K))" "(\<Sum>b<MAX_BLOCK. vol_pins (fcache (kfio K)) b) + 2 \<le> MAX_BLOCK"
    and "good_vol dev unit (fvol (kfio K))" "ino \<noteq> 0" "open_at (kfio K) fd ino off" "cont (devst (fcache (kfio K))) = D"
    and "fat_chain D (fvol (kfio K)) cs" "cs ! 0 = ucast (de_cluster0 (disk_dirent D ino))"
    and "unat off + unat sz \<le> unat (de_size (disk_dirent D ino))" "unat (de_size (disk_dirent D ino)) < 2147483648"
    and "(unat off + unat sz) div 512 div nspc (fvol (kfio K)) < length cs"
    and "unat off + unat sz \<le> length cs * nspc (fvol (kfio K)) * 512" "e_bc E = kernel_bc bdev"
  shows "\<exists>K'. load_loop E fd base 0 sz K = Ok (True, K')
    \<and> (\<forall>x. kram K' x = (if unat (x - base) < unat sz
           then file_byte D (fvol (kfio K)) cs (unat off + unat (x - base)) else kram K x))"
  using load_loop_ok [OF assms, of base 0, unfolded add_0_right] .

text \<open>Remark.
  Relocation adds the segment of the image to every word the table names, once, and to nothing else,
  when the words do not overlap. The segment of an entry counts modulo 4096: the table of a program
  can only reach the first 128 K of the image.\<close>

theorem relocation_adds:
  assumes "distinct (reloc_bytes base es)"
  shows "(\<forall>e \<in> set es. word_at (fold (reloc_one base seg) es m) (base + reloc_lin e) = word_at m (base + reloc_lin e) + seg
      \<and> unat (reloc_lin e) = 16 * unat (snd e) mod 65536 + unat (fst e))
    \<and> (\<forall>x. x \<notin> set (reloc_bytes base es) \<longrightarrow> fold (reloc_one base seg) es m x = m x)"
  using fold_reloc_word [OF assms] fold_reloc_other unat_reloc_lin by blast

text \<open>Remark.
  A task that waits for its child waits on the queue of the first process slot. When the child of
  the process in that slot ends, its first waiter becomes ready; the end of the child of any other
  process leaves the waiters blocked, although the child is a zombie that could be reaped.\<close>

theorem exit_wakes_waiter:
  assumes "sched_ok Q (ksch K)" "get_curproc K = p" "p \<noteq> 0" "p_parent (kprocs K p) = q" "q \<noteq> 0"
    and "Q (WaitQ 1) = w # ws" "w \<noteq> p_task (kprocs K p)" "q \<noteq> 1 \<longrightarrow> Q (WaitQ q) = []"
  shows "\<exists>K'. sys_exit T rc K = Ok (0, K') \<and> p_zombie (kprocs K' p) \<and> p_rc (kprocs K' p) = word_of_int rc
    \<and> t_state (tk (ksch K') w) = (if q = 1 then TS_READY else TS_BLOCKED)"
proof -
  have qs: "queues Q (ksch K)" and "q_ok (WaitQ 1) (tk (ksch K) w)"
    using assms(1,6) by (auto simp: sched_ok_def tasks_ok_def)
  then have b: "t_state (tk (ksch K) w) = TS_BLOCKED" by (simp add: q_ok_def)
  have h: "qhead (ksch K) (WaitQ q) = (if q = 1 then w else 0)" using queuesD(2) [OF qs, of "WaitQ q"] assms(6,8) by auto
  have w: "w \<noteq> 0" using queuesD(4) [OF qs, of "WaitQ 1"] assms(6) by auto
  have "t_state (tk (task_unblock w (ksch K)) w) = TS_READY"
    using w b by (simp add: task_unblock_def Let_def ENQUEUE_def)
  then show ?thesis using assms(2-5,7) h w b by (cases "q = 1") (simp_all add: sys_exit_def Let_def with_sch_def pset_def)
qed

text \<open>Remark.
  The result of a system call is the long value in \<open>dx:ax\<close>; a number outside the table gives
  \<open>- EINVAL\<close> in \<open>ax\<close> and does nothing else; the dispatcher returns the number it was called with.\<close>

theorem sc_disp_result:
  assumes "sc_disp E c u K = Ok (Inl (n, u', K'))"
  shows "n = u_ax u
    \<and> (if unat n < nsyscall
       then syscall E c (unat n) u K = Ok (Inl ((ucast (u_ax u') :: u32) OR push_bit 16 (ucast (u_dx u')), K'))
       else u_ax u' = word_of_int (- EINVAL) \<and> u_dx u' = u_dx u \<and> K' = K)"
proof -
  have v: "(ucast (ucast v :: u16) :: u32) OR push_bit 16 (ucast (ucast (drop_bit 16 v) :: u16)) = v" for v :: u32
  proof (rule bit_word_eqI)
    fix n assume "n < LENGTH(32)"
    then show "bit ((ucast (ucast v :: u16) :: u32) OR push_bit 16 (ucast (ucast (drop_bit 16 v) :: u16))) n = bit v n"
      by (cases "n < 16") (auto simp: bit_simps)
  qed
  show ?thesis
  proof (cases "nsyscall \<le> unat (u_ax u)")
    case True
    then show ?thesis using assms by (auto simp: sc_disp_def)
  next
    case False
    then obtain w where w: "syscall E c (unat (u_ax u)) u K = Ok w" using assms by (auto simp: sc_disp_def Let_def)
    then show ?thesis using False assms v by (cases w) (auto simp: sc_disp_def Let_def)
  qed
qed

section \<open>Witnesses\<close>

text \<open>The tasks of \<open>SchedThms\<close>, all of the process in slot 2, the child of the one in slot 1, and task
  5 waiting for a child. Process 2 has the open file 0 as its descriptor 0.\<close>

definition w_psch :: sched where
  "w_psch = taskq_push (WaitQ 1) 5 (w_sched\<lparr>tk := (\<lambda>t. (tk w_sched t)\<lparr>t_process := 2\<rparr>)\<rparr>)"

definition w_kst :: "(unit bcache, unit) kst" where
  "w_kst = \<lparr>kprocs = (\<lambda>p. \<lparr>p_pid = (if p = 1 then 1 else if p = 2 then 2 else 0), p_parent = (if p = 2 then 1 else 0),
       p_task = (if p = 2 then 1 else 0), p_zombie = False, p_rc = 0, p_image = far_null,
       p_fds = (\<lambda>i. if p = 2 \<and> i = 0 then 0 else - 1)\<rparr>),
     nextpid = 3, pcrit = 1, ksch = w_psch, kfio = w_fio 1, kram = (\<lambda>_. 0)\<rparr>"

definition w_env :: "(unit, unit bcache, unit) env" where
  "w_env = \<lparr>e_bc = kernel_bc w_rdev, e_dev = w_devs, e_heap = 0, e_info = root_info, e_stat = fillstat w_fv root_info, e_hdr = []\<rparr>"

definition w_call :: "u16 \<Rightarrow> u16 \<Rightarrow> ustack" where
  "w_call n x = \<lparr>u_di = 0, u_si = 0, u_bp = 0, u_sp = 0, u_bx = 0, u_dx = 0, u_cx = x, u_ax = n, u_ds = 0, u_es = 0, u_ip = 0, u_cs = 0, u_fl = 0\<rparr>"

lemma w_psch_ok: "sched_ok (w_Q(WaitQ 1 := [5])) w_psch"
proof -
  have "queues w_Q (w_sched\<lparr>tk := (\<lambda>t. (tk w_sched t)\<lparr>t_process := 2\<rparr>)\<rparr>)"
    using w_sched_queues lnk_frame_all [of _ "\<lambda>t. (tk w_sched t)\<lparr>t_process := 2\<rparr>" "tk w_sched"]
    by (simp add: queues_def circ_def cyc_def)
  then have "queues (w_Q(WaitQ 1 := [5])) w_psch"
    using push_queues [of w_Q "w_sched\<lparr>tk := (\<lambda>t. (tk w_sched t)\<lparr>t_process := 2\<rparr>)\<rparr>" 5 "WaitQ 1"]
    by (simp add: w_psch_def w_Q_def)
  then show ?thesis
    by (auto simp: sched_ok_def tasks_ok_def cur_ok_def w_psch_def w_sched_tk q_ok_def w_Q_def TASK_NPRI_def split: taskq.split)
qed

lemma w_cur: "get_curproc w_kst = 2"
  by (simp add: get_curproc_def w_kst_def w_psch_def)

theorem exit_wakes_waiter_witness:
  "\<exists>K'. sys_exit w_devs 7 w_kst = Ok (0, K') \<and> p_zombie (kprocs K' 2) \<and> t_state (tk (ksch K') 5) = TS_READY"
  using exit_wakes_waiter [OF _ w_cur, of "w_Q(WaitQ 1 := [5])" 1 5 "[]" w_devs 7] w_psch_ok
  by (auto simp: w_kst_def)

theorem relocation_adds_witness:
  "word_at (fold (reloc_one 0x100 0x20) [(2, 0), (4, 1)] (\<lambda>_. 1)) 0x114 = 0x121"
  using relocation_adds [of "0x100" "[(2, 0), (4, 1)]" "0x20" "\<lambda>_. 1"]
  by (simp add: reloc_bytes_def reloc_lin_def word_at_def)

text \<open>The system call \<open>dup (0)\<close> of process 2.\<close>

definition w_dupped :: "(unit bcache, unit) kst" where
  "w_dupped = set_fd 2 1 0 (w_kst\<lparr>kfio := w_fio 2\<rparr>)"

lemma w_dup: "sc_disp w_env w_ctx (w_call 7 0) w_kst = Ok (Inl (7, (w_call 7 0)\<lparr>u_ax := 1\<rparr>, w_dupped))"
proof -
  have d: "kdup 0 (w_fio 1) = Ok (0, w_fio 2)"
    by (simp add: kdup_def bad_fd_def MAX_OPEN_FILE_def w_fio_def oset_def fun_eq_iff)
  have u: "udup 0 w_kst = Ok (1, w_dupped)"
    using d by (simp add: udup_def w_cur Let_def, simp add: w_kst_def bad_ufd_def free_fd_def PROC_FILES_def upt_rec with_fio_def ret_def w_dupped_def)
  show ?thesis using u by (simp add: sc_disp_def Let_def w_call_def nsyscall_def syscall_def)
qed

theorem sc_disp_result_witness: "syscall w_env w_ctx 7 (w_call 7 0) w_kst = Ok (Inl (1, w_dupped))"
  using sc_disp_result [OF w_dup] by (simp add: nsyscall_def w_call_def)

lemma w_rdev_neg: "bget_neg (kernel_bc w_rdev)"
proof -
  have "rc \<le> 0" if "bc_get w_rdev d u n s = Ok (rc, b, s')" for d u n rc b and s s' :: "unit bcache"
    using that unfolding bc_get_def Let_def
    by (elim bind_resE) (auto simp: w_rdev_def split: sum.split_asm option.split_asm)
  then show ?thesis unfolding bget_neg_def kernel_bc_def by simp
qed

lemma w_live: "live w_kst p \<longleftrightarrow> p = 1 \<or> p = 2"
  by (auto simp: live_def w_kst_def MAX_PROCESS_def)

lemma w_files_ok: "files_ok (\<lambda>_. 0) w_kst"
proof -
  have f: "fd_of w_kst x = (if x = (2, 0) then 0 else - 1)" for x by (cases x) (simp add: fd_of_def w_kst_def)
  have "{x \<in> fd_slots w_kst. fd_of w_kst x = int k} = (if k = 0 then {(2, 0)} else {})" for k
    unfolding f by (auto simp: fd_slots_def w_kst_def MAX_PROCESS_def PROC_FILES_def)
  moreover have "refs (kfio w_kst) k = (if k = 0 then 1 else 0)" for k by (simp add: refs_def w_kst_def w_fio_def)
  ultimately show ?thesis
    using f finite_fd_slots [of w_kst] by (simp add: files_ok_def accounted_def uses_def MAX_OPEN_FILE_def)
qed


theorem load_loop_image_witness:
  "\<exists>K'. load_loop w_env 0 0x1000 0 3 w_kst = Ok (True, K') \<and> kram K' 0x1000 = 255 \<and> kram K' 0x1001 = 255 \<and> kram K' 0x1002 = 0"
proof -
  have b: "file_byte (w_cont ()) w_fv [257, 514] 510 = 255" "file_byte (w_cont ()) w_fv [257, 514] 511 = 255"
    "file_byte (w_cont ()) w_fv [257, 514] 512 = 0"
    by (simp_all add: file_byte_def file_sec_def w_fv_good(2) w_sector, simp_all add: w_fv_def fat_umount_def spc_def)
  have v: "fcache (kfio w_kst) = w_vbc" "fvol (kfio w_kst) = w_fv" "open_at (kfio w_kst) 0 16 510" "e_bc w_env = kernel_bc w_rdev"
    by (simp_all add: w_kst_def w_env_def w_fio_def open_at_def bad_fd_def MAX_OPEN_FILE_def)
  have "\<exists>K'. load_loop w_env 0 0x1000 0 3 w_kst = Ok (True, K')
    \<and> (\<forall>x. kram K' x = (if unat (x - 0x1000) < unat (3 :: u32)
           then file_byte (w_cont ()) (fvol (kfio w_kst)) [257, 514] (unat (510 :: u32) + unat (x - 0x1000)) else kram w_kst x))"
    by (rule load_loop_image [where ino = 16 and unit = 0 and dev = 0 and P = "\<lambda>_. True" and cont = w_cont])
      (use v w_vol w_fv_good w_file in \<open>simp_all add: MAX_BLOCK_def\<close>)
  then show ?thesis using b by (auto simp: v)
qed

end
