(* ===== verification/Keyboard.thy ===== *)
theory Keyboard
  imports Ring Sched
begin

text \<open>
  The keyboard half of the console, \<open>kernel/console/CONSOLE.C\<close> with the table of \<open>keymap.c\<close>: the
  interrupt handler queues scan codes and wakes the readers, and reading turns scan codes into keys.
  The bytes the keyboard controller has ready, and the debugger that F1 enters, are parameters.
\<close>

section \<open>The table of scan codes\<close>

definition SC_EXT_PREFIX :: u8 where "SC_EXT_PREFIX = 0xe0"
definition SC_KEYUP :: u8 where "SC_KEYUP = 0x80"

definition SC_SHIFTS :: u8 where "SC_SHIFTS = 0x01"
definition SC_CAPSLOCK :: u8 where "SC_CAPSLOCK = 0x02"
definition SC_CTRL :: u8 where "SC_CTRL = 0x04"
definition SC_META :: u8 where "SC_META = 0x08"
definition SC_EXT :: u8 where "SC_EXT = 0x10"
definition SC_NUML :: u8 where "SC_NUML = 0x20"
definition SC_E0 :: u8 where "SC_E0 = 0x40"

definition SC_META_LSHIFT :: u16 where "SC_META_LSHIFT = 0x1"
definition SC_META_LCTRL :: u16 where "SC_META_LCTRL = 0x2"
definition SC_META_LALT :: u16 where "SC_META_LALT = 0x4"
definition SC_META_RSHIFT :: u16 where "SC_META_RSHIFT = 0x8"
definition SC_META_RALT :: u16 where "SC_META_RALT = 0x10"
definition SC_META_RCTRL :: u16 where "SC_META_RCTRL = 0x20"
definition SC_META_NUMLOCK :: u16 where "SC_META_NUMLOCK = 0x40"
definition SC_META_SCRLOCK :: u16 where "SC_META_SCRLOCK = 0x80"
definition SC_META_CAPSLOCK :: u16 where "SC_META_CAPSLOCK = 0x100"

record scandef =
  sd_ascii :: u8
  sd_shifted :: u8
  sd_flags :: u8

definition Scan :: "u8 \<Rightarrow> u8 \<Rightarrow> u8 \<Rightarrow> scandef" where
  "Scan a s f = \<lparr>sd_ascii = a, sd_shifted = s, sd_flags = f\<rparr>"

definition MKMETA :: "u16 \<Rightarrow> u8 \<Rightarrow> scandef" where
  "MKMETA w fl = Scan (ucast (w AND 0xff)) (ucast (drop_bit 8 w AND 0xff)) (SC_META OR fl)"

definition SC_GET_META :: "scandef \<Rightarrow> u16" where
  "SC_GET_META d = push_bit 8 (ucast (sd_shifted d)) OR ucast (sd_ascii d)"

text \<open>The flags of a letter.\<close>

abbreviation (input) SC_LETTER :: u8 where "SC_LETTER \<equiv> SC_SHIFTS OR SC_CAPSLOCK OR SC_CTRL"

definition scascii :: "scandef list" where
  "scascii = [
     Scan 0 0 0, Scan 0x1b 0 0, Scan 0x31 0x21 SC_SHIFTS, Scan 0x32 0x40 SC_SHIFTS, Scan 0x33 0x23 SC_SHIFTS,
     Scan 0x34 0x24 SC_SHIFTS, Scan 0x35 0x25 SC_SHIFTS, Scan 0x36 0x5e SC_SHIFTS, Scan 0x37 0x26 SC_SHIFTS,
     Scan 0x38 0x2a SC_SHIFTS, Scan 0x39 0x28 SC_SHIFTS, Scan 0x30 0x29 SC_SHIFTS, Scan 0x2d 0x5f SC_SHIFTS,
     Scan 0x3d 0x2b SC_SHIFTS, Scan 0x08 0 0, Scan 0x09 0 0, Scan 0x71 0x51 SC_LETTER, Scan 0x77 0x57 SC_LETTER,
     Scan 0x65 0x45 SC_LETTER, Scan 0x72 0x52 SC_LETTER, Scan 0x74 0x54 SC_LETTER, Scan 0x79 0x59 SC_LETTER,
     Scan 0x75 0x55 SC_LETTER, Scan 0x69 0x49 SC_LETTER, Scan 0x6f 0x4f SC_LETTER, Scan 0x70 0x50 SC_LETTER,
     Scan 0x5b 0x7b (SC_SHIFTS OR SC_CTRL), Scan 0x5d 0x7d (SC_SHIFTS OR SC_CTRL), Scan 0xa 0 SC_E0,
     MKMETA SC_META_LCTRL SC_E0, Scan 0x61 0x41 SC_LETTER, Scan 0x73 0x53 SC_LETTER, Scan 0x64 0x44 SC_LETTER,
     Scan 0x66 0x46 SC_LETTER, Scan 0x67 0x47 SC_LETTER, Scan 0x68 0x48 SC_LETTER, Scan 0x6a 0x4a SC_LETTER,
     Scan 0x6b 0x4b SC_LETTER, Scan 0x6c 0x4c SC_LETTER, Scan 0x3b 0x3a SC_SHIFTS, Scan 0x27 0x22 SC_SHIFTS,
     Scan 0x60 0x7e SC_SHIFTS, MKMETA SC_META_LSHIFT 0, Scan 0x5c 0x7c (SC_SHIFTS OR SC_CTRL),
     Scan 0x7a 0x5a SC_LETTER, Scan 0x78 0x58 SC_LETTER, Scan 0x63 0x43 SC_LETTER, Scan 0x76 0x56 SC_LETTER,
     Scan 0x62 0x42 SC_LETTER, Scan 0x6e 0x4e SC_LETTER, Scan 0x6d 0x4d SC_LETTER, Scan 0x2c 0x3c SC_SHIFTS,
     Scan 0x2e 0x3e SC_SHIFTS, Scan 0x2f 0x3f (SC_SHIFTS OR SC_E0), MKMETA SC_META_RSHIFT 0, Scan 0x2a 0 0,
     MKMETA SC_META_LALT SC_E0, Scan 0x20 0 0, MKMETA SC_META_CAPSLOCK 0, Scan 0x01 0 SC_EXT, Scan 0x02 0 SC_EXT,
     Scan 0x03 0 SC_EXT, Scan 0x04 0 SC_EXT, Scan 0x05 0 SC_EXT, Scan 0x06 0 SC_EXT, Scan 0x07 0 SC_EXT,
     Scan 0x08 0 SC_EXT, Scan 0x09 0 SC_EXT, Scan 0x0a 0 SC_EXT, MKMETA SC_META_NUMLOCK 0, MKMETA SC_META_SCRLOCK 0,
     Scan 0x37 0x20 (SC_NUML OR SC_E0), Scan 0x38 0x24 (SC_NUML OR SC_E0), Scan 0x39 0x22 (SC_NUML OR SC_E0),
     Scan 0x2d 0 0, Scan 0x34 0x26 (SC_NUML OR SC_E0), Scan 0x35 0 0, Scan 0x36 0x27 (SC_NUML OR SC_E0),
     Scan 0x2b 0 0, Scan 0x31 0x21 (SC_NUML OR SC_E0), Scan 0x32 0x25 (SC_NUML OR SC_E0),
     Scan 0x33 0x23 (SC_NUML OR SC_E0), Scan 0x30 0x28 (SC_NUML OR SC_E0), Scan 0x2e 0x29 (SC_NUML OR SC_E0),
     Scan 0 0 0, Scan 0 0 0, Scan 0 0 0, Scan 0x0b 0 SC_EXT, Scan 0x0c 0 SC_EXT, Scan 0 0 0, Scan 0 0 0,
     Scan 0x2a 0 SC_E0, Scan 0x2a 0 SC_E0, Scan 0x2b 0 SC_E0]"

definition nscascii :: nat where "nscascii = 94"

section \<open>State\<close>

definition MAXQ :: nat where "MAXQ = 32"

text \<open>\<open>readers\<close> is the queue \<open>k_readers\<close> of the scheduler.\<close>

record kbd =
  k_scqueue :: "nat \<Rightarrow> u8"
  k_qhead :: nat
  k_qtail :: nat
  k_lost :: int
  k_prefix :: u8
  k_meta :: u16
  k_keyqueue :: "nat \<Rightarrow> u8"
  k_kqhead :: nat
  k_kqtail :: nat
  k_readers :: taskq

definition SHIFTLOCK :: "u16 \<Rightarrow> bool" where
  "SHIFTLOCK x \<longleftrightarrow> x AND (SC_META_CAPSLOCK OR SC_META_NUMLOCK OR SC_META_SCRLOCK) \<noteq> 0"

definition SHIFTED :: "u16 \<Rightarrow> bool" where
  "SHIFTED w \<longleftrightarrow> w AND (SC_META_LSHIFT OR SC_META_RSHIFT) \<noteq> 0"

definition CTRLED :: "u16 \<Rightarrow> bool" where
  "CTRLED w \<longleftrightarrow> w AND (SC_META_LCTRL OR SC_META_RCTRL) \<noteq> 0"

definition CAPSLOCK :: "u16 \<Rightarrow> bool" where "CAPSLOCK w \<longleftrightarrow> w AND SC_META_CAPSLOCK \<noteq> 0"
definition NUMLOCK :: "u16 \<Rightarrow> bool" where "NUMLOCK w \<longleftrightarrow> w AND SC_META_NUMLOCK \<noteq> 0"

definition CTRLMASK :: u8 where "CTRLMASK = 0x1f"

definition con_init :: "kbd \<Rightarrow> sched \<Rightarrow> kbd \<times> sched" where
  "con_init k s =
     (k\<lparr>k_qhead := 0, k_qtail := 0, k_kqhead := 0, k_kqtail := 0, k_lost := 0\<rparr>, taskq_init (k_readers k) s)"

definition con_open :: "int \<Rightarrow> int" where "con_open u = 0"
definition con_close :: "int \<Rightarrow> int" where "con_close u = 0"

section \<open>The interrupt\<close>

partial_function (option) wake_readers :: "taskq \<Rightarrow> sched \<Rightarrow> sched option" where
  "wake_readers q s = (if qhead s q = 0 then Some s else wake_readers q (task_unblock (qhead s q) s))"

text \<open>\<open>Inl k\<close>: the loop took all bytes, \<open>got\<close> of them queued; \<open>Inr (r, k)\<close>: it returned \<open>r\<close>, and
  \<open>dbg\<close> is the debugger, entered with interrupts off.\<close>

fun kbd_take :: "(kbd \<times> sched \<Rightarrow> kbd \<times> sched) \<Rightarrow> nat \<Rightarrow> u8 list \<Rightarrow> kbd \<Rightarrow> sched \<Rightarrow> (nat \<times> kbd) + (int \<times> kbd \<times> sched)" where
  "kbd_take dbg got [] k s = Inl (got, k)"
| "kbd_take dbg got (data # ds) k s =
     (if data = 0x3b
      then Inr (1, dbg (k\<lparr>k_qhead := 0, k_qtail := 0, k_kqhead := 0, k_kqtail := 0\<rparr>, s\<lparr>iflag := False\<rparr>))
      else if (k_qtail k + 1) mod MAXQ = k_qhead k then Inr (0, k\<lparr>k_lost := k_lost k + 1\<rparr>, s)
      else kbd_take dbg (got + 1) ds
             (k\<lparr>k_scqueue := (k_scqueue k)(k_qtail k := data), k_qtail := (k_qtail k + 1) mod MAXQ\<rparr>) s)"

definition kbd_intr ::
  "(kbd \<times> sched \<Rightarrow> kbd \<times> sched) \<Rightarrow> u8 list \<Rightarrow> kbd \<Rightarrow> sched \<Rightarrow> (int \<times> kbd \<times> sched) res" where
  "kbd_intr dbg ds k s =
     (case kbd_take dbg 0 ds k s of
        Inr r \<Rightarrow> Ok r
      | Inl (got, k1) \<Rightarrow>
          if got \<noteq> 0 then bind_res (of_loop (wake_readers (k_readers k1) s)) (\<lambda>s1. Ok (0, k1, s1))
          else Ok (0, k1, s))"

section \<open>From scan codes to keys\<close>

text \<open>The shift state after a meta key.\<close>

definition meta_key :: "scandef \<Rightarrow> bool \<Rightarrow> bool \<Rightarrow> u16 \<Rightarrow> u16" where
  "meta_key d ext up mt =
     (let m0 = SC_GET_META d;
          m1 = (if ext then (if m0 = SC_META_LCTRL then SC_META_RCTRL
                             else if m0 = SC_META_LALT then SC_META_RALT else m0) else m0)
      in if SHIFTLOCK m1 then (if \<not> up then mt XOR m1 else mt)
         else if up then mt AND NOT m1 else mt OR m1)"

text \<open>The key of any other entry.\<close>

definition key_of :: "scandef \<Rightarrow> bool \<Rightarrow> u16 \<Rightarrow> u8" where
  "key_of d ext mt =
     (let exto = sd_flags d AND SC_EXT \<noteq> 0;
          (key, exto) =
            (if sd_flags d AND SC_CTRL \<noteq> 0 \<and> CTRLED mt then (sd_ascii d AND CTRLMASK, exto)
             else if sd_flags d AND SC_NUML \<noteq> 0 then
               (if ext then (sd_shifted d, True)
                else if NUMLOCK mt then (sd_ascii d, exto) else (sd_shifted d, True))
             else (let sh = False;
                       sh = (if CAPSLOCK mt \<and> sd_flags d AND SC_CAPSLOCK \<noteq> 0 then \<not> sh else sh);
                       sh = (if SHIFTED mt \<and> sd_flags d AND SC_SHIFTS \<noteq> 0 then \<not> sh else sh)
                   in (if sh then sd_shifted d else sd_ascii d, exto)))
      in if exto then key OR 0x80 else key)"

text \<open>\<open>beyond\<close> is what memory holds behind the table: the code lets the index \<open>nscascii\<close> pass.\<close>

definition con_descan :: "scandef \<Rightarrow> u8 \<Rightarrow> kbd \<Rightarrow> kbd" where
  "con_descan beyond sc k =
     (if (k_kqtail k + 1) mod MAXQ = k_kqhead k then k
      else if sc = SC_EXT_PREFIX then k\<lparr>k_prefix := SC_EXT_PREFIX\<rparr>
      else (let ext = (k_prefix k = SC_EXT_PREFIX);
                k1 = k\<lparr>k_prefix := 0\<rparr>;
                up = (sc AND SC_KEYUP \<noteq> 0);
                sc1 = (if up then sc AND NOT SC_KEYUP else sc)
            in if nscascii < unat sc1 then k1
               else (let d = (if unat sc1 = nscascii then beyond else scascii ! unat sc1)
                     in if ext \<and> sd_flags d AND SC_E0 = 0 then k1
                        else if sd_flags d AND SC_META \<noteq> 0 then k1\<lparr>k_meta := meta_key d ext up (k_meta k1)\<rparr>
                        else if up then k1
                        else k1\<lparr>k_keyqueue := (k_keyqueue k1)(k_kqtail k1 := key_of d ext (k_meta k1)),
                                k_kqtail := (k_kqtail k1 + 1) mod MAXQ\<rparr>)))"

text \<open>A scan code of zero ends the loop as an empty queue does.\<close>

partial_function (option) con_descan_all :: "scandef \<Rightarrow> kbd \<Rightarrow> kbd option" where
  "con_descan_all beyond k =
     (let sc = (if k_qhead k \<noteq> k_qtail k then k_scqueue k (k_qhead k) else 0);
          k1 = (if k_qhead k \<noteq> k_qtail k then k\<lparr>k_qhead := (k_qhead k + 1) mod MAXQ\<rparr> else k)
      in if sc = 0 then Some k1 else con_descan_all beyond (con_descan beyond sc k1))"

section \<open>Reading\<close>

text \<open>A negative size is never counted down to zero.\<close>

partial_function (option) take_keys :: "int \<Rightarrow> kbd \<Rightarrow> (u8 list \<times> kbd) option" where
  "take_keys sz k =
     (if k_kqhead k \<noteq> k_kqtail k \<and> sz \<noteq> 0
      then Option.bind (take_keys (sz - 1) (k\<lparr>k_kqhead := (k_kqhead k + 1) mod MAXQ\<rparr>)) (\<lambda>(bs, k1).
           Some (k_keyqueue k (k_kqhead k) # bs, k1))
      else Some ([], k))"

text \<open>One turn of the loop of \<open>con_read\<close>: \<open>Inl\<close> with the result and the bytes stored, or \<open>Inr\<close>,
  blocked on the queue of readers.\<close>

definition con_read ::
  "scandef \<Rightarrow> ctx \<Rightarrow> int \<Rightarrow> int \<Rightarrow> kbd \<Rightarrow> sched \<Rightarrow> ((int \<times> u8 list \<times> kbd) + kbd \<times> sched) res" where
  "con_read beyond c u sz k s =
     (if u \<noteq> 0 then Ok (Inl (- ENODEV, [], k))
      else if sz = 0 then Ok (Inl (0, [], k))
      else bind_res (of_loop (con_descan_all beyond k)) (\<lambda>k1.
           if k_kqhead k1 \<noteq> k_kqtail k1
           then bind_res (of_loop (take_keys sz k1)) (\<lambda>(bs, k2). Ok (Inl (int (length bs), bs, k2)))
           else bind_res (task_block c (k_readers k1) s) (\<lambda>s1. Ok (Inr (k1, s1)))))"

definition con_getch :: "scandef \<Rightarrow> kbd \<Rightarrow> (u8 \<times> kbd) res" where
  "con_getch beyond k =
     bind_res (of_loop (con_descan_all beyond k)) (\<lambda>k1.
       Ok (if k_kqhead k1 \<noteq> k_kqtail k1
           then (k_keyqueue k1 (k_kqhead k1), k1\<lparr>k_kqhead := (k_kqhead k1 + 1) mod MAXQ\<rparr>) else (0, k1)))"

end
