(* ===== verification/KeyThms.thy ===== *)
theory KeyThms
  imports Keyboard SchedThms
begin

text \<open>
  What the keyboard does: the two ring buffers as lists, the decoder as a step on the list of keys,
  and the readers that the interrupt wakes.
\<close>

section \<open>The queues as lists\<close>

definition kbd_ok :: "kbd \<Rightarrow> bool" where
  "kbd_ok k \<longleftrightarrow> k_qhead k < MAXQ \<and> k_qtail k < MAXQ \<and> k_kqhead k < MAXQ \<and> k_kqtail k < MAXQ"

definition scans :: "kbd \<Rightarrow> u8 list" where
  "scans k = ring_list (k_scqueue k) MAXQ (k_qhead k) (k_qtail k)"

definition keys :: "kbd \<Rightarrow> u8 list" where
  "keys k = ring_list (k_keyqueue k) MAXQ (k_kqhead k) (k_kqtail k)"

lemma kbd_okD:
  assumes "kbd_ok k"
  shows "k_qhead k < MAXQ" "k_qtail k < MAXQ" "k_kqhead k < MAXQ" "k_kqtail k < MAXQ"
    "Suc (k_qhead k) mod MAXQ = nxt MAXQ (k_qhead k)" "Suc (k_qtail k) mod MAXQ = nxt MAXQ (k_qtail k)"
    "Suc (k_kqhead k) mod MAXQ = nxt MAXQ (k_kqhead k)" "Suc (k_kqtail k) mod MAXQ = nxt MAXQ (k_kqtail k)"
  using assms nxt_mod [of _ MAXQ] by (auto simp: kbd_ok_def)

lemma ring_full: "h < n \<Longrightarrow> t < n \<Longrightarrow> nxt n t = h \<longleftrightarrow> Suc (ring_len n h t) = n"
  by (auto simp: ring_len_def nxt_def)

lemma length_scans: "length (scans k) = ring_len MAXQ (k_qhead k) (k_qtail k)"
  and length_keys: "length (keys k) = ring_len MAXQ (k_kqhead k) (k_kqtail k)"
  by (simp_all add: scans_def keys_def)

section \<open>The interrupt\<close>

lemma wake_one:
  assumes "sched_ok Q s" "Q q = t # ts" "\<not> is_tq q"
  shows "sched_ok (requeue (TQ (t_pri (tk s t))) t Q) (task_unblock t s)" "requeue (TQ (t_pri (tk s t))) t Q q = ts"
    "t_state (tk (task_unblock t s) t) = TS_READY" "t \<noteq> 0" "t \<notin> set ts"
    "x \<noteq> t \<Longrightarrow> t_state (tk (task_unblock t s) x) = t_state (tk s x)"
proof -
  have Q: "queues Q s" and q: "q_ok q (tk s t)" using assms by (auto simp: sched_ok_def tasks_ok_def)
  show t: "t \<noteq> 0" and "t \<notin> set ts" using queuesD(3,4) [OF Q, of q] assms(2) by auto
  have b: "t_state (tk s t) = TS_BLOCKED" "t_pri (tk s t) < TASK_NPRI"
    using q assms(3) by (auto simp: q_ok_def is_tq_def split: taskq.splits)
  show "sched_ok (requeue (TQ (t_pri (tk s t))) t Q) (task_unblock t s)"
    using unblock_ok [of Q "s\<lparr>iflag := False\<rparr>" t] assms(1) t b by (simp add: task_unblock_def Let_def)
  show "requeue (TQ (t_pri (tk s t))) t Q q = ts"
    using assms(2,3) by (auto simp: requeue_def qadd_def qdrop_def is_tq_def)
  show "t_state (tk (task_unblock t s) t) = TS_READY"
    using t b by (simp add: task_unblock_def Let_def ENQUEUE_def)
  show "x \<noteq> t \<Longrightarrow> t_state (tk (task_unblock t s) x) = t_state (tk s x)"
    using t b by (simp add: task_unblock_def Let_def ENQUEUE_def)
qed

lemma wake_readers_ok:
  "sched_ok Q s \<Longrightarrow> \<not> is_tq q \<Longrightarrow> Q q = ts \<Longrightarrow>
   \<exists>Q' s'. wake_readers q s = Some s' \<and> sched_ok Q' s' \<and> Q' q = [] \<and> (\<forall>t \<in> set ts. t_state (tk s' t) = TS_READY)
     \<and> (\<forall>t. t \<notin> set ts \<longrightarrow> t_state (tk s' t) = t_state (tk s t))"
proof (induction ts arbitrary: Q s)
  case Nil
  then have "qhead s q = 0" using queuesD(2) [of Q s q] by (simp add: sched_ok_def tasks_ok_def)
  with Nil show ?case by (subst wake_readers.simps) auto
next
  case (Cons t ts)
  note w = wake_one [OF Cons.prems(1,3,2)]
  have "qhead s q = t" using queuesD(2) [of Q s q] Cons.prems by (simp add: sched_ok_def tasks_ok_def)
  moreover obtain Q' s' where "wake_readers q (task_unblock t s) = Some s'" "sched_ok Q' s'" "Q' q = []"
    "\<forall>t \<in> set ts. t_state (tk s' t) = TS_READY" "\<forall>x. x \<notin> set ts \<longrightarrow> t_state (tk s' x) = t_state (tk (task_unblock t s) x)"
    using Cons.IH [OF w(1) Cons.prems(2) w(2)] by blast
  ultimately show ?case using w(3-6) by (subst wake_readers.simps) auto
qed

lemma kbd_take_ok:
  "kbd_ok k \<Longrightarrow> 0x3b \<notin> set ds \<Longrightarrow> length (scans k) + length ds < MAXQ \<Longrightarrow>
   \<exists>k'. kbd_take dbg got ds k s = Inl (got + length ds, k') \<and> kbd_ok k' \<and> scans k' = scans k @ ds
     \<and> keys k' = keys k \<and> k_readers k' = k_readers k \<and> k_lost k' = k_lost k"
proof (induction ds arbitrary: k got)
  case (Cons d ds)
  note K = kbd_okD [OF Cons.prems(1)]
  let ?k = "k\<lparr>k_scqueue := (k_scqueue k)(k_qtail k := d), k_qtail := nxt MAXQ (k_qtail k)\<rparr>"
  have f: "nxt MAXQ (k_qtail k) \<noteq> k_qhead k" "Suc (ring_len MAXQ (k_qhead k) (k_qtail k)) \<noteq> MAXQ"
    using Cons.prems(3) ring_full [OF K(1,2)] by (auto simp: length_scans)
  then have s: "scans ?k = scans k @ [d]" using ring_push [OF K(1,2)] by (simp add: scans_def)
  have ok: "kbd_ok ?k" and ks: "keys ?k = keys k" using Cons.prems(1) K by (simp_all add: kbd_ok_def keys_def)
  obtain k' where "kbd_take dbg (got + 1) ds ?k s = Inl (got + 1 + length ds, k')" "kbd_ok k'" "scans k' = scans ?k @ ds"
     "keys k' = keys ?k" "k_readers k' = k_readers ?k" "k_lost k' = k_lost ?k"
    using Cons.IH [OF ok, of "got + 1"] Cons.prems(2,3) s by auto
  then show ?case using f K Cons.prems(2) s ks by auto
qed simp

lemma kbd_take_full:
  "kbd_ok k \<Longrightarrow> 0x3b \<notin> set ds \<Longrightarrow> length (scans k) + length ds = MAXQ - 1 \<Longrightarrow> d \<noteq> 0x3b \<Longrightarrow>
   \<exists>k'. kbd_take dbg got (ds @ d # es) k s = Inr (0, k', s) \<and> kbd_ok k' \<and> scans k' = scans k @ ds \<and> k_lost k' = k_lost k + 1"
proof (induction ds arbitrary: k got)
  case Nil
  then have "nxt MAXQ (k_qtail k) = k_qhead k"
    using kbd_okD [OF Nil.prems(1)] ring_full [of "k_qhead k" MAXQ "k_qtail k"] by (simp add: length_scans)
  with Nil kbd_okD [OF Nil.prems(1)] show ?case by (auto simp: kbd_ok_def scans_def)
next
  case (Cons c ds)
  note K = kbd_okD [OF Cons.prems(1)]
  let ?k = "k\<lparr>k_scqueue := (k_scqueue k)(k_qtail k := c), k_qtail := nxt MAXQ (k_qtail k)\<rparr>"
  have f: "nxt MAXQ (k_qtail k) \<noteq> k_qhead k" "Suc (ring_len MAXQ (k_qhead k) (k_qtail k)) \<noteq> MAXQ"
    using Cons.prems(3) ring_full [OF K(1,2)] by (auto simp: length_scans)
  then have s: "scans ?k = scans k @ [c]" using ring_push [OF K(1,2)] by (simp add: scans_def)
  have ok: "kbd_ok ?k" using Cons.prems(1) K by (simp add: kbd_ok_def)
  have "length (scans ?k) + length ds = MAXQ - 1" using Cons.prems(3) s by simp
  then obtain k' where "kbd_take dbg (got + 1) (ds @ d # es) ?k s = Inr (0, k', s)" "kbd_ok k'" "scans k' = scans ?k @ ds"
     "k_lost k' = k_lost ?k + 1"
    using Cons.IH [OF ok, of "got + 1"] Cons.prems(2,4) by auto
  then show ?case using f K Cons.prems(2) s by auto
qed

section \<open>The decoder\<close>

text \<open>The shift state, and the key if there is one, after a scan code that is not the prefix.\<close>

definition decode :: "scandef \<Rightarrow> bool \<Rightarrow> u8 \<Rightarrow> u16 \<Rightarrow> u16 \<times> u8 list" where
  "decode beyond ext sc mt =
     (let up = (sc AND SC_KEYUP \<noteq> 0); i = unat (sc AND NOT SC_KEYUP);
          d = (if i = nscascii then beyond else scascii ! i)
      in if nscascii < i \<or> ext \<and> sd_flags d AND SC_E0 = 0 then (mt, [])
         else if sd_flags d AND SC_META \<noteq> 0 then (meta_key d ext up mt, [])
         else if up then (mt, []) else (mt, [key_of d ext mt]))"

text \<open>One step on prefix, shift state and waiting keys. When 31 keys wait, scan codes are lost,
  releases and shift keys too.\<close>

fun dstep :: "scandef \<Rightarrow> u8 \<Rightarrow> u8 \<times> u16 \<times> u8 list \<Rightarrow> u8 \<times> u16 \<times> u8 list" where
  "dstep beyond sc (p, mt, ks) =
     (if Suc (length ks) = MAXQ then (p, mt, ks)
      else if sc = SC_EXT_PREFIX then (SC_EXT_PREFIX, mt, ks)
      else (0, fst (decode beyond (p = SC_EXT_PREFIX) sc mt), ks @ snd (decode beyond (p = SC_EXT_PREFIX) sc mt)))"

definition dview :: "kbd \<Rightarrow> u8 \<times> u16 \<times> u8 list" where
  "dview k = (k_prefix k, k_meta k, keys k)"

lemma keyup_clear: "(if sc AND SC_KEYUP \<noteq> 0 then sc AND NOT SC_KEYUP else sc) = sc AND NOT SC_KEYUP"
proof (cases "sc AND SC_KEYUP = 0")
  case True
  have "sc AND NOT SC_KEYUP = sc XOR (sc AND SC_KEYUP)" by (rule bit_word_eqI) (auto simp: bit_simps)
  then show ?thesis using True by simp
qed simp

lemma keyup_same: "sc AND SC_KEYUP = 0 \<Longrightarrow> sc AND NOT SC_KEYUP = sc"
  using keyup_clear [of sc] by simp

lemma con_descan_ok:
  assumes "kbd_ok k"
  shows "dview (con_descan beyond sc k) = dstep beyond sc (dview k)" "kbd_ok (con_descan beyond sc k)"
    "scans (con_descan beyond sc k) = scans k" "k_readers (con_descan beyond sc k) = k_readers k"
proof -
  note K = kbd_okD [OF assms]
  have f: "nxt MAXQ (k_kqtail k) = k_kqhead k \<longleftrightarrow> Suc (length (keys k)) = MAXQ"
    using ring_full [OF K(3,4)] by (simp add: length_keys)
  have p: "keys (k\<lparr>k_prefix := a, k_keyqueue := (k_keyqueue k)(k_kqtail k := x), k_kqtail := nxt MAXQ (k_kqtail k)\<rparr>) = keys k @ [x]"
    if "Suc (length (keys k)) \<noteq> MAXQ" for a x
    using ring_push [OF K(3,4), of "k_keyqueue k" x] that by (simp add: keys_def)
  have s: "keys (k\<lparr>k_prefix := a\<rparr>) = keys k" "keys (k\<lparr>k_prefix := a, k_meta := b\<rparr>) = keys k" for a b by (simp_all add: keys_def)
  show "dview (con_descan beyond sc k) = dstep beyond sc (dview k)"
    by (simp add: con_descan_def dview_def decode_def Let_def f K s p keyup_clear keyup_same)
  show "kbd_ok (con_descan beyond sc k)" "scans (con_descan beyond sc k) = scans k" "k_readers (con_descan beyond sc k) = k_readers k"
    using assms K by (simp_all add: con_descan_def Let_def kbd_ok_def scans_def)
qed

lemma con_descan_all_ok:
  "kbd_ok k \<Longrightarrow> scans k = ss \<Longrightarrow>
   \<exists>k'. con_descan_all beyond k = Some k' \<and> kbd_ok k' \<and> dview k' = fold (dstep beyond) (takeWhile (\<lambda>c. c \<noteq> 0) ss) (dview k)
     \<and> scans k' = tl (dropWhile (\<lambda>c. c \<noteq> 0) ss) \<and> k_readers k' = k_readers k"
proof (induction ss arbitrary: k)
  case Nil
  then have "k_qhead k = k_qtail k" using kbd_okD(1,2) [OF Nil.prems(1)] by (simp add: scans_def)
  with Nil show ?case by (subst con_descan_all.simps) simp
next
  case (Cons c cs)
  note K = kbd_okD [OF Cons.prems(1)]
  have h: "k_qhead k \<noteq> k_qtail k" using Cons.prems(2) by (auto simp: scans_def)
  let ?k = "k\<lparr>k_qhead := nxt MAXQ (k_qhead k)\<rparr>"
  have c: "k_scqueue k (k_qhead k) = c" and s: "scans ?k = cs"
    using ring_pop [OF K(1,2) h, of "k_scqueue k"] Cons.prems(2) by (simp_all add: scans_def)
  have ok: "kbd_ok ?k" and d: "dview ?k = dview k" using Cons.prems(1) K by (simp_all add: kbd_ok_def dview_def keys_def)
  show ?case
  proof (cases "c = 0")
    case True
    then show ?thesis using h c s ok d K by (subst con_descan_all.simps) (simp add: Let_def)
  next
    case False
    note D = con_descan_ok [OF ok, of beyond c]
    obtain k' where "con_descan_all beyond (con_descan beyond c ?k) = Some k'" "kbd_ok k'"
      "dview k' = fold (dstep beyond) (takeWhile (\<lambda>c. c \<noteq> 0) cs) (dview (con_descan beyond c ?k))"
      "scans k' = tl (dropWhile (\<lambda>c. c \<noteq> 0) cs)" "k_readers k' = k_readers k"
      using Cons.IH [of "con_descan beyond c ?k"] D s by auto
    then show ?thesis using False h c K D d by (subst con_descan_all.simps) (simp add: Let_def)
  qed
qed

lemma take_keys_ok:
  "kbd_ok k \<Longrightarrow> keys k = ks \<Longrightarrow>
   \<exists>k'. take_keys (int n) k = Some (take n ks, k') \<and> kbd_ok k' \<and> keys k' = drop n ks \<and> k_meta k' = k_meta k \<and> scans k' = scans k"
proof (induction n arbitrary: k ks)
  case 0
  then show ?case by (subst take_keys.simps) simp
next
  case (Suc n)
  note K = kbd_okD [OF Suc.prems(1)]
  show ?case
  proof (cases "k_kqhead k = k_kqtail k")
    case True
    then have "ks = []" using Suc.prems(2) by (simp add: keys_def)
    with True Suc.prems show ?thesis by (subst take_keys.simps) simp
  next
    case False
    let ?k = "k\<lparr>k_kqhead := nxt MAXQ (k_kqhead k)\<rparr>"
    have s: "ks = k_keyqueue k (k_kqhead k) # keys ?k"
      using ring_pop [OF K(3,4) False, of "k_keyqueue k"] Suc.prems(2) by (simp add: keys_def)
    have ok: "kbd_ok ?k" using Suc.prems(1) K by (simp add: kbd_ok_def)
    obtain k' where "take_keys (int n) ?k = Some (take n (keys ?k), k')" "kbd_ok k'" "keys k' = drop n (keys ?k)"
      "k_meta k' = k_meta k" "scans k' = scans k" using Suc.IH [OF ok refl] by (auto simp: scans_def)
    then show ?thesis unfolding s using False K by (subst take_keys.simps) simp
  qed
qed

text \<open>Prefix, shift state and waiting keys when all scan codes up to the first zero are decoded.\<close>

definition decoded :: "scandef \<Rightarrow> kbd \<Rightarrow> u8 \<times> u16 \<times> u8 list" where
  "decoded beyond k = fold (dstep beyond) (takeWhile (\<lambda>c. c \<noteq> 0) (scans k)) (dview k)"

lemma con_read_ok:
  assumes "kbd_ok k" "0 < sz" "decoded beyond k = (p, mt, ks)" "ks \<noteq> []"
  shows "\<exists>k'. con_read beyond c 0 sz k s = Ok (Inl (int (min (length ks) (nat sz)), take (nat sz) ks, k'))
    \<and> kbd_ok k' \<and> keys k' = drop (nat sz) ks \<and> k_meta k' = mt"
proof -
  obtain k1 where k1: "con_descan_all beyond k = Some k1" "kbd_ok k1" "dview k1 = (p, mt, ks)"
    using con_descan_all_ok [OF assms(1) refl, of beyond] assms(3) by (auto simp: decoded_def)
  then have ks: "keys k1 = ks" "k_meta k1 = mt" by (simp_all add: dview_def)
  obtain k2 where "take_keys sz k1 = Some (take (nat sz) ks, k2)" "kbd_ok k2" "keys k2 = drop (nat sz) ks" "k_meta k2 = mt"
    using take_keys_ok [OF k1(2) ks(1), of "nat sz"] ks assms(2) by auto
  moreover have "k_kqhead k1 \<noteq> k_kqtail k1" using assms(4) ks(1) by (auto simp: keys_def)
  ultimately show ?thesis using k1(1) assms(2) by (simp add: con_read_def min.commute)
qed

lemma con_read_blocks:
  assumes "kbd_ok k" "0 < sz" "decoded beyond k = (p, mt, [])" "sched_ok Q s" "other_ready Q (curtask s)" "\<not> is_tq (k_readers k)"
  shows "\<exists>k' s'. con_read beyond c 0 sz k s = Ok (Inr (k', s')) \<and> kbd_ok k' \<and> k_meta k' = mt
    \<and> sched_ok (requeue (k_readers k) (curtask s) Q) s'"
proof -
  obtain k1 where k1: "con_descan_all beyond k = Some k1" "kbd_ok k1" "dview k1 = (p, mt, [])" "k_readers k1 = k_readers k"
    using con_descan_all_ok [OF assms(1) refl, of beyond] assms(3) by (auto simp: decoded_def)
  then have ks: "keys k1 = []" "k_meta k1 = mt" by (simp_all add: dview_def)
  then have "k_kqhead k1 = k_kqtail k1" using kbd_okD(3,4) [OF k1(2)] by (simp add: keys_def)
  moreover obtain s' where "task_block c (k_readers k) s = Ok s'" "sched_ok (requeue (k_readers k) (curtask s) Q) s'"
    using block_ok [of Q "s\<lparr>iflag := False\<rparr>" "k_readers k" _ c] assms(4-6) by (fastforce simp: task_block_def Let_def)
  ultimately show ?thesis using k1 ks assms(2) by (simp add: con_read_def)
qed

section \<open>The keys of the table\<close>

lemmas sc_flags = SC_SHIFTS_def SC_CAPSLOCK_def SC_CTRL_def SC_META_def SC_EXT_def SC_NUML_def SC_E0_def

lemmas sc_metas = SC_META_LSHIFT_def SC_META_LCTRL_def SC_META_LALT_def SC_META_RSHIFT_def SC_META_RALT_def
  SC_META_RCTRL_def SC_META_NUMLOCK_def SC_META_SCRLOCK_def SC_META_CAPSLOCK_def

text \<open>A key is an ASCII character, or one of the function and cursor keys with bit 7 set.\<close>

definition key_typed :: "u8 \<Rightarrow> bool" where
  "key_typed v \<longleftrightarrow> v < 0x80 \<or> 0x81 \<le> v \<and> v \<le> 0x8c \<or> 0xa0 \<le> v \<and> v \<le> 0xa9"

definition entry_ok :: "scandef \<Rightarrow> bool" where
  "entry_ok d \<longleftrightarrow> sd_flags d AND SC_META \<noteq> 0 \<or>
     (let ext = (\<lambda>v. if sd_flags d AND SC_EXT \<noteq> 0 then v OR 0x80 else v)
      in key_typed (ext (sd_ascii d)) \<and> (sd_flags d AND SC_SHIFTS \<noteq> 0 \<or> sd_flags d AND SC_CAPSLOCK \<noteq> 0 \<longrightarrow> key_typed (ext (sd_shifted d)))
        \<and> (sd_flags d AND SC_CTRL \<noteq> 0 \<longrightarrow> key_typed (ext (sd_ascii d AND CTRLMASK)))
        \<and> (sd_flags d AND SC_NUML \<noteq> 0 \<longrightarrow> key_typed (sd_shifted d OR 0x80)))"

lemma table_typed: "\<forall>d \<in> set scascii. entry_ok d"
  by (simp add: scascii_def entry_ok_def Scan_def MKMETA_def sc_flags sc_metas CTRLMASK_def key_typed_def)

lemma length_scascii: "length scascii = nscascii"
  by (simp add: scascii_def nscascii_def)

definition letter_ok :: "scandef \<Rightarrow> bool" where
  "letter_ok d \<longleftrightarrow> (sd_flags d = SC_LETTER \<longrightarrow> 0x61 \<le> sd_ascii d \<and> sd_ascii d \<le> 0x7a
     \<and> sd_shifted d = sd_ascii d - 0x20 \<and> sd_ascii d AND CTRLMASK = sd_ascii d - 0x60)"

lemma table_letters: "\<forall>d \<in> set scascii. letter_ok d"
  by (simp add: scascii_def letter_ok_def Scan_def MKMETA_def sc_flags sc_metas CTRLMASK_def)

lemma key_of_typed:
  assumes "entry_ok d" "sd_flags d AND SC_META = 0"
  shows "key_typed (key_of d ext mt)"
proof -
  define E where "E = (\<lambda>v :: u8. if sd_flags d AND SC_EXT \<noteq> 0 then v OR 0x80 else v)"
  have e: "key_typed (E (sd_ascii d))" "sd_flags d AND SC_SHIFTS \<noteq> 0 \<or> sd_flags d AND SC_CAPSLOCK \<noteq> 0 \<Longrightarrow> key_typed (E (sd_shifted d))"
    "sd_flags d AND SC_CTRL \<noteq> 0 \<Longrightarrow> key_typed (E (sd_ascii d AND CTRLMASK))"
    "sd_flags d AND SC_NUML \<noteq> 0 \<Longrightarrow> key_typed (sd_shifted d OR 0x80)"
    using assms unfolding entry_ok_def Let_def E_def by blast+
  consider "sd_flags d AND SC_CTRL \<noteq> 0" "CTRLED mt" | "\<not> (sd_flags d AND SC_CTRL \<noteq> 0 \<and> CTRLED mt)" "sd_flags d AND SC_NUML \<noteq> 0"
    | "\<not> (sd_flags d AND SC_CTRL \<noteq> 0 \<and> CTRLED mt)" "sd_flags d AND SC_NUML = 0" by blast
  then show ?thesis
  proof cases
    case 1
    then have "key_of d ext mt = E (sd_ascii d AND CTRLMASK)" by (simp add: key_of_def E_def)
    with e(3) 1 show ?thesis by simp
  next
    case 2
    then have "key_of d ext mt = E (sd_ascii d) \<or> key_of d ext mt = sd_shifted d OR 0x80"
      by (cases "CTRLED mt") (simp_all add: key_of_def E_def)
    with e(1,4) 2 show ?thesis by metis
  next
    case 3
    then have "key_of d ext mt = E (sd_ascii d)
      \<or> key_of d ext mt = E (sd_shifted d) \<and> (sd_flags d AND SC_SHIFTS \<noteq> 0 \<or> sd_flags d AND SC_CAPSLOCK \<noteq> 0)"
      by (cases "CTRLED mt") (simp_all add: key_of_def E_def Let_def)
    with e(1,2) show ?thesis by metis
  qed
qed

lemma decode_typed:
  assumes "unat (sc AND NOT SC_KEYUP) \<noteq> nscascii"
  shows "\<forall>v \<in> set (snd (decode beyond ext sc mt)). key_typed v"
proof (cases "nscascii < unat (sc AND NOT SC_KEYUP)")
  case False
  then have "scascii ! unat (sc AND NOT SC_KEYUP) \<in> set scascii" using assms length_scascii by simp
  then have "entry_ok (scascii ! unat (sc AND NOT SC_KEYUP))" using table_typed by blast
  then show ?thesis using assms by (simp add: decode_def Let_def key_of_typed)
qed (simp add: decode_def Let_def)

lemma dsteps_typed:
  "\<forall>v \<in> set ks. key_typed v \<Longrightarrow> \<forall>sc \<in> set scs. unat (sc AND NOT SC_KEYUP) \<noteq> nscascii \<Longrightarrow>
   \<forall>v \<in> set (snd (snd (fold (dstep beyond) scs (p, mt, ks)))). key_typed v"
proof (induction scs arbitrary: p mt ks)
  case (Cons c scs)
  have c: "\<forall>v \<in> set (snd (decode beyond e c mt)). key_typed v" for e by (rule decode_typed) (use Cons.prems(2) in simp)
  obtain p' mt' ks' where d: "dstep beyond c (p, mt, ks) = (p', mt', ks')" by (metis prod_cases3)
  then have "\<forall>v \<in> set ks'. key_typed v" using Cons.prems(1) c by (auto split: if_splits)
  then show ?case using Cons.IH [of ks' p' mt'] Cons.prems(2) d by simp
qed simp

section \<open>Properties\<close>

text \<open>Property C32.
  Reading the keyboard: the scan codes that wait are decoded in order, with the prefix and the shift
  state they leave, behind the keys that wait already; the first \<open>sz\<close> keys are returned, in order,
  and the rest stays. When there is no key the reader blocks on the queue of readers.\<close>

theorem con_read_keys:
  assumes "kbd_ok k" "0 < sz" "decoded beyond k = (p, mt, ks)" "sched_ok Q s" "other_ready Q (curtask s)" "\<not> is_tq (k_readers k)"
  shows "if ks \<noteq> []
    then \<exists>k'. con_read beyond c 0 sz k s = Ok (Inl (int (min (length ks) (nat sz)), take (nat sz) ks, k'))
      \<and> kbd_ok k' \<and> keys k' = drop (nat sz) ks \<and> k_meta k' = mt
    else \<exists>k' s'. con_read beyond c 0 sz k s = Ok (Inr (k', s')) \<and> kbd_ok k' \<and> k_meta k' = mt
      \<and> sched_ok (requeue (k_readers k) (curtask s) Q) s'"
  using con_read_ok [OF assms(1-3)] con_read_blocks [OF assms(1,2) _ assms(4-6)] assms(3) by auto


text \<open>Remark.
  When the queue of scan codes fills up during one interrupt, the handler returns at once: what was
  queued stays, but no reader is woken, and the bytes behind the lost one are not taken from the
  controller.\<close>

theorem kbd_overflow_sleeps:
  assumes "kbd_ok k" "0x3b \<notin> set ds" "length (scans k) + length ds = MAXQ - 1" "d \<noteq> 0x3b"
  shows "\<exists>k'. kbd_intr dbg (ds @ d # es) k s = Ok (0, k', s) \<and> scans k' = scans k @ ds \<and> k_lost k' = k_lost k + 1"
  using kbd_take_full [OF assms, of dbg 0 es s] by (auto simp: kbd_intr_def)


text \<open>Remark.
  The letters: with a control key a letter is its control character; without, it is a capital exactly
  when one of caps lock and shift is on but not both. All 26 letters are in the table.\<close>

theorem letter_keys:
  assumes "d \<in> set scascii" "sd_flags d = SC_LETTER"
  shows "0x61 \<le> sd_ascii d \<and> sd_ascii d \<le> 0x7a
    \<and> key_of d ext mt = (if CTRLED mt then sd_ascii d - 0x60
        else if CAPSLOCK mt \<noteq> SHIFTED mt then sd_ascii d - 0x20 else sd_ascii d)
    \<and> sd_ascii ` {e \<in> set scascii. sd_flags e = SC_LETTER} = {0x61, 0x62, 0x63, 0x64, 0x65, 0x66, 0x67, 0x68, 0x69, 0x6a, 0x6b,
        0x6c, 0x6d, 0x6e, 0x6f, 0x70, 0x71, 0x72, 0x73, 0x74, 0x75, 0x76, 0x77, 0x78, 0x79, 0x7a}"
proof -
  have l: "0x61 \<le> sd_ascii d" "sd_ascii d \<le> 0x7a" "sd_shifted d = sd_ascii d - 0x20" "sd_ascii d AND CTRLMASK = sd_ascii d - 0x60"
    using table_letters assms by (auto simp: letter_ok_def)
  have k: "key_of d ext mt = (if CTRLED mt then sd_ascii d - 0x60
        else if CAPSLOCK mt \<noteq> SHIFTED mt then sd_ascii d - 0x20 else sd_ascii d)"
    using l(3,4) assms(2) by (simp add: key_of_def Let_def) (simp add: sc_flags)
  have "sd_ascii ` {e \<in> set scascii. sd_flags e = SC_LETTER} = sd_ascii ` set (filter (\<lambda>e. sd_flags e = SC_LETTER) scascii)" by simp
  also have "\<dots> = {0x61, 0x62, 0x63, 0x64, 0x65, 0x66, 0x67, 0x68, 0x69, 0x6a, 0x6b,
        0x6c, 0x6d, 0x6e, 0x6f, 0x70, 0x71, 0x72, 0x73, 0x74, 0x75, 0x76, 0x77, 0x78, 0x79, 0x7a}"
    by (simp add: scascii_def Scan_def MKMETA_def sc_flags del: set_filter) auto
  finally show ?thesis using l k by simp
qed

section \<open>Witnesses\<close>

definition w_kbd :: "u8 list \<Rightarrow> kbd" where
  "w_kbd ss = \<lparr>k_scqueue = (\<lambda>i. if i < length ss then ss ! i else 0), k_qhead = 0, k_qtail = length ss, k_lost = 0, k_prefix = 0,
     k_meta = 0, k_keyqueue = (\<lambda>_. 0), k_kqhead = 0, k_kqtail = 0, k_readers = SemaQ 0\<rparr>"

lemma w_kbd_ok: "length ss < 32 \<Longrightarrow> kbd_ok (w_kbd ss)" "keys (w_kbd ss) = []"
  by (simp_all add: kbd_ok_def w_kbd_def MAXQ_def keys_def)

lemma w_scans: "length ss < 32 \<Longrightarrow> scans (w_kbd ss) = ss"
  by (auto simp: scans_def ring_list_def ring_len_def w_kbd_def MAXQ_def intro!: nth_equalityI)

text \<open>Shift down, \<open>a\<close>, shift up, \<open>a\<close>.\<close>

definition w_typed :: "u8 list" where "w_typed = [0x2a, 0x1e, 0xaa, 0x1e]"

definition w_beyond :: scandef where "w_beyond = Scan 0 0 0"

lemma w_decode:
  "decode w_beyond False 0x2a 0 = (1, [])" "decode w_beyond False 0x1e 1 = (1, [0x41])"
  "decode w_beyond False 0xaa 1 = (0, [])" "decode w_beyond False 0x1e 0 = (0, [0x61])"
  by (simp_all add: decode_def nscascii_def scascii_def MKMETA_def Scan_def sc_flags sc_metas SC_KEYUP_def meta_key_def
      SC_GET_META_def SHIFTLOCK_def key_of_def CTRLED_def CAPSLOCK_def SHIFTED_def)

lemma w_decoded: "decoded w_beyond (w_kbd w_typed) = (0, 0, [0x41, 0x61])"
proof -
  have d: "dview (w_kbd w_typed) = (0, 0, [])" by (simp add: dview_def w_kbd_ok) (simp add: w_kbd_def)
  have "scans (w_kbd w_typed) = w_typed" by (rule w_scans) (simp add: w_typed_def)
  then show ?thesis unfolding decoded_def d by (simp add: w_typed_def w_decode SC_EXT_PREFIX_def MAXQ_def)
qed

theorem con_read_keys_witness:
  "\<exists>k'. con_read w_beyond w_ctx 0 1 (w_kbd w_typed) w_sched = Ok (Inl (1, [0x41], k')) \<and> keys k' = [0x61]"
  using con_read_keys [OF w_kbd_ok(1) _ w_decoded w_sched_ok, of 1 w_ctx] w_other
  by (simp add: w_sched_tk w_typed_def, simp add: w_kbd_def is_tq_def) blast


theorem kbd_overflow_sleeps_witness:
  "\<exists>k'. kbd_intr id (replicate 31 0x1e @ [0x1f]) (w_kbd []) w_sched = Ok (0, k', w_sched) \<and> length (scans k') = 31"
  using kbd_overflow_sleeps [OF w_kbd_ok(1), of "[]" "replicate 31 0x1e" "0x1f" id "[]" w_sched]
  by (auto simp: w_scans MAXQ_def)


theorem letter_keys_witness: "key_of (Scan 0x71 0x51 SC_LETTER) False 1 = 0x51"
  using letter_keys [of "Scan 0x71 0x51 SC_LETTER" False 1]
  by (simp add: scascii_def) (simp add: Scan_def CTRLED_def CAPSLOCK_def SHIFTED_def sc_metas)

end
