(* ===== verification/Printk.thy ===== *)
theory Printk
  imports Prelude
begin

text \<open>
  Formatted output: \<open>kernel/PRINTK.C\<close> (\<open>vprintf\<close>, \<open>sprintf\<close>, \<open>kprintf\<close>) and the \<open>printf\<close>
  of the C library, \<open>clib/lib/printf.c\<close>. A format is the list of its characters, the variable
  arguments are the 16-bit words on the stack from \<open>va_start\<close> on, and the strings that \<open>%s\<close>
  points to are given by the memory \<open>near\<close> and \<open>far\<close>. The result is the sequence of
  characters given to \<open>pc\<close>, or \<open>None\<close> when the code reads behind the end of the format or more
  arguments than there are, which C leaves undefined.
\<close>

section \<open>Numbers\<close>

record pflags =
  zeropad :: bool
  is_signed :: bool
  is_long :: bool
  is_ptr :: bool

definition digit :: "nat \<Rightarrow> char" where
  "digit d = char_of (if d \<le> 9 then 48 + d else 65 + d - 10)"

text \<open>The digits in \<open>work\<close>, filled from its end.\<close>

function dec_loop :: "nat \<Rightarrow> string \<Rightarrow> string" where
  "dec_loop val p = (if val = 0 then p else dec_loop (val div 10) (digit (val mod 10) # p))"
  by auto
termination by (relation "measure fst") auto

declare dec_loop.simps [simp del]

text \<open>The three loops that pad, and the sign between the first two.\<close>

definition print_int :: "u32 \<Rightarrow> pflags \<Rightarrow> int \<Rightarrow> string" where
  "print_int val fl width =
     (let minus = (val \<noteq> 0 \<and> is_signed fl \<and> sint val < 0);
          work = (if val = 0 then ''0'' else dec_loop (unat (if minus then - val else val)) []);
          w1 = width - int (length work);
          zs = (if zeropad fl then replicate (nat w1) CHR ''0'' else []);
          w2 = (if zeropad fl \<and> 0 < w1 then 0 else w1);
          w3 = (if minus then w2 - 1 else w2)
      in zs @ (if minus then ''-'' else []) @ replicate (nat w3) CHR '' '' @ work)"

function hex_loop :: "bool \<Rightarrow> bool \<Rightarrow> nat \<Rightarrow> nat \<Rightarrow> nat \<Rightarrow> string \<Rightarrow> string" where
  "hex_loop ptr lng len i val p =
     (if 0 < val \<or> ptr \<and> i < len
      then let p' = digit (val mod 16) # p
           in hex_loop ptr lng len (i + 1) (val div 16) (if ptr \<and> lng \<and> i + 1 = 4 then CHR '':'' # p' else p')
      else p)"
  by auto
termination
proof (relation "measure (\<lambda>(ptr, lng, len, i, val, p). val + (len - i))")
  fix ptr lng p x and len i val :: nat
  assume a: "0 < val \<or> ptr \<and> i < len"
  have "val div 16 + (len - (i + 1)) < val + (len - i)"
  proof (cases "0 < val")
    case True
    then have "val div 16 < val" by simp
    then show ?thesis by linarith
  qed (use a in auto)
  then show "((ptr, lng, len, i + 1, val div 16, if ptr \<and> lng \<and> i + 1 = 4 then CHR '':'' # x else x), ptr, lng, len, i, val, p)
      \<in> measure (\<lambda>(ptr, lng, len, i, val, p). val + (len - i))" by simp
qed simp

declare hex_loop.simps [simp del]

definition print_hex :: "u32 \<Rightarrow> pflags \<Rightarrow> int \<Rightarrow> string" where
  "print_hex val fl width =
     (let len = (if is_long fl then 8 else 4);
          work = (if val = 0 then
                    (if is_ptr fl then (if is_long fl then ''0000:'' else []) @ ''0000'' else ''0'')
                  else hex_loop (is_ptr fl) (is_long fl) len 0 (unat val) [])
      in (if is_ptr fl then []
          else replicate (nat (width - int (length work))) (if zeropad fl then CHR ''0'' else CHR '' '')) @ work)"

section \<open>Formats\<close>

text \<open>
  A conversion after the percent sign: the format ends there, or the code steps over its end, or
  there are flags, a width, the conversion character and what follows it. The width is a 16-bit
  \<open>int\<close>.
\<close>

definition is_digit :: "char \<Rightarrow> bool" where
  "is_digit c \<longleftrightarrow> 48 \<le> (of_char c :: nat) \<and> (of_char c :: nat) \<le> 57"

definition int16 :: "int \<Rightarrow> int" where
  "int16 x = sint (word_of_int x :: u16)"

fun scan_width :: "int \<Rightarrow> string \<Rightarrow> int \<times> string" where
  "scan_width w [] = (w, [])"
| "scan_width w (c # p) =
     (if is_digit c
      then scan_width (int16 ((if w = - 1 then 0 else int16 (w * 10)) + (int (of_char c) - 48))) p
      else (w, c # p))"

datatype conv = FmtEnd | Overrun | Conv bool int bool char string

definition conv_width :: "bool \<Rightarrow> string \<Rightarrow> conv" where
  "conv_width zp p =
     (case scan_width (- 1) p of
        (w, []) \<Rightarrow> Overrun
      | (w, c # r) \<Rightarrow>
          if c = CHR ''l'' then (case r of [] \<Rightarrow> FmtEnd | c2 # r2 \<Rightarrow> Conv zp w True c2 r2)
          else Conv zp w False c r)"

definition conv_spec :: "string \<Rightarrow> conv" where
  "conv_spec p =
     (case p of
        [] \<Rightarrow> FmtEnd
      | c # r \<Rightarrow> if c = CHR ''0'' then (if r = [] then FmtEnd else conv_width True r)
                else conv_width False p)"

lemma scan_width_length: "length (snd (scan_width w p)) \<le> length p"
  by (induction w p rule: scan_width.induct) auto

lemma conv_width_length: "conv_width zp p = Conv a b c d r \<Longrightarrow> length r < length p"
  using scan_width_length [of "- 1" p]
  by (auto simp: conv_width_def split: prod.splits list.splits if_splits)

lemma conv_spec_length: "conv_spec p = Conv a b c d r \<Longrightarrow> length r < length p"
  by (auto simp: conv_spec_def dest: conv_width_length split: list.splits if_splits)

text \<open>\<open>va_arg\<close> of a type of one or two words.\<close>

fun va_word :: "u16 list \<Rightarrow> (u16 \<times> u16 list) option" where
  "va_word [] = None"
| "va_word (x # va) = Some (x, va)"

fun va_long :: "u16 list \<Rightarrow> (u32 \<times> u16 list) option" where
  "va_long (lo # hi # va) = Some (push_bit 16 (ucast hi) OR ucast lo, va)"
| "va_long _ = None"

record memory =
  near_str :: "u16 \<Rightarrow> string"
  far_str :: "farptr \<Rightarrow> string"

text \<open>One conversion: what it prints, and the arguments that are left.\<close>

definition convert :: "memory \<Rightarrow> bool \<Rightarrow> int \<Rightarrow> bool \<Rightarrow> char \<Rightarrow> u16 list \<Rightarrow> (string \<times> u16 list) option" where
  "convert mm zp w lng c va =
     (let fl = \<lparr>zeropad = zp, is_signed = (c = CHR ''d''), is_long = lng, is_ptr = (c = CHR ''p'')\<rparr>
      in if c \<in> {CHR ''d'', CHR ''u'', CHR ''x'', CHR ''p''} then
           (case (if lng then va_long va
                  else map_option (\<lambda>(x, va'). (if c = CHR ''d'' then scast x else ucast x, va')) (va_word va)) of
              None \<Rightarrow> None
            | Some (arg, va') \<Rightarrow>
                Some (if c = CHR ''u'' \<or> c = CHR ''d'' then print_int arg fl w else print_hex arg fl w, va'))
         else if c = CHR ''s'' then
           (if lng then map_option (\<lambda>(a, va'). (far_str mm (ucast (drop_bit 16 a), ucast a), va')) (va_long va)
            else map_option (\<lambda>(a, va'). (near_str mm a, va')) (va_word va))
         else if c = CHR ''c'' then map_option (\<lambda>(a, va'). ([char_of (unat a mod 256)], va')) (va_word va)
         else Some ([c], va))"

function vprintf :: "memory \<Rightarrow> string \<Rightarrow> u16 list \<Rightarrow> string option" where
  "vprintf mm [] va = Some []"
| "vprintf mm (c # p) va =
     (if c \<noteq> CHR ''%'' then map_option (\<lambda>s. c # s) (vprintf mm p va)
      else (case conv_spec p of
              FmtEnd \<Rightarrow> Some []
            | Overrun \<Rightarrow> None
            | Conv zp w lng ch r \<Rightarrow>
                (case convert mm zp w lng ch va of
                   None \<Rightarrow> None
                 | Some (out, va') \<Rightarrow> map_option (\<lambda>s. out @ s) (vprintf mm r va'))))"
  by pat_completeness auto
termination
  by (relation "measure (\<lambda>(mm, p, va). length p)") (auto dest: conv_spec_length)

text \<open>\<open>sprintf\<close>: the characters at \<open>dst\<close> and their number. No zero is stored after them.\<close>

definition sprintf :: "memory \<Rightarrow> string \<Rightarrow> u16 list \<Rightarrow> (string \<times> nat) option" where
  "sprintf mm fmt va = map_option (\<lambda>s. (s, length s)) (vprintf mm fmt va)"

definition kprintf :: "memory \<Rightarrow> string \<Rightarrow> u16 list \<Rightarrow> string option" where
  "kprintf mm fmt va = vprintf mm fmt va"

text \<open>\<open>printf\<close> of the C library: what it writes, and its result, which leaves strings out.\<close>

function printf :: "memory \<Rightarrow> string \<Rightarrow> u16 list \<Rightarrow> int \<Rightarrow> (string \<times> int) option" where
  "printf mm [] va wrote = Some ([], wrote)"
| "printf mm (c # p) va wrote =
     (if c \<noteq> CHR ''%'' then map_option (\<lambda>(s, n). (c # s, n)) (printf mm p va (wrote + 1))
      else (case conv_spec p of
              FmtEnd \<Rightarrow> Some ([], wrote)
            | Overrun \<Rightarrow> None
            | Conv zp w lng ch r \<Rightarrow>
                (case convert mm zp w lng ch va of
                   None \<Rightarrow> None
                 | Some (out, va') \<Rightarrow>
                     map_option (\<lambda>(s, n). (out @ s, n))
                       (printf mm r va' (if ch = CHR ''s'' then wrote else wrote + int (length out))))))"
  by pat_completeness auto
termination
  by (relation "measure (\<lambda>(mm, p, va, wrote). length p)") (auto dest: conv_spec_length)

section \<open>Numbers are printed correctly\<close>

text \<open>What a string of digits stands for.\<close>

definition digit_val :: "char \<Rightarrow> nat" where
  "digit_val c = (if is_digit c then of_char c - 48 else of_char c - 55)"

definition num_val :: "nat \<Rightarrow> string \<Rightarrow> nat" where
  "num_val b = foldl (\<lambda>n c. b * n + digit_val c) 0"

lemma num_val_append: "num_val b (p @ [c]) = b * num_val b p + digit_val c"
  by (simp add: num_val_def)

lemma digit_facts: "d < 16 \<Longrightarrow> digit_val (digit d) = d \<and> (is_digit (digit d) \<longleftrightarrow> d < 10) \<and> (digit d = CHR ''0'' \<longleftrightarrow> d = 0)"
  by (auto simp: digit_def digit_val_def is_digit_def of_char_of char_of_eq_iff take_bit_nat_eq_self)

lemma dec_loop_append: "dec_loop v p = dec_loop v [] @ p"
proof (induction v arbitrary: p rule: less_induct)
  case (less v)
  show ?case
  proof (cases "v = 0")
    case False
    then have lt: "v div 10 < v" by simp
    show ?thesis
      by (subst (1 2) dec_loop.simps)
        (simp add: less [OF lt, of "digit (v mod 10) # p"] less [OF lt, of "[digit (v mod 10)]"])
  qed (simp add: dec_loop.simps)
qed

lemma dec_loop_val: "num_val 10 (dec_loop v []) = v \<and> (\<forall>c \<in> set (dec_loop v []). is_digit c)
    \<and> (0 < v \<longrightarrow> dec_loop v [] \<noteq> [] \<and> hd (dec_loop v []) \<noteq> CHR ''0'')"
proof (induction v rule: less_induct)
  case (less v)
  show ?case
  proof (cases "v = 0")
    case True
    then show ?thesis by (simp add: dec_loop.simps num_val_def)
  next
    case False
    then have lt: "v div 10 < v" by simp
    have e: "dec_loop v [] = dec_loop (v div 10) [] @ [digit (v mod 10)]"
      using False by (subst dec_loop.simps) (simp add: dec_loop_append [of _ "[_]"])
    show ?thesis
    proof (cases "v div 10 = 0")
      case True
      then have "dec_loop v [] = [digit v]" using e False by (simp add: dec_loop.simps)
      moreover have "v < 10" using True by simp
      ultimately show ?thesis using False digit_facts [of v] by (simp add: num_val_def)
    next
      case False
      then show ?thesis using less [OF lt] digit_facts [of "v mod 10"]
        by (auto simp: e num_val_append hd_append)
    qed
  qed
qed

lemma hex_loop_plain: "hex_loop False lng len i v p = hex_loop False False 0 0 v [] @ p"
proof (induction v arbitrary: lng len i p rule: less_induct)
  case (less v)
  show ?case
  proof (cases "v = 0")
    case False
    then have lt: "v div 16 < v" by simp
    show ?thesis
      by (subst (1 2) hex_loop.simps)
        (use False in \<open>simp add: Let_def less [OF lt, of _ _ _ "digit (v mod 16) # p"] less [OF lt, of _ _ _ "[digit (v mod 16)]"]\<close>)
  qed (simp add: hex_loop.simps)
qed

definition hex_digits :: "nat \<Rightarrow> string" where
  "hex_digits v = hex_loop False False 0 0 v []"

lemma hex_digits_step: "0 < v \<Longrightarrow> hex_digits v = hex_digits (v div 16) @ [digit (v mod 16)]"
  unfolding hex_digits_def
  by (subst hex_loop.simps) (simp add: Let_def hex_loop_plain [of False 4 "Suc 0" "v div 16" "[digit (v mod 16)]"]
    hex_loop_plain [of False 0 "Suc 0" "v div 16" "[digit (v mod 16)]"])

lemma hex_digits_val: "num_val 16 (hex_digits v) = v \<and> (v < 16 ^ k \<longrightarrow> length (hex_digits v) \<le> k)"
proof (induction v arbitrary: k rule: less_induct)
  case (less v)
  show ?case
  proof (cases "v = 0")
    case True
    then show ?thesis by (simp add: hex_digits_def hex_loop.simps num_val_def)
  next
    case False
    then have lt: "v div 16 < v" by simp
    have "v < 16 ^ k \<longrightarrow> length (hex_digits v) \<le> k"
    proof (cases k)
      case (Suc j)
      then show ?thesis using less [OF lt, of j] False by (simp add: hex_digits_step less_mult_imp_div_less mult.commute)
    qed (use False in simp)
    then show ?thesis using less [OF lt, of 0] False digit_facts [of "v mod 16"]
      by (simp add: hex_digits_step num_val_append)
  qed
qed

lemma num_val_zeros: "num_val b (replicate n CHR ''0'' @ p) = num_val b p"
proof (induction n)
  case (Suc n)
  then show ?case by (simp add: num_val_def digit_val_def is_digit_def)
qed simp

text \<open>A zero-padded field that is wide enough.\<close>

lemma print_hex_padded:
  assumes "unat v < 16 ^ k" "zeropad fl" "\<not> is_ptr fl" "0 < k"
  shows "length (print_hex v fl (int k)) = k \<and> num_val 16 (print_hex v fl (int k)) = unat v"
proof (cases "v = 0")
  case True
  then show ?thesis using assms num_val_zeros [of 16 "k - 1" "''0''"]
    by (simp add: print_hex_def num_val_def digit_val_def is_digit_def nat_diff_distrib)
next
  case False
  have "print_hex v fl (int k) = replicate (k - length (hex_digits (unat v))) CHR ''0'' @ hex_digits (unat v)"
    using False assms(2,3) hex_loop_plain [of "is_long fl" "if is_long fl then 8 else 4" 0 "unat v" "[]"]
    by (simp add: print_hex_def hex_digits_def nat_diff_distrib Let_def)
  then show ?thesis using hex_digits_val [of "unat v" k] assms(1) by (simp add: num_val_zeros)
qed

section \<open>Properties\<close>

lemma spec_hex:
  "conv_spec ''08lx'' = Conv True 8 True (CHR ''x'') []" "conv_spec ''04x'' = Conv True 4 False (CHR ''x'') []"
  "conv_spec ''02x'' = Conv True 2 False (CHR ''x'') []" "conv_spec ''u'' = Conv False (- 1) False (CHR ''u'') []"
  "conv_spec ''ld'' = Conv False (- 1) True (CHR ''d'') []" "conv_spec ''5d'' = Conv False 5 False (CHR ''d'') []"
  "conv_spec ''05d'' = Conv True 5 False (CHR ''d'') []"
  by (simp_all add: conv_spec_def conv_width_def is_digit_def int16_def)

lemma abs_sint: "sint (v :: u32) < 0 \<Longrightarrow> unat (- v) = nat \<bar>sint v\<bar> \<and> 0 < unat (- v)" "0 \<le> sint v \<Longrightarrow> unat v = nat \<bar>sint v\<bar>"
proof -
  have b: "0 \<le> uint v" "uint v < 4294967296" using unsigned_less [of v, where 'a = int] by simp_all
  show "unat v = nat \<bar>sint v\<bar>" if "0 \<le> sint v"
  proof -
    have "sint v = uint v" using that b sint_u32 [of v] by (simp split: if_splits)
    then have "\<bar>sint v\<bar> = int (unat v)" using b(1) by simp
    then show ?thesis by (simp only: nat_int)
  qed
  show "unat (- v) = nat \<bar>sint v\<bar> \<and> 0 < unat (- v)" if "sint v < 0"
  proof -
    have s: "sint v = uint v - 4294967296" "v \<noteq> 0" using that b sint_u32 [of v] by (simp_all split: if_splits) auto
    have "int (unat (- v)) = 4294967296 - uint v"
      using s(2) b by (simp add: uint_word_ariths zmod_zminus1_eq_if uint_0_iff)
    then have "\<bar>sint v\<bar> = int (unat (- v))" "0 < int (unat (- v))" using s(1) b by linarith+
    then show ?thesis by (simp only: nat_int of_nat_0_less_iff simp_thms)
  qed
qed

lemma va_long_split: "va_long (ucast v # ucast (drop_bit 16 v) # va) = Some (v, va)"
proof -
  have "push_bit 16 (ucast (ucast (drop_bit 16 v) :: u16) :: u32) OR ucast (ucast v :: u16) = v"
    by (rule bit_word_eqI) (auto simp: bit_simps)
  then show ?thesis by simp
qed

lemma convert_hex:
  "convert mm zp w True (CHR ''x'') (ucast (v :: u32) # ucast (drop_bit 16 v) # va)
    = Some (print_hex v \<lparr>zeropad = zp, is_signed = False, is_long = True, is_ptr = False\<rparr> w, va)"
  "convert mm zp w True (CHR ''d'') (ucast v # ucast (drop_bit 16 v) # va)
    = Some (print_int v \<lparr>zeropad = zp, is_signed = True, is_long = True, is_ptr = False\<rparr> w, va)"
  "convert mm zp w False (CHR ''x'') (x # va)
    = Some (print_hex (ucast x) \<lparr>zeropad = zp, is_signed = False, is_long = False, is_ptr = False\<rparr> w, va)"
  by (simp_all add: convert_def va_long_split del: va_long.simps)

text \<open>Property C31.
  A signed long is printed as its digits in base ten, without a leading zero, after a minus sign when
  it is negative; the digits stand for its absolute value, for the least number too.\<close>

theorem print_long_decimal:
  "\<exists>ds. vprintf mm ''%ld'' [ucast (v :: u32), ucast (drop_bit 16 v)] = Some ((if sint v < 0 then ''-'' else []) @ ds)
     \<and> num_val 10 ds = nat \<bar>sint v\<bar> \<and> ds \<noteq> [] \<and> (hd ds = CHR ''0'') = (v = 0) \<and> list_all is_digit ds"
proof -
  let ?fl = "\<lparr>zeropad = False, is_signed = True, is_long = True, is_ptr = False\<rparr>"
  have "vprintf mm ''%ld'' [ucast v, ucast (drop_bit 16 v)] = Some (print_int v ?fl (- 1))"
    by (simp add: spec_hex convert_hex)
  moreover have "print_int v ?fl (- 1) = (if v = 0 then ''0'' else
      (if sint v < 0 then ''-'' @ dec_loop (unat (- v)) [] else dec_loop (unat v) []))"
    by (simp add: print_int_def Let_def)
  moreover have "sint v < 0 \<Longrightarrow> unat (- v) = nat \<bar>sint v\<bar> \<and> 0 < unat (- v)" "0 \<le> sint v \<Longrightarrow> unat v = nat \<bar>sint v\<bar>"
    by (use abs_sint in blast)+
  ultimately show ?thesis using dec_loop_val [of "unat v"] dec_loop_val [of "unat (- v)"]
    by (auto simp: list_all_iff num_val_def digit_val_def is_digit_def unat_gt_0)
qed

text \<open>Remark.
  A long printed with eight zero-padded hexadecimal digits is eight characters long and stands for its
  value, and a 16-bit value printed with four is four characters long: what the disassembler relies
  on.\<close>

theorem print_hex_fields:
  "(\<exists>s. sprintf mm ''%08lx'' [ucast (v :: u32), ucast (drop_bit 16 v)] = Some (s, 8) \<and> length s = 8 \<and> num_val 16 s = unat v)
   \<and> (\<exists>t. sprintf mm ''%04x'' [w] = Some (t, 4) \<and> length t = 4 \<and> num_val 16 t = unat w)"
proof -
  have w: "unat (ucast w :: u32) < 16 ^ 4" using unat_u16_lt [of w] by (simp add: unat_ucast_u16)
  have v: "unat v < 16 ^ 8" using unsigned_less [of v, where 'a = nat] by simp
  show ?thesis
    using print_hex_padded [OF w, of "\<lparr>zeropad = True, is_signed = False, is_long = False, is_ptr = False\<rparr>"]
      print_hex_padded [OF v, of "\<lparr>zeropad = True, is_signed = False, is_long = True, is_ptr = False\<rparr>"]
    by (simp add: sprintf_def spec_hex convert_hex unat_ucast_u16)
qed

text \<open>Remark.
  The sign of a negative number is printed before the spaces that pad it, and after the zeros.\<close>

theorem print_sign_misplaced:
  "vprintf mm ''%5d'' [- 5] = Some ''-   5'' \<and> vprintf mm ''%05d'' [- 5] = Some ''0000-5''"
proof -
  have d: "dec_loop 5 [] = ''5''" by (simp add: dec_loop.simps [of 5] dec_loop.simps [of 0], simp add: digit_def char_of_eq_iff)
  have s: "sint (scast (- 5 :: u16) :: u32) = - 5" "- (scast (- 5 :: u16) :: u32) = 5" "(scast (- 5 :: u16) :: u32) \<noteq> 0"
    by simp_all
  have "print_int (scast (- 5 :: u16)) fl w = (let w1 = w - 1; w2 = (if zeropad fl \<and> 0 < w1 then 0 else w1)
      in (if zeropad fl then replicate (nat w1) CHR ''0'' else []) @ ''-'' @ replicate (nat (w2 - 1)) CHR '' '' @ ''5'')"
    if "is_signed fl" for fl w
    unfolding print_int_def s using that by (simp add: s d Let_def)
  then show ?thesis by (simp add: spec_hex convert_def rep_num)
qed

text \<open>Remark.
  A format that ends in the width of a conversion makes \<open>vprintf\<close> step over the zero at its end.\<close>

theorem format_overrun:
  assumes "CHR ''%'' \<notin> set pre" "ds \<noteq> []" "list_all is_digit ds" "ds \<noteq> ''0''"
  shows "vprintf mm (pre @ ''%'' @ ds) va = None"
proof -
  have w: "list_all is_digit q \<Longrightarrow> snd (scan_width w q) = []" for q w
    by (induction w q rule: scan_width.induct) auto
  have cw: "conv_width zp q = Overrun" if "list_all is_digit q" for zp q
    using w [OF that, of "- 1"] by (cases "scan_width (- 1) q") (simp add: conv_width_def)
  have "conv_spec ds = Overrun"
    using assms(2-4) cw [of ds] cw [of "tl ds"] by (cases ds) (auto simp: conv_spec_def)
  then have "vprintf mm (''%'' @ ds) va = None" by simp
  with assms(1) show ?thesis by (induction pre) auto
qed

lemma map_fst_out: "map_option fst (map_option (\<lambda>(s, n). (g s, n)) x) = map_option g (map_option fst x)"
  by (cases x) auto


theorem format_overrun_witness: "vprintf \<lparr>near_str = (\<lambda>_. []), far_str = (\<lambda>_. [])\<rparr> ''a%12'' [7] = None"
  using format_overrun [of "''a''" "''12''" "\<lparr>near_str = (\<lambda>_. []), far_str = (\<lambda>_. [])\<rparr>" "[7]"] by (simp add: is_digit_def)

end
