(* ===== verification/Screen.thy ===== *)
theory Screen
  imports Printk
begin

text \<open>
  The screen half of the console, \<open>kernel/console/SCREEN.C\<close>: four pages of text in the memory of the
  display adapter, each with its cursor, and the last row of the first page as a status line. The
  memory at \<open>B800:0\<close> is a map from cell numbers to cells; the cursor and start registers of the CRT
  controller are a map from their indices.
\<close>

section \<open>State\<close>

record concell =
  cl_data :: u8
  cl_attr :: u8

definition PAGES :: int where "PAGES = 4"
definition scr_x :: int where "scr_x = 80"
definition scr_y :: int where "scr_y = 25"
definition scr_cells :: int where "scr_cells = 80 * 25"
definition defattr :: u8 where "defattr = 0x0a"

text \<open>\<open>scrram\<close> as the number of its cell.\<close>

record screen =
  sc_ram :: "nat \<Rightarrow> concell"
  sc_page :: int
  sc_curs_x :: "int \<Rightarrow> int"
  sc_curs_y :: "int \<Rightarrow> int"
  sc_scrram :: nat
  sc_stcol :: int
  sc_crt :: "u8 \<Rightarrow> u8"
  sc_if :: bool
  sc_cs_sti :: bool
  sc_cs_reenter :: int

definition cell :: "u8 \<Rightarrow> u8 \<Rightarrow> concell" where
  "cell d a = \<lparr>cl_data = d, cl_attr = a\<rparr>"

definition MAXY :: "screen \<Rightarrow> int" where
  "MAXY s = (if sc_page s = 0 then scr_y - 1 else scr_y)"

text \<open>The cursor of the current page.\<close>

definition curs_x :: "screen \<Rightarrow> int" where "curs_x s = sc_curs_x s (sc_page s)"
definition curs_y :: "screen \<Rightarrow> int" where "curs_y s = sc_curs_y s (sc_page s)"

definition set_x :: "int \<Rightarrow> screen \<Rightarrow> screen" where
  "set_x x s = s\<lparr>sc_curs_x := (sc_curs_x s)(sc_page s := x)\<rparr>"

definition set_y :: "int \<Rightarrow> screen \<Rightarrow> screen" where
  "set_y y s = s\<lparr>sc_curs_y := (sc_curs_y s)(sc_page s := y)\<rparr>"

definition con_enter_cs :: "screen \<Rightarrow> screen" where
  "con_enter_cs s =
     (let sti = sc_if s; s1 = s\<lparr>sc_if := False\<rparr>
      in (if sc_cs_reenter s1 = 0 then s1\<lparr>sc_cs_sti := sti\<rparr> else s1)\<lparr>sc_cs_reenter := sc_cs_reenter s1 + 1\<rparr>)"

definition con_leave_cs :: "screen \<Rightarrow> screen" where
  "con_leave_cs s =
     (let s1 = s\<lparr>sc_cs_reenter := sc_cs_reenter s - 1\<rparr>
      in if sc_cs_reenter s1 = 0 then s1\<lparr>sc_if := sc_cs_sti s1\<rparr> else s1)"

section \<open>The cursor\<close>

definition CRT_IDX_START_H :: u8 where "CRT_IDX_START_H = 12"
definition CRT_IDX_START_L :: u8 where "CRT_IDX_START_L = 13"
definition CRT_IDX_CURSOR_H :: u8 where "CRT_IDX_CURSOR_H = 14"
definition CRT_IDX_CURSOR_L :: u8 where "CRT_IDX_CURSOR_L = 15"

definition con_cursync :: "screen \<Rightarrow> screen" where
  "con_cursync s =
     (let cursor = (word_of_int (sc_page s * scr_cells + curs_y s * scr_x + curs_x s) :: u16)
      in s\<lparr>sc_crt := (sc_crt s)(CRT_IDX_CURSOR_H := ucast (drop_bit 8 cursor), CRT_IDX_CURSOR_L := ucast (cursor AND 0xff))\<rparr>)"

definition con_maxx :: int where "con_maxx = scr_x - 1"
definition con_maxy :: "screen \<Rightarrow> int" where "con_maxy s = MAXY s - 1"

definition con_gotoxy :: "int \<Rightarrow> int \<Rightarrow> screen \<Rightarrow> screen" where
  "con_gotoxy x y s =
     (let s0 = con_enter_cs s;
          s1 = set_x (if x < 0 then 0 else if scr_x \<le> x then scr_x - 1 else x) s0;
          s2 = set_y (if y < 0 then 0 else if MAXY s1 \<le> y then MAXY s1 - 1 else y) s1
      in con_leave_cs (con_cursync s2))"

definition con_setpage :: "int \<Rightarrow> screen \<Rightarrow> screen" where
  "con_setpage newpage s =
     (if newpage < 0 \<or> PAGES \<le> newpage then s
      else (let s1 = s\<lparr>sc_page := newpage\<rparr>;
                base = (word_of_int (sc_page s1 * scr_cells) :: u16);
                s2 = s1\<lparr>sc_crt := (sc_crt s1)(CRT_IDX_START_H := ucast (drop_bit 8 base), CRT_IDX_START_L := ucast (base AND 0xff))\<rparr>;
                s3 = con_cursync s2
            in s3\<lparr>sc_scrram := unat base\<rparr>))"

section \<open>Text\<close>

text \<open>The loops \<open>*p++ = space\<close>.\<close>

fun fill_cells :: "nat \<Rightarrow> nat \<Rightarrow> concell \<Rightarrow> (nat \<Rightarrow> concell) \<Rightarrow> nat \<Rightarrow> concell" where
  "fill_cells p 0 c m = m"
| "fill_cells p (Suc n) c m = fill_cells (Suc p) n c (m(p := c))"

text \<open>\<open>_fmemmove\<close> of \<open>n\<close> cells.\<close>

definition move_cells :: "nat \<Rightarrow> nat \<Rightarrow> nat \<Rightarrow> (nat \<Rightarrow> concell) \<Rightarrow> nat \<Rightarrow> concell" where
  "move_cells to from n m = (\<lambda>i. if to \<le> i \<and> i < to + n then m (from + (i - to)) else m i)"

definition con_clrscr :: "screen \<Rightarrow> screen" where
  "con_clrscr s =
     (let space = cell 0x20 defattr;
          s0 = con_enter_cs s;
          p = sc_scrram s0;
          s1 = (if sc_page s0 = 0
                then s0\<lparr>sc_ram := fill_cells (p + nat (scr_cells - scr_x)) (nat scr_x) (cell 0x20 0x1f)
                                    (fill_cells p (nat (scr_cells - scr_x)) space (sc_ram s0))\<rparr>
                else s0\<lparr>sc_ram := fill_cells p (nat scr_cells) space (sc_ram s0)\<rparr>)
      in con_leave_cs (con_cursync (set_y 0 (set_x 0 s1))))"

definition con_clreol :: "screen \<Rightarrow> screen" where
  "con_clreol s =
     (let s0 = con_enter_cs s;
          p = sc_scrram s0 + nat (curs_y s0 * scr_x + curs_x s0)
      in con_leave_cs (s0\<lparr>sc_ram := fill_cells p (nat (scr_x - curs_x s0)) (cell 0x20 defattr) (sc_ram s0)\<rparr>))"

definition con_scroll :: "screen \<Rightarrow> screen" where
  "con_scroll s =
     (let lastrow = MAXY s - 1;
          s0 = con_enter_cs s;
          p = sc_scrram s0;
          s1 = s0\<lparr>sc_ram := move_cells p (p + nat scr_x) (nat (lastrow * scr_x)) (sc_ram s0)\<rparr>;
          s2 = set_y (curs_y s1 - 1) s1;
          s3 = s2\<lparr>sc_ram := fill_cells (p + nat (lastrow * scr_x)) (nat scr_x) (cell 0x20 defattr) (sc_ram s2)\<rparr>
      in con_leave_cs (con_cursync s3))"

definition con_right :: "screen \<Rightarrow> screen" where
  "con_right s =
     (let s0 = con_enter_cs s;
          s1 = set_x (curs_x s0 + 1) s0;
          s2 = (if curs_x s1 = scr_x
                then (let t = set_x 0 s1; t1 = set_y (curs_y t + 1) t
                      in if curs_y t1 = MAXY t1 then con_scroll t1 else t1)
                else s1)
      in con_leave_cs (con_cursync s2))"

text \<open>At the left edge the function returns inside its critical section.\<close>

definition con_left :: "screen \<Rightarrow> screen" where
  "con_left s =
     (let s0 = con_enter_cs s
      in if curs_x s0 = 0
         then (if curs_y s0 = 0 then s0
               else set_y (curs_y s0 - 1) (set_x (scr_x - 1) s0))
         else con_leave_cs (con_cursync (set_x (curs_x s0 - 1) s0)))"

definition con_char :: "u8 \<Rightarrow> screen \<Rightarrow> screen" where
  "con_char by s =
     (let s0 = con_enter_cs s;
          s1 = (if by = 13 then set_x 0 s0
                else if by = 10 then
                  (let t = set_y (curs_y s0 + 1) s0 in if curs_y t = MAXY t then con_scroll t else t)
                else if by = 8 then con_left s0
                else con_right (s0\<lparr>sc_ram := (sc_ram s0)
                       (sc_scrram s0 + nat (curs_y s0 * scr_x + curs_x s0) := cell by defattr)\<rparr>))
      in con_leave_cs s1)"

definition kputc :: "int \<Rightarrow> screen \<Rightarrow> screen" where
  "kputc ch s = con_char (word_of_int ch) (if ch = 10 then con_char 13 s else s)"

text \<open>The number of turns is the size as an unsigned number: \<open>size--\<close> only ends at zero.\<close>

definition con_write :: "int \<Rightarrow> (nat \<Rightarrow> u8) \<Rightarrow> int \<Rightarrow> screen \<Rightarrow> int \<times> screen" where
  "con_write unt buf sz s =
     (if unt \<noteq> 0 then (- ENODEV, s)
      else (0, con_leave_cs (fold con_char (map buf [0..<unat (word_of_int sz :: u16)]) (con_enter_cs s))))"

section \<open>The status line\<close>

definition con_stputc :: "int \<Rightarrow> screen \<Rightarrow> screen" where
  "con_stputc ch s =
     (if ch < 0x20 \<or> 126 < ch \<or> scr_x \<le> sc_stcol s then s
      else (let s0 = con_enter_cs s;
                i = nat (scr_cells - scr_x + sc_stcol s0)
            in con_leave_cs (s0\<lparr>sc_ram := (sc_ram s0)(i := (sc_ram s0 i)\<lparr>cl_data := word_of_int ch\<rparr>),
                               sc_stcol := sc_stcol s0 + 1\<rparr>)))"

text \<open>\<open>None\<close> is a format that runs past its end or out of arguments.\<close>

definition con_status :: "memory \<Rightarrow> int \<Rightarrow> string \<Rightarrow> u16 list \<Rightarrow> screen \<Rightarrow> screen option" where
  "con_status mm col fmt va s =
     map_option (\<lambda>out. con_leave_cs (fold (\<lambda>c. con_stputc (int (of_char c))) out ((con_enter_cs s)\<lparr>sc_stcol := col\<rparr>)))
       (vprintf mm fmt va)"

end
