(* ===== verification/ScreenThms.thy ===== *)
theory ScreenThms
  imports Screen
begin

text \<open>
  The screen as a terminal: a cursor and a grid of cells, what a character does to them, and the
  critical section of the console.
\<close>

section \<open>Fields\<close>

lemma cs_fields [simp]:
  "sc_ram (con_enter_cs s) = sc_ram s" "sc_page (con_enter_cs s) = sc_page s" "sc_curs_x (con_enter_cs s) = sc_curs_x s"
  "sc_curs_y (con_enter_cs s) = sc_curs_y s" "sc_scrram (con_enter_cs s) = sc_scrram s" "sc_stcol (con_enter_cs s) = sc_stcol s"
  "sc_crt (con_enter_cs s) = sc_crt s"
  "sc_ram (con_leave_cs s) = sc_ram s" "sc_page (con_leave_cs s) = sc_page s" "sc_curs_x (con_leave_cs s) = sc_curs_x s"
  "sc_curs_y (con_leave_cs s) = sc_curs_y s" "sc_scrram (con_leave_cs s) = sc_scrram s" "sc_stcol (con_leave_cs s) = sc_stcol s"
  "sc_crt (con_leave_cs s) = sc_crt s"
  by (simp_all add: con_enter_cs_def con_leave_cs_def Let_def)

lemma sync_fields [simp]:
  "sc_ram (con_cursync s) = sc_ram s" "sc_page (con_cursync s) = sc_page s" "sc_curs_x (con_cursync s) = sc_curs_x s"
  "sc_curs_y (con_cursync s) = sc_curs_y s" "sc_scrram (con_cursync s) = sc_scrram s" "sc_stcol (con_cursync s) = sc_stcol s"
  by (simp_all add: con_cursync_def Let_def)

lemma set_fields [simp]:
  "sc_ram (set_x v s) = sc_ram s" "sc_page (set_x v s) = sc_page s" "sc_curs_y (set_x v s) = sc_curs_y s"
  "sc_scrram (set_x v s) = sc_scrram s" "sc_stcol (set_x v s) = sc_stcol s" "sc_curs_x (set_x v s) = (sc_curs_x s)(sc_page s := v)"
  "sc_ram (set_y v s) = sc_ram s" "sc_page (set_y v s) = sc_page s" "sc_curs_x (set_y v s) = sc_curs_x s"
  "sc_scrram (set_y v s) = sc_scrram s" "sc_stcol (set_y v s) = sc_stcol s" "sc_curs_y (set_y v s) = (sc_curs_y s)(sc_page s := v)"
  by (simp_all add: set_x_def set_y_def)

lemma fill_nth: "fill_cells p n c m i = (if p \<le> i \<and> i < p + n then c else m i)"
  by (induction n arbitrary: p m) auto

section \<open>The critical section\<close>

definition cs_ok :: "screen \<Rightarrow> bool" where
  "cs_ok s \<longleftrightarrow> 0 \<le> sc_cs_reenter s \<and> (0 < sc_cs_reenter s \<longrightarrow> \<not> sc_if s)"

definition same_cs :: "screen \<Rightarrow> screen \<Rightarrow> bool" where
  "same_cs s t \<longleftrightarrow> sc_cs_reenter t = sc_cs_reenter s \<and> sc_if t = sc_if s \<and> (0 < sc_cs_reenter s \<longrightarrow> sc_cs_sti t = sc_cs_sti s)"

lemma cs_ok_enter: "cs_ok s \<Longrightarrow> cs_ok (con_enter_cs s)"
  by (simp add: cs_ok_def con_enter_cs_def Let_def)

lemma cs_ok_same: "same_cs s t \<Longrightarrow> cs_ok t = cs_ok s"
  by (simp add: cs_ok_def same_cs_def)

lemma bracket: "cs_ok s \<Longrightarrow> same_cs (con_enter_cs s) t \<Longrightarrow> same_cs s (con_leave_cs t)"
  by (auto simp: cs_ok_def same_cs_def con_enter_cs_def con_leave_cs_def Let_def split: if_splits)

lemma same_cs_refl [simp]: "same_cs s s" and same_cs_trans: "same_cs s t \<Longrightarrow> same_cs t u \<Longrightarrow> same_cs s u"
  by (auto simp: same_cs_def)

lemma same_cs_upd [simp]:
  "same_cs s (set_x v t) = same_cs s t" "same_cs s (set_y v t) = same_cs s t" "same_cs s (con_cursync t) = same_cs s t"
  "same_cs s (t\<lparr>sc_ram := m\<rparr>) = same_cs s t" "same_cs s (t\<lparr>sc_stcol := i\<rparr>) = same_cs s t"
  "same_cs (set_x v t) s = same_cs t s" "same_cs (set_y v t) s = same_cs t s" "same_cs (t\<lparr>sc_ram := m\<rparr>) s = same_cs t s"
  by (simp_all add: same_cs_def set_x_def set_y_def con_cursync_def Let_def)

lemma scroll_cs: "cs_ok s \<Longrightarrow> same_cs s (con_scroll s)"
  unfolding con_scroll_def Let_def by (rule bracket) simp_all

lemma cs_ok_upd [simp]: "cs_ok (set_x v t) = cs_ok t" "cs_ok (set_y v t) = cs_ok t" "cs_ok (t\<lparr>sc_ram := m\<rparr>) = cs_ok t"
  by (simp_all add: cs_ok_def set_x_def set_y_def)

lemma right_cs: "cs_ok s \<Longrightarrow> same_cs s (con_right s)"
  unfolding con_right_def Let_def
  by (rule bracket) (use scroll_cs [of "set_y _ (set_x _ (set_x _ (con_enter_cs s)))"] cs_ok_enter [of s] in \<open>auto\<close>)

text \<open>A return from within the critical section leaves one more entry and interrupts off.\<close>

definition leaks_cs :: "screen \<Rightarrow> screen \<Rightarrow> bool" where
  "leaks_cs s t \<longleftrightarrow> sc_cs_reenter t = sc_cs_reenter s + 1 \<and> \<not> sc_if t"

lemma left_cs: "cs_ok s \<Longrightarrow> if curs_x s = 0 then leaks_cs s (con_left s) else same_cs s (con_left s)"
proof (cases "curs_x s = 0")
  case True
  then have "curs_x (con_enter_cs s) = 0" by (simp add: curs_x_def)
  with True show ?thesis by (simp add: con_left_def Let_def leaks_cs_def) (simp add: con_enter_cs_def set_x_def set_y_def Let_def)
next
  case False
  then have "curs_x (con_enter_cs s) \<noteq> 0" by (simp add: curs_x_def)
  moreover assume "cs_ok s"
  ultimately show ?thesis using False by (simp add: con_left_def Let_def) (rule bracket, simp_all)
qed

lemma char_cs:
  assumes "cs_ok s"
  shows "if by = 8 \<and> curs_x s = 0 then leaks_cs s (con_char by s) else same_cs s (con_char by s)"
proof -
  note e = cs_ok_enter [OF assms]
  have x: "curs_x (con_enter_cs s) = curs_x s" by (simp add: curs_x_def)
  have leave: "leaks_cs (con_enter_cs s) t \<Longrightarrow> leaks_cs s (con_leave_cs t)" for t
    using assms by (auto simp: leaks_cs_def con_enter_cs_def con_leave_cs_def cs_ok_def Let_def)
  show ?thesis
  proof (cases "by = 8 \<and> curs_x s = 0")
    case True
    then show ?thesis using left_cs [OF e] x by (simp add: con_char_def Let_def leave)
  next
    case False
    have "same_cs s (con_char by s)"
      unfolding con_char_def Let_def
      by (rule bracket [OF assms])
        (use False left_cs [OF e] x scroll_cs [of "set_y _ (con_enter_cs s)"] right_cs [of "(con_enter_cs s)\<lparr>sc_ram := _\<rparr>"] e in \<open>auto\<close>)
    then show ?thesis using False by auto
  qed
qed

lemma chars_leak: "cs_ok s \<Longrightarrow> 0 < sc_cs_reenter s \<Longrightarrow> \<not> sc_if (fold con_char bs s) \<and> sc_cs_reenter s \<le> sc_cs_reenter (fold con_char bs s)"
proof (induction bs arbitrary: s)
  case (Cons b bs)
  have "cs_ok (con_char b s) \<and> sc_cs_reenter s \<le> sc_cs_reenter (con_char b s)"
    using char_cs [OF Cons.prems(1), of b] Cons.prems by (auto simp: cs_ok_def same_cs_def leaks_cs_def split: if_splits)
  then show ?case using Cons.IH [of "con_char b s"] Cons.prems(2) by auto
qed (simp add: cs_ok_def)

section \<open>The terminal\<close>

type_synonym grid = "nat \<Rightarrow> nat \<Rightarrow> concell"

definition blank :: concell where "blank = cell 0x20 defattr"

text \<open>The rows of a page; its cells, blank outside.\<close>

definition rows :: "screen \<Rightarrow> nat" where "rows s = nat (MAXY s)"

definition grid :: "screen \<Rightarrow> grid" where
  "grid s = (\<lambda>r c. if r < rows s \<and> c < 80 then sc_ram s (sc_scrram s + 80 * r + c) else blank)"

definition tview :: "screen \<Rightarrow> nat \<times> nat \<times> grid" where
  "tview s = (nat (curs_x s), nat (curs_y s), grid s)"

definition gscroll :: "nat \<Rightarrow> grid \<Rightarrow> grid" where
  "gscroll n g = (\<lambda>r c. if Suc r < n then g (Suc r) c else blank)"

fun tdown :: "nat \<Rightarrow> nat \<times> nat \<times> grid \<Rightarrow> nat \<times> nat \<times> grid" where
  "tdown n (x, y, g) = (if Suc y = n then (x, y, gscroll n g) else (x, Suc y, g))"

text \<open>What a character does: return, line feed, backspace, and any other is shown.\<close>

fun tstep :: "nat \<Rightarrow> u8 \<Rightarrow> nat \<times> nat \<times> grid \<Rightarrow> nat \<times> nat \<times> grid" where
  "tstep n by (x, y, g) =
     (if by = 13 then (0, y, g)
      else if by = 10 then tdown n (x, y, g)
      else if by = 8 then (if 0 < x then (x - 1, y, g) else if 0 < y then (79, y - 1, g) else (x, y, g))
      else (let g' = g(y := (g y)(x := cell by defattr))
            in if x = 79 then tdown n (0, y, g') else (Suc x, y, g')))"

definition scr_ok :: "screen \<Rightarrow> bool" where
  "scr_ok s \<longleftrightarrow> 0 \<le> sc_page s \<and> sc_page s < PAGES \<and> sc_scrram s = 2000 * nat (sc_page s)
     \<and> (\<forall>p. 0 \<le> p \<longrightarrow> p < PAGES \<longrightarrow> 0 \<le> sc_curs_x s p \<and> sc_curs_x s p < 80 \<and> 0 \<le> sc_curs_y s p \<and> sc_curs_y s p < (if p = 0 then 24 else 25))"

text \<open>Same page, and the memory outside of its rows, the other cursors and the status column as before.\<close>

definition page_only :: "screen \<Rightarrow> screen \<Rightarrow> bool" where
  "page_only s t \<longleftrightarrow> sc_page t = sc_page s \<and> sc_scrram t = sc_scrram s \<and> sc_stcol t = sc_stcol s
     \<and> (\<forall>i. i < sc_scrram s \<or> sc_scrram s + 80 * rows s \<le> i \<longrightarrow> sc_ram t i = sc_ram s i)
     \<and> (\<forall>p. p \<noteq> sc_page s \<longrightarrow> sc_curs_x t p = sc_curs_x s p \<and> sc_curs_y t p = sc_curs_y s p)"

lemma cursor_simps [simp]:
  "curs_x (set_x v s) = v" "curs_y (set_x v s) = curs_y s" "curs_x (set_y v s) = curs_x s" "curs_y (set_y v s) = v"
  "curs_x (con_enter_cs s) = curs_x s" "curs_y (con_enter_cs s) = curs_y s" "curs_x (con_leave_cs s) = curs_x s" "curs_y (con_leave_cs s) = curs_y s"
  "curs_x (con_cursync s) = curs_x s" "curs_y (con_cursync s) = curs_y s"
  "curs_x (s\<lparr>sc_ram := m\<rparr>) = curs_x s" "curs_y (s\<lparr>sc_ram := m\<rparr>) = curs_y s"
  by (simp_all add: curs_x_def curs_y_def)

lemma MAXY_simps [simp]:
  "MAXY (set_x v s) = MAXY s" "MAXY (set_y v s) = MAXY s" "MAXY (con_enter_cs s) = MAXY s" "MAXY (con_leave_cs s) = MAXY s"
  "MAXY (con_cursync s) = MAXY s" "MAXY (s\<lparr>sc_ram := m\<rparr>) = MAXY s"
  by (simp_all add: MAXY_def)

lemma grid_simps [simp]:
  "grid (set_x v s) = grid s" "grid (set_y v s) = grid s" "grid (con_enter_cs s) = grid s" "grid (con_leave_cs s) = grid s"
  "grid (con_cursync s) = grid s"
  by (simp_all add: grid_def rows_def cong: if_cong)

lemma page_only_simps [simp]:
  "page_only s (con_leave_cs t) = page_only s t" "page_only s (con_cursync t) = page_only s t"
  "page_only (con_enter_cs s) t = page_only s t"
  by (simp_all add: page_only_def rows_def)

lemma page_only_refl [simp]: "page_only s s" "page_only s (con_enter_cs s)"
  by (simp_all add: page_only_def)

lemma page_only_set: "page_only s t \<Longrightarrow> page_only s (set_x v t)" "page_only s t \<Longrightarrow> page_only s (set_y v t)"
  by (auto simp: page_only_def)

lemma page_only_trans: "page_only s t \<Longrightarrow> page_only t u \<Longrightarrow> page_only s u"
  by (auto simp: page_only_def rows_def MAXY_def)

lemma MAXY_vals: "MAXY s = 24 \<or> MAXY s = 25"
  by (simp add: MAXY_def scr_y_def)

lemma scroll_state:
  assumes "curs_y s = MAXY s"
  shows "curs_x (con_scroll s) = curs_x s" "curs_y (con_scroll s) = MAXY s - 1" "grid (con_scroll s) = gscroll (rows s) (grid s)"
    "page_only s (con_scroll s)" "sc_page (con_scroll s) = sc_page s"
proof -
  show "curs_x (con_scroll s) = curs_x s" "curs_y (con_scroll s) = MAXY s - 1" "sc_page (con_scroll s) = sc_page s"
    using assms by (simp_all add: con_scroll_def Let_def)
  have n: "nat ((MAXY s - 1) * scr_x) = 80 * (rows s - 1)" "nat scr_x = 80" "0 < rows s"
    using MAXY_vals [of s] by (auto simp: rows_def scr_x_def)
  have ram: "sc_ram (con_scroll s) i = (if sc_scrram s \<le> i \<and> i < sc_scrram s + 80 * (rows s - 1) then sc_ram s (i + 80)
      else if sc_scrram s + 80 * (rows s - 1) \<le> i \<and> i < sc_scrram s + 80 * rows s then blank else sc_ram s i)" for i
  proof -
    have "80 * rows s = 80 * (rows s - 1) + 80" using n(3) by simp
    then show ?thesis by (simp add: con_scroll_def Let_def n(1,2) fill_nth move_cells_def blank_def add.assoc add.commute)
  qed
  have fs: "sc_scrram (con_scroll s) = sc_scrram s" "rows (con_scroll s) = rows s" "sc_stcol (con_scroll s) = sc_stcol s"
    "p \<noteq> sc_page s \<Longrightarrow> sc_curs_x (con_scroll s) p = sc_curs_x s p \<and> sc_curs_y (con_scroll s) p = sc_curs_y s p" for p
    by (simp_all add: con_scroll_def Let_def rows_def)
  have row: "sc_scrram s + 80 * r + c < sc_scrram s + 80 * (rows s - 1) \<longleftrightarrow> Suc r < rows s" if "c < 80" for r c
    using that n(3) by linarith
  show "grid (con_scroll s) = gscroll (rows s) (grid s)"
  proof (intro ext)
    fix r c
    show "grid (con_scroll s) r c = gscroll (rows s) (grid s) r c"
    proof (cases "Suc r < rows s \<and> c < 80")
      case True
      then show ?thesis using row [of c r] by (simp add: grid_def gscroll_def ram fs algebra_simps)
    next
      case False
      then show ?thesis using row [of c r] n(3) by (auto simp: grid_def gscroll_def ram fs)
    qed
  qed
  have "sc_page (con_scroll s) = sc_page s" by (simp add: con_scroll_def Let_def)
  then show "page_only s (con_scroll s)" using fs n(3) by (auto simp: page_only_def ram)
qed

lemma down_state:
  assumes "0 \<le> curs_y s" "curs_y s < MAXY s"
    and "t = set_y (curs_y s + 1) s" "u = (if curs_y t = MAXY t then con_scroll t else t)"
  shows "tview u = tdown (rows s) (tview s)" "page_only s u" "sc_page u = sc_page s" "curs_x u = curs_x s" "0 \<le> curs_y u" "curs_y u < MAXY s"
proof -
  have y: "Suc (nat (curs_y s)) = rows s \<longleftrightarrow> curs_y t = MAXY t" using assms(1-3) by (auto simp: rows_def)
  have t: "page_only s t" "rows t = rows s" "grid t = grid s" unfolding assms(3) by (simp_all add: page_only_set rows_def)
  show "tview u = tdown (rows s) (tview s)"
    using y assms t scroll_state [of t] by (auto simp: tview_def nat_add_distrib rows_def)
  show "page_only s u" using t scroll_state(4) [of t] page_only_trans [OF t(1)] assms(4) by auto
  show "sc_page u = sc_page s" "curs_x u = curs_x s" "0 \<le> curs_y u" "curs_y u < MAXY s"
    using assms scroll_state [of t] by auto
qed

lemma cell_inj:
  assumes "k < 80" "x < (80 :: nat)"
  shows "80 * r + k = 80 * y + x \<longleftrightarrow> r = y \<and> k = x"
  using assms by (cases r y rule: linorder_cases) linarith+

lemma put_state:
  assumes "0 \<le> curs_x s" "curs_x s < 80" "0 \<le> curs_y s" "curs_y s < MAXY s"
    and "t = s\<lparr>sc_ram := (sc_ram s)(sc_scrram s + nat (curs_y s * scr_x + curs_x s) := c)\<rparr>"
  shows "grid t = (grid s)(nat (curs_y s) := (grid s (nat (curs_y s)))(nat (curs_x s) := c))" "page_only s t"
proof -
  define x y where xy: "x = nat (curs_x s)" "y = nat (curs_y s)"
  have b: "x < 80" "y < rows s" "nat (curs_y s * scr_x + curs_x s) = 80 * y + x"
  proof -
    show "x < 80" "y < rows s" using assms(1-4) by (simp_all add: xy rows_def zless_nat_eq_int_zless)
    show "nat (curs_y s * scr_x + curs_x s) = 80 * y + x" using assms(1,3) by (simp add: xy scr_x_def nat_add_distrib nat_mult_distrib)
  qed
  have at: "(80 * r + k = 80 * y + x) = (r = y \<and> k = x)" if "k < 80" for r k by (rule cell_inj [OF that b(1)])
  have g: "grid t r k = (if r < rows s \<and> k < 80 then if 80 * r + k = 80 * y + x then c else sc_ram s (sc_scrram s + 80 * r + k) else blank)" for r k
    by (simp add: grid_def assms(5) b(3) rows_def add.assoc)
  have "grid t r k = ((grid s)(y := (grid s y)(x := c))) r k" for r k
    using at [of k r] b(1,2) unfolding g by (cases "r = y"; cases "k = x") (simp_all add: grid_def)
  then show "grid t = (grid s)(nat (curs_y s) := (grid s (nat (curs_y s)))(nat (curs_x s) := c))"
    unfolding xy [symmetric] by (intro ext)
  have "80 * y + x < 80 * rows s" using b by linarith
  then show "page_only s t" unfolding assms(5) page_only_def using b(3) by auto
qed

lemma right_state:
  assumes "0 \<le> curs_x s" "curs_x s < 80" "0 \<le> curs_y s" "curs_y s < MAXY s"
  shows "tview (con_right s) = (if curs_x s = 79 then tdown (rows s) (0, nat (curs_y s), grid s) else (Suc (nat (curs_x s)), nat (curs_y s), grid s))"
    "page_only s (con_right s)" "0 \<le> curs_x (con_right s) \<and> curs_x (con_right s) < 80"
    "0 \<le> curs_y (con_right s) \<and> curs_y (con_right s) < MAXY s"
proof -
  let ?s1 = "set_x (curs_x s + 1) (con_enter_cs s)"
  let ?t = "set_x 0 ?s1"
  define u where "u = (let t1 = set_y (curs_y ?t + 1) ?t in if curs_y t1 = MAXY t1 then con_scroll t1 else t1)"
  have r: "con_right s = con_leave_cs (con_cursync (if curs_x s = 79 then u else ?s1))"
    by (simp add: con_right_def Let_def u_def scr_x_def)
  note d = down_state [of ?t "set_y (curs_y ?t + 1) ?t" u]
  have v: "tview (con_leave_cs (con_cursync w)) = tview w" for w by (simp add: tview_def)
  have p: "page_only s ?s1" "page_only s ?t" by (simp_all add: page_only_set)
  show "tview (con_right s) = (if curs_x s = 79 then tdown (rows s) (0, nat (curs_y s), grid s) else (Suc (nat (curs_x s)), nat (curs_y s), grid s))"
    using assms d(1) unfolding r v by (auto simp: u_def Let_def tview_def rows_def nat_add_distrib)
  show "page_only s (con_right s)"
    using assms d(2) p page_only_trans [OF p(2)] unfolding r by (auto simp: u_def Let_def)
  show "0 \<le> curs_x (con_right s) \<and> curs_x (con_right s) < 80" "0 \<le> curs_y (con_right s) \<and> curs_y (con_right s) < MAXY s"
    using assms d(3-6) unfolding r by (auto simp: u_def Let_def)
qed

lemma left_state:
  assumes "0 \<le> curs_x s" "0 \<le> curs_y s" "curs_x s < 80" "curs_y s < MAXY s"
  shows "tview (con_left s) = (if 0 < curs_x s then (nat (curs_x s) - 1, nat (curs_y s), grid s)
      else if 0 < curs_y s then (79, nat (curs_y s) - 1, grid s) else tview s)"
    "page_only s (con_left s)" "0 \<le> curs_x (con_left s) \<and> curs_x (con_left s) < 80"
    "0 \<le> curs_y (con_left s) \<and> curs_y (con_left s) < MAXY s"
proof -
  have v: "tview (con_leave_cs (con_cursync t)) = tview t" for t by (simp add: tview_def)
  have l: "con_left s = (if curs_x s = 0 then if curs_y s = 0 then con_enter_cs s else set_y (curs_y s - 1) (set_x 79 (con_enter_cs s))
      else con_leave_cs (con_cursync (set_x (curs_x s - 1) (con_enter_cs s))))"
    by (simp add: con_left_def Let_def scr_x_def)
  show "tview (con_left s) = (if 0 < curs_x s then (nat (curs_x s) - 1, nat (curs_y s), grid s)
      else if 0 < curs_y s then (79, nat (curs_y s) - 1, grid s) else tview s)"
    unfolding l using assms by (simp add: v) (simp add: tview_def nat_diff_distrib)
  show "page_only s (con_left s)" unfolding l by (simp add: page_only_set)
  show "0 \<le> curs_x (con_left s) \<and> curs_x (con_left s) < 80" "0 \<le> curs_y (con_left s) \<and> curs_y (con_left s) < MAXY s"
    unfolding l using assms by simp_all
qed

lemma scr_okD:
  assumes "scr_ok s"
  shows "0 \<le> curs_x s" "curs_x s < 80" "0 \<le> curs_y s" "curs_y s < MAXY s" "sc_scrram s = 2000 * nat (sc_page s)"
proof -
  have "0 \<le> sc_curs_x s (sc_page s) \<and> sc_curs_x s (sc_page s) < 80 \<and> 0 \<le> sc_curs_y s (sc_page s)
      \<and> sc_curs_y s (sc_page s) < (if sc_page s = 0 then 24 else 25)"
    using assms unfolding scr_ok_def by blast
  then show "0 \<le> curs_x s" "curs_x s < 80" "0 \<le> curs_y s" "curs_y s < MAXY s"
    by (cases "sc_page s = 0"; simp add: curs_x_def curs_y_def MAXY_def scr_y_def)+
  show "sc_scrram s = 2000 * nat (sc_page s)" using assms unfolding scr_ok_def by blast
qed

lemma scr_okI:
  assumes "scr_ok s" "page_only s t" "0 \<le> curs_x t" "curs_x t < 80" "0 \<le> curs_y t" "curs_y t < MAXY s"
  shows "scr_ok t"
proof -
  have "0 \<le> sc_curs_x t p \<and> sc_curs_x t p < 80 \<and> 0 \<le> sc_curs_y t p \<and> sc_curs_y t p < (if p = 0 then 24 else 25)"
    if "0 \<le> p" "p < PAGES" for p
    using assms that by (cases "p = sc_page s") (auto simp: scr_ok_def page_only_def curs_x_def curs_y_def MAXY_def scr_y_def)
  then show ?thesis using assms(1,2) by (simp add: scr_ok_def page_only_def)
qed

lemma char_state:
  assumes "scr_ok s"
  shows "tview (con_char by s) = tstep (rows s) by (tview s)" "page_only s (con_char by s)" "scr_ok (con_char by s)"
proof -
  note b = scr_okD [OF assms]
  have e: "tview (con_leave_cs w) = tview w" for w by (simp add: tview_def)
  have r: "rows (con_enter_cs s) = rows s" by (simp add: rows_def)
  define t where "t = (con_enter_cs s)\<lparr>sc_ram := (sc_ram (con_enter_cs s))
      (sc_scrram (con_enter_cs s) + nat (curs_y (con_enter_cs s) * scr_x + curs_x (con_enter_cs s)) := cell by defattr)\<rparr>"
  have p: "grid t = (grid s)(nat (curs_y s) := (grid s (nat (curs_y s)))(nat (curs_x s) := cell by defattr))" "page_only s t"
    using put_state [OF _ _ _ _ t_def] b by simp_all
  have t: "curs_x t = curs_x s" "curs_y t = curs_y s" "MAXY t = MAXY s" "rows t = rows s" by (simp_all add: t_def rows_def)
  have rt: "tview (con_right t) = (if curs_x s = 79 then tdown (rows s) (0, nat (curs_y s), grid t) else (Suc (nat (curs_x s)), nat (curs_y s), grid t))"
    "page_only s (con_right t)" "0 \<le> curs_x (con_right t) \<and> curs_x (con_right t) < 80" "0 \<le> curs_y (con_right t) \<and> curs_y (con_right t) < MAXY s"
    using right_state [of t] t b page_only_trans [OF p(2), of "con_right t"] by simp_all
  note l = left_state [of "con_enter_cs s"]
  define u where "u = (let t = set_y (curs_y (con_enter_cs s) + 1) (con_enter_cs s) in if curs_y t = MAXY t then con_scroll t else t)"
  have d: "tview u = tdown (rows s) (tview s)" "page_only s u" "curs_x u = curs_x s" "0 \<le> curs_y u" "curs_y u < MAXY s"
    using down_state [of "con_enter_cs s" _ u] b r by (simp_all add: u_def Let_def tview_def)
  have c: "con_char by s = con_leave_cs (if by = 13 then set_x 0 (con_enter_cs s) else if by = 10 then u
      else if by = 8 then con_left (con_enter_cs s) else con_right t)"
    by (simp add: con_char_def Let_def u_def t_def)
  have x79: "nat (curs_x s) = 79 \<longleftrightarrow> curs_x s = 79" "0 < nat (curs_x s) \<longleftrightarrow> 0 < curs_x s" "0 < nat (curs_y s) \<longleftrightarrow> 0 < curs_y s"
    by auto
  show "tview (con_char by s) = tstep (rows s) by (tview s)"
    unfolding c e using b d(1) rt(1) l(1) p(1) x79 by (simp add: tview_def)
  show po: "page_only s (con_char by s)"
    unfolding c using d(2) rt(2) l(2) b by (simp add: page_only_set)
  show "scr_ok (con_char by s)"
    by (rule scr_okI [OF assms po]) (use b d rt(3,4) l(3,4) in \<open>simp_all add: c\<close>)
qed

lemma page_only_rows: "page_only s t \<Longrightarrow> rows t = rows s"
  by (simp add: page_only_def rows_def MAXY_def)

lemma chars_state:
  "scr_ok s \<Longrightarrow> tview (fold con_char bs s) = fold (tstep (rows s)) bs (tview s) \<and> page_only s (fold con_char bs s) \<and> scr_ok (fold con_char bs s)"
proof (induction bs arbitrary: s)
  case (Cons b bs)
  note c = char_state [OF Cons.prems, of b]
  show ?case using Cons.IH [OF c(3)] c page_only_trans [OF c(2)] page_only_rows [OF c(2)] by simp
qed simp

lemma scr_ok_enter [simp]: "scr_ok (con_enter_cs s) = scr_ok s" "scr_ok (con_leave_cs s) = scr_ok s"
  by (simp_all add: scr_ok_def)

lemma hi_lo_bytes: "256 * unat (ucast (drop_bit 8 w) :: u8) + unat (ucast (w AND 0xff) :: u8) = unat (w :: u16)"
proof -
  have w: "unat w < 65536" using unsigned_less [of w, where 'a = nat] by simp
  have h: "unat (ucast (drop_bit 8 w) :: u8) = unat w div 256"
    using w by (simp add: unsigned_ucast_eq unsigned_drop_bit_eq drop_bit_eq_div take_bit_eq_mod unat_div less_mult_imp_div_less)
  have m: "w AND 0xff = take_bit 8 w" by (simp add: take_bit_eq_mask mask_eq_exp_minus_1)
  have l: "(ucast (w AND 0xff) :: u8) = ucast w" unfolding m by (rule bit_word_eqI) (auto simp: bit_simps)
  have "unat (ucast (w AND 0xff) :: u8) = unat w mod 256" unfolding l by (simp add: unsigned_ucast_eq take_bit_eq_mod)
  with h show ?thesis by simp
qed

text \<open>Only the characters of the status line from a column on differ.\<close>

definition status_only :: "nat \<Rightarrow> screen \<Rightarrow> screen \<Rightarrow> bool" where
  "status_only n s t \<longleftrightarrow> (\<forall>i. i < 1920 + n \<or> 2000 \<le> i \<longrightarrow> sc_ram t i = sc_ram s i) \<and> (\<forall>i. cl_attr (sc_ram t i) = cl_attr (sc_ram s i))
     \<and> sc_curs_x t = sc_curs_x s \<and> sc_curs_y t = sc_curs_y s \<and> sc_page t = sc_page s"

lemma stputc_only: "int n \<le> sc_stcol s \<Longrightarrow> status_only n s (con_stputc ch s) \<and> int n \<le> sc_stcol (con_stputc ch s)"
  by (auto simp: con_stputc_def Let_def scr_x_def scr_cells_def status_only_def)

lemma stputcs_only: "int n \<le> sc_stcol s \<Longrightarrow> status_only n s (fold (\<lambda>c. con_stputc (int (of_char c))) out s)"
proof (induction out arbitrary: s)
  case (Cons c out)
  note p = stputc_only [OF Cons.prems, of "int (of_char c)"]
  with Cons.IH [of "con_stputc (int (of_char c)) s"] show ?case by (auto simp: status_only_def)
qed (simp add: status_only_def)

section \<open>Properties\<close>

text \<open>Property C18.
  The console is a terminal: what is written moves the cursor and changes the grid of the page as the
  terminal says, character by character, with wrapping at the right edge and scrolling at the bottom.
  The cursor stays on the page, and memory outside of the rows of the page, the status line included,
  keeps its contents. The result is zero, not the number of bytes.\<close>

theorem con_write_terminal:
  assumes "scr_ok s" "0 \<le> sz" "sz < 32768"
  shows "\<exists>s'. con_write 0 buf sz s = (0, s') \<and> scr_ok s' \<and> page_only s s'
    \<and> tview s' = fold (tstep (rows s)) (map buf [0..<nat sz]) (tview s)"
proof -
  have n: "unat (word_of_int sz :: u16) = nat sz"
    using assms(2,3) by (simp add: unat_eq_nat_uint uint_word_of_int)
  have v: "tview (con_enter_cs s) = tview s" "tview (con_leave_cs t) = tview t" "rows (con_enter_cs s) = rows s" for t
    by (simp_all add: tview_def rows_def)
  show ?thesis using chars_state [of "con_enter_cs s" "map buf [0..<nat sz]"] assms(1)
    by (simp add: con_write_def n v)
qed


text \<open>Remark.
  Any other character leaves the critical section and the interrupt flag as it found them.\<close>

theorem con_char_balanced:
  assumes "cs_ok s" "by \<noteq> 8 \<or> curs_x s \<noteq> 0"
  shows "sc_cs_reenter (con_char by s) = sc_cs_reenter s \<and> sc_if (con_char by s) = sc_if s \<and> cs_ok (con_char by s)"
  using char_cs [OF assms(1), of "by"] assms cs_ok_same by (auto simp: same_cs_def split: if_splits)

text \<open>Remark.
  Moving the cursor clamps it to the page, and the controller's cursor register holds its cell.\<close>

theorem con_gotoxy_bounds:
  assumes "scr_ok s" "cs_ok s" "s' = con_gotoxy x y s"
  shows "scr_ok s' \<and> sc_ram s' = sc_ram s \<and> sc_if s' = sc_if s
    \<and> curs_x s' = max 0 (min x 79) \<and> curs_y s' = max 0 (min y (MAXY s - 1))
    \<and> 256 * unat (sc_crt s' 14) + unat (sc_crt s' 15) = sc_scrram s + 80 * nat (curs_y s') + nat (curs_x s')"
proof -
  let ?x = "max 0 (min x 79)" and ?y = "max 0 (min y (MAXY s - 1))"
  have g: "con_gotoxy x y s = con_leave_cs (con_cursync (set_y ?y (set_x ?x (con_enter_cs s))))"
    using MAXY_vals [of s] by (auto simp: con_gotoxy_def Let_def scr_x_def max_def min_def)
  have c: "curs_x (con_gotoxy x y s) = ?x" "curs_y (con_gotoxy x y s) = ?y" unfolding g by simp_all
  have b: "0 \<le> ?x" "?x < 80" "0 \<le> ?y" "?y < MAXY s" using MAXY_vals [of s] by auto
  have ok: "scr_ok (con_gotoxy x y s)"
    by (rule scr_okI [OF assms(1)]) (unfold c, use b in \<open>simp_all add: g page_only_set\<close>)
  have i: "same_cs s (con_gotoxy x y s)" unfolding g by (rule bracket [OF assms(2)]) simp
  define v where "v = sc_page s * scr_cells + ?y * scr_x + ?x"
  have v: "0 \<le> v" "v < 8000" "nat v = sc_scrram s + 80 * nat ?y + nat ?x"
  proof -
    have p: "0 \<le> sc_page s" "sc_page s \<le> 3" "sc_scrram s = 2000 * nat (sc_page s)" using assms(1) by (auto simp: scr_ok_def PAGES_def)
    have y: "?y \<le> 24" "?x \<le> 79" using MAXY_vals [of s] by auto
    show "0 \<le> v" unfolding v_def using p b by (simp add: scr_cells_def scr_x_def)
    have "q * (80 * 25) + Y * 80 + X < 8000" if "q \<le> 3" "Y \<le> 24" "X \<le> 79" for q X Y :: int using that by simp
    from this [OF p(2) y] show "v < 8000" unfolding v_def scr_cells_def scr_x_def .
    show "nat v = sc_scrram s + 80 * nat ?y + nat ?x"
      unfolding v_def using p b by (simp add: scr_cells_def scr_x_def nat_add_distrib nat_mult_distrib)
  qed
  have w: "unat (word_of_int v :: u16) = nat v" using v by (simp add: unat_eq_nat_uint uint_word_of_int)
  have "sc_crt (con_gotoxy x y s) 14 = ucast (drop_bit 8 (word_of_int v :: u16))" "sc_crt (con_gotoxy x y s) 15 = ucast ((word_of_int v :: u16) AND 0xff)"
    unfolding g by (simp_all add: con_cursync_def Let_def CRT_IDX_CURSOR_H_def CRT_IDX_CURSOR_L_def v_def)
  then have "256 * unat (sc_crt (con_gotoxy x y s) 14) + unat (sc_crt (con_gotoxy x y s) 15) = nat v"
    using w hi_lo_bytes [of "word_of_int v"] by simp
  then have e: "256 * unat (sc_crt s' 14) + unat (sc_crt s' 15) = sc_scrram s + 80 * nat (curs_y s') + nat (curs_x s')"
    unfolding assms(3) c v(3) .
  have "sc_ram (con_gotoxy x y s) = sc_ram s" unfolding g by simp
  with ok i c show ?thesis unfolding assms(3) [symmetric] same_cs_def by (intro conjI e) blast+
qed

text \<open>Remark.
  The status line belongs to the kernel: showing a text there changes the characters of the last row of
  the first page from the column on, and neither their attributes nor any other cell nor a cursor.\<close>

theorem con_status_row:
  assumes "con_status mm col fmt va s = Some s'" "0 \<le> col"
  shows "(\<forall>i. i < 1920 + nat col \<or> 2000 \<le> i \<longrightarrow> sc_ram s' i = sc_ram s i) \<and> (\<forall>i. cl_attr (sc_ram s' i) = cl_attr (sc_ram s i))
    \<and> sc_curs_x s' = sc_curs_x s \<and> sc_curs_y s' = sc_curs_y s \<and> sc_page s' = sc_page s"
proof -
  obtain out where "s' = con_leave_cs (fold (\<lambda>c. con_stputc (int (of_char c))) out ((con_enter_cs s)\<lparr>sc_stcol := col\<rparr>))"
    using assms(1) by (auto simp: con_status_def)
  then show ?thesis using stputcs_only [of "nat col" "(con_enter_cs s)\<lparr>sc_stcol := col\<rparr>" out] assms(2) by (simp add: status_only_def)
qed

section \<open>Witnesses\<close>

text \<open>The first page, empty, with the cursor on the last row.\<close>

definition w_scr :: "int \<Rightarrow> screen" where
  "w_scr x = \<lparr>sc_ram = (\<lambda>_. blank), sc_page = 0, sc_curs_x = (\<lambda>_. x), sc_curs_y = (\<lambda>_. 23), sc_scrram = 0, sc_stcol = 0,
     sc_crt = (\<lambda>_. 0), sc_if = True, sc_cs_sti = False, sc_cs_reenter = 0\<rparr>"

lemma w_scr_ok: "0 \<le> x \<Longrightarrow> x < 80 \<Longrightarrow> scr_ok (w_scr x)" "cs_ok (w_scr x)" "rows (w_scr x) = 24" "curs_x (w_scr x) = x" "curs_y (w_scr x) = 23"
  by (simp_all add: scr_ok_def w_scr_def cs_ok_def PAGES_def rows_def MAXY_def scr_y_def curs_x_def curs_y_def)

theorem con_write_terminal_witness:
  "\<exists>s'. con_write 0 (\<lambda>i. [0x61, 0x62, 10] ! i) 3 (w_scr 79) = (0, s') \<and> (case tview s' of (x, y, g) \<Rightarrow>
     x = 1 \<and> y = 23 \<and> g 21 79 = cell 0x61 defattr \<and> g 22 0 = cell 0x62 defattr \<and> g 23 0 = blank)"
proof -
  have t: "tview (w_scr 79) = (79, 23, \<lambda>r c. blank)"
    by (simp add: tview_def w_scr_ok) (simp add: grid_def w_scr_def cong: if_cong)
  show ?thesis using con_write_terminal [OF w_scr_ok(1), of 79 3 "\<lambda>i. [0x61, 0x62, 10] ! i"]
    by (auto simp: t w_scr_ok(3) upt_rec gscroll_def Let_def)
qed


theorem con_char_balanced_witness: "sc_if (con_char 8 (w_scr 5))"
  using con_char_balanced [OF w_scr_ok(2), of 8 5] by (simp add: w_scr_def curs_x_def)

theorem con_gotoxy_bounds_witness: "curs_x (con_gotoxy 100 (- 1) (w_scr 5)) = 79 \<and> curs_y (con_gotoxy 100 (- 1) (w_scr 5)) = 0"
  using con_gotoxy_bounds [OF w_scr_ok(1,2) refl, of 5 100 "- 1"] by (simp add: w_scr_ok)

theorem con_status_row_witness:
  "\<exists>s'. con_status \<lparr>near_str = (\<lambda>_. []), far_str = (\<lambda>_. [])\<rparr> 3 ''A'' [] (w_scr 0) = Some s' \<and> sc_ram s' 1922 = blank"
proof -
  have "\<exists>s'. con_status \<lparr>near_str = (\<lambda>_. []), far_str = (\<lambda>_. [])\<rparr> 3 ''A'' [] (w_scr 0) = Some s'"
    by (simp add: con_status_def)
  then obtain s' where s: "con_status \<lparr>near_str = (\<lambda>_. []), far_str = (\<lambda>_. [])\<rparr> 3 ''A'' [] (w_scr 0) = Some s'" ..
  from con_status_row [OF s] show ?thesis using s by (auto simp: w_scr_def)
qed

end
