(* ===== verification/Ctype.thy ===== *)
theory Ctype
  imports Prelude
begin

text \<open>
  The character classes of the C library, \<open>clib/lib/ctype.c\<close> and \<open>clib/include/CTYPE.H\<close>: the table of
  attributes and the macros that test it, and how far the macros are the classes of ASCII.
\<close>

section \<open>The table\<close>

definition CT_SPACE :: u8 where "CT_SPACE = 0x01"
definition CT_LOWER :: u8 where "CT_LOWER = 0x02"
definition CT_UPPER :: u8 where "CT_UPPER = 0x04"
definition CT_DIGIT :: u8 where "CT_DIGIT = 0x08"
definition CT_PRINT :: u8 where "CT_PRINT = 0x10"
definition CT_XDIGIT :: u8 where "CT_XDIGIT = 0x20"
definition CT_CNTRL :: u8 where "CT_CNTRL = 0x40"
definition CT_ALPHA :: u8 where "CT_ALPHA = CT_LOWER OR CT_UPPER"
definition CT_ALNUM :: u8 where "CT_ALNUM = CT_ALPHA OR CT_DIGIT"

lemmas ct_bits = CT_SPACE_def CT_LOWER_def CT_UPPER_def CT_DIGIT_def CT_PRINT_def CT_XDIGIT_def CT_CNTRL_def CT_ALPHA_def CT_ALNUM_def

text \<open>The rows \<open>00\<close> to \<open>3f\<close>, \<open>40\<close> to \<open>7f\<close> and the upper half.\<close>

definition ct_attr_00 :: "u8 list" where
  "ct_attr_00 = [
     CT_CNTRL, CT_CNTRL, CT_CNTRL, CT_CNTRL, CT_CNTRL, CT_CNTRL, CT_CNTRL, CT_CNTRL, CT_CNTRL,
     CT_CNTRL OR CT_SPACE, CT_CNTRL OR CT_SPACE, CT_CNTRL OR CT_SPACE, CT_CNTRL OR CT_SPACE,
     CT_CNTRL OR CT_SPACE, CT_CNTRL, CT_CNTRL, CT_CNTRL, CT_CNTRL, CT_CNTRL, CT_CNTRL, CT_CNTRL, CT_CNTRL,
     CT_CNTRL, CT_CNTRL, CT_CNTRL, CT_CNTRL, CT_CNTRL, CT_CNTRL, CT_CNTRL, CT_CNTRL, CT_CNTRL, CT_CNTRL,
     CT_SPACE, CT_PRINT, CT_PRINT, CT_PRINT, CT_PRINT, CT_PRINT, CT_PRINT, CT_PRINT, CT_PRINT, CT_PRINT,
     CT_PRINT, CT_PRINT, CT_PRINT, CT_PRINT, CT_PRINT, CT_PRINT, CT_PRINT OR CT_DIGIT OR CT_XDIGIT,
     CT_PRINT OR CT_DIGIT OR CT_XDIGIT, CT_PRINT OR CT_DIGIT OR CT_XDIGIT, CT_PRINT OR CT_DIGIT OR CT_XDIGIT,
     CT_PRINT OR CT_DIGIT OR CT_XDIGIT, CT_PRINT OR CT_DIGIT OR CT_XDIGIT, CT_PRINT OR CT_DIGIT OR CT_XDIGIT,
     CT_PRINT OR CT_DIGIT OR CT_XDIGIT, CT_PRINT OR CT_DIGIT OR CT_XDIGIT, CT_PRINT OR CT_DIGIT OR CT_XDIGIT,
     CT_PRINT, CT_PRINT, CT_PRINT, CT_PRINT, CT_PRINT, CT_PRINT]"

definition ct_attr_40 :: "u8 list" where
  "ct_attr_40 = [
     CT_PRINT, CT_PRINT OR CT_UPPER OR CT_XDIGIT, CT_PRINT OR CT_UPPER OR CT_XDIGIT,
     CT_PRINT OR CT_UPPER OR CT_XDIGIT, CT_PRINT OR CT_UPPER OR CT_XDIGIT, CT_PRINT OR CT_UPPER OR CT_XDIGIT,
     CT_PRINT OR CT_UPPER OR CT_XDIGIT, CT_PRINT OR CT_UPPER, CT_PRINT OR CT_UPPER, CT_PRINT OR CT_UPPER,
     CT_PRINT OR CT_UPPER, CT_PRINT OR CT_UPPER, CT_PRINT OR CT_UPPER, CT_PRINT OR CT_UPPER,
     CT_PRINT OR CT_UPPER, CT_PRINT OR CT_UPPER, CT_PRINT OR CT_UPPER, CT_PRINT OR CT_UPPER,
     CT_PRINT OR CT_UPPER, CT_PRINT OR CT_UPPER, CT_PRINT OR CT_UPPER, CT_PRINT OR CT_UPPER,
     CT_PRINT OR CT_UPPER, CT_PRINT OR CT_UPPER, CT_PRINT OR CT_UPPER, CT_PRINT OR CT_UPPER,
     CT_PRINT OR CT_UPPER, CT_PRINT, CT_PRINT, CT_PRINT, CT_PRINT, CT_PRINT, CT_PRINT,
     CT_PRINT OR CT_LOWER OR CT_XDIGIT, CT_PRINT OR CT_LOWER OR CT_XDIGIT, CT_PRINT OR CT_LOWER OR CT_XDIGIT,
     CT_PRINT OR CT_LOWER OR CT_XDIGIT, CT_PRINT OR CT_LOWER OR CT_XDIGIT, CT_PRINT OR CT_LOWER OR CT_XDIGIT,
     CT_PRINT OR CT_LOWER, CT_PRINT OR CT_LOWER, CT_PRINT OR CT_LOWER, CT_PRINT OR CT_LOWER,
     CT_PRINT OR CT_LOWER, CT_PRINT OR CT_LOWER, CT_PRINT OR CT_LOWER, CT_PRINT OR CT_LOWER,
     CT_PRINT OR CT_LOWER, CT_PRINT OR CT_LOWER, CT_PRINT OR CT_LOWER, CT_PRINT OR CT_LOWER,
     CT_PRINT OR CT_LOWER, CT_PRINT OR CT_LOWER, CT_PRINT OR CT_LOWER, CT_PRINT OR CT_LOWER,
     CT_PRINT OR CT_LOWER, CT_PRINT OR CT_LOWER, CT_PRINT OR CT_LOWER, CT_PRINT OR CT_LOWER, CT_PRINT,
     CT_PRINT, CT_PRINT, CT_PRINT, CT_CNTRL]"

definition ct_attr_80 :: "u8 list" where "ct_attr_80 = replicate 128 0"

definition ct_attr :: "u8 list" where "ct_attr = ct_attr_00 @ ct_attr_40 @ ct_attr_80"

definition ct_of :: "u16 \<Rightarrow> u8" where "ct_of c = ct_attr ! unat (c AND 0xff)"

section \<open>The macros\<close>

definition isalnum :: "u16 \<Rightarrow> u8" where "isalnum c = ct_of c AND CT_ALNUM"
definition isalpha :: "u16 \<Rightarrow> u8" where "isalpha c = ct_of c AND CT_ALPHA"
definition iscntrl :: "u16 \<Rightarrow> u8" where "iscntrl c = ct_of c AND CT_CNTRL"
definition isdigit :: "u16 \<Rightarrow> u8" where "isdigit c = ct_of c AND CT_DIGIT"
definition isgraph :: "u16 \<Rightarrow> u8" where "isgraph c = ct_of c AND CT_PRINT"
definition islower :: "u16 \<Rightarrow> u8" where "islower c = ct_of c AND CT_LOWER"
definition isprint :: "u16 \<Rightarrow> u8" where "isprint c = ct_of c AND (CT_SPACE OR CT_PRINT)"

text \<open>The comparison binds more tightly than \<open>&\<close>: it is one of constants.\<close>

definition ispunct :: "u16 \<Rightarrow> u8" where
  "ispunct c = ct_of c AND (if CT_PRINT OR CT_SPACE OR CT_ALPHA OR CT_DIGIT = CT_PRINT then 1 else 0)"

definition isspace :: "u16 \<Rightarrow> u8" where "isspace c = ct_of c AND CT_SPACE"
definition isupper :: "u16 \<Rightarrow> u8" where "isupper c = ct_of c AND CT_UPPER"
definition isxdigit :: "u16 \<Rightarrow> u8" where "isxdigit c = ct_of c AND CT_UPPER"

definition CT_ASCII_LOWER :: u16 where "CT_ASCII_LOWER = 0x20"
definition toupper :: "u16 \<Rightarrow> u16" where "toupper ch = (if islower ch \<noteq> 0 then ch AND NOT CT_ASCII_LOWER else ch)"
definition tolower :: "u16 \<Rightarrow> u16" where "tolower ch = (if isupper ch \<noteq> 0 then ch OR CT_ASCII_LOWER else ch)"

section \<open>The classes of ASCII\<close>

definition ct_space :: "nat \<Rightarrow> bool" where "ct_space b \<longleftrightarrow> 9 \<le> b \<and> b \<le> 13 \<or> b = 32"
definition ct_lower :: "nat \<Rightarrow> bool" where "ct_lower b \<longleftrightarrow> 97 \<le> b \<and> b \<le> 122"
definition ct_upper :: "nat \<Rightarrow> bool" where "ct_upper b \<longleftrightarrow> 65 \<le> b \<and> b \<le> 90"
definition ct_digit :: "nat \<Rightarrow> bool" where "ct_digit b \<longleftrightarrow> 48 \<le> b \<and> b \<le> 57"
definition ct_graph :: "nat \<Rightarrow> bool" where "ct_graph b \<longleftrightarrow> 33 \<le> b \<and> b \<le> 126"
definition ct_cntrl :: "nat \<Rightarrow> bool" where "ct_cntrl b \<longleftrightarrow> b < 32 \<or> b = 127"
definition ct_xdigit :: "nat \<Rightarrow> bool" where "ct_xdigit b \<longleftrightarrow> ct_digit b \<or> 65 \<le> b \<and> b \<le> 70 \<or> 97 \<le> b \<and> b \<le> 102"

definition ct_ref :: "nat \<Rightarrow> u8" where
  "ct_ref b = (if ct_space b then CT_SPACE else 0) OR (if ct_lower b then CT_LOWER else 0) OR (if ct_upper b then CT_UPPER else 0)
     OR (if ct_digit b then CT_DIGIT else 0) OR (if ct_graph b then CT_PRINT else 0) OR (if ct_xdigit b then CT_XDIGIT else 0)
     OR (if ct_cntrl b then CT_CNTRL else 0)"

lemma ct_attr_ref: "ct_attr = map ct_ref [0..<256]"
  by code_simp

lemma ct_of_ref: "ct_of c = ct_ref (unat (c AND 0xff))"
proof -
  have "c AND 0xff \<le> 0xff" by (rule word_and_le1)
  then have "unat (c AND 0xff) < 256" by (simp add: word_le_nat_alt)
  then show ?thesis by (simp add: ct_of_def ct_attr_ref)
qed

lemma and_if: "(if P then x else 0) AND (y :: u8) = (if P then x AND y else 0)" and or_and: "(x OR y) AND (z :: u8) = x AND z OR y AND z"
  by (simp_all add: word_ao_dist)

lemmas ct_and = ct_of_ref ct_ref_def or_and and_if ct_bits

section \<open>Properties\<close>

text \<open>Remark.
  The classes of the library are those of ASCII, judged by the low byte of the argument, for letters,
  digits, white space, control and printing characters. The white space characters count as printing,
  and so do tab and the line ends.\<close>

theorem ctype_classes:
  fixes c :: u16
  defines "b \<equiv> unat (c AND 0xff)"
  shows "(isalpha c \<noteq> 0) = (ct_lower b \<or> ct_upper b) \<and> (islower c \<noteq> 0) = ct_lower b \<and> (isupper c \<noteq> 0) = ct_upper b
    \<and> (isdigit c \<noteq> 0) = ct_digit b \<and> (isalnum c \<noteq> 0) = (ct_lower b \<or> ct_upper b \<or> ct_digit b) \<and> (isspace c \<noteq> 0) = ct_space b
    \<and> (iscntrl c \<noteq> 0) = ct_cntrl b \<and> (isgraph c \<noteq> 0) = ct_graph b \<and> (isprint c \<noteq> 0) = (ct_graph b \<or> ct_space b)"
proof (intro conjI)
  show "(isalpha c \<noteq> 0) = (ct_lower b \<or> ct_upper b)" by (simp add: isalpha_def ct_and b_def)
  show "(islower c \<noteq> 0) = ct_lower b" by (simp add: islower_def ct_and b_def)
  show "(isupper c \<noteq> 0) = ct_upper b" by (simp add: isupper_def ct_and b_def)
  show "(isdigit c \<noteq> 0) = ct_digit b" by (simp add: isdigit_def ct_and b_def)
  show "(isalnum c \<noteq> 0) = (ct_lower b \<or> ct_upper b \<or> ct_digit b)" by (simp add: isalnum_def ct_and b_def)
  show "(isspace c \<noteq> 0) = ct_space b" by (simp add: isspace_def ct_and b_def)
  show "(iscntrl c \<noteq> 0) = ct_cntrl b" by (simp add: iscntrl_def ct_and b_def)
  show "(isgraph c \<noteq> 0) = ct_graph b" by (simp add: isgraph_def ct_and b_def)
  show "(isprint c \<noteq> 0) = (ct_graph b \<or> ct_space b)" by (simp add: isprint_def ct_and b_def)
qed

text \<open>Remark.
  Two classes are not what their names say: \<open>ispunct\<close> holds for no character, and \<open>isxdigit\<close> holds for
  the capital letters, so for no digit.\<close>

theorem ctype_broken:
  "ispunct c = 0 \<and> (isxdigit c \<noteq> 0) = ct_upper (unat (c AND 0xff))"
  by (simp add: ispunct_def isxdigit_def) (simp add: ct_and)

text \<open>The bit that tells the cases apart, for the bytes.\<close>

lemma case_bit:
  fixes c :: u16
  assumes "unat c < 256"
  shows "c AND 0xff = c" "ct_lower (unat c) \<Longrightarrow> unat (c AND NOT CT_ASCII_LOWER) = unat c - 32"
    "ct_upper (unat c) \<Longrightarrow> unat (c OR CT_ASCII_LOWER) = unat c + 32"
proof -
  have "list_all (\<lambda>n. let c = (of_nat n :: u16) in c AND 0xff = c
      \<and> (ct_lower n \<longrightarrow> unat (c AND NOT CT_ASCII_LOWER) = n - 32) \<and> (ct_upper n \<longrightarrow> unat (c OR CT_ASCII_LOWER) = n + 32)) [0..<256]"
    by code_simp
  then show "c AND 0xff = c" "ct_lower (unat c) \<Longrightarrow> unat (c AND NOT CT_ASCII_LOWER) = unat c - 32"
    "ct_upper (unat c) \<Longrightarrow> unat (c OR CT_ASCII_LOWER) = unat c + 32"
    using assms by (auto simp: list_all_iff Let_def dest!: bspec [of _ _ "unat c"])
qed

lemma case_val:
  assumes "unat c < 256"
  shows "unat (toupper c) = (if ct_lower (unat c) then unat c - 32 else unat c)"
    "unat (tolower c) = (if ct_upper (unat c) then unat c + 32 else unat c)"
proof -
  have "(islower c \<noteq> 0) = ct_lower (unat c)" "(isupper c \<noteq> 0) = ct_upper (unat c)"
    using case_bit(1) [OF assms] by (simp_all add: islower_def isupper_def ct_and)
  then show "unat (toupper c) = (if ct_lower (unat c) then unat c - 32 else unat c)"
    "unat (tolower c) = (if ct_upper (unat c) then unat c + 32 else unat c)"
    using case_bit(2,3) [OF assms] by (simp_all add: toupper_def tolower_def)
qed

text \<open>Remark.
  \<open>toupper\<close> and \<open>tolower\<close> map the letters onto each other, and leave every other byte as it is.\<close>

theorem case_letters:
  assumes "unat c < 256"
  shows "unat (toupper c) = (if ct_lower (unat c) then unat c - 32 else unat c)
    \<and> unat (tolower c) = (if ct_upper (unat c) then unat c + 32 else unat c)
    \<and> (ct_lower (unat c) \<longrightarrow> tolower (toupper c) = c) \<and> (ct_upper (unat c) \<longrightarrow> toupper (tolower c) = c)"
proof -
  note v = case_val [OF assms]
  have "ct_lower (unat c) \<Longrightarrow> unat (tolower (toupper c)) = unat c"
    using case_val(2) [of "toupper c"] v(1) by (auto simp: ct_lower_def ct_upper_def)
  moreover have "ct_upper (unat c) \<Longrightarrow> unat (toupper (tolower c)) = unat c"
    using case_val(1) [of "tolower c"] v(2) by (auto simp: ct_lower_def ct_upper_def)
  ultimately show ?thesis using v by (simp add: word_unat_eq_iff)
qed

section \<open>Witnesses\<close>

theorem case_letters_witness: "toupper 0x61 = 0x41 \<and> tolower (toupper 0x61) = 0x61"
  using case_letters [of "0x61"] by (simp add: ct_lower_def word_unat_eq_iff)

end
