(* ===== verification/Malloc.thy ===== *)
theory Malloc
  imports Prelude
begin

text \<open>
  The heap of user programs, \<open>clib/lib/malloc.c\<close>: a circular list of headers of four bytes, in order of
  addresses. Headers and the bytes of the blocks are kept apart, each by address.
\<close>

section \<open>State\<close>

record hbhdr =
  hb_next :: u16
  hb_bytes :: u16

record heap =
  h_hdr :: "u16 \<Rightarrow> hbhdr"
  h_mem :: "u16 \<Rightarrow> u8"
  h_heap :: u16

definition INUSE :: u16 where "INUSE = 1"

definition hset :: "u16 \<Rightarrow> (hbhdr \<Rightarrow> hbhdr) \<Rightarrow> heap \<Rightarrow> heap" where
  "hset a f H = H\<lparr>h_hdr := (h_hdr H)(a := f (h_hdr H a))\<rparr>"

section \<open>Allocation\<close>

definition word_round :: "u16 \<Rightarrow> u16" where "word_round bytes = (bytes + 1) AND NOT 1"

partial_function (option) hb_find :: "heap \<Rightarrow> u16 \<Rightarrow> u16 \<Rightarrow> u16 option option" where
  "hb_find H bytes pb =
     (if hb_bytes (h_hdr H pb) AND INUSE = 0 \<and> bytes \<le> hb_bytes (h_hdr H pb) then Some (Some pb)
      else if hb_next (h_hdr H pb) = h_heap H then Some None
      else hb_find H bytes (hb_next (h_hdr H pb)))"

definition malloc :: "u16 \<Rightarrow> heap \<Rightarrow> (u16 \<times> heap) res" where
  "malloc bytes0 H =
     (let bytes = word_round bytes0
      in bind_res (of_loop (hb_find H bytes (h_heap H))) (\<lambda>r.
         case r of
           None \<Rightarrow> Ok (0, H)
         | Some blk \<Rightarrow>
             (let pub = blk + 4;
                  H1 = (if 8 \<le> hb_bytes (h_hdr H blk)
                        then (let pb = pub + bytes;
                                  A1 = hset pb (\<lambda>x. x\<lparr>hb_next := hb_next (h_hdr H blk)\<rparr>) H;
                                  A2 = hset pb (\<lambda>x. x\<lparr>hb_bytes := hb_bytes (h_hdr A1 blk) - bytes - 4\<rparr>) A1;
                                  A3 = hset blk (\<lambda>x. x\<lparr>hb_next := pb\<rparr>) A2
                              in hset blk (\<lambda>x. x\<lparr>hb_bytes := bytes\<rparr>) A3)
                        else H)
              in Ok (pub, hset blk (\<lambda>x. x\<lparr>hb_bytes := hb_bytes x OR INUSE\<rparr>) H1))))"

text \<open>The product is one of 16 bits, so its upper half is always zero.\<close>

definition calloc :: "u16 \<Rightarrow> u16 \<Rightarrow> heap \<Rightarrow> (u16 \<times> heap) res" where
  "calloc n sz H =
     (let sz32 = (ucast (n * sz) :: u32)
      in if sz32 AND 0xffff0000 \<noteq> 0 then Ok (0, H)
         else (let sz1 = (ucast (sz32 AND 0xffff) :: u16)
               in bind_res (malloc sz1 H) (\<lambda>(p, H1).
                  Ok (p, if p \<noteq> 0 then H1\<lparr>h_mem := (\<lambda>i. if unat (i - p) < unat sz1 then 0 else h_mem H1 i)\<rparr> else H1))))"

section \<open>Release\<close>

partial_function (option) hb_prev :: "heap \<Rightarrow> u16 \<Rightarrow> u16 \<Rightarrow> u16 option" where
  "hb_prev H cur prev =
     (if hb_next (h_hdr H prev) = cur then Some prev
      else if hb_next (h_hdr H prev) \<noteq> h_heap H then hb_prev H cur (hb_next (h_hdr H prev))
      else Some (hb_next (h_hdr H prev)))"

text \<open>The second half of \<open>free\<close>: take in the free block that follows.\<close>

definition hb_join :: "u16 \<Rightarrow> heap \<Rightarrow> heap" where
  "hb_join cur H =
     (let next = hb_next (h_hdr H cur)
      in if cur < next \<and> hb_bytes (h_hdr H next) AND INUSE = 0
         then hset cur (\<lambda>x. x\<lparr>hb_next := hb_next (h_hdr H next), hb_bytes := hb_bytes x + (4 + hb_bytes (h_hdr H next))\<rparr>) H
         else H)"

definition free :: "u16 \<Rightarrow> heap \<Rightarrow> heap res" where
  "free p H =
     (let cur = p - 4
      in if p = 0 then Ok H
         else bind_res (of_loop (hb_prev H cur (h_heap H))) (\<lambda>prev.
              if hb_next (h_hdr H prev) \<noteq> cur \<or> hb_bytes (h_hdr H cur) AND INUSE = 0 then Ok H
              else (let H1 = hset cur (\<lambda>x. x\<lparr>hb_bytes := hb_bytes x AND NOT INUSE\<rparr>) H
                    in Ok (if prev < cur \<and> hb_bytes (h_hdr H1 prev) AND INUSE = 0
                           then hb_join prev (hset prev (\<lambda>x. x\<lparr>hb_next := hb_next (h_hdr H1 cur),
                                  hb_bytes := hb_bytes x + (4 + hb_bytes (h_hdr H1 cur))\<rparr>) H1)
                           else hb_join cur H1))))"

section \<open>Changing the size\<close>

definition copy_mem :: "u16 \<Rightarrow> u16 \<Rightarrow> u16 \<Rightarrow> heap \<Rightarrow> heap" where
  "copy_mem to from n H = H\<lparr>h_mem := (\<lambda>i. if unat (i - to) < unat n then h_mem H (from + (i - to)) else h_mem H i)\<rparr>"

text \<open>\<open>cursz\<close> is still zero at the first comparison. In the last step the old block is \<open>cur + 1\<close>.\<close>

definition realloc :: "u16 \<Rightarrow> u16 \<Rightarrow> heap \<Rightarrow> (u16 \<times> heap) res" where
  "realloc p bytes0 H =
     (if bytes0 = 0 then bind_res (free p H) (\<lambda>H1. Ok (0, H1))
      else if p = 0 then malloc bytes0 H
      else (let bytes = word_round bytes0
            in if bytes = 0 then Ok (p, H)
               else (let cur = p - 4; cursz = hb_bytes (h_hdr H cur) AND NOT INUSE
                     in if bytes < cursz then
                          Ok (p, if 8 \<le> cursz - bytes
                                 then (let next = p + bytes;
                                           H1 = hset next (\<lambda>x. x\<lparr>hb_next := hb_next (h_hdr H cur)\<rparr>) H;
                                           H2 = hset next (\<lambda>x. x\<lparr>hb_bytes := cursz - 4 - bytes\<rparr>) H1
                                       in hset cur (\<lambda>x. x\<lparr>hb_next := next, hb_bytes := bytes OR INUSE\<rparr>) H2)
                                 else H)
                        else (let next = hb_next (h_hdr H cur); nb = hb_bytes (h_hdr H next)
                              in if cur < next \<and> nb AND INUSE = 0 \<and> bytes \<le> cursz + 4 + nb
                                 then (let left = cursz + 4 + nb - bytes
                                       in Ok (p, if 8 < left
                                          then (let next' = p + bytes;
                                                    H1 = hset next' (\<lambda>x. x\<lparr>hb_next := hb_next (h_hdr H cur)\<rparr>) H;
                                                    H2 = hset next' (\<lambda>x. x\<lparr>hb_bytes := left - 4\<rparr>) H1
                                                in hset cur (\<lambda>x. x\<lparr>hb_next := next', hb_bytes := bytes OR INUSE\<rparr>) H2)
                                          else hset cur (\<lambda>x. x\<lparr>hb_next := hb_next (h_hdr H next),
                                                 hb_bytes := (cursz + 4 + nb) OR INUSE\<rparr>) H))
                                 else bind_res (malloc bytes H) (\<lambda>(q, H1).
                                      if q \<noteq> 0
                                      then bind_res (free p (copy_mem q p (hb_bytes (h_hdr H1 cur) AND NOT INUSE) H1)) (\<lambda>H2. Ok (q, H2))
                                      else Ok (q, H1))))))"

end
