(* ===== verification/Stdio.thy ===== *)
theory Stdio
  imports Malloc Fat
begin

text \<open>
  Streams of the C library, \<open>clib/lib/stdio.c\<close> with the macros of \<open>clib/include/STDIO.H\<close>: buffered
  files over the system calls, which are parameters here (their results as \<open>fileio.asm\<close> passes them on:
  -1 for an error; what they set \<open>errno\<close> to is theirs). A stream is its index in \<open>_files\<close>; buffers live in the heap of \<open>Malloc\<close>.
\<close>

section \<open>State\<close>

definition MAXFILE :: nat where "MAXFILE = 16"
definition DEF_BUFSIZE :: nat where "DEF_BUFSIZE = 128"

definition FILE_READ :: u16 where "FILE_READ = 0x01"
definition FILE_WRITE :: u16 where "FILE_WRITE = 0x02"
definition FILE_APP :: u16 where "FILE_APP = 0x04"
definition FILE_EOF :: u16 where "FILE_EOF = 0x08"
definition FILE_ERR :: u16 where "FILE_ERR = 0x10"
definition FILE_PLUS :: u16 where "FILE_PLUS = 0x20"

lemmas file_flags = FILE_READ_def FILE_WRITE_def FILE_APP_def FILE_EOF_def FILE_ERR_def FILE_PLUS_def

definition EOF :: int where "EOF = - 1"

definition O_WRONLY :: int where "O_WRONLY = 1"
definition O_RDWR :: int where "O_RDWR = 2"
definition O_TRUNC :: int where "O_TRUNC = 8"

record stream =
  f_fd :: int
  f_buf :: u16
  f_next :: u16
  f_cnt :: u16
  f_flags :: u16

record 'o lib =
  l_files :: "nat \<Rightarrow> stream"
  l_errno :: int
  l_heap :: heap
  l_os :: 'o

text \<open>The system calls, on a state of the system.\<close>

record 'o os =
  os_open :: "cstr \<Rightarrow> int \<Rightarrow> 'o \<Rightarrow> int \<times> 'o"
  os_close :: "int \<Rightarrow> 'o \<Rightarrow> 'o"
  os_read :: "int \<Rightarrow> nat \<Rightarrow> 'o \<Rightarrow> int \<times> u8 list \<times> 'o"
  os_write :: "int \<Rightarrow> u8 list \<Rightarrow> 'o \<Rightarrow> int \<times> 'o"

definition fupd :: "nat \<Rightarrow> (stream \<Rightarrow> stream) \<Rightarrow> 'o lib \<Rightarrow> 'o lib" where
  "fupd i g L = L\<lparr>l_files := (l_files L)(i := g (l_files L i))\<rparr>"

definition store_bytes :: "u16 \<Rightarrow> u8 list \<Rightarrow> 'o lib \<Rightarrow> 'o lib" where
  "store_bytes p bs L =
     L\<lparr>l_heap := (l_heap L)\<lparr>h_mem := (\<lambda>a. if unat (a - p) < length bs then bs ! unat (a - p) else h_mem (l_heap L) a)\<rparr>\<rparr>"

definition bytes_at :: "u16 \<Rightarrow> nat \<Rightarrow> 'o lib \<Rightarrow> u8 list" where
  "bytes_at p n L = map (\<lambda>k. h_mem (l_heap L) (p + of_nat k)) [0..<n]"

definition with_heap :: "(heap \<Rightarrow> ('a \<times> heap) res) \<Rightarrow> 'o lib \<Rightarrow> ('a \<times> 'o lib) res" where
  "with_heap g L = bind_res (g (l_heap L)) (\<lambda>(x, H). Ok (x, L\<lparr>l_heap := H\<rparr>))"

definition lib_free :: "u16 \<Rightarrow> 'o lib \<Rightarrow> 'o lib res" where
  "lib_free p L = bind_res (free p (l_heap L)) (\<lambda>H. Ok (L\<lparr>l_heap := H\<rparr>))"

section \<open>Flushing and filling\<close>

definition fflush :: "'o os \<Rightarrow> nat \<Rightarrow> 'o lib \<Rightarrow> int \<times> 'o lib" where
  "fflush S i L =
     (let fp = l_files L i
      in if f_flags fp AND (FILE_EOF OR FILE_ERR) \<noteq> 0 then (EOF, L)
         else (let (wrote, L1) =
                 (if f_flags fp AND FILE_WRITE \<noteq> 0
                  then (let cnt = sint (f_next fp - f_buf fp)
                        in if cnt \<noteq> 0
                           then (let (w, os1) = os_write S (f_fd fp) (bytes_at (f_buf fp) (unat (f_next fp - f_buf fp)) L) (l_os L);
                                     La = L\<lparr>l_os := os1\<rparr>
                                 in (w, if w < cnt then fupd i (\<lambda>f. f\<lparr>f_flags := f_flags f OR FILE_ERR\<rparr>) La else La))
                           else (0, L))
                  else (0, L));
                 L2 = fupd i (\<lambda>f. f\<lparr>f_next := f_buf f, f_cnt := of_nat DEF_BUFSIZE\<rparr>) L1
               in (if f_flags (l_files L2 i) AND FILE_ERR \<noteq> 0 then EOF else wrote, L2)))"

definition ffill :: "'o os \<Rightarrow> nat \<Rightarrow> 'o lib \<Rightarrow> int \<times> 'o lib" where
  "ffill S i L0 =
     (let L = (if f_fd (l_files L0 i) = 0 then snd (fflush S 1 L0) else L0)
      in if f_flags (l_files L i) AND (FILE_EOF OR FILE_ERR) \<noteq> 0 then (EOF, L)
         else (let fp = l_files L i;
                   (cnt, bs, os1) = os_read S (f_fd fp) DEF_BUFSIZE (l_os L);
                   L1 = store_bytes (f_buf fp) bs (L\<lparr>l_os := os1\<rparr>);
                   L2 = fupd i (\<lambda>f. f\<lparr>f_cnt := word_of_int cnt, f_next := f_buf f\<rparr>) L1;
                   L3 = (if f_cnt (l_files L2 i) = - 1 then fupd i (\<lambda>f. f\<lparr>f_flags := f_flags f OR FILE_ERR\<rparr>) L2
                         else if f_cnt (l_files L2 i) = 0 then fupd i (\<lambda>f. f\<lparr>f_flags := f_flags f OR FILE_EOF\<rparr>) L2 else L2)
               in if f_flags (l_files L3 i) AND (FILE_EOF OR FILE_ERR) \<noteq> 0 then (EOF, L3)
                  else (uint (h_mem (l_heap L3) (f_next (l_files L3 i))),
                        fupd i (\<lambda>f. f\<lparr>f_cnt := f_cnt f - 1, f_next := f_next f + 1\<rparr>) L3)))"

text \<open>\<open>_fflush\<close>: make room and store a character.\<close>

definition fflush_char :: "'o os \<Rightarrow> nat \<Rightarrow> int \<Rightarrow> 'o lib \<Rightarrow> int \<times> 'o lib" where
  "fflush_char S i ch L =
     (if f_flags (l_files L i) AND (FILE_EOF OR FILE_ERR) \<noteq> 0 then (EOF, L)
      else (let L1 = snd (fflush S i L);
                L2 = store_bytes (f_next (l_files L1 i)) [word_of_int ch] L1;
                L3 = fupd i (\<lambda>f. f\<lparr>f_next := f_next f + 1, f_cnt := f_cnt f - 1\<rparr>) L2
            in (if f_flags (l_files L3 i) AND FILE_ERR \<noteq> 0 then EOF else ch, L3)))"

definition getc :: "'o os \<Rightarrow> nat \<Rightarrow> 'o lib \<Rightarrow> int \<times> 'o lib" where
  "getc S i L =
     (let L1 = fupd i (\<lambda>f. f\<lparr>f_cnt := f_cnt f - 1\<rparr>) L
      in if 0 \<le> sint (f_cnt (l_files L1 i))
         then (uint (h_mem (l_heap L1) (f_next (l_files L1 i))), fupd i (\<lambda>f. f\<lparr>f_next := f_next f + 1\<rparr>) L1)
         else ffill S i L1)"

definition putc :: "'o os \<Rightarrow> int \<Rightarrow> nat \<Rightarrow> 'o lib \<Rightarrow> int \<times> 'o lib" where
  "putc S ch i L =
     (let L1 = fupd i (\<lambda>f. f\<lparr>f_cnt := f_cnt f - 1\<rparr>) L
      in if 0 \<le> sint (f_cnt (l_files L1 i))
         then (uint (word_of_int ch :: u8),
               fupd i (\<lambda>f. f\<lparr>f_next := f_next f + 1\<rparr>) (store_bytes (f_next (l_files L1 i)) [word_of_int ch] L1))
         else fflush_char S i ch L1)"

section \<open>Opening and closing\<close>

text \<open>\<open>flags\<close> is what the characters before gave; \<open>+\<close> is always refused in the end.\<close>

fun parse_chars :: "u16 \<Rightarrow> string \<Rightarrow> u16 option" where
  "parse_chars fl [] = Some fl"
| "parse_chars fl (c # cs) =
     (if c = CHR ''r'' then (if fl \<noteq> 0 then None else parse_chars (fl OR FILE_READ) cs)
      else if c = CHR ''w'' then (if fl \<noteq> 0 then None else parse_chars (fl OR FILE_WRITE) cs)
      else if c = CHR ''a'' then (if fl \<noteq> 0 then None else parse_chars (fl OR FILE_APP) cs)
      else if c = CHR ''b'' then parse_chars fl cs
      else if c = CHR ''+'' then parse_chars (fl OR FILE_PLUS) cs
      else None)"

definition parse_mode :: "string \<Rightarrow> u16" where
  "parse_mode mode =
     (case parse_chars 0 mode of
        None \<Rightarrow> 0
      | Some fl \<Rightarrow> if fl AND FILE_PLUS = FILE_PLUS then 0 else fl)"

definition get_empty_file :: "'o lib \<Rightarrow> nat option" where
  "get_empty_file L = List.find (\<lambda>i. f_flags (l_files L i) = 0) [0..<MAXFILE]"

text \<open>The flags a stream gets and those of \<open>open\<close>, for each mode.\<close>

definition open_flags :: "u16 \<Rightarrow> (u16 \<times> int) option" where
  "open_flags fl =
     (if fl = FILE_READ then Some (fl, O_RDONLY)
      else if fl = FILE_READ OR FILE_PLUS then Some (fl OR FILE_WRITE, O_RDWR)
      else if fl = FILE_WRITE then Some (fl, O_WRONLY + O_CREAT + O_TRUNC)
      else if fl = FILE_WRITE OR FILE_PLUS then Some (fl OR FILE_READ, O_RDWR + O_CREAT + O_TRUNC)
      else if fl = FILE_APP then Some (fl OR FILE_WRITE, O_WRONLY + O_CREAT)
      else if fl = FILE_APP OR FILE_PLUS then Some (fl OR FILE_READ OR FILE_WRITE, O_RDWR + O_CREAT)
      else None)"

definition fopen :: "'o os \<Rightarrow> cstr \<Rightarrow> string \<Rightarrow> 'o lib \<Rightarrow> (nat option \<times> 'o lib) res" where
  "fopen S fn mode L0 =
     (let L = L0\<lparr>l_errno := 0\<rparr>; fl = parse_mode mode
      in if fl = 0 then Ok (None, L\<lparr>l_errno := EINVAL\<rparr>)
         else case get_empty_file L of
           None \<Rightarrow> Ok (None, L\<lparr>l_errno := EMFILE\<rparr>)
         | Some i \<Rightarrow>
             bind_res (with_heap (malloc (of_nat DEF_BUFSIZE)) L) (\<lambda>(p, L1).
             let L2 = fupd i (\<lambda>f. f\<lparr>f_buf := p\<rparr>) L1
             in if p = 0 then Ok (None, L2\<lparr>l_errno := ENOMEM\<rparr>)
                else case open_flags fl of
                  None \<Rightarrow> bind_res (lib_free p L2) (\<lambda>L3. Ok (None, L3))
                | Some (fl1, ofl) \<Rightarrow>
                    (let (fd, os1) = os_open S fn ofl (l_os L2);
                         L3 = fupd i (\<lambda>f. f\<lparr>f_fd := fd\<rparr>) (L2\<lparr>l_os := os1\<rparr>)
                     in if fd = - 1
                        then bind_res (lib_free p L3) (\<lambda>L4. Ok (None, fupd i (\<lambda>f. f\<lparr>f_buf := 0\<rparr>) L4))
                        else Ok (Some i, fupd i (\<lambda>f. f\<lparr>f_flags := fl1, f_cnt := 0, f_next := f_buf f\<rparr>) L3))))"

definition fclose :: "'o os \<Rightarrow> nat \<Rightarrow> 'o lib \<Rightarrow> (int \<times> 'o lib) res" where
  "fclose S i L =
     (let (rc, L1) = (if f_flags (l_files L i) AND FILE_WRITE \<noteq> 0 then fflush S i L else (0, L));
          L2 = L1\<lparr>l_os := os_close S (f_fd (l_files L1 i)) (l_os L1)\<rparr>
      in bind_res (lib_free (f_buf (l_files L2 i)) L2) (\<lambda>L3.
         Ok (rc, fupd i (\<lambda>f. f\<lparr>f_buf := 0, f_next := 0, f_flags := 0\<rparr>) L3)))"

text \<open>The loops of \<open>_init_stdio\<close> and \<open>_close_stdio\<close>.\<close>

fun init_streams :: "nat list \<Rightarrow> 'o lib \<Rightarrow> 'o lib res" where
  "init_streams [] L = Ok L"
| "init_streams (i # is) L =
     bind_res (with_heap (malloc (of_nat DEF_BUFSIZE)) (fupd i (\<lambda>f. f\<lparr>f_fd := int i\<rparr>) L)) (\<lambda>(p, L1).
     init_streams is (fupd i (\<lambda>f. f\<lparr>f_buf := p, f_next := p, f_cnt := 0,
       f_flags := (if i = 0 then FILE_READ else FILE_WRITE)\<rparr>) L1))"

definition init_stdio :: "'o lib \<Rightarrow> 'o lib res" where "init_stdio = init_streams [0, 1, 2]"

fun close_streams :: "'o os \<Rightarrow> nat list \<Rightarrow> 'o lib \<Rightarrow> 'o lib res" where
  "close_streams S [] L = Ok L"
| "close_streams S (i # is) L =
     (if f_flags (l_files L i) \<noteq> 0 then bind_res (fclose S i L) (\<lambda>(_, L1). close_streams S is L1) else close_streams S is L)"

definition close_stdio :: "'o os \<Rightarrow> 'o lib \<Rightarrow> 'o lib res" where "close_stdio S = close_streams S [0..<MAXFILE]"

section \<open>Strings and blocks\<close>

text \<open>A \<open>char\<close> is signed.\<close>

fun fputs :: "'o os \<Rightarrow> cstr \<Rightarrow> nat \<Rightarrow> 'o lib \<Rightarrow> int \<times> 'o lib" where
  "fputs S [] i L = (0, L)"
| "fputs S (c # cs) i L =
     (let (r, L1) = putc S (sint c) i L in if r = EOF then (EOF, L1) else fputs S cs i L1)"

definition puts :: "'o os \<Rightarrow> cstr \<Rightarrow> 'o lib \<Rightarrow> int \<times> 'o lib" where
  "puts S s L = (let (r, L1) = fputs S s 1 L in if r = EOF then (- 1, L1) else putc S 10 1 L1)"

text \<open>Returns where the next byte goes; the first argument is how many more may be stored.\<close>

fun fgets_loop :: "'o os \<Rightarrow> nat \<Rightarrow> u16 \<Rightarrow> nat \<Rightarrow> 'o lib \<Rightarrow> u16 \<times> 'o lib" where
  "fgets_loop S 0 p i L = (p, L)"
| "fgets_loop S (Suc n) p i L =
     (let (ch, L1) = getc S i L
      in if ch = EOF then (p, L1)
         else (let L2 = store_bytes p [word_of_int ch] L1
               in if ch = 10 then (p + 1, L2) else fgets_loop S n (p + 1) i L2))"

text \<open>Zero is the null pointer.\<close>

definition fgets :: "'o os \<Rightarrow> u16 \<Rightarrow> int \<Rightarrow> nat \<Rightarrow> 'o lib \<Rightarrow> u16 \<times> 'o lib" where
  "fgets S s sz i L =
     (if sz = 0 then (0, L)
      else (let (p, L1) = fgets_loop S (nat (sz - 1)) s i L;
                L2 = store_bytes p [0] L1; p1 = p + 1
            in (if p1 = s then 0 else s, L2)))"

text \<open>The arguments of \<open>memcpy\<close> are exchanged: the first is the destination. Division by a size of zero
  stops the program.\<close>

definition fread :: "'o os \<Rightarrow> u16 \<Rightarrow> u16 \<Rightarrow> u16 \<Rightarrow> nat \<Rightarrow> 'o lib \<Rightarrow> (u16 \<times> 'o lib) res" where
  "fread S ptr sz nmemb i L =
     (if f_flags (l_files L i) AND (FILE_ERR OR FILE_EOF) \<noteq> 0 then Ok (0, L)
      else if sz = 0 then Panic
      else (let left = (65536 - unat ptr) div unat sz;
                nm = (if left < unat nmemb then of_nat left else nmemb);
                readsize = nm * sz;
                cnt = f_cnt (l_files L i);
                copy = (if cnt \<noteq> 0 then (if readsize < cnt then readsize else cnt) else 0);
                L1 = (if cnt \<noteq> 0
                      then fupd i (\<lambda>f. f\<lparr>f_cnt := f_cnt f - copy, f_next := f_next f + copy\<rparr>)
                             (L\<lparr>l_heap := copy_mem (f_next (l_files L i)) ptr copy (l_heap L)\<rparr>)
                      else L);
                pb = ptr + copy; rest = readsize - copy;
                (pb1, L2) =
                  (if rest \<noteq> 0
                   then (let (got, bs, os1) = os_read S (f_fd (l_files L1 i)) (unat rest) (l_os L1);
                             La = store_bytes pb bs (L1\<lparr>l_os := os1\<rparr>)
                         in if got = - 1 then (pb, fupd i (\<lambda>f. f\<lparr>f_flags := f_flags f OR FILE_ERR\<rparr>) La)
                            else (pb + word_of_int got, La))
                   else (pb, L1));
                got = (pb1 - ptr) div sz
            in Ok (got, if got = 0 \<and> f_flags (l_files L2 i) AND FILE_ERR = 0
                        then fupd i (\<lambda>f. f\<lparr>f_flags := f_flags f OR FILE_EOF\<rparr>) L2 else L2)))"

end
