(* ===== verification/StdioThms.thy ===== *)
theory StdioThms
  imports Stdio
begin

text \<open>
  Properties of the streams: reading a stream gives the bytes of its file one by one, a line at a time with
  \<open>fgets\<close>; what is put into a stream reaches the file when it is flushed; the modes that \<open>fopen\<close>
  takes; and what \<open>fread\<close> and an end of file that is read too often do.
\<close>

section \<open>Bytes in memory\<close>

lemma bytes_at_0 [simp]: "bytes_at p 0 L = []"
  by (simp add: bytes_at_def)

lemma bytes_at_length [simp]: "length (bytes_at p n L) = n"
  by (simp add: bytes_at_def)

lemma bytes_at_nth [simp]: "k < n \<Longrightarrow> bytes_at p n L ! k = h_mem (l_heap L) (p + of_nat k)"
  by (simp add: bytes_at_def)

lemma bytes_at_Suc: "bytes_at p (Suc n) L = h_mem (l_heap L) p # bytes_at (p + 1) n L"
  by (rule nth_equalityI) (auto simp: nth_Cons add.assoc split: nat.splits)

lemma bytes_at_snoc: "bytes_at p (Suc n) L = bytes_at p n L @ [h_mem (l_heap L) (p + of_nat n)]"
  by (simp add: bytes_at_def)

lemma bytes_at_cong:
  "(\<And>k. k < n \<Longrightarrow> h_mem (l_heap L) (p + of_nat k) = h_mem (l_heap M) (p + of_nat k)) \<Longrightarrow> bytes_at p n L = bytes_at p n M"
  by (simp add: bytes_at_def)

lemma h_mem_store: "h_mem (l_heap (store_bytes p bs L)) a = (if unat (a - p) < length bs then bs ! unat (a - p) else h_mem (l_heap L) a)"
  by (simp add: store_bytes_def)

lemma store_bytes_frame [simp]:
  "l_files (store_bytes p bs L) = l_files L" "l_os (store_bytes p bs L) = l_os L"
  by (simp_all add: store_bytes_def)

lemma bytes_at_store: "j + n \<le> length bs \<Longrightarrow> length bs \<le> 65535 \<Longrightarrow> bytes_at (p + of_nat j) n (store_bytes p bs L) = take n (drop j bs)"
proof (rule nth_equalityI)
  fix k assume "j + n \<le> length bs" "length bs \<le> 65535" "k < length (bytes_at (p + of_nat j) n (store_bytes p bs L))"
  then have jk: "j + k < length bs" "j + k < 65536" by simp_all
  have "p + of_nat j + of_nat k - p = (of_nat (j + k) :: u16)" by simp
  then have "unat (p + of_nat j + of_nat k - p) = j + k" using jk(2) unat_of_nat16 by metis
  then show "bytes_at (p + of_nat j) n (store_bytes p bs L) ! k = take n (drop j bs) ! k"
    using jk \<open>k < _\<close> by (simp add: h_mem_store)
qed simp

lemma fupd_frame [simp]: "l_heap (fupd i g L) = l_heap L" "l_os (fupd i g L) = l_os L" "l_files (fupd i g L) i = g (l_files L i)"
  by (simp_all add: fupd_def)

lemma bytes_at_fupd [simp]: "bytes_at p n (fupd i g L) = bytes_at p n L"
  by (simp add: bytes_at_def)

lemma bytes_at_os [simp]: "bytes_at p n (L\<lparr>l_os := os1\<rparr>) = bytes_at p n L"
  by (simp add: bytes_at_def)

lemma set_flag:
  fixes x g m :: u16 assumes "g \<noteq> 0" "g AND m = g"
  shows "(x OR g) AND m \<noteq> 0"
proof
  assume z: "(x OR g) AND m = 0"
  have "(x OR g) AND g = g" by (rule bit_word_eqI) (auto simp: bit_simps)
  moreover have "(x OR g) AND g = ((x OR g) AND m) AND g" by (metis assms(2) and.assoc and.commute)
  ultimately show False using z assms(1) by simp
qed

lemma uint_not_EOF: "uint (x :: u8) \<noteq> EOF"
proof
  assume "uint x = EOF"
  then show False using uint_ge_0 [of x] unfolding EOF_def by linarith
qed

lemma uint_10_iff: "uint (x :: u8) = 10 \<longleftrightarrow> x = 10"
proof
  assume "uint x = 10"
  then have "uint x = uint (10 :: u8)" by simp
  then show "x = 10" by (rule word_uint_eqI)
qed simp

lemma FILE_EOF_neq_0 [simp]: "FILE_EOF \<noteq> 0"
  by (simp add: FILE_EOF_def)

lemma flags_set [simp]:
  "(x OR FILE_EOF) AND FILE_EOF \<noteq> 0" "(x OR FILE_EOF) AND (FILE_EOF OR FILE_ERR) \<noteq> 0"
  by (rule set_flag; simp add: file_flags)+

section \<open>Reading\<close>

text \<open>What the file system promises: a read gives some of the bytes that are left of the file, none only at the
  end, and leaves other files alone.\<close>

definition reads_ok :: "'o os \<Rightarrow> ('o \<Rightarrow> int \<Rightarrow> u8 list) \<Rightarrow> bool" where
  "reads_ok S left \<longleftrightarrow>
     (\<forall>fd n s. 0 < n \<longrightarrow> (\<exists>bs s'. os_read S fd n s = (int (length bs), bs, s') \<and> length bs \<le> n \<and> left s fd = bs @ left s' fd \<and>
        (bs = [] \<longrightarrow> left s fd = []) \<and> (\<forall>fd'. fd' \<noteq> fd \<longrightarrow> left s' fd' = left s fd')))"

definition in_stream :: "nat \<Rightarrow> 'o lib \<Rightarrow> bool" where
  "in_stream i L \<longleftrightarrow> f_fd (l_files L i) \<noteq> 0 \<and> f_flags (l_files L i) AND (FILE_EOF OR FILE_ERR) = 0 \<and>
     unat (f_next (l_files L i) - f_buf (l_files L i)) + unat (f_cnt (l_files L i)) \<le> DEF_BUFSIZE"

text \<open>The bytes a stream has still to give.\<close>

definition unread :: "('o \<Rightarrow> int \<Rightarrow> u8 list) \<Rightarrow> nat \<Rightarrow> 'o lib \<Rightarrow> u8 list" where
  "unread left i L = bytes_at (f_next (l_files L i)) (unat (f_cnt (l_files L i))) L @ left (l_os L) (f_fd (l_files L i))"

definition same_outside :: "nat \<Rightarrow> 'o lib \<Rightarrow> 'o lib \<Rightarrow> bool" where
  "same_outside i L L' \<longleftrightarrow> f_buf (l_files L' i) = f_buf (l_files L i) \<and>
     (\<forall>a. DEF_BUFSIZE \<le> unat (a - f_buf (l_files L i)) \<longrightarrow> h_mem (l_heap L') a = h_mem (l_heap L) a)"

lemma unat_step: "unat ((p :: u16) + 1 - b) \<le> unat (p - b) + 1"
proof -
  have "p + 1 - b = (p - b) + 1" by simp
  then have "unat (p + 1 - b) = (unat (p - b) + 1) mod 65536" by (simp only: unat_word_ariths) simp
  then show ?thesis by simp
qed

lemma minus_1: "(- 1 :: u16) = 65535"
  by simp

lemma unat_minus_1: "unat (- 1 :: u16) = 65535"
  unfolding minus_1 by simp

lemma pred_step: "0 < unat ((a :: u16) - p) \<Longrightarrow> unat (a - (p + 1)) = unat (a - p) - 1"
proof -
  assume "0 < unat (a - p)"
  moreover have "a - (p + 1) = (a - p) - 1" by simp
  moreover have "0 < unat w \<Longrightarrow> unat (w - 1) = unat w - 1" for w :: u16 by (simp add: unat_sub_if')
  ultimately show ?thesis by metis
qed

lemma small_cnt:
  fixes c :: u16 assumes "unat c \<le> 128"
  shows "sint (c - 1) < 0 \<longleftrightarrow> c = 0" "c \<noteq> 0 \<Longrightarrow> unat (c - 1) = unat c - 1"
proof -
  have u: "c \<noteq> 0 \<Longrightarrow> unat (c - 1) = unat c - 1" by (simp add: unat_sub_if' unat_eq_0 unat_gt_0 Suc_le_eq)
  then show "c \<noteq> 0 \<Longrightarrow> unat (c - 1) = unat c - 1" .
  show "sint (c - 1) < 0 \<longleftrightarrow> c = 0"
  proof (cases "c = 0")
    case False
    then have "uint (c - 1) < 32768" using u assms by (simp add: uint_nat)
    then show ?thesis using False by (simp add: sint_u16)
  qed simp
qed

lemma getc_buffered:
  assumes "in_stream i L" "f_cnt (l_files L i) \<noteq> 0"
  shows "\<exists>L'. getc S i L = (uint (h_mem (l_heap L) (f_next (l_files L i))), L') \<and> in_stream i L' \<and> same_outside i L L' \<and>
    unread left i L = h_mem (l_heap L) (f_next (l_files L i)) # unread left i L'"
proof -
  let ?f = "l_files L i"
  let ?L = "fupd i (\<lambda>f. f\<lparr>f_next := f_next f + 1\<rparr>) (fupd i (\<lambda>f. f\<lparr>f_cnt := f_cnt f - 1\<rparr>) L)"
  have c: "unat (f_cnt ?f) \<le> 128" using assms(1) by (simp add: in_stream_def DEF_BUFSIZE_def)
  obtain n where n: "unat (f_cnt ?f) = Suc n" using assms(2) by (metis not0_implies_Suc unat_eq_0)
  have cnt: "unat (f_cnt ?f - 1) = n" using small_cnt(2) [OF c assms(2)] n by simp
  have g: "getc S i L = (uint (h_mem (l_heap L) (f_next ?f)), ?L)"
    using small_cnt(1) [OF c] assms(2) by (simp add: getc_def not_less)
  have "unat (f_next ?f + 1 - f_buf ?f) \<le> unat (f_next ?f - f_buf ?f) + 1" by (rule unat_step)
  then have "in_stream i ?L" using assms(1) cnt n by (simp add: in_stream_def)
  moreover have "unread left i L = h_mem (l_heap L) (f_next ?f) # unread left i ?L"
    unfolding unread_def n bytes_at_Suc by (simp add: cnt)
  moreover have "same_outside i L ?L" by (simp add: same_outside_def)
  ultimately show ?thesis using g by blast
qed

lemma getc_refill:
  assumes "in_stream i L" "f_cnt (l_files L i) = 0" "reads_ok S left"
  shows "(left (l_os L) (f_fd (l_files L i)) = [] \<and>
      (\<exists>L'. getc S i L = (EOF, L') \<and> f_flags (l_files L' i) AND FILE_EOF \<noteq> 0 \<and> unread left i L' = [] \<and> same_outside i L L')) \<or>
    (\<exists>x xs L'. left (l_os L) (f_fd (l_files L i)) = x # xs \<and> getc S i L = (uint x, L') \<and> in_stream i L' \<and> same_outside i L L' \<and>
      unread left i L' = xs)"
proof -
  let ?f = "l_files L i"
  let ?K = "fupd i (\<lambda>f. f\<lparr>f_cnt := f_cnt f - 1\<rparr>) L"
  obtain bs s' where rd: "os_read S (f_fd ?f) DEF_BUFSIZE (l_os L) = (int (length bs), bs, s')" "length bs \<le> 128"
      "left (l_os L) (f_fd ?f) = bs @ left s' (f_fd ?f)" "bs = [] \<Longrightarrow> left (l_os L) (f_fd ?f) = []"
    using assms(3) unfolding reads_ok_def DEF_BUFSIZE_def
    by (metis (no_types, lifting) zero_less_numeral)
  let ?M = "fupd i (\<lambda>f. f\<lparr>f_cnt := word_of_int (int (length bs)), f_next := f_buf f\<rparr>)
              (store_bytes (f_buf ?f) bs (?K\<lparr>l_os := s'\<rparr>))"
  have g: "getc S i L = ffill S i ?K" using assms(2) by (simp add: getc_def)
  have fl: "f_flags ?f AND (FILE_EOF OR FILE_ERR) = 0" "f_fd ?f \<noteq> 0" using assms(1) by (simp_all add: in_stream_def)
  have w: "word_of_int (int (length bs)) = (of_nat (length bs) :: u16)" by simp
  have ub: "unat (of_nat (length bs) :: u16) = length bs" using rd(2) by simp
  have m1: "(of_nat (length bs) :: u16) \<noteq> - 1"
  proof
    assume "(of_nat (length bs) :: u16) = - 1"
    then have "unat (of_nat (length bs) :: u16) = 65535" using unat_minus_1 by simp
    then show False using ub rd(2) by simp
  qed
  show ?thesis
  proof (cases bs)
    case Nil
    let ?L = "fupd i (\<lambda>f. f\<lparr>f_flags := f_flags f OR FILE_EOF\<rparr>) ?M"
    have "ffill S i ?K = (EOF, ?L)"
      using fl rd(1) Nil by (simp add: ffill_def Let_def)
    moreover have "f_flags (l_files ?L i) AND FILE_EOF \<noteq> 0" by simp
    moreover have "left s' (f_fd ?f) = []" using rd(3) rd(4) Nil by simp
    ultimately show ?thesis using rd(4) Nil g by (auto simp: unread_def same_outside_def h_mem_store)
  next
    case (Cons x xs)
    let ?L = "fupd i (\<lambda>f. f\<lparr>f_cnt := f_cnt f - 1, f_next := f_next f + 1\<rparr>) ?M"
    have ne: "(of_nat (length bs) :: u16) \<noteq> 0" using ub Cons by (metis length_0_conv list.distinct(1) unat_0)
    have "ffill S i ?K = (uint x, ?L)"
      using fl rd(1) m1 ne Cons by (simp add: ffill_def Let_def h_mem_store)
    moreover have cn: "unat ((of_nat (length bs) :: u16) - 1) = length xs"
      using small_cnt(2) [OF _ ne] ub rd(2) Cons by simp
    moreover have "in_stream i ?L" using fl cn rd(2) Cons by (simp add: in_stream_def DEF_BUFSIZE_def)
    moreover have "bytes_at (f_buf ?f + 1) (length xs) (store_bytes (f_buf ?f) bs (?K\<lparr>l_os := s'\<rparr>)) = xs"
      using bytes_at_store [of 1 "length xs" bs "f_buf ?f"] rd(2) Cons by simp
    ultimately have "unread left i ?L = xs @ left s' (f_fd ?f)" using Cons by (simp add: unread_def)
    moreover have "same_outside i L ?L" using rd(2) by (auto simp: same_outside_def h_mem_store DEF_BUFSIZE_def)
    ultimately show ?thesis using rd(3) Cons g \<open>ffill S i ?K = (uint x, ?L)\<close> \<open>in_stream i ?L\<close> by auto
  qed
qed

section \<open>Lines\<close>

text \<open>What \<open>fgets\<close> takes of the bytes to come: at most the given number, and none behind a newline.\<close>

fun line_of :: "nat \<Rightarrow> u8 list \<Rightarrow> u8 list" where
  "line_of 0 xs = []"
| "line_of (Suc n) [] = []"
| "line_of (Suc n) (x # xs) = x # (if x = 10 then [] else line_of n xs)"

lemma line_of_num: "line_of (numeral k) (x # xs) = x # (if x = 10 then [] else line_of (pred_numeral k) xs)"
  by (simp add: numeral_eq_Suc)

lemma length_line_of: "length (line_of n xs) \<le> n"
  by (induction n xs rule: line_of.induct) auto

text \<open>The area \<open>fgets\<close> writes does not meet the buffer.\<close>

definition apart :: "nat \<Rightarrow> 'o lib \<Rightarrow> u16 \<Rightarrow> nat \<Rightarrow> bool" where
  "apart i L p n \<longleftrightarrow> (\<forall>k. k < n \<longrightarrow> DEF_BUFSIZE \<le> unat (p + of_nat k - f_buf (l_files L i)))"

lemma apart_step: "apart i L p (Suc n) \<Longrightarrow> apart i L (p + 1) n"
  unfolding apart_def by (metis Suc_mono add.assoc of_nat_Suc)

lemma getc_cases:
  assumes "in_stream i L" "reads_ok S left"
  obtains (eof) L' where "unread left i L = []" "getc S i L = (EOF, L')" "unread left i L' = []"
      "same_outside i L L'" "f_flags (l_files L' i) AND FILE_EOF \<noteq> 0"
    | (byte) x L' where "unread left i L = x # unread left i L'" "getc S i L = (uint x, L')" "in_stream i L'" "same_outside i L L'"
proof (cases "f_cnt (l_files L i) = 0")
  case True
  then have "unread left i L = left (l_os L) (f_fd (l_files L i))" by (simp add: unread_def)
  then show thesis using getc_refill [OF assms(1) True assms(2)] that by auto
next
  case False
  then show thesis using getc_buffered [OF assms(1) False] that(2) by blast
qed

text \<open>Storing a byte outside the buffer.\<close>

lemma in_stream_store: "in_stream i (store_bytes p bs L) = in_stream i L"
  by (simp add: in_stream_def)

lemma unread_store:
  assumes "in_stream i L" "DEF_BUFSIZE \<le> unat (p - f_buf (l_files L i))"
  shows "unread left i (store_bytes p [x] L) = unread left i L"
proof -
  let ?f = "l_files L i"
  have "h_mem (l_heap (store_bytes p [x] L)) (f_next ?f + of_nat k) = h_mem (l_heap L) (f_next ?f + of_nat k)"
    if k: "k < unat (f_cnt ?f)" for k
  proof -
    have "unat (f_next ?f - f_buf ?f) + k < 128" "k < 128" using assms(1) k by (simp_all add: in_stream_def DEF_BUFSIZE_def)
    moreover have "f_next ?f + of_nat k - f_buf ?f = (f_next ?f - f_buf ?f) + of_nat k" by simp
    ultimately have "unat (f_next ?f + of_nat k - f_buf ?f) < 128" by (simp only: unat_word_ariths) simp
    then have "f_next ?f + of_nat k \<noteq> p" using assms(2) by (auto simp: DEF_BUFSIZE_def)
    then show ?thesis by (simp add: h_mem_store unat_eq_0)
  qed
  then show ?thesis using bytes_at_cong [of "unat (f_cnt ?f)" "store_bytes p [x] L" "f_next ?f" L] by (simp add: unread_def)
qed

lemma fgets_loop_line:
  assumes "in_stream i L" "reads_ok S left" "apart i L p n" "n \<le> 65535"
  shows "\<exists>L'. fgets_loop S n p i L = (p + of_nat (length (line_of n (unread left i L))), L') \<and>
    bytes_at p (length (line_of n (unread left i L))) L' = line_of n (unread left i L) \<and>
    unread left i L' = drop (length (line_of n (unread left i L))) (unread left i L) \<and>
    f_buf (l_files L' i) = f_buf (l_files L i) \<and>
    (\<forall>a. DEF_BUFSIZE \<le> unat (a - f_buf (l_files L i)) \<longrightarrow> n \<le> unat (a - p) \<longrightarrow> h_mem (l_heap L') a = h_mem (l_heap L) a) \<and>
    (in_stream i L' \<or> unread left i L' = [])"
  using assms
proof (induction n arbitrary: p L)
  case 0
  then show ?case by auto
next
  case (Suc n)
  from Suc.prems(1,2) show ?case
  proof (cases rule: getc_cases)
    case (eof M)
    then show ?thesis by (simp add: same_outside_def)
  next
    case (byte x M)
    let ?N = "store_bytes p [word_of_int (uint x)] M"
    have ne: "uint x \<noteq> EOF" by (rule uint_not_EOF)
    have fb: "f_buf (l_files M i) = f_buf (l_files L i)" "f_buf (l_files ?N i) = f_buf (l_files L i)"
      using byte(4) by (simp_all add: same_outside_def)
    have pp: "DEF_BUFSIZE \<le> unat (p - f_buf (l_files L i))" using Suc.prems(3) [unfolded apart_def, rule_format, of 0] by simp
    have st: "in_stream i ?N" "unread left i ?N = unread left i M"
      using unread_store [OF byte(3)] byte(3) pp fb by (simp_all add: in_stream_store)
    have N: "h_mem (l_heap ?N) p = x" by (simp add: h_mem_store)
    have fr: "h_mem (l_heap ?N) a = h_mem (l_heap L) a" if "DEF_BUFSIZE \<le> unat (a - f_buf (l_files L i))" "0 < unat (a - p)" for a
      using byte(4) that by (simp add: h_mem_store same_outside_def)
    show ?thesis
    proof (cases "x = 10")
      case True
      have "fgets_loop S (Suc n) p i L = (p + 1, ?N)" using byte(2) ne True by simp
      then show ?thesis using byte(1) st N fr fb True by (simp add: bytes_at_Suc)
    next
      case False
      have "apart i ?N (p + 1) n" using apart_step [OF Suc.prems(3)] fb by (simp add: apart_def)
      then obtain L' where L': "fgets_loop S n (p + 1) i ?N = (p + 1 + of_nat (length (line_of n (unread left i M))), L')"
          "bytes_at (p + 1) (length (line_of n (unread left i M))) L' = line_of n (unread left i M)"
          "unread left i L' = drop (length (line_of n (unread left i M))) (unread left i M)"
          "f_buf (l_files L' i) = f_buf (l_files L i)"
          "\<And>a. DEF_BUFSIZE \<le> unat (a - f_buf (l_files L i)) \<Longrightarrow> n \<le> unat (a - (p + 1)) \<Longrightarrow> h_mem (l_heap L') a = h_mem (l_heap ?N) a"
          "in_stream i L' \<or> unread left i L' = []"
        using Suc.IH [OF st(1) Suc.prems(2), of "p + 1"] Suc.prems(4) st(2) fb(2) by fastforce
      have "uint x \<noteq> 10" using False by (simp add: uint_10_iff)
      then have g: "fgets_loop S (Suc n) p i L = (p + 1 + of_nat (length (line_of n (unread left i M))), L')"
        using byte(2) ne L'(1) by simp
      have "h_mem (l_heap L') p = x" using L'(5) [OF pp] N Suc.prems(4) unat_minus_1 by simp
      moreover have "h_mem (l_heap L') a = h_mem (l_heap L) a"
        if a: "DEF_BUFSIZE \<le> unat (a - f_buf (l_files L i))" "Suc n \<le> unat (a - p)" for a
        using L'(5) [OF a(1)] fr [OF a(1)] a(2) pred_step [of a p] by simp
      ultimately show ?thesis using g byte(1) False L'(2,3,4,6) by (simp add: bytes_at_Suc)
    qed
  qed
qed

section \<open>Writing\<close>

text \<open>A device that takes everything it is given.\<close>

definition writes_ok :: "'o os \<Rightarrow> ('o \<Rightarrow> int \<Rightarrow> u8 list) \<Rightarrow> bool" where
  "writes_ok S sent \<longleftrightarrow>
     (\<forall>fd bs s. \<exists>s'. os_write S fd bs s = (int (length bs), s') \<and> sent s' = (sent s)(fd := sent s fd @ bs))"

definition out_stream :: "nat \<Rightarrow> 'o lib \<Rightarrow> bool" where
  "out_stream i L \<longleftrightarrow> f_flags (l_files L i) AND (FILE_EOF OR FILE_ERR) = 0 \<and> f_flags (l_files L i) AND FILE_WRITE \<noteq> 0 \<and>
     (f_next (l_files L i) = f_buf (l_files L i) \<and> f_cnt (l_files L i) = 0 \<or>
      unat (f_next (l_files L i) - f_buf (l_files L i)) + unat (f_cnt (l_files L i)) = DEF_BUFSIZE)"

text \<open>The bytes a stream has taken, sent or not.\<close>

definition pending :: "nat \<Rightarrow> 'o lib \<Rightarrow> u8 list" where
  "pending i L = bytes_at (f_buf (l_files L i)) (unat (f_next (l_files L i) - f_buf (l_files L i))) L"

definition taken :: "('o \<Rightarrow> int \<Rightarrow> u8 list) \<Rightarrow> nat \<Rightarrow> 'o lib \<Rightarrow> u8 list" where
  "taken sent i L = sent (l_os L) (f_fd (l_files L i)) @ pending i L"

lemma out_stream_small: "out_stream i L \<Longrightarrow> unat (f_next (l_files L i) - f_buf (l_files L i)) \<le> 128"
  by (auto simp: out_stream_def DEF_BUFSIZE_def)

lemma FILE_ERR_and: "x AND (FILE_EOF OR FILE_ERR) = 0 \<Longrightarrow> x AND FILE_ERR = 0"
proof -
  assume "x AND (FILE_EOF OR FILE_ERR) = 0"
  moreover have "x AND FILE_ERR = (x AND (FILE_EOF OR FILE_ERR)) AND FILE_ERR" by (simp add: and.assoc file_flags)
  ultimately show ?thesis by simp
qed

lemma sint_cnt: "unat (w :: u16) \<le> 128 \<Longrightarrow> sint w = int (unat w)"
proof -
  assume "unat w \<le> 128"
  then have "int (unat w) < 32768" by linarith
  then show ?thesis unfolding sint_u16 by (simp only: uint_nat if_True)
qed

lemma fflush_writes:
  assumes "writes_ok S sent" "f_flags (l_files L i) AND (FILE_EOF OR FILE_ERR) = 0" "f_flags (l_files L i) AND FILE_WRITE \<noteq> 0"
    "unat (f_next (l_files L i) - f_buf (l_files L i)) \<le> 128"
  shows "\<exists>s'. fflush S i L = (int (length (pending i L)), fupd i (\<lambda>f. f\<lparr>f_next := f_buf f, f_cnt := of_nat DEF_BUFSIZE\<rparr>) (L\<lparr>l_os := s'\<rparr>)) \<and>
    sent s' (f_fd (l_files L i)) = taken sent i L"
proof -
  let ?f = "l_files L i"
  let ?n = "unat (f_next ?f - f_buf ?f)"
  have sn: "sint (f_next ?f - f_buf ?f) = int ?n" using assms(4) by (rule sint_cnt)
  obtain s' where w: "os_write S (f_fd ?f) (pending i L) (l_os L) = (int (length (pending i L)), s')"
      "sent s' = (sent (l_os L))(f_fd ?f := sent (l_os L) (f_fd ?f) @ pending i L)"
    using assms(1) unfolding writes_ok_def by blast
  note e = FILE_ERR_and [OF assms(2)]
  show ?thesis
  proof (cases "?n = 0")
    case True
    then have "fflush S i L = (0, fupd i (\<lambda>f. f\<lparr>f_next := f_buf f, f_cnt := of_nat DEF_BUFSIZE\<rparr>) L)"
      using assms(2,3) sn e by (simp add: fflush_def Let_def)
    then show ?thesis using True by (intro exI [of _ "l_os L"]) (simp add: pending_def taken_def)
  next
    case False
    then have "sint (f_next ?f - f_buf ?f) \<noteq> 0" unfolding sn by linarith
    then have "fflush S i L = (int (length (pending i L)), fupd i (\<lambda>f. f\<lparr>f_next := f_buf f, f_cnt := of_nat DEF_BUFSIZE\<rparr>) (L\<lparr>l_os := s'\<rparr>))"
      using assms(2,3) sn e w(1) by (simp add: fflush_def Let_def pending_def)
    then show ?thesis using w(2) by (intro exI [of _ s']) (simp add: taken_def)
  qed
qed

lemma pending_store:
  assumes "unat (f_next (l_files M i) - f_buf (l_files M i)) < 128"
    "f_buf (l_files M' i) = f_buf (l_files M i)" "f_next (l_files M' i) = f_next (l_files M i) + 1"
    "l_heap M' = l_heap (store_bytes (f_next (l_files M i)) [w] M)"
  shows "unat (f_next (l_files M' i) - f_buf (l_files M' i)) = Suc (unat (f_next (l_files M i) - f_buf (l_files M i)))"
    and "pending i M' = pending i M @ [w]"
proof -
  let ?b = "f_buf (l_files M i)" and ?p = "f_next (l_files M i)"
  have "?p + 1 - ?b = (?p - ?b) + 1" by simp
  then have "unat (?p + 1 - ?b) = (unat (?p - ?b) + 1) mod 65536" by (simp only: unat_word_ariths) simp
  then have u: "unat (?p + 1 - ?b) = Suc (unat (?p - ?b))" using assms(1) by simp
  then show "unat (f_next (l_files M' i) - f_buf (l_files M' i)) = Suc (unat (?p - ?b))" using assms(2,3) by simp
  have e: "?b + of_nat (unat (?p - ?b)) = ?p" by simp
  have "bytes_at ?b (unat (?p - ?b)) M' = bytes_at ?b (unat (?p - ?b)) M"
  proof (rule bytes_at_cong)
    fix k assume k: "k < unat (?p - ?b)"
    have "?b + of_nat k \<noteq> ?p"
    proof
      assume "?b + of_nat k = ?p"
      then have "?p - ?b = of_nat k" by (metis add_diff_cancel_left')
      moreover have "unat (of_nat k :: u16) = k" using k assms(1) by simp
      ultimately show False using k by simp
    qed
    then show "h_mem (l_heap M') (?b + of_nat k) = h_mem (l_heap M) (?b + of_nat k)"
      using assms(4) by (simp add: h_mem_store unat_eq_0)
  qed
  moreover have "h_mem (l_heap M') ?p = w" using assms(4) by (simp add: h_mem_store)
  ultimately show "pending i M' = pending i M @ [w]"
    unfolding pending_def assms(2,3) u bytes_at_snoc e by simp
qed

lemma putc_stream:
  assumes "writes_ok S sent" "out_stream i L"
  shows "\<exists>L'. putc S ch i L = (if f_cnt (l_files L i) = 0 then ch else uint (word_of_int ch :: u8), L') \<and> out_stream i L' \<and>
    f_fd (l_files L' i) = f_fd (l_files L i) \<and> taken sent i L' = taken sent i L @ [word_of_int ch]"
proof -
  let ?f = "l_files L i" and ?w = "word_of_int ch :: u8"
  let ?K = "fupd i (\<lambda>f. f\<lparr>f_cnt := f_cnt f - 1\<rparr>) L"
  have fl: "f_flags ?f AND (FILE_EOF OR FILE_ERR) = 0" "f_flags ?f AND FILE_WRITE \<noteq> 0" using assms(2) by (simp_all add: out_stream_def)
  have c: "unat (f_cnt ?f) \<le> 128" using assms(2) by (auto simp: out_stream_def DEF_BUFSIZE_def)
  show ?thesis
  proof (cases "f_cnt ?f = 0")
    case False
    then have n: "unat (f_next ?f - f_buf ?f) + unat (f_cnt ?f) = 128" "0 < unat (f_cnt ?f)"
      using assms(2) by (auto simp: out_stream_def DEF_BUFSIZE_def unat_gt_0)
    let ?L = "fupd i (\<lambda>f. f\<lparr>f_next := f_next f + 1\<rparr>) (store_bytes (f_next ?f) [?w] ?K)"
    have "putc S ch i L = (uint ?w, ?L)" using small_cnt(1) [OF c] False by (simp add: putc_def not_less)
    moreover have h: "l_heap ?L = l_heap (store_bytes (f_next ?f) [?w] L)" by (simp add: store_bytes_def cong: if_cong)
    have ps: "unat (f_next (l_files ?L i) - f_buf (l_files ?L i)) = Suc (unat (f_next ?f - f_buf ?f))" "pending i ?L = pending i L @ [?w]"
      by (rule pending_store [OF _ _ _ h]; use n in simp)+
    moreover have "out_stream i ?L"
      using ps(1) n small_cnt(2) [OF c False] fl by (simp add: out_stream_def DEF_BUFSIZE_def)
    ultimately show ?thesis using False by (simp add: taken_def)
  next
    case True
    obtain s' where ff: "fflush S i ?K = (int (length (pending i ?K)), fupd i (\<lambda>f. f\<lparr>f_next := f_buf f, f_cnt := of_nat DEF_BUFSIZE\<rparr>) (?K\<lparr>l_os := s'\<rparr>))"
        "sent s' (f_fd ?f) = taken sent i ?K"
      using fflush_writes [OF assms(1), of ?K i] fl out_stream_small [OF assms(2)] by auto
    let ?M = "fupd i (\<lambda>f. f\<lparr>f_next := f_buf f, f_cnt := of_nat DEF_BUFSIZE\<rparr>) (?K\<lparr>l_os := s'\<rparr>)"
    let ?L = "fupd i (\<lambda>f. f\<lparr>f_next := f_next f + 1, f_cnt := f_cnt f - 1\<rparr>) (store_bytes (f_buf ?f) [?w] ?M)"
    have "putc S ch i L = (ch, ?L)"
      using small_cnt(1) [OF c] True fl ff(1) FILE_ERR_and [OF fl(1)] by (simp add: putc_def fflush_char_def Let_def)
    moreover have ps: "unat (f_next (l_files ?L i) - f_buf (l_files ?L i)) = Suc 0" "pending i ?L = [?w]"
      using pending_store [of ?M i ?L ?w] by (simp_all add: store_bytes_def pending_def)
    moreover have "out_stream i ?L" using ps(1) fl by (simp add: out_stream_def DEF_BUFSIZE_def)
    moreover have "taken sent i ?K = taken sent i L" by (simp add: taken_def pending_def)
    ultimately show ?thesis using True ff(2) by (simp add: taken_def)
  qed
qed

lemma fputs_stream:
  assumes "writes_ok S sent" "out_stream i L" "255 \<notin> set bs"
  shows "\<exists>L'. fputs S bs i L = (0, L') \<and> out_stream i L' \<and> f_fd (l_files L' i) = f_fd (l_files L i) \<and> taken sent i L' = taken sent i L @ bs"
  using assms
proof (induction bs arbitrary: L)
  case (Cons c cs)
  obtain L1 where L1: "putc S (sint c) i L = (if f_cnt (l_files L i) = 0 then sint c else uint (word_of_int (sint c) :: u8), L1)"
      "out_stream i L1" "f_fd (l_files L1 i) = f_fd (l_files L i)" "taken sent i L1 = taken sent i L @ [word_of_int (sint c)]"
    using putc_stream [OF Cons.prems(1,2)] by blast
  have "sint c \<noteq> EOF"
  proof
    assume "sint c = EOF"
    then have "sint c = sint (- 1 :: u8)" by (simp add: EOF_def)
    then have "c = - 1" by (rule signed_word_eqI)
    then show False using Cons.prems(3) by simp
  qed
  then have ne: "(if f_cnt (l_files L i) = 0 then sint c else uint (word_of_int (sint c) :: u8)) \<noteq> EOF"
    using uint_not_EOF by (cases "f_cnt (l_files L i) = 0") simp_all
  have "255 \<notin> set cs" using Cons.prems(3) by simp
  then obtain L' where L': "fputs S cs i L1 = (0, L')" "out_stream i L'" "f_fd (l_files L' i) = f_fd (l_files L1 i)" "taken sent i L' = taken sent i L1 @ cs"
    using Cons.IH [OF Cons.prems(1) L1(2)] by blast
  have "fputs S (c # cs) i L = (0, L')" using L1(1) ne L'(1) by (simp only: fputs.simps Let_def split_conv if_False)
  then show ?case using L' L1 by simp
qed simp

lemma unat_below: "k < unat (n :: u16) \<Longrightarrow> unat (of_nat k :: u16) = k"
  by (meson less_trans unat_u16_lt unat_of_nat16)

section \<open>Modes\<close>

lemma parse_chars_keeps: "parse_chars fl cs = Some g \<Longrightarrow> fl AND FILE_PLUS = FILE_PLUS \<Longrightarrow> g AND FILE_PLUS = FILE_PLUS"
proof (induction fl cs rule: parse_chars.induct)
  case (2 fl c cs)
  have "(fl OR f) AND FILE_PLUS = FILE_PLUS" if "fl AND FILE_PLUS = FILE_PLUS" for f
    using that by (simp add: word_ao_dist word_ao_absorbs)
  then show ?case using 2 by (auto split: if_splits)
qed simp

lemma parse_chars_b: "parse_chars fl cs = parse_chars fl (filter (\<lambda>c. c \<noteq> CHR ''b'') cs)"
  by (induction fl cs rule: parse_chars.induct) auto

text \<open>After a first flag only \<open>+\<close> can follow, which the end refuses.\<close>

lemma parse_chars_more:
  assumes "fl \<noteq> 0" "c \<noteq> CHR ''b''" "parse_chars fl (c # cs) = Some g"
  shows "g AND FILE_PLUS = FILE_PLUS"
proof -
  have "c = CHR ''+''" "parse_chars (fl OR FILE_PLUS) cs = Some g" using assms by (auto split: if_splits)
  moreover have "(fl OR FILE_PLUS) AND FILE_PLUS = FILE_PLUS" by (rule bit_word_eqI) (auto simp: bit_simps)
  ultimately show ?thesis by (blast intro: parse_chars_keeps)
qed

lemma parse_chars_first:
  "parse_chars 0 (c # cs) = Some g \<Longrightarrow> c \<noteq> CHR ''b'' \<Longrightarrow> \<exists>fl \<in> {1, 2, 4, 32}. parse_chars fl cs = Some g"
  by (auto simp: file_flags split: if_splits)

definition mode_flag :: "char \<Rightarrow> u16" where
  "mode_flag c = (if c = CHR ''r'' then FILE_READ else if c = CHR ''w'' then FILE_WRITE else if c = CHR ''a'' then FILE_APP else 0)"

lemma parse_mode_flags:
  "parse_mode mode = (case filter (\<lambda>c. c \<noteq> CHR ''b'') mode of [c] \<Rightarrow> mode_flag c | _ \<Rightarrow> 0)"
proof -
  let ?m = "filter (\<lambda>c. c \<noteq> CHR ''b'') mode"
  have pm: "parse_mode mode = (case parse_chars 0 ?m of None \<Rightarrow> 0 | Some g \<Rightarrow> if g AND FILE_PLUS = FILE_PLUS then 0 else g)"
    unfolding parse_mode_def by (subst parse_chars_b) simp
  show ?thesis
  proof (cases ?m)
    case Nil
    then show ?thesis by (simp add: pm)
  next
    case (Cons c cs)
    have all: "x \<noteq> CHR ''b''" if "x \<in> set ?m" for x using that by simp
    have c: "c \<noteq> CHR ''b''" by (rule all) (simp only: Cons list.set_intros)
    show ?thesis
    proof (cases cs)
      case Nil
      then show ?thesis using Cons c by (auto simp: pm mode_flag_def file_flags)
    next
      case C2: (Cons d ds)
      have d: "d \<noteq> CHR ''b''" by (rule all) (simp only: Cons C2 list.set_intros)
      have "g AND FILE_PLUS = FILE_PLUS" if g: "parse_chars 0 (c # d # ds) = Some g" for g
      proof -
        obtain fl where "fl \<in> {1, 2, 4, 32}" "parse_chars fl (d # ds) = Some g"
          using parse_chars_first [OF g c] by blast
        moreover from this have "fl \<noteq> 0" by force
        ultimately show ?thesis using parse_chars_more d by blast
      qed
      then show ?thesis using Cons C2 by (auto simp: pm simp del: parse_chars.simps split: option.splits)
    qed
  qed
qed

section \<open>Reading behind the end\<close>

lemma sint_neg: "1 \<le> n \<Longrightarrow> n \<le> 32768 \<Longrightarrow> sint (- of_nat n :: u16) = - int n"
proof -
  assume n: "1 \<le> n" "n \<le> 32768"
  have "(- of_nat n :: u16) = word_of_int (- int n)" by simp
  moreover have "sint (word_of_int (- int n) :: u16) = signed_take_bit 15 (- int n)" by (simp only: signed_of_int) simp
  moreover have "signed_take_bit 15 (- int n) = - int n" using n by (intro signed_take_bit_int_eq_self) simp_all
  ultimately show ?thesis by simp
qed

definition getcs :: "'o os \<Rightarrow> nat \<Rightarrow> nat \<Rightarrow> 'o lib \<Rightarrow> 'o lib" where
  "getcs S i n L = ((\<lambda>M. snd (getc S i M)) ^^ n) L"

lemma getc_at_end:
  assumes "f_flags (l_files L i) AND (FILE_EOF OR FILE_ERR) \<noteq> 0" "f_fd (l_files L i) \<noteq> 0" "f_cnt (l_files L i) = - of_nat n" "n < 32768"
  shows "getc S i L = (EOF, fupd i (\<lambda>f. f\<lparr>f_cnt := - of_nat (Suc n)\<rparr>) L)"
proof -
  have "sint (- of_nat (Suc n) :: u16) < 0" using sint_neg [of "Suc n"] assms(4) by simp
  moreover have "(- of_nat n :: u16) - 1 = - of_nat (Suc n)" by simp
  ultimately show ?thesis using assms by (simp add: getc_def ffill_def fupd_def del: of_nat_Suc)
qed

lemma getcs_at_end:
  assumes "f_flags (l_files L i) AND (FILE_EOF OR FILE_ERR) \<noteq> 0" "f_fd (l_files L i) \<noteq> 0" "f_cnt (l_files L i) = 0" "n \<le> 32768"
  shows "getcs S i n L = fupd i (\<lambda>f. f\<lparr>f_cnt := - of_nat n\<rparr>) L"
  using assms(4)
proof (induction n)
  case 0
  then show ?case using assms(3) by (simp add: getcs_def fupd_def fun_upd_idem)
next
  case (Suc n)
  let ?M = "fupd i (\<lambda>f. f\<lparr>f_cnt := - of_nat n\<rparr>) L"
  have "getc S i ?M = (EOF, fupd i (\<lambda>f. f\<lparr>f_cnt := - of_nat (Suc n)\<rparr>) ?M)"
    by (rule getc_at_end) (use assms Suc.prems in simp_all)
  moreover have "getcs S i (Suc n) L = snd (getc S i (getcs S i n L))" by (simp add: getcs_def)
  ultimately show ?case using Suc by (simp add: fupd_def del: of_nat_Suc)
qed

section \<open>Properties\<close>



text \<open>Remark.
  The modes \<open>fopen\<close> takes are one letter of r, w and a among any number of b's: every mode with a \<open>+\<close>
  is refused, although the code after it has a case for each of them.\<close>

theorem parse_mode_accepts:
  "parse_mode mode = (case filter (\<lambda>c. c \<noteq> CHR ''b'') mode of [c] \<Rightarrow> mode_flag c | _ \<Rightarrow> 0)"
  by (rule parse_mode_flags)

text \<open>Remark.
  The end of a file is forgotten: each further \<open>getc\<close> counts the buffer down, 32768 of them return
  \<open>EOF\<close>, and the next returns a byte of memory.\<close>

theorem getc_forgets_end:
  assumes "f_flags (l_files L i) AND (FILE_EOF OR FILE_ERR) \<noteq> 0" "f_fd (l_files L i) \<noteq> 0" "f_cnt (l_files L i) = 0"
  shows "(n < 32768 \<longrightarrow> fst (getc S i (getcs S i n L)) = EOF) \<and>
    fst (getc S i (getcs S i 32768 L)) = uint (h_mem (l_heap L) (f_next (l_files L i)))"
proof
  show "n < 32768 \<longrightarrow> fst (getc S i (getcs S i n L)) = EOF"
  proof
    assume n: "n < 32768"
    have "getc S i (fupd i (\<lambda>f. f\<lparr>f_cnt := - of_nat n\<rparr>) L) = (EOF, fupd i (\<lambda>f. f\<lparr>f_cnt := - of_nat (Suc n)\<rparr>) (fupd i (\<lambda>f. f\<lparr>f_cnt := - of_nat n\<rparr>) L))"
      by (rule getc_at_end) (use assms n in simp_all)
    then show "fst (getc S i (getcs S i n L)) = EOF" using getcs_at_end [OF assms, of n] n by simp
  qed
  have "(- of_nat 32768 :: u16) = 32768" by simp
  moreover have "0 \<le> sint ((32768 :: u16) - 1)" by (simp add: sint_u16)
  ultimately show "fst (getc S i (getcs S i 32768 L)) = uint (h_mem (l_heap L) (f_next (l_files L i)))"
    using getcs_at_end [OF assms, of 32768] by (simp add: getc_def)
qed

text \<open>Remark.
  \<open>fread\<close> of what the buffer holds reports the bytes as read but copies them the wrong way: the user's
  memory keeps its contents and the bytes in the buffer are overwritten with it.\<close>

theorem fread_copies_backwards:
  assumes "in_stream i L" "0 < unat n" "unat n \<le> unat (f_cnt (l_files L i))" "unat ptr + unat n \<le> 65536"
  shows "\<exists>L'. fread S ptr 1 n i L = Ok (n, L') \<and> bytes_at (f_next (l_files L i)) (unat n) L' = bytes_at ptr (unat n) L \<and>
    (\<forall>a. DEF_BUFSIZE \<le> unat (a - f_buf (l_files L i)) \<longrightarrow> h_mem (l_heap L') a = h_mem (l_heap L) a) \<and>
    f_next (l_files L' i) = f_next (l_files L i) + n"
proof -
  let ?f = "l_files L i"
  have st: "f_flags ?f AND (FILE_EOF OR FILE_ERR) = 0" "unat (f_next ?f - f_buf ?f) + unat (f_cnt ?f) \<le> 128"
    using assms(1) by (simp_all add: in_stream_def DEF_BUFSIZE_def)
  let ?L = "fupd i (\<lambda>f. f\<lparr>f_cnt := f_cnt f - n, f_next := f_next f + n\<rparr>) (L\<lparr>l_heap := copy_mem (f_next ?f) ptr n (l_heap L)\<rparr>)"
  have n: "n \<noteq> 0" "f_cnt ?f \<noteq> 0" using assms(2,3) by auto
  have cp: "n < f_cnt ?f \<or> f_cnt ?f = n" using assms(3) by (metis word_less_nat_alt le_neq_implies_less unsigned_word_eqI)
  have le: "\<not> 65536 - unat ptr < unat n" using assms(4) by simp
  have "fread S ptr 1 n i L = Ok (n, ?L)"
    using st(1) n cp le by (cases "n < f_cnt ?f") (simp_all add: fread_def Let_def or.commute [of FILE_ERR])
  moreover have "bytes_at (f_next ?f) (unat n) ?L = bytes_at ptr (unat n) L"
    by (rule nth_equalityI) (simp_all add: copy_mem_def unat_below)
  moreover have "h_mem (l_heap ?L) a = h_mem (l_heap L) a" if a: "DEF_BUFSIZE \<le> unat (a - f_buf ?f)" for a
  proof -
    have "\<not> unat (a - f_next ?f) < unat n"
    proof
      assume "unat (a - f_next ?f) < unat n"
      then have s: "unat (f_next ?f - f_buf ?f) + unat (a - f_next ?f) < 128" using st(2) assms(3) by linarith
      have "a - f_buf ?f = (f_next ?f - f_buf ?f) + (a - f_next ?f)" by simp
      then have "unat (a - f_buf ?f) = (unat (f_next ?f - f_buf ?f) + unat (a - f_next ?f)) mod 65536" by (simp only: unat_word_ariths) simp
      then show False using s a by (simp add: DEF_BUFSIZE_def)
    qed
    then show ?thesis by (simp add: copy_mem_def)
  qed
  ultimately show ?thesis by auto
qed

section \<open>Witnesses\<close>

text \<open>A system of files to read, at most three bytes at a time, and of files written. Stream 3 reads,
  stream 4 writes with one byte left in its buffer, stream 5 has met the end and stream 6 has
  two bytes in its buffer.\<close>

definition w_os :: "((int \<Rightarrow> u8 list) \<times> (int \<Rightarrow> u8 list)) os" where
  "w_os = \<lparr>os_open = (\<lambda>_ _ s. (- 1, s)), os_close = (\<lambda>_ s. s),
     os_read = (\<lambda>fd n (r, w). let bs = take (min n 3) (r fd) in (int (length bs), bs, (r(fd := drop (min n 3) (r fd)), w))),
     os_write = (\<lambda>fd bs (r, w). (int (length bs), (r, w(fd := w fd @ bs))))\<rparr>"

definition w_lib :: "((int \<Rightarrow> u8 list) \<times> (int \<Rightarrow> u8 list)) lib" where
  "w_lib = \<lparr>l_files = (\<lambda>_. \<lparr>f_fd = 0, f_buf = 0, f_next = 0, f_cnt = 0, f_flags = 0\<rparr>)
       (3 := \<lparr>f_fd = 3, f_buf = 0x100, f_next = 0x100, f_cnt = 0, f_flags = FILE_READ\<rparr>,
        4 := \<lparr>f_fd = 4, f_buf = 0x100, f_next = 0x17f, f_cnt = 1, f_flags = FILE_WRITE\<rparr>,
        5 := \<lparr>f_fd = 5, f_buf = 0x100, f_next = 0x100, f_cnt = 0, f_flags = FILE_EOF\<rparr>,
        6 := \<lparr>f_fd = 6, f_buf = 0x100, f_next = 0x101, f_cnt = 2, f_flags = FILE_READ\<rparr>),
     l_errno = 0, l_heap = \<lparr>h_hdr = (\<lambda>_. \<lparr>hb_next = 0, hb_bytes = 0\<rparr>), h_mem = (\<lambda>a. if a = 0x100 then 7 else 0), h_heap = 0\<rparr>,
     l_os = ((\<lambda>_. [])(3 := [97, 98, 99, 100, 10, 101]), (\<lambda>_. []))\<rparr>"

lemma w_reads: "reads_ok w_os fst"
  by (auto simp: reads_ok_def w_os_def Let_def)

lemma w_writes: "writes_ok w_os snd"
  by (auto simp: writes_ok_def w_os_def)

lemma w_apart: "apart 3 w_lib 0x200 10"
  unfolding apart_def
proof (intro allI impI)
  fix k :: nat assume "k < 10"
  moreover have "0x200 + of_nat k - f_buf (l_files w_lib 3) = (of_nat (0x100 + k) :: u16)" by (simp add: w_lib_def)
  moreover have "unat (of_nat (0x100 + k) :: u16) = 0x100 + k" using \<open>k < 10\<close> by (intro unat_of_nat16) simp
  ultimately show "DEF_BUFSIZE \<le> unat (0x200 + of_nat k - f_buf (l_files w_lib 3))" by (simp add: DEF_BUFSIZE_def)
qed

lemma w_unread: "unread fst 3 w_lib = [97, 98, 99, 100, 10, 101]"
  by (simp add: unread_def w_lib_def)



theorem getc_forgets_end_witness: "fst (getc w_os 5 (getcs w_os 5 32768 w_lib)) = 7"
  using getc_forgets_end [of w_lib 5, where S = w_os and n = 0] by (simp add: w_lib_def file_flags)

theorem fread_copies_backwards_witness:
  "\<exists>L'. fread w_os 0x200 1 2 6 w_lib = Ok (2, L') \<and> h_mem (l_heap L') 0x200 = 0"
proof -
  have "in_stream 6 w_lib" by (simp add: in_stream_def w_lib_def file_flags DEF_BUFSIZE_def)
  from fread_copies_backwards [OF this, of 2 "0x200" w_os] show ?thesis
    by (auto simp: w_lib_def DEF_BUFSIZE_def)
qed

end
