(* ===== verification/MallocThms.thy ===== *)
theory MallocThms
  imports Malloc
begin

text \<open>
  The heap of user programs as a list of blocks: address, size and whether it is in use. Allocation
  takes the first block that fits, release joins neighbours; and where that goes wrong.
\<close>

section \<open>Blocks\<close>

type_synonym ublk = "nat \<times> nat \<times> bool"

text \<open>The headers from \<open>s\<close> on are those of the blocks, and the last one leads to \<open>e\<close>.\<close>

fun hseg :: "(u16 \<Rightarrow> hbhdr) \<Rightarrow> u16 \<Rightarrow> ublk list \<Rightarrow> u16 \<Rightarrow> bool" where
  "hseg h s [] e = (s = e)"
| "hseg h s ((a, p, u) # bs) e = (s = of_nat a \<and> hb_bytes (h s) = of_nat (p + of_bool u) \<and> hseg h (hb_next (h s)) bs e)"

text \<open>The blocks lie behind each other, each with its header of four bytes.\<close>

fun utiles :: "nat \<Rightarrow> ublk list \<Rightarrow> nat \<Rightarrow> bool" where
  "utiles a [] e = (a = e)"
| "utiles a ((b, p, u) # bs) e = (b = a \<and> even p \<and> utiles (a + 4 + p) bs e)"

definition heap_inv :: "heap \<Rightarrow> ublk list \<Rightarrow> bool" where
  "heap_inv H bs \<longleftrightarrow> bs \<noteq> [] \<and> hseg (h_hdr H) (h_heap H) bs (h_heap H) \<and> (\<exists>e < 65536. utiles (unat (h_heap H)) bs e)"

lemma hbhdr_upd: "r\<lparr>hb_next := x, hb_bytes := y\<rparr> = \<lparr>hb_next = x, hb_bytes = y\<rparr>"
  by (cases r) simp

lemma utiles_append: "utiles a (xs @ ys) e \<longleftrightarrow> (\<exists>m. utiles a xs m \<and> utiles m ys e)"
  by (induction xs arbitrary: a) auto

lemma utiles_le: "utiles a bs e \<Longrightarrow> a \<le> e"
  by (induction bs arbitrary: a) fastforce+

lemma utiles_bounds: "utiles a bs e \<Longrightarrow> (b, p, u) \<in> set bs \<Longrightarrow> a \<le> b \<and> b + 4 + p \<le> e"
proof (induction bs arbitrary: a)
  case (Cons x bs)
  obtain b' p' u' where x: "x = (b', p', u')" by (cases x)
  have "utiles (a + 4 + p') bs e" using Cons.prems x by simp
  moreover from this have "a + 4 + p' \<le> e" by (rule utiles_le)
  ultimately show ?case using Cons.IH [of "a + 4 + p'"] Cons.prems x by force
qed simp

lemma hseg_append: "hseg h s (xs @ ys) e \<longleftrightarrow> (\<exists>m. hseg h s xs m \<and> hseg h m ys e)"
  by (induction h s xs e rule: hseg.induct) auto

lemma hseg_frame: "(\<And>a p u. (a, p, u) \<in> set bs \<Longrightarrow> h' (of_nat a) = h (of_nat a)) \<Longrightarrow> hseg h' s bs e = hseg h s bs e"
proof (induction h s bs e rule: hseg.induct)
  case (2 h s a p u bs e)
  have "h' (of_nat a) = h (of_nat a)" by (rule 2(2) [of a p u]) simp
  moreover have "hseg h' (hb_next (h s)) bs e = hseg h (hb_next (h s)) bs e" using 2(2) by (intro 2(1)) (metis list.set_intros(2))
  ultimately show ?case by auto
qed simp

lemma hseg_start: "hseg h s ((a, p, u) # bs) e \<Longrightarrow> s = of_nat a"
  by simp

lemma parity_word: "even (of_nat p :: u16) = even p"
  by simp

lemma size_word:
  assumes "even p" "p < 65536"
  shows "(of_nat (p + of_bool u) :: u16) AND INUSE = 0 \<longleftrightarrow> \<not> u" "unat (of_nat p :: u16) = p"
    "(of_nat p :: u16) OR INUSE = of_nat (p + of_bool True)" "(of_nat (p + of_bool True) :: u16) AND NOT INUSE = of_nat p"
proof -
  show u: "unat (of_nat p :: u16) = p" using assms(2) by (rule unat_of_nat16)
  have e: "even (of_nat p :: u16)" using assms(1) parity_word by blast
  have s: "p + 1 < 65536" using assms by presburger
  then have u1: "unat (of_nat (p + 1) :: u16) = p + 1" by (rule unat_of_nat16)
  have o: "odd (of_nat (p + 1) :: u16)" using assms(1) parity_word [of "p + 1"] by simp
  show "(of_nat (p + of_bool u) :: u16) AND INUSE = 0 \<longleftrightarrow> \<not> u"
    using e o by (cases u) (simp_all add: INUSE_def and_1_eq_0)
  show i: "(of_nat p :: u16) OR INUSE = of_nat (p + of_bool True)" using e by (simp add: INUSE_def or_one_eq)
  have "((of_nat p :: u16) OR 1) AND NOT 1 = of_nat p"
  proof (rule bit_word_eqI)
    fix n
    show "bit (((of_nat p :: u16) OR 1) AND NOT 1) n = bit (of_nat p :: u16) n" if "n < LENGTH(16)"
      using e that by (cases n) (auto simp: bit_simps bit_0)
  qed
  then show "(of_nat (p + of_bool True) :: u16) AND NOT INUSE = of_nat p" using i by (simp add: INUSE_def)
qed

section \<open>Allocation\<close>

text \<open>The first free block that is large enough.\<close>

definition fits :: "nat \<Rightarrow> ublk \<Rightarrow> bool" where
  "fits n = (\<lambda>(a, p, u). \<not> u \<and> n \<le> p)"

text \<open>What \<open>malloc\<close> makes of it: a block of eight bytes or more is always split.\<close>

definition carve :: "nat \<Rightarrow> ublk \<Rightarrow> ublk list" where
  "carve n = (\<lambda>(a, p, u). if 8 \<le> p then [(a, n, True), (a + 4 + n, p - n - 4, False)] else [(a, p, True)])"

lemma hb_find_ok:
  "hseg (h_hdr H) s bs (h_heap H) \<Longrightarrow> bs \<noteq> [] \<Longrightarrow> utiles a bs e \<Longrightarrow> e < 65536 \<Longrightarrow>
   (\<forall>(b, p, u) \<in> set (tl bs). of_nat b \<noteq> h_heap H) \<Longrightarrow>
   hb_find H bytes s = Some (case List.find (fits (unat bytes)) bs of None \<Rightarrow> None | Some (b, p, u) \<Rightarrow> Some (of_nat b))"
proof (induction bs arbitrary: s a)
  case (Cons x bs)
  obtain b p u where x: "x = (b, p, u)" by (cases x)
  have p: "even p" "p < 65536" using Cons.prems(3,4) utiles_bounds [OF Cons.prems(3), of b p u] by (auto simp: x)
  have s: "s = of_nat b" "hb_bytes (h_hdr H s) = of_nat (p + of_bool u)" "hseg (h_hdr H) (hb_next (h_hdr H s)) bs (h_heap H)"
    using Cons.prems(1) by (auto simp: x)
  have f: "(hb_bytes (h_hdr H s) AND INUSE = 0 \<and> bytes \<le> hb_bytes (h_hdr H s)) = fits (unat bytes) x"
    unfolding s(2) size_word(1) [OF p] using size_word(2) [OF p] by (auto simp: fits_def x word_le_nat_alt)
  show ?case
  proof (cases "fits (unat bytes) x")
    case True
    then show ?thesis using f s(1) by (subst hb_find.simps) (simp add: x)
  next
    case False
    have n: "hb_next (h_hdr H s) = h_heap H \<longleftrightarrow> bs = []"
      using s(3) Cons.prems(5) by (cases bs) auto
    show ?thesis
    proof (cases "bs = []")
      case True
      then show ?thesis using False f n by (subst hb_find.simps) simp
    next
      case bs: False
      have "utiles (a + 4 + p) bs e" using Cons.prems(3) by (simp add: x)
      moreover have "\<forall>(b, p, u) \<in> set (tl bs). of_nat b \<noteq> h_heap H" using Cons.prems(5) by (cases bs) auto
      ultimately have "hb_find H bytes (hb_next (h_hdr H s)) = Some (case List.find (fits (unat bytes)) bs of None \<Rightarrow> None | Some (b, p, u) \<Rightarrow> Some (of_nat b))"
        using Cons.IH [OF s(3) bs _ Cons.prems(4)] by blast
      moreover have "\<not> (hb_bytes (h_hdr H s) AND INUSE = 0 \<and> bytes \<le> hb_bytes (h_hdr H s))" using f False by blast
      ultimately show ?thesis using False n bs by (subst hb_find.simps, simp only: if_False) simp
    qed
  qed
qed simp

lemma heap_tl:
  assumes "heap_inv H bs"
  shows "\<forall>(b, p, u) \<in> set (tl bs). of_nat b \<noteq> h_heap H"
proof -
  obtain e where e: "e < 65536" "utiles (unat (h_heap H)) bs e" and bs: "bs \<noteq> []" using assms by (auto simp: heap_inv_def)
  obtain a p u cs where c: "bs = (a, p, u) # cs" using bs by (metis list.exhaust prod_cases3)
  have "of_nat b \<noteq> h_heap H" if "(b, q, v) \<in> set cs" for b q v
  proof -
    have "unat (h_heap H) + 4 + p \<le> b \<and> b + 4 + q \<le> e" using utiles_bounds [of _ cs e b q v] e(2) that by (auto simp: c)
    then have "unat (of_nat b :: u16) = b" "b \<noteq> unat (h_heap H)" using e(1) by (auto intro!: unat_of_nat16)
    then show ?thesis by metis
  qed
  then show ?thesis by (auto simp: c)
qed

lemma hb_find_heap:
  "heap_inv H bs \<Longrightarrow> hb_find H bytes (h_heap H) = Some (case List.find (fits (unat bytes)) bs of None \<Rightarrow> None | Some (b, p, u) \<Rightarrow> Some (of_nat b))"
  using hb_find_ok [of H "h_heap H" bs] heap_tl by (auto simp: heap_inv_def)

text \<open>Where the blocks around a given one are.\<close>

lemma heap_split:
  assumes "heap_inv H (xs @ (a, p, u) # ys)"
  shows "hseg (h_hdr H) (h_heap H) xs (of_nat a)" "hb_bytes (h_hdr H (of_nat a)) = of_nat (p + of_bool u)"
    "hseg (h_hdr H) (hb_next (h_hdr H (of_nat a))) ys (h_heap H)" "utiles (unat (h_heap H)) xs a" "even p" "a + 4 + p < 65536"
    "\<exists>e < 65536. utiles (a + 4 + p) ys e"
    "(b, q, v) \<in> set xs \<Longrightarrow> b + 4 + q \<le> a" "(b, q, v) \<in> set ys \<Longrightarrow> a + 4 + p \<le> b \<and> b < 65536"
proof -
  obtain e where e: "e < 65536" "utiles (unat (h_heap H)) (xs @ (a, p, u) # ys) e" using assms by (auto simp: heap_inv_def)
  then have t: "utiles (unat (h_heap H)) xs a" "utiles (a + 4 + p) ys e" "even p" by (auto simp: utiles_append)
  show "hseg (h_hdr H) (h_heap H) xs (of_nat a)" "hb_bytes (h_hdr H (of_nat a)) = of_nat (p + of_bool u)"
    "hseg (h_hdr H) (hb_next (h_hdr H (of_nat a))) ys (h_heap H)" using assms by (auto simp: heap_inv_def hseg_append)
  show "utiles (unat (h_heap H)) xs a" "even p" "\<exists>e < 65536. utiles (a + 4 + p) ys e" using t e(1) by auto
  show "a + 4 + p < 65536" using utiles_bounds [OF e(2), of a p u] e(1) by auto
  show "(b, q, v) \<in> set xs \<Longrightarrow> b + 4 + q \<le> a" using utiles_bounds [OF t(1)] by blast
  show "(b, q, v) \<in> set ys \<Longrightarrow> a + 4 + p \<le> b \<and> b < 65536" using utiles_bounds [OF t(2), of b q v] e(1) by auto
qed

lemma even_round: "even (unat (word_round b))"
proof -
  have "even (of_nat (unat (word_round b)) :: u16)" by (simp add: word_round_def)
  then show ?thesis using parity_word by blast
qed

lemma find_Some_split:
  "List.find P xs = Some x \<Longrightarrow> \<exists>ys zs. xs = ys @ x # zs \<and> P x \<and> (\<forall>y \<in> set ys. \<not> P y)"
  by (induction xs) (auto split: if_splits, metis append_Nil empty_iff list.set(1), metis append_Cons set_ConsD)

lemma carve_split:
  assumes H: "heap_inv H (xs @ (a, p, False) # ys)" and n: "even n" "n + 4 \<le> p"
    and h': "h' = (h_hdr H)(of_nat (a + 4 + n) := \<lparr>hb_next = hb_next (h_hdr H (of_nat a)), hb_bytes = of_nat (p - n - 4)\<rparr>,
      of_nat a := \<lparr>hb_next = of_nat (a + 4 + n), hb_bytes = of_nat (n + 1)\<rparr>)"
  shows "heap_inv (H\<lparr>h_hdr := h'\<rparr>) (xs @ [(a, n, True), (a + 4 + n, p - n - 4, False)] @ ys)"
proof -
  note s = heap_split [OF H]
  have d: "(of_nat (a + 4 + n) :: u16) \<noteq> of_nat a" using s(6) n by (subst of_nat16_eq_iff) auto
  have x: "hseg h' (h_heap H) xs (of_nat a)"
  proof -
    have "h' (of_nat b) = h_hdr H (of_nat b)" if "(b, q, v) \<in> set xs" for b q v
      using s(8) [OF that] s(6) n by (auto simp: h' of_nat16_eq_iff simp del: of_nat_add)
    then have "hseg h' (h_heap H) xs (of_nat a) = hseg (h_hdr H) (h_heap H) xs (of_nat a)" by (rule hseg_frame)
    with s(1) show ?thesis by simp
  qed
  have y: "hseg h' (hb_next (h_hdr H (of_nat a))) ys (h_heap H)"
  proof -
    have "h' (of_nat b) = h_hdr H (of_nat b)" if "(b, q, v) \<in> set ys" for b q v
      using s(9) [OF that] s(6) n by (auto simp: h' of_nat16_eq_iff simp del: of_nat_add)
    then have "hseg h' (hb_next (h_hdr H (of_nat a))) ys (h_heap H) = hseg (h_hdr H) (hb_next (h_hdr H (of_nat a))) ys (h_heap H)"
      by (rule hseg_frame)
    with s(3) show ?thesis by simp
  qed
  have "hseg h' (of_nat a) ([(a, n, True), (a + 4 + n, p - n - 4, False)] @ ys) (h_heap H)"
    using d y by (simp add: h')
  with x have "hseg h' (h_heap H) (xs @ [(a, n, True), (a + 4 + n, p - n - 4, False)] @ ys) (h_heap H)"
    unfolding hseg_append [of _ _ xs] by blast
  moreover have "\<exists>e < 65536. utiles (unat (h_heap H)) (xs @ [(a, n, True), (a + 4 + n, p - n - 4, False)] @ ys) e"
  proof -
    have "a + 4 + n + 4 + (p - n - 4) = a + 4 + p" using n by simp
    then show ?thesis using s(4,5,7) n by (auto simp: utiles_append ac_simps)
  qed
  ultimately show ?thesis by (simp add: heap_inv_def)
qed

lemma mark_block:
  assumes H: "heap_inv H (xs @ (a, p, u) # ys)"
  shows "heap_inv (hset (of_nat a) (\<lambda>x. x\<lparr>hb_bytes := of_nat (p + of_bool v)\<rparr>) H) (xs @ (a, p, v) # ys)"
proof -
  note s = heap_split [OF H]
  let ?h = "h_hdr (hset (of_nat a) (\<lambda>x. x\<lparr>hb_bytes := of_nat (p + of_bool v)\<rparr>) H)"
  have "hseg ?h (h_heap H) xs (of_nat a) = hseg (h_hdr H) (h_heap H) xs (of_nat a)"
  proof (rule hseg_frame)
    show "?h (of_nat b) = h_hdr H (of_nat b)" if "(b, q, v) \<in> set xs" for b q v
      using s(8) [OF that] s(6) by (simp add: hset_def del: of_nat_add)
  qed
  moreover have "hseg ?h (hb_next (h_hdr H (of_nat a))) ys (h_heap H) = hseg (h_hdr H) (hb_next (h_hdr H (of_nat a))) ys (h_heap H)"
  proof (rule hseg_frame)
    show "?h (of_nat b) = h_hdr H (of_nat b)" if "(b, q, v) \<in> set ys" for b q v
      using s(9) [OF that] s(6) by (auto simp: hset_def simp del: of_nat_add)
  qed
  ultimately have "hseg ?h (h_heap H) (xs @ (a, p, v) # ys) (h_heap H)"
    using s(1,3) unfolding hseg_append by (auto simp: hset_def)
  then show ?thesis using H by (auto simp: heap_inv_def utiles_append hset_def)
qed

text \<open>The list of blocks after \<open>malloc\<close>.\<close>

fun take_block :: "nat \<Rightarrow> ublk list \<Rightarrow> (nat \<times> ublk list) option" where
  "take_block n [] = None"
| "take_block n (b # bs) =
     (if fits n b then Some (fst b, carve n b @ bs) else map_option (\<lambda>(a, cs). (a, b # cs)) (take_block n bs))"

lemma take_block_split: "\<forall>b \<in> set xs. \<not> fits n b \<Longrightarrow> fits n x \<Longrightarrow> take_block n (xs @ x # ys) = Some (fst x, xs @ carve n x @ ys)"
  by (induction xs) auto

lemma take_block_None: "List.find (fits n) bs = None \<Longrightarrow> take_block n bs = None"
  by (induction bs) (auto split: if_splits)

lemma malloc_found:
  assumes H: "heap_inv H (xs @ (a, p, False) # ys)" and f: "\<forall>b \<in> set xs. \<not> fits n b" "n \<le> p" and n: "n = unat (word_round bytes)"
  shows "malloc bytes H = Ok (of_nat (a + 4),
     (if 8 \<le> p then H\<lparr>h_hdr := (h_hdr H)(of_nat (a + 4 + n) := \<lparr>hb_next = hb_next (h_hdr H (of_nat a)), hb_bytes = of_nat p - of_nat n - 4\<rparr>,
        of_nat a := \<lparr>hb_next = of_nat (a + 4 + n), hb_bytes = of_nat (n + 1)\<rparr>)\<rparr>
      else hset (of_nat a) (\<lambda>x. x\<lparr>hb_bytes := of_nat (p + 1)\<rparr>) H))"
proof -
  note s = heap_split [OF H]
  have "List.find (fits n) (xs @ (a, p, False) # ys) = Some (a, p, False)"
    using f by (induction xs) (auto simp: fits_def)
  then have fd: "hb_find H (word_round bytes) (h_heap H) = Some (Some (of_nat a))" using hb_find_heap [OF H, of "word_round bytes"] n by simp
  have b: "hb_bytes (h_hdr H (of_nat a)) = of_nat p" "(8 \<le> (of_nat p :: u16)) = (8 \<le> p)"
    using s(2,6) by (simp_all add: word_le_nat_alt unat_of_nat16)
  have r: "word_round bytes = of_nat n" using n by simp
  have u: "(of_nat n :: u16) OR INUSE = of_nat (n + 1)" "(of_nat p :: u16) OR INUSE = of_nat (p + 1)"
    using size_word(3) [of n] size_word(3) [OF s(5)] even_round [of bytes] s(6) f(2) n by simp_all
  have pb: "(of_nat a + 4 :: u16) = of_nat (a + 4)" "(of_nat (a + 4) + of_nat n :: u16) = of_nat (a + 4 + n)" by simp_all
  show ?thesis
  proof (cases "8 \<le> p")
    case False
    then show ?thesis using fd b u(2) by (simp add: malloc_def Let_def hset_def)
  next
    case True
    have "(of_nat (a + 4 + n) :: u16) \<noteq> of_nat a" using s(6) f(2) by (subst of_nat16_eq_iff) auto
    then show ?thesis using True fd b u(1) by (simp add: malloc_def Let_def r hset_def fun_upd_twist pb hbhdr_upd del: of_nat_add)
  qed
qed

lemma malloc_ok:
  assumes H: "heap_inv H bs" and n: "n = unat (word_round bytes)"
    and fit: "\<forall>a p u. List.find (fits n) bs = Some (a, p, u) \<longrightarrow> 8 \<le> p \<longrightarrow> n + 4 \<le> p"
  shows "case take_block n bs of
      None \<Rightarrow> malloc bytes H = Ok (0, H)
    | Some (a, bs') \<Rightarrow> \<exists>H'. malloc bytes H = Ok (of_nat (a + 4), H') \<and> heap_inv H' bs' \<and> h_mem H' = h_mem H"
proof (cases "List.find (fits n) bs")
  case None
  then show ?thesis using hb_find_heap [OF H, of "word_round bytes"] n take_block_None [OF None] by (simp add: malloc_def)
next
  case (Some x)
  obtain xs ys where b: "bs = xs @ x # ys" "fits n x" "\<forall>y \<in> set xs. \<not> fits n y" using find_Some_split [OF Some] by blast
  obtain a p where x: "x = (a, p, False)" "n \<le> p" using b(2) by (cases x) (auto simp: fits_def)
  have c: "8 \<le> p \<longrightarrow> n + 4 \<le> p" using fit Some x by blast
  note H1 = H [unfolded b(1) x(1)]
  have e: "even n" using even_round n by simp
  have t: "take_block n bs = Some (a, xs @ carve n (a, p, False) @ ys)"
    using take_block_split [OF b(3,2), of ys] by (simp add: b(1) x(1))
  note m = malloc_found [OF H1 b(3) x(2) n]
  show ?thesis
  proof (cases "8 \<le> p")
    case True
    have w: "(of_nat p - of_nat n - 4 :: u16) = of_nat (p - n - 4)" using c True by (simp add: of_nat_diff)
    show ?thesis using m carve_split [OF H1 e _ refl] c True t by (simp add: carve_def w)
  next
    case False
    then show ?thesis using m mark_block [OF H1, of True] t by (simp add: carve_def hset_def)
  qed
qed

lemma hb_find_prefix:
  "hseg (h_hdr H) s xs m \<Longrightarrow> utiles a xs e \<Longrightarrow> e < 65536 \<Longrightarrow> \<forall>x \<in> set xs. \<not> fits (unat bytes) x \<Longrightarrow> m \<noteq> h_heap H \<Longrightarrow>
   \<forall>(b, p, u) \<in> set (tl xs). of_nat b \<noteq> h_heap H \<Longrightarrow> hb_find H bytes s = hb_find H bytes m"
proof (induction xs arbitrary: s a)
  case (Cons x xs)
  obtain b p u where x: "x = (b, p, u)" by (cases x)
  have p: "even p" "p < 65536" using Cons.prems(2,3) utiles_bounds [OF Cons.prems(2), of b p u] by (auto simp: x)
  have s: "s = of_nat b" "hb_bytes (h_hdr H s) = of_nat (p + of_bool u)" "hseg (h_hdr H) (hb_next (h_hdr H s)) xs m"
    using Cons.prems(1) by (auto simp: x)
  have f: "\<not> (hb_bytes (h_hdr H s) AND INUSE = 0 \<and> bytes \<le> hb_bytes (h_hdr H s))"
    using Cons.prems(4) unfolding s(2) size_word(1) [OF p] using size_word(2) [OF p] by (auto simp: fits_def x word_le_nat_alt)
  have n: "hb_next (h_hdr H s) \<noteq> h_heap H" using s(3) Cons.prems(5,6) by (cases xs) auto
  have "hb_find H bytes (hb_next (h_hdr H s)) = hb_find H bytes m"
  proof (rule Cons.IH [OF s(3), of "a + 4 + p"])
    show "utiles (a + 4 + p) xs e" "e < 65536" "\<forall>x \<in> set xs. \<not> fits (unat bytes) x" "m \<noteq> h_heap H" using Cons.prems by (simp_all add: x)
    show "\<forall>(b, p, u) \<in> set (tl xs). of_nat b \<noteq> h_heap H" using Cons.prems(6) by (cases xs) auto
  qed
  then show ?case using n f by (subst hb_find.simps, simp only: if_False)
qed simp

lemma minus_4: "(- 4 :: u16) = 65532"
  by simp

text \<open>An exact fit: the split overwrites the header behind the block.\<close>

lemma malloc_exact:
  assumes H: "heap_inv H (xs @ (a, p, False) # (b, q, v) # ys)" and f: "\<forall>x \<in> set xs. \<not> fits p x" and n: "p = unat (word_round bytes)" "8 \<le> p"
  shows "\<exists>H'. malloc bytes H = Ok (of_nat (a + 4), H') \<and> h_hdr H' (of_nat b) = \<lparr>hb_next = of_nat b, hb_bytes = 65532\<rparr>
    \<and> (\<forall>k. unat (word_round k) \<le> 65532 \<longrightarrow> (\<forall>x \<in> set xs. \<not> fits (unat (word_round k)) x) \<longrightarrow> (\<exists>H''. malloc k H' = Ok (of_nat (b + 4), H'')))"
proof -
  note s = heap_split [OF H]
  have b: "b = a + 4 + p" "(of_nat b :: u16) = hb_next (h_hdr H (of_nat a))" "b < 65536"
  proof -
    show "b = a + 4 + p" using s(7) by auto
    show "(of_nat b :: u16) = hb_next (h_hdr H (of_nat a))" using s(3) by (simp only: hseg.simps)
    show "b < 65536" using s(9) [of b q v] by simp
  qed
  have ne: "(of_nat b :: u16) \<noteq> of_nat a" "(of_nat b :: u16) \<noteq> h_heap H" "xs \<noteq> [] \<longrightarrow> (of_nat a :: u16) \<noteq> h_heap H"
  proof -
    show "(of_nat b :: u16) \<noteq> of_nat a" using b(1,3) by (subst of_nat16_eq_iff) simp_all
    show "(of_nat b :: u16) \<noteq> h_heap H" "xs \<noteq> [] \<longrightarrow> (of_nat a :: u16) \<noteq> h_heap H" using heap_tl [OF H] by (cases xs; simp)+
  qed
  define h' where "h' = (h_hdr H)(of_nat b := \<lparr>hb_next = of_nat b, hb_bytes = 65532\<rparr>, of_nat a := \<lparr>hb_next = of_nat b, hb_bytes = of_nat (p + 1)\<rparr>)"
  have m: "malloc bytes H = Ok (of_nat (a + 4), H\<lparr>h_hdr := h'\<rparr>)"
    using malloc_found [OF H f order_refl n(1)] n(2) minus_4 unfolding h'_def b(1) [symmetric] b(2) [symmetric] by simp
  have k: "\<exists>H''. malloc k (H\<lparr>h_hdr := h'\<rparr>) = Ok (of_nat (b + 4), H'')"
    if "unat (word_round k) \<le> 65532" "\<forall>x \<in> set xs. \<not> fits (unat (word_round k)) x" for k
  proof -
    let ?H = "H\<lparr>h_hdr := h'\<rparr>"
    have "h' (of_nat c) = h_hdr H (of_nat c)" if "(c, r, w) \<in> set xs" for c r w
      using s(8) [OF that] s(6) b(1,3) by (simp add: h'_def del: of_nat_add)
    then have x: "hseg (h_hdr ?H) (h_heap ?H) xs (of_nat a)" using hseg_frame [of xs h' "h_hdr H"] s(1) by simp
    have g: "hb_find ?H (word_round k) (h_heap ?H) = hb_find ?H (word_round k) (of_nat a)"
    proof (cases "xs = []")
      case False
      have "\<forall>(c, r, w) \<in> set (tl xs). of_nat c \<noteq> h_heap H" using heap_tl [OF H] False by (cases xs) auto
      then show ?thesis using hb_find_prefix [OF x s(4) _ that(2)] ne(3) False s(6) by simp
    qed (use x in simp)
    have u: "hb_bytes (h' (of_nat a)) AND INUSE \<noteq> 0" "hb_next (h' (of_nat a)) = of_nat b"
      using size_word(1) [OF s(5), of True] s(6) ne(1) by (simp_all add: h'_def)
    have v: "hb_bytes (h' (of_nat b)) = 65532" using ne(1) by (simp add: h'_def)
    have "hb_find ?H (word_round k) (of_nat a) = hb_find ?H (word_round k) (of_nat b)"
      using u ne(2) by (subst hb_find.simps) simp
    also have "\<dots> = Some (Some (of_nat b))"
      using v that(1) by (subst hb_find.simps) (simp add: INUSE_def word_le_nat_alt)
    finally show ?thesis using g by (simp add: malloc_def Let_def)
  qed
  show ?thesis using m k ne(1) by (intro exI [of _ "H\<lparr>h_hdr := h'\<rparr>"]) (simp add: h'_def)
qed

section \<open>Release\<close>

text \<open>The freed block takes in the free block behind it, and is taken in by the free block before it.\<close>

fun free_join :: "nat \<Rightarrow> nat \<Rightarrow> ublk list \<Rightarrow> ublk list" where
  "free_join a p ((b, q, False) # bs) = (a, p + 4 + q, False) # bs"
| "free_join a p bs = (a, p, False) # bs"

fun free_after :: "ublk list \<Rightarrow> nat \<Rightarrow> nat \<Rightarrow> ublk list \<Rightarrow> ublk list" where
  "free_after xs a p ys =
     (case rev xs of
        (c, r, False) # zs \<Rightarrow> rev zs @ free_join c (r + 4 + p) ys
      | _ \<Rightarrow> xs @ free_join a p ys)"

lemma hb_prev_ok:
  "hseg (h_hdr H) s (xs @ [(c, r, w)]) m \<Longrightarrow> \<forall>(b, p, u) \<in> set (tl (xs @ [(c, r, w)])). of_nat b \<noteq> m \<and> of_nat b \<noteq> h_heap H \<Longrightarrow>
   hb_prev H m s = Some (of_nat c)"
proof (induction xs arbitrary: s)
  case Nil
  then have "s = of_nat c" "hb_next (h_hdr H s) = m" by auto
  then show ?case by (subst hb_prev.simps) simp
next
  case (Cons x xs)
  obtain b p u where x: "x = (b, p, u)" by (cases x)
  have s: "hseg (h_hdr H) (hb_next (h_hdr H s)) (xs @ [(c, r, w)]) m" using Cons.prems(1) by (auto simp: x)
  obtain b' p' u' zs where y: "xs @ [(c, r, w)] = (b', p', u') # zs" by (cases "xs @ [(c, r, w)]") auto
  have n: "hb_next (h_hdr H s) = of_nat b'" using s by (simp add: y)
  have "hb_next (h_hdr H s) \<noteq> m" "hb_next (h_hdr H s) \<noteq> h_heap H"
    unfolding n using Cons.prems(2) by (auto simp: y)
  moreover have "hb_prev H m (hb_next (h_hdr H s)) = Some (of_nat c)"
    using Cons.prems(2) by (intro Cons.IH [OF s]) (simp add: y)
  ultimately show ?case by (subst hb_prev.simps) simp
qed

text \<open>Joining a free block with a free one behind it.\<close>

lemma join_ok:
  assumes "heap_inv H (xs @ (a, p, False) # ys)"
  shows "heap_inv (hb_join (of_nat a) H) (xs @ free_join a p ys)" "h_mem (hb_join (of_nat a) H) = h_mem H"
proof -
  note s = heap_split [OF assms]
  show "h_mem (hb_join (of_nat a) H) = h_mem H" by (simp add: hb_join_def Let_def hset_def)
  show "heap_inv (hb_join (of_nat a) H) (xs @ free_join a p ys)"
  proof (cases ys)
    case Nil
    then have "hb_next (h_hdr H (of_nat a)) = h_heap H" using s(3) by simp
    moreover have "unat (h_heap H) \<le> a" using s(4) utiles_append [of _ xs "[]"] by (simp add: utiles_le)
    ultimately have "\<not> of_nat a < hb_next (h_hdr H (of_nat a))" using s(6) by (simp add: word_less_nat_alt)
    then show ?thesis using assms Nil by (simp add: hb_join_def Let_def)
  next
    case (Cons y zs)
    obtain b q v where y: "y = (b, q, v)" by (cases y)
    note H2 = heap_split [of H "xs @ [(a, p, False)]" b q v zs, simplified, OF assms [unfolded Cons y]]
    have b: "b = a + 4 + p" "b + 4 + q < 65536" "even q" "hb_next (h_hdr H (of_nat a)) = of_nat b"
      using s(7) H2(6,5) s(3) by (auto simp: Cons y)
    have lt: "(of_nat a :: u16) < of_nat b" using b s(6) by (simp add: word_less_nat_alt del: of_nat_add)
    have u: "hb_bytes (h_hdr H (of_nat b)) AND INUSE = 0 \<longleftrightarrow> \<not> v" using H2(2) size_word(1) [OF b(3)] b(2) by simp
    show ?thesis
    proof (cases v)
      case True
      then show ?thesis using assms u b by (simp add: hb_join_def Let_def Cons y)
    next
      case False
      let ?h = "(h_hdr H)(of_nat a := \<lparr>hb_next = hb_next (h_hdr H (of_nat b)), hb_bytes = of_nat (p + 4 + q)\<rparr>)"
      have j: "hb_join (of_nat a) H = H\<lparr>h_hdr := ?h\<rparr>"
        using False u lt b(4) s(2) H2(2) by (simp add: hb_join_def Let_def hset_def hbhdr_upd) (simp add: ac_simps)
      have "hseg ?h (h_heap H) xs (of_nat a) = hseg (h_hdr H) (h_heap H) xs (of_nat a)"
      proof (rule hseg_frame)
        show "?h (of_nat c) = h_hdr H (of_nat c)" if "(c, r, w) \<in> set xs" for c r w
          using s(8) [OF that] s(6) by (simp del: of_nat_add)
      qed
      moreover have "hseg ?h (hb_next (h_hdr H (of_nat b))) zs (h_heap H) = hseg (h_hdr H) (hb_next (h_hdr H (of_nat b))) zs (h_heap H)"
      proof (rule hseg_frame)
        show "?h (of_nat c) = h_hdr H (of_nat c)" if "(c, r, w) \<in> set zs" for c r w
          using H2(9) [OF that] s(6) b(1) by (simp del: of_nat_add)
      qed
      ultimately have "hseg ?h (h_heap H) (xs @ (a, p + 4 + q, False) # zs) (h_heap H)"
        using s(1) H2(3) unfolding hseg_append by auto
      moreover have "\<exists>e < 65536. utiles (unat (h_heap H)) (xs @ (a, p + 4 + q, False) # zs) e"
        using s(4,5) H2(7) b(1,3) by (auto simp: utiles_append ac_simps)
      ultimately show ?thesis unfolding j using False by (simp add: heap_inv_def Cons y)
    qed
  qed
qed

lemma free_ok:
  assumes H: "heap_inv H (xs @ (a, p, True) # ys)"
  shows "\<exists>H'. free (of_nat (a + 4)) H = Ok H' \<and> heap_inv H' (free_after xs a p ys) \<and> h_mem H' = h_mem H"
proof -
  note s = heap_split [OF H]
  let ?c = "of_nat a :: u16"
  have nz: "(of_nat (a + 4) :: u16) \<noteq> 0" using of_nat16_eq_iff [of "a + 4" 0] s(6) by (simp del: of_nat_add)
  have cur: "(of_nat (a + 4) :: u16) - 4 = ?c" by simp
  define H1 where "H1 = hset ?c (\<lambda>x. x\<lparr>hb_bytes := of_nat (p + of_bool False)\<rparr>) H"
  have H1: "heap_inv H1 (xs @ (a, p, False) # ys)" "h_mem H1 = h_mem H" using mark_block [OF H, of False] by (simp_all add: H1_def hset_def)
  have p: "p < 65536" using s(6) by simp
  have b: "hb_bytes (h_hdr H ?c) AND INUSE \<noteq> 0" "hb_bytes (h_hdr H ?c) AND NOT INUSE = of_nat p"
    unfolding s(2) size_word(1) [OF s(5) p] size_word(4) [OF s(5) p] by simp_all
  have h1: "hset ?c (\<lambda>x. x\<lparr>hb_bytes := hb_bytes x AND NOT INUSE\<rparr>) H = H1" using b(2) by (simp add: hset_def H1_def)
  have tl: "\<forall>(b, q, u) \<in> set (tl (xs @ (a, p, True) # ys)). of_nat b \<noteq> h_heap H" by (rule heap_tl [OF H])
  show ?thesis
  proof (cases xs rule: rev_cases)
    case Nil
    then have c: "?c = h_heap H" using s(1) by simp
    obtain zs c r w where bs: "(a, p, True) # ys = zs @ [(c, r, w)]" by (metis append_butlast_last_id list.distinct(1) prod_cases3)
    have "hseg (h_hdr H) ?c (zs @ [(c, r, w)]) ?c" using H bs Nil c by (simp add: heap_inv_def)
    then have pr: "hb_prev H ?c (h_heap H) = Some (of_nat c)"
      using hb_prev_ok [of H ?c zs c r w ?c] tl unfolding Nil append_Nil bs c by auto
    have "a \<le> c" "c < 65536" using s(9) [of c r w] s(6) arg_cong [OF bs, of set] by (force dest: equalityD2)+
    then have "\<not> (of_nat c :: u16) < ?c" using s(6) by (simp add: word_less_nat_alt not_less)
    moreover have "hb_next (h_hdr H (of_nat c)) = ?c"
      using H c unfolding heap_inv_def Nil append_Nil bs by (auto simp: hseg_append)
    ultimately have "free (of_nat (a + 4)) H = Ok (hb_join ?c H1)"
      using nz pr b(1) h1 by (simp add: free_def Let_def cur del: of_nat_add)
    then show ?thesis using join_ok [OF H1(1)] H1(2) Nil by simp
  next
    case (snoc zs x)
    obtain c r w where x: "x = (c, r, w)" by (cases x)
    have ca: "c + 4 + r \<le> a" using s(8) [of c r w] by (simp add: snoc x)
    have ne: "of_nat b \<noteq> ?c" if "(b, q, u) \<in> set xs" for b q u
      using s(8) [OF that] s(6) by (subst of_nat16_eq_iff) auto
    have "\<forall>(b, q, u) \<in> set (tl (zs @ [(c, r, w)])). of_nat b \<noteq> ?c \<and> of_nat b \<noteq> h_heap H"
    proof -
      have "set (tl (zs @ [(c, r, w)])) \<subseteq> set xs" "set (tl (zs @ [(c, r, w)])) \<subseteq> set (tl (xs @ (a, p, True) # ys))"
        by (cases zs; auto simp: snoc x)+
      then show ?thesis using tl ne by blast
    qed
    then have pr: "hb_prev H ?c (h_heap H) = Some (of_nat c)" using hb_prev_ok [of H "h_heap H" zs c r w ?c] s(1) by (simp add: snoc x)
    note C = heap_split [of H1 zs c r w "(a, p, False) # ys"]
    have C1: "heap_inv H1 (zs @ (c, r, w) # (a, p, False) # ys)" using H1(1) by (simp add: snoc x)
    have nx: "hb_next (h_hdr H (of_nat c)) = ?c" using s(1) by (auto simp: snoc x hseg_append)
    have lt: "(of_nat c :: u16) < ?c" using ca s(6) by (simp add: word_less_nat_alt)
    have u: "hb_bytes (h_hdr H1 (of_nat c)) AND INUSE = 0 \<longleftrightarrow> \<not> w" using C(2) [OF C1] size_word(1) [OF C(5) [OF C1]] ca s(6) by simp
    have f: "free (of_nat (a + 4)) H = Ok (if \<not> w then hb_join (of_nat c) (hset (of_nat c) (\<lambda>x. x\<lparr>hb_next := hb_next (h_hdr H1 ?c),
        hb_bytes := hb_bytes x + (4 + hb_bytes (h_hdr H1 ?c))\<rparr>) H1) else hb_join ?c H1)"
      using nz pr b(1) h1 nx lt u by (simp add: free_def Let_def cur del: of_nat_add)
    show ?thesis
    proof (cases w)
      case True
      then show ?thesis using f join_ok [OF H1(1)] H1(2) by (simp add: snoc x)
    next
      case False
      have a0: "hb_bytes (h_hdr H1 ?c) AND INUSE = 0" "hb_next (h_hdr H1 (of_nat c)) = ?c"
        using heap_split(2) [OF H1(1)] size_word(1) [OF s(5), of False] s(6) C(3) [OF C1] by simp_all
      have "hset (of_nat c) (\<lambda>x. x\<lparr>hb_next := hb_next (h_hdr H1 ?c), hb_bytes := hb_bytes x + (4 + hb_bytes (h_hdr H1 ?c))\<rparr>) H1 = hb_join (of_nat c) H1"
        using a0 lt by (simp add: hb_join_def Let_def)
      moreover note j = join_ok [OF C1 [unfolded False [THEN eq_False [THEN iffD2]]]]
      have "heap_inv (hb_join (of_nat c) H1) (zs @ (c, r + 4 + p, False) # ys)" using j(1) by simp
      from join_ok [OF this] j(2) show ?thesis using f False H1(2) calculation by (simp add: snoc x)
    qed
  qed
qed

section \<open>A search that never ends\<close>

lemma hb_find_loop:
  "hb_find H k s = Some r \<Longrightarrow> s = b \<longrightarrow> hb_next (h_hdr H b) = b \<longrightarrow> b \<noteq> h_heap H \<longrightarrow> \<not> hb_bytes (h_hdr H b) < k"
  by (rule hb_find.raw_induct [of "\<lambda>H k s r. s = b \<longrightarrow> hb_next (h_hdr H b) = b \<longrightarrow> b \<noteq> h_heap H \<longrightarrow> \<not> hb_bytes (h_hdr H b) < k"])
    (auto split: if_splits)

lemma realloc_same:
  assumes H: "heap_inv H (xs @ (a, p, True) # (b, q, False) # ys)" and n: "p = unat (word_round bytes)" "bytes \<noteq> 0" "p \<noteq> 0" "4 < q"
  shows "\<exists>H'. realloc (of_nat (a + 4)) bytes H = Ok (of_nat (a + 4), H') \<and> hb_next (h_hdr H' (of_nat b)) = of_nat b
    \<and> (\<forall>k. (\<forall>x \<in> set xs. \<not> fits (unat (word_round k)) x) \<longrightarrow> q < unat (word_round k) \<longrightarrow> malloc k H' = Hang)"
proof -
  note s = heap_split [OF H]
  have H2: "heap_inv H ((xs @ [(a, p, True)]) @ (b, q, False) # ys)" using H by simp
  note t = heap_split [OF H2]
  have b: "b = a + 4 + p" using s(7) by auto
  have q: "b + 4 + q < 65536" "even q" using t(6,5) .
  have nx: "hb_next (h_hdr H (of_nat a)) = of_nat b" using s(3) by (simp only: hseg.simps)
  have r: "word_round bytes = of_nat p" using n(1) by simp
  have nz: "(of_nat (a + 4) :: u16) \<noteq> 0" using of_nat16_eq_iff [of "a + 4" 0] s(6) by (simp del: of_nat_add)
  have pz: "(of_nat p :: u16) \<noteq> 0" using of_nat16_eq_iff [of p 0] s(6) n(3) by simp
  have cur: "(of_nat (a + 4) :: u16) - 4 = of_nat a" by simp
  have pb: "(of_nat (a + 4) :: u16) + of_nat p = of_nat b" using b by simp
  have p: "hb_bytes (h_hdr H (of_nat a)) AND NOT INUSE = of_nat p" unfolding s(2) using size_word(4) [OF s(5)] s(6) by simp
  have nb: "hb_bytes (h_hdr H (of_nat b)) = of_nat q" "(of_nat q :: u16) AND INUSE = 0" using t(2) size_word(1) [OF q(2), of False] q(1) by simp_all
  have lt: "(of_nat a :: u16) < of_nat b" using b q by (simp add: word_less_nat_alt del: of_nat_add)
  have le: "(of_nat p :: u16) \<le> of_nat p + 4 + of_nat q"
  proof -
    have "of_nat p + 4 + of_nat q = (of_nat (p + 4 + q) :: u16)" by simp
    then show ?thesis using b q by (simp add: word_le_nat_alt del: of_nat_add)
  qed
  have left: "(of_nat p + 4 + of_nat q - of_nat p :: u16) = of_nat (4 + q)" by simp
  have l8: "(8 :: u16) < of_nat (4 + q)" using q n(4) by (simp add: word_less_nat_alt del: of_nat_add)
  have ne: "(of_nat a :: u16) \<noteq> of_nat b" using lt by auto
  define h' where "h' = (h_hdr H)(of_nat a := \<lparr>hb_next = of_nat b, hb_bytes = of_nat p OR INUSE\<rparr>, of_nat b := \<lparr>hb_next = of_nat b, hb_bytes = of_nat q\<rparr>)"
  have re: "realloc (of_nat (a + 4)) bytes H = Ok (of_nat (a + 4), H\<lparr>h_hdr := h'\<rparr>)"
    unfolding realloc_def Let_def cur r p nx nb(1) left pb using n(2) nz pz lt nb(2) le l8 ne
    by (simp add: hset_def h'_def hbhdr_upd del: of_nat_add) (intro arg_cong [where f = "\<lambda>h. H\<lparr>h_hdr := h\<rparr>"], simp add: fun_eq_iff)
  have hang: "malloc k (H\<lparr>h_hdr := h'\<rparr>) = Hang"
    if k: "\<forall>x \<in> set xs. \<not> fits (unat (word_round k)) x" "q < unat (word_round k)" for k
  proof -
    let ?H = "H\<lparr>h_hdr := h'\<rparr>"
    have "h' (of_nat c) = h_hdr H (of_nat c)" if "(c, r, w) \<in> set xs" for c r w
      using s(8) [OF that] s(6) b q(1) by (simp add: h'_def del: of_nat_add)
    then have "hseg h' (h_heap H) xs (of_nat a)" using hseg_frame [of xs h' "h_hdr H"] s(1) by simp
    then have x: "hseg (h_hdr ?H) (h_heap ?H) (xs @ [(a, p, True)]) (of_nat b)"
      using size_word(3) [OF s(5)] s(6) ne by (auto simp: hseg_append h'_def)
    have tl: "\<forall>(c, r, w) \<in> set (tl (xs @ (a, p, True) # (b, q, False) # ys)). of_nat c \<noteq> h_heap H" by (rule heap_tl [OF H])
    have bh: "(of_nat b :: u16) \<noteq> h_heap H" using tl by (cases xs) auto
    have tl2: "\<forall>(c, r, w) \<in> set (tl (xs @ [(a, p, True)])). of_nat c \<noteq> h_heap ?H" using tl by (cases xs) auto
    have "utiles (unat (h_heap H)) (xs @ [(a, p, True)]) b" using s(4,5) b by (auto simp: utiles_append)
    then have "hb_find ?H (word_round k) (h_heap ?H) = hb_find ?H (word_round k) (of_nat b)"
      using k(1) q(1) bh by (intro hb_find_prefix [OF x _ _ _ _ tl2]) (auto simp: fits_def)
    moreover have "hb_bytes (h_hdr ?H (of_nat b)) < word_round k" "hb_next (h_hdr ?H (of_nat b)) = of_nat b"
      using k(2) q(1) ne by (simp_all add: h'_def word_less_nat_alt)
    then have "hb_find ?H (word_round k) (of_nat b) = None"
      using hb_find_loop [of ?H "word_round k" "of_nat b" _ "of_nat b"] bh by (cases "hb_find ?H (word_round k) (of_nat b)") auto
    ultimately show ?thesis by (simp add: malloc_def Let_def)
  qed
  show ?thesis using re hang ne by (intro exI [of _ "H\<lparr>h_hdr := h'\<rparr>"]) (simp add: h'_def)
qed

section \<open>Properties\<close>


text \<open>Remark.
  When a block of eight bytes or more fits exactly, \<open>malloc\<close> writes the header of the empty rest over
  the header of the following block, whether that is in use or not: it becomes a free block of 65532
  bytes that leads to itself, and the next request that no earlier block fits is given its memory.\<close>

theorem malloc_exact_fit_corrupts:
  assumes "heap_inv H (xs @ (a, p, False) # (b, q, v) # ys)" "\<forall>x \<in> set xs. \<not> fits p x" "p = unat (word_round bytes)" "8 \<le> p"
  shows "\<exists>H'. malloc bytes H = Ok (of_nat (a + 4), H') \<and> h_hdr H' (of_nat b) = \<lparr>hb_next = of_nat b, hb_bytes = 65532\<rparr>
    \<and> (\<forall>k. unat (word_round k) \<le> 65532 \<longrightarrow> (\<forall>x \<in> set xs. \<not> fits (unat (word_round k)) x) \<longrightarrow> (\<exists>H''. malloc k H' = Ok (of_nat (b + 4), H'')))"
  by (rule malloc_exact [OF assms])

text \<open>Property C27.
  \<open>free\<close> of a pointer that \<open>malloc\<close> returned makes the block free and joins it with the free blocks
  before and behind it; nothing else in the heap changes.\<close>

theorem free_coalesces:
  assumes "heap_inv H (xs @ (a, p, True) # ys)"
  shows "\<exists>H'. free (of_nat (a + 4)) H = Ok H' \<and> heap_inv H' (free_after xs a p ys) \<and> h_mem H' = h_mem H"
  by (rule free_ok [OF assms])

text \<open>Remark.
  \<open>realloc\<close> to the size the block has already, with a free block of more than four bytes behind it,
  makes that free block its own successor: from then on \<open>malloc\<close> never returns when neither that block
  nor one before it is large enough.\<close>

theorem realloc_same_size_hangs:
  assumes "heap_inv H (xs @ (a, p, True) # (b, q, False) # ys)" "p = unat (word_round bytes)" "bytes \<noteq> 0" "p \<noteq> 0" "4 < q"
  shows "\<exists>H'. realloc (of_nat (a + 4)) bytes H = Ok (of_nat (a + 4), H') \<and> hb_next (h_hdr H' (of_nat b)) = of_nat b
    \<and> (\<forall>k. (\<forall>x \<in> set xs. \<not> fits (unat (word_round k)) x) \<longrightarrow> q < unat (word_round k) \<longrightarrow> malloc k H' = Hang)"
  by (rule realloc_same [OF assms])

text \<open>Remark.
  \<open>calloc\<close> never finds an overflow: it allocates and clears the product modulo 65536.\<close>

theorem calloc_wraps:
  "calloc n sz H = bind_res (malloc (n * sz) H) (\<lambda>(p, H1).
     Ok (p, if p \<noteq> 0 then H1\<lparr>h_mem := (\<lambda>i. if unat (i - p) < unat (n * sz) then 0 else h_mem H1 i)\<rparr> else H1))"
proof -
  have m: "(0xffff0000 :: u32) = NOT (mask 16)" "(0xffff :: u32) = mask 16" by (simp_all add: mask_eq_exp_minus_1)
  have z: "(ucast (n * sz) :: u32) AND 0xffff0000 = 0" unfolding m by (rule bit_word_eqI) (auto simp: bit_simps dest: bit_imp_le_length)
  have w: "(ucast ((ucast (n * sz) :: u32) AND 0xffff) :: u16) = n * sz"
    unfolding m by (rule bit_word_eqI) (auto simp: bit_simps dest: bit_imp_le_length)
  show ?thesis unfolding calloc_def Let_def z w by simp
qed

section \<open>Witnesses\<close>

text \<open>A heap at 0x100 of three blocks: 8 bytes free, 10 in use, 20 free.\<close>

definition w_heap :: heap where
  "w_heap = \<lparr>h_hdr = (\<lambda>_. \<lparr>hb_next = 0, hb_bytes = 0\<rparr>)(0x100 := \<lparr>hb_next = 0x10c, hb_bytes = 8\<rparr>, 0x10c := \<lparr>hb_next = 0x11a, hb_bytes = 11\<rparr>,
     0x11a := \<lparr>hb_next = 0x100, hb_bytes = 20\<rparr>), h_mem = (\<lambda>_. 0), h_heap = 0x100\<rparr>"

lemma w_heap_inv: "heap_inv w_heap ([(0x100, 8, False)] @ (0x10c, 10, True) # [(0x11a, 20, False)])"
  by (auto simp: heap_inv_def w_heap_def intro!: exI [of _ 306])


theorem malloc_exact_fit_corrupts_witness:
  "\<exists>H' H''. malloc 8 w_heap = Ok (0x104, H') \<and> malloc 100 H' = Ok (0x110, H'')"
proof -
  have "heap_inv w_heap ([] @ (0x100, 8, False) # (0x10c, 10, True) # [(0x11a, 20, False)])" using w_heap_inv by simp
  moreover have "\<forall>x \<in> set []. \<not> fits 8 x" "8 = unat (word_round 8)" by (simp_all add: word_round_def)
  ultimately obtain H' where H': "malloc 8 w_heap = Ok (of_nat (0x100 + 4), H')" "\<forall>k. unat (word_round k) \<le> 65532 \<longrightarrow>
      (\<forall>x \<in> set []. \<not> fits (unat (word_round k)) x) \<longrightarrow> (\<exists>H''. malloc k H' = Ok (of_nat (0x10c + 4), H''))"
    using malloc_exact_fit_corrupts [of w_heap "[]" "0x100" 8 "0x10c" 10 True "[(0x11a, 20, False)]" 8] by blast
  from spec [OF H'(2), of 100] H'(1) show ?thesis by (simp add: word_round_def)
qed

theorem free_coalesces_witness: "\<exists>H'. free 0x110 w_heap = Ok H' \<and> heap_inv H' [(0x100, 46, False)]"
  using free_coalesces [OF w_heap_inv] by auto

theorem realloc_same_size_hangs_witness: "\<exists>H'. realloc 0x110 10 w_heap = Ok (0x110, H') \<and> malloc 1000 H' = Hang"
proof -
  have "10 = unat (word_round 10)" by (simp add: word_round_def)
  then obtain H' where H': "realloc (of_nat (0x10c + 4)) 10 w_heap = Ok (of_nat (0x10c + 4), H')"
    "\<forall>k. (\<forall>x \<in> set [(0x100, 8, False)]. \<not> fits (unat (word_round k)) x) \<longrightarrow> 20 < unat (word_round k) \<longrightarrow> malloc k H' = Hang"
    using realloc_same_size_hangs [OF w_heap_inv, of 10] by fastforce
  from spec [OF H'(2), of 1000] H'(1) show ?thesis by (simp add: word_round_def fits_def)
qed

end

