(* ===== verification/Ports.thy ===== *)
theory Ports
  imports SchedThms
begin

text \<open>
  The ports of the machine, \<open>PORTS.H\<close>, and the interrupts, \<open>kernel/INTR.C\<close>. The devices behind the ports
  are a parameter: what reading a port gives and what reading and writing do to them. Handlers
  are numbers; what they do is a parameter of \<open>intr_handler\<close>.
\<close>

section \<open>Ports\<close>

record 'h bus =
  bus_in :: "u16 \<Rightarrow> 'h \<Rightarrow> u8 \<times> 'h"
  bus_out :: "u16 \<Rightarrow> u8 \<Rightarrow> 'h \<Rightarrow> 'h"

text \<open>Several writes in a row.\<close>

definition outs :: "'h bus \<Rightarrow> (u16 \<times> u8) list \<Rightarrow> 'h \<Rightarrow> 'h" where
  "outs B ws h = fold (\<lambda>(p, v). bus_out B p v) ws h"

lemma outs_simps [simp]:
  "outs B [] h = h"
  "outs B ((p, v) # ws) h = outs B ws (bus_out B p v h)"
  by (simp_all add: outs_def)

section \<open>State of the interrupts\<close>

definition INTR_N :: nat where "INTR_N = 16"
definition LOPIC :: u16 where "LOPIC = 0x20"
definition HIPIC :: u16 where "HIPIC = 0xa0"
definition EOI :: u8 where "EOI = 0x20"
definition STACKSIZE :: u16 where "STACKSIZE = 512"

record intr_node =
  in_handler :: nat
  in_next :: u16

record intrhead =
  ih_handlers :: u16
  ih_task :: taskp

text \<open>\<open>vectors\<close> is the table of the processor at address 0.\<close>

record 'h intrst =
  intrs :: "nat \<Rightarrow> intrhead"
  inodes :: "u16 \<Rightarrow> intr_node"
  vectors :: "nat \<Rightarrow> farptr"
  i_sch :: sched
  i_hw :: 'h

definition intr_init :: "'h intrst \<Rightarrow> 'h intrst" where
  "intr_init s = s\<lparr>intrs := (\<lambda>i. if i < INTR_N then \<lparr>ih_handlers = 0, ih_task = 0\<rparr> else intrs s i)\<rparr>"

section \<open>The interrupt controllers\<close>

definition ocw1_port :: "nat \<Rightarrow> u16" where
  "ocw1_port intr = 1 + (if intr < 8 then LOPIC else HIPIC)"

definition irq_bit :: "nat \<Rightarrow> u8" where
  "irq_bit intr = push_bit (intr mod 8) 1"

definition intr_get_mask :: "'h bus \<Rightarrow> 'h \<Rightarrow> u16 \<times> 'h" where
  "intr_get_mask B h =
     (let (hi, h1) = bus_in B (HIPIC + 1) h; (lo, h2) = bus_in B (LOPIC + 1) h1
      in (push_bit 8 (ucast hi) OR ucast lo, h2))"

definition intr_set_mask :: "'h bus \<Rightarrow> u16 \<Rightarrow> 'h \<Rightarrow> 'h" where
  "intr_set_mask B m h =
     (let lomask = (ucast m :: u8); himask = (ucast (drop_bit 8 m) :: u8)
      in bus_out B (HIPIC + 1) himask (bus_out B (LOPIC + 1) lomask h))"

definition intr_mask_enable :: "'h bus \<Rightarrow> nat \<Rightarrow> 'h \<Rightarrow> 'h" where
  "intr_mask_enable B intr h =
     (let (ier, h1) = bus_in B (ocw1_port intr) h in bus_out B (ocw1_port intr) (ier AND NOT (irq_bit intr)) h1)"

definition intr_mask_disable :: "'h bus \<Rightarrow> nat \<Rightarrow> 'h \<Rightarrow> 'h" where
  "intr_mask_disable B intr h =
     (let (ier, h1) = bus_in B (ocw1_port intr) h in bus_out B (ocw1_port intr) (ier OR irq_bit intr) h1)"

definition intr_eoi :: "'h bus \<Rightarrow> nat \<Rightarrow> 'h \<Rightarrow> 'h" where
  "intr_eoi B irq h = bus_out B LOPIC EOI (if 8 \<le> irq then bus_out B HIPIC EOI h else h)"

section \<open>Handlers\<close>

text \<open>\<open>stub\<close> gives the entry of the assembly for an interrupt, or null. A node has four bytes.\<close>

definition intr_add_handler :: "u16 \<Rightarrow> u16 \<Rightarrow> (nat \<Rightarrow> farptr) \<Rightarrow> 'h bus \<Rightarrow> nat \<Rightarrow> nat \<Rightarrow> 'h intrst \<Rightarrow> (int \<times> 'h intrst) res" where
  "intr_add_handler heap ds stub B intr fn s =
     (let vec = (if intr < 8 then 8 + intr else 0x70 + intr - 8)
      in if stub intr = far_null then Ok (- EINVAL, s)
         else bind_res (near_malloc heap 4 (smem (i_sch s))) (\<lambda>(node, m).
           let s0 = s\<lparr>i_sch := (i_sch s)\<lparr>smem := m\<rparr>\<rparr>
           in if node = 0 then Ok (- ENOMEM, s0)
              else (let s1 = s0\<lparr>inodes := (inodes s0)(node := (inodes s0 node)\<lparr>in_handler := fn\<rparr>),
                               i_sch := (i_sch s0)\<lparr>iflag := False\<rparr>\<rparr>
                    in bind_res
                         (if ih_task (intrs s1 intr) = 0
                          then bind_res (task_reserve heap ds STACKSIZE intr (i_sch s1)) (\<lambda>(t, sch).
                               Ok (s1\<lparr>intrs := (intrs s1)(intr := (intrs s1 intr)\<lparr>ih_task := t\<rparr>),
                                      i_sch := set_state t TS_BLOCKED sch, i_hw := intr_mask_enable B intr (i_hw s1)\<rparr>))
                          else Ok s1) (\<lambda>s2.
                       let s3 = s2\<lparr>inodes := (inodes s2)(node := (inodes s2 node)\<lparr>in_next := ih_handlers (intrs s2 intr)\<rparr>),
                                   intrs := (intrs s2)(intr := (intrs s2 intr)\<lparr>ih_handlers := node\<rparr>),
                                   vectors := (vectors s2)(vec := stub intr)\<rparr>
                       in Ok (0, s3\<lparr>i_sch := (i_sch s3)\<lparr>iflag := True\<rparr>\<rparr>)))))"

text \<open>The walk along the handlers; the second argument is \<open>eoi\<close>. A handler returns \<open>None\<close> when it
  never comes back.\<close>

partial_function (option) intr_run ::
  "(nat \<Rightarrow> nat \<Rightarrow> 'h intrst \<Rightarrow> (int \<times> 'h intrst) option) \<Rightarrow> nat \<Rightarrow> bool \<Rightarrow> u16 \<Rightarrow> 'h intrst \<Rightarrow> (bool \<times> 'h intrst) option" where
  "intr_run run intr eoi node s =
     (if node = 0 then Some (eoi, s)
      else (case run (in_handler (inodes s node)) intr s of
              None \<Rightarrow> None
            | Some (r, s1) \<Rightarrow> intr_run run intr (if r \<noteq> 0 then False else eoi) (in_next (inodes s1 node)) s1))"

definition intr_handler ::
  "'h bus \<Rightarrow> (nat \<Rightarrow> nat \<Rightarrow> 'h intrst \<Rightarrow> (int \<times> 'h intrst) option) \<Rightarrow> nat \<Rightarrow> 'h intrst \<Rightarrow> 'h intrst res" where
  "intr_handler B run intr s =
     bind_res (of_loop (intr_run run intr True (ih_handlers (intrs s intr)) s)) (\<lambda>(eoi, s1).
       let s2 = s1\<lparr>i_sch := (i_sch s1)\<lparr>iflag := False\<rparr>\<rparr>
       in Ok (if eoi then s2\<lparr>i_hw := intr_eoi B intr (i_hw s2)\<rparr> else s2))"

section \<open>The handlers of a line as a list\<close>

fun nodes :: "(u16 \<Rightarrow> intr_node) \<Rightarrow> u16 \<Rightarrow> u16 list \<Rightarrow> bool" where
  "nodes m p [] \<longleftrightarrow> p = 0"
| "nodes m p (a # as) \<longleftrightarrow> p = a \<and> a \<noteq> 0 \<and> nodes m (in_next (m a)) as"

lemma nodes_frame: "a \<notin> set as \<Longrightarrow> nodes (m(a := x)) p as = nodes m p as"
  by (induction as arbitrary: p) auto

text \<open>The results of the handlers in order, each on the state the one before it left.\<close>

fun run_all :: "(nat \<Rightarrow> nat \<Rightarrow> 'h intrst \<Rightarrow> int \<times> 'h intrst) \<Rightarrow> nat \<Rightarrow> nat list \<Rightarrow> 'h intrst \<Rightarrow> int list \<times> 'h intrst" where
  "run_all f intr [] s = ([], s)"
| "run_all f intr (h # hs) s = (let (r, s1) = f h intr s; (rs, s2) = run_all f intr hs s1 in (r # rs, s2))"

lemma intr_run_all:
  assumes "\<And>h s. inodes (snd (f h intr s)) = inodes s"
  shows "nodes (inodes s) p as \<Longrightarrow>
    intr_run (\<lambda>h i s. Some (f h i s)) intr eoi p s =
      Some (eoi \<and> list_all (\<lambda>r. r = 0) (fst (run_all f intr (map (\<lambda>a. in_handler (inodes s a)) as) s)),
            snd (run_all f intr (map (\<lambda>a. in_handler (inodes s a)) as) s))"
proof (induction as arbitrary: p s eoi)
  case Nil
  then show ?case by (simp add: intr_run.simps)
next
  case (Cons a as)
  obtain r s1 where f: "f (in_handler (inodes s a)) intr s = (r, s1)" by fastforce
  have n: "inodes s1 = inodes s" using assms [of "in_handler (inodes s a)" s] f by simp
  have "nodes (inodes s1) (in_next (inodes s1 a)) as" using Cons.prems n by simp
  note IH = Cons.IH [OF this, of "if r \<noteq> 0 then False else eoi"]
  show ?case by (subst intr_run.simps) (use Cons.prems IH f n in \<open>auto simp: split_beta\<close>)
qed

lemma add_handler:
  assumes "intr_add_handler heap ds stub B intr fn s = Ok (0, s')"
  obtains node m where "near_malloc heap 4 (smem (i_sch s)) = Ok (node, m)" "node \<noteq> 0" "ih_handlers (intrs s' intr) = node"
    "inodes s' = (inodes s)(node := \<lparr>in_handler = fn, in_next = ih_handlers (intrs s intr)\<rparr>)"
proof -
  have nz: "EINVAL \<noteq> 0" "ENOMEM \<noteq> 0" by (simp_all add: errno_defs)
  from assms nz obtain node m where n: "near_malloc heap 4 (smem (i_sch s)) = Ok (node, m)" "node \<noteq> 0"
    unfolding intr_add_handler_def Let_def by (auto split: if_splits)
  have up: "r\<lparr>in_handler := a, in_next := b\<rparr> = \<lparr>in_handler = a, in_next = b\<rparr>" for r :: intr_node and a b by (cases r) simp
  have "ih_handlers (intrs s' intr) = node \<and> inodes s' = (inodes s)(node := \<lparr>in_handler = fn, in_next = ih_handlers (intrs s intr)\<rparr>)"
    using assms n nz unfolding intr_add_handler_def Let_def by (auto simp: up split: if_splits)
  then show thesis using n that by blast
qed

section \<open>Properties\<close>

text \<open>Property C37.
  A handler that is added to a line comes first on its list, the handlers that were there stay behind it in
  their order, and when the interrupt comes each of them runs exactly once, newest first, on the state
  the one before it left; the controller gets its end of interrupt exactly when all of them return zero,
  and interrupts are off at the end. \<open>near_malloc\<close> is assumed to return a node that is not on the list.\<close>

theorem intr_handlers_run:
  assumes "intr_add_handler heap ds stub B intr fn s = Ok (0, s')" "nodes (inodes s) (ih_handlers (intrs s intr)) as"
    "\<forall>n m. near_malloc heap 4 (smem (i_sch s)) = Ok (n, m) \<longrightarrow> n \<notin> set as"
    "\<forall>h t. inodes (snd (f h intr t)) = inodes t"
  defines "r \<equiv> run_all f intr (fn # map (\<lambda>a. in_handler (inodes s a)) as) s'"
  shows "intr_handler B (\<lambda>h i t. Some (f h i t)) intr s' =
    Ok ((snd r)\<lparr>i_sch := (i_sch (snd r))\<lparr>iflag := False\<rparr>,
      i_hw := (if list_all (\<lambda>x. x = 0) (fst r) then intr_eoi B intr (i_hw (snd r)) else i_hw (snd r))\<rparr>)"
proof -
  obtain node m where n: "near_malloc heap 4 (smem (i_sch s)) = Ok (node, m)" "node \<noteq> 0" "ih_handlers (intrs s' intr) = node"
    "inodes s' = (inodes s)(node := \<lparr>in_handler = fn, in_next = ih_handlers (intrs s intr)\<rparr>)"
    using add_handler [OF assms(1)] by blast
  have new: "node \<notin> set as" using assms(3) n(1) by blast
  have l: "nodes (inodes s') node (node # as)" using n(2) assms(2) new by (simp add: n(4) nodes_frame)
  have hs: "map (\<lambda>a. in_handler (inodes s' a)) (node # as) = fn # map (\<lambda>a. in_handler (inodes s a)) as"
    using new by (auto simp: n(4))
  have "intr_run (\<lambda>h i t. Some (f h i t)) intr True (ih_handlers (intrs s' intr)) s' = Some (list_all (\<lambda>x. x = 0) (fst r), snd r)"
    unfolding n(3) using intr_run_all [where f = f, OF _ l, of intr True] assms(4) unfolding r_def hs by simp
  then show ?thesis by (simp add: intr_handler_def)
qed

text \<open>The mask registers behave as registers do.\<close>

definition mask_regs :: "'h bus \<Rightarrow> ('h \<Rightarrow> u16 \<Rightarrow> u8) \<Rightarrow> bool" where
  "mask_regs B reg \<longleftrightarrow> (\<forall>p h. fst (bus_in B p h) = reg h p \<and> reg (snd (bus_in B p h)) = reg h) \<and>
     (\<forall>p v h. p = LOPIC + 1 \<or> p = HIPIC + 1 \<longrightarrow> reg (bus_out B p v h) = (reg h)(p := v))"

lemma mask_bytes:
  fixes hi lo :: u8
  shows "(ucast (push_bit 8 (ucast hi :: u16) OR ucast lo) :: u8) = lo"
    and "(ucast (drop_bit 8 (push_bit 8 (ucast hi :: u16) OR ucast lo)) :: u8) = hi"
  by (rule bit_word_eqI; auto simp: bit_simps dest: bit_imp_le_length)+

text \<open>Remark.
  Disabling and enabling an interrupt changes its own bit of the mask of its own controller and no other,
  and \<open>intr_set_mask\<close> brings back what \<open>intr_get_mask\<close> has read - where the mask registers behave as
  registers do.\<close>

theorem intr_masks:
  assumes "mask_regs B reg"
  shows "reg (intr_mask_disable B intr h) = (reg h)(ocw1_port intr := reg h (ocw1_port intr) OR irq_bit intr) \<and>
    reg (intr_mask_enable B intr h) = (reg h)(ocw1_port intr := reg h (ocw1_port intr) AND NOT (irq_bit intr)) \<and>
    reg (intr_set_mask B (fst (intr_get_mask B h)) h') = (reg h')(0x21 := reg h 0x21, 0xa1 := reg h 0xa1)"
proof -
  have i: "fst (bus_in B p k) = reg k p" "reg (snd (bus_in B p k)) = reg k" for p k using assms by (simp_all add: mask_regs_def)
  have o: "p = LOPIC + 1 \<or> p = HIPIC + 1 \<Longrightarrow> reg (bus_out B p v k) = (reg k)(p := v)" for p v k using assms by (auto simp: mask_regs_def)
  have p: "ocw1_port intr = LOPIC + 1 \<or> ocw1_port intr = HIPIC + 1" by (simp add: ocw1_port_def add.commute)
  have g: "fst (intr_get_mask B h) = push_bit 8 (ucast (reg h (HIPIC + 1))) OR ucast (reg h (LOPIC + 1))"
    by (simp add: intr_get_mask_def split_beta i)
  show ?thesis
    unfolding g intr_set_mask_def intr_mask_disable_def intr_mask_enable_def Let_def split_beta mask_bytes
    by (simp add: i o [OF p] o LOPIC_def HIPIC_def)
qed

section \<open>Witnesses\<close>

lemma w_near4: "\<exists>m. near_malloc 0x100 4 w_mem = Ok (0x104, m)"
proof -
  have a: "NHDR_GET_SIZE (nearhdrs w_mem 0x100) = 32764" "\<not> NHDR_GET_USED (nearhdrs w_mem 0x100)"
    by (simp_all add: w_mem_def mem_init_def Let_def NEAR_HEAP_SIZE_def) (simp add: NHDR_GET_USED_def)
  have b: "near_find (nearhdrs w_mem) 4 0x100 = Some 0x100" using a by (simp add: near_find.simps)
  have c: "near_round 4 = 4" by (simp add: near_round_def)
  show ?thesis using a by (simp add: near_malloc_def Let_def c b)
qed

text \<open>Interrupt 4 has a handler, number 7, whose node is at 0x200, and a task.\<close>

definition w_intr :: "(u16 \<Rightarrow> u8) intrst" where
  "w_intr = \<lparr>intrs = (\<lambda>_. \<lparr>ih_handlers = 0x200, ih_task = 5\<rparr>), inodes = (\<lambda>_. \<lparr>in_handler = 7, in_next = 0\<rparr>), vectors = (\<lambda>_. far_null),
     i_sch = w_sched\<lparr>smem := w_mem\<rparr>, i_hw = (\<lambda>_. 0)\<rparr>"

definition w_bus :: "(u16 \<Rightarrow> u8) bus" where
  "w_bus = \<lparr>bus_in = (\<lambda>p h. (h p, h)), bus_out = (\<lambda>p v h. h(p := v))\<rparr>"

theorem intr_handlers_run_witness:
  "\<exists>s' t. intr_add_handler 0x100 0 (\<lambda>_. (1, 1)) w_bus 4 9 w_intr = Ok (0, s') \<and>
    intr_handler w_bus (\<lambda>h i t. Some (if h = 7 then 0 else 1, t\<lparr>i_hw := (i_hw t)(of_nat h := 1)\<rparr>)) 4 s' = Ok t \<and>
    i_hw t 7 = 1 \<and> i_hw t 9 = 1 \<and> i_hw t LOPIC = 0"
proof -
  let ?f = "\<lambda>h (i :: nat) t. (if h = 7 then 0 else 1 :: int, t\<lparr>i_hw := (i_hw t)(of_nat h := 1 :: u8)\<rparr>)"
  obtain m where m: "near_malloc 0x100 4 w_mem = Ok (0x104, m)" using w_near4 by blast
  then obtain s' where s': "intr_add_handler 0x100 0 (\<lambda>_. (1, 1)) w_bus 4 9 w_intr = Ok (0, s')" "i_hw s' = (\<lambda>_. 0)"
    by (simp add: intr_add_handler_def w_intr_def Let_def)
  have "nodes (inodes w_intr) (ih_handlers (intrs w_intr 4)) [0x200]" by (simp add: w_intr_def)
  from intr_handlers_run [OF s'(1) this, of ?f] show ?thesis
    using s' m by (simp add: w_intr_def LOPIC_def)
qed

theorem intr_masks_witness: "intr_mask_enable w_bus 4 (\<lambda>_. 0xff) 0x21 = 0xef"
  using intr_masks [of w_bus "\<lambda>h. h" 4 "\<lambda>_. 0xff"] by (simp add: mask_regs_def w_bus_def ocw1_port_def LOPIC_def irq_bit_def)

end
