(* ===== verification/Tty.thy ===== *)
theory Tty
  imports Ports Ttycook Keyboard
begin

text \<open>
  The serial driver, \<open>kernel/tty/TTY.C\<close>, for 8250 and 16550A chips behind the ports of \<open>Ports\<close>. A unit is
  its number, an output buffer (\<open>tty_iob_t\<close>) its address. A critical section is its count: entering it
  when it is not positive waits for ever; where a section only surrounds a test the count is the same
  after it. \<open>t_spin\<close> is the character the interrupt handler turns on the screen.
\<close>

section \<open>Registers of the chip\<close>

definition UART_XMIT :: u16 where "UART_XMIT = 0"
definition UART_RECV :: u16 where "UART_RECV = 0"
definition UART_DIVLOW :: u16 where "UART_DIVLOW = 0"
definition UART_IER :: u16 where "UART_IER = 1"
definition UART_DIVHI :: u16 where "UART_DIVHI = 1"
definition UART_FIFO :: u16 where "UART_FIFO = 2"
definition UART_IIR :: u16 where "UART_IIR = 2"
definition UART_LCR :: u16 where "UART_LCR = 3"
definition UART_MCR :: u16 where "UART_MCR = 4"
definition UART_LSR :: u16 where "UART_LSR = 5"
definition UART_SCR :: u16 where "UART_SCR = 7"

definition IER_RECV :: u8 where "IER_RECV = 1"
definition IER_XMIT :: u8 where "IER_XMIT = 2"

definition FIFO_XRESET :: u8 where "FIFO_XRESET = 2"
definition FIFO_TRESET :: u8 where "FIFO_TRESET = 4"
definition FIFO_RTRIG_LO :: u8 where "FIFO_RTRIG_LO = 0x40"
definition FIFO_RTRIG_HI :: u8 where "FIFO_RTRIG_HI = 0x80"
definition FIFO_ENABLE :: u8 where "FIFO_ENABLE = 1"

definition IIR_8250_MASK :: u8 where "IIR_8250_MASK = 7"
definition IIR_16550_MASK :: u8 where "IIR_16550_MASK = 0xf"
definition IIR_NONE :: u8 where "IIR_NONE = 1"
definition IIR_TXRDY :: u8 where "IIR_TXRDY = 2"
definition IIR_RXRDY :: u8 where "IIR_RXRDY = 4"
definition IIR_RXTMO :: u8 where "IIR_RXTMO = 0xc"
definition IIR_RETRY :: nat where "IIR_RETRY = 10"
definition IIR_TYPE_MASK :: u8 where "IIR_TYPE_MASK = 0xc0"
definition IIR_16550A :: u8 where "IIR_16550A = 0xc0"

definition LCR_DLAB :: u8 where "LCR_DLAB = 0x80"
definition LCR_BITS_8 :: u8 where "LCR_BITS_8 = 3"
definition LCR_STOP_1 :: u8 where "LCR_STOP_1 = 0"
definition LCR_NOPAR :: u8 where "LCR_NOPAR = 0"
definition MCR_DTR :: u8 where "MCR_DTR = 1"
definition MCR_RTS :: u8 where "MCR_RTS = 2"
definition MCR_OP2 :: u8 where "MCR_OP2 = 8"
definition LSR_TX_RDY :: u8 where "LSR_TX_RDY = 0x20"
definition LSR_RX_RDY :: u8 where "LSR_RX_RDY = 1"

definition FIFO_SIZE :: nat where "FIFO_SIZE = 16"
definition DIVISOR :: u32 where "DIVISOR = 115200"
definition DEF_BAUD :: u32 where "DEF_BAUD = 19200"
definition DEF_LCR :: u8 where "DEF_LCR = LCR_NOPAR OR LCR_BITS_8 OR LCR_STOP_1"

section \<open>State\<close>

record tty_spec =
  sp_port :: u16
  sp_irq :: nat

definition specs :: "tty_spec list" where
  "specs = [\<lparr>sp_port = 0x3f8, sp_irq = 4\<rparr>, \<lparr>sp_port = 0x2f8, sp_irq = 3\<rparr>, \<lparr>sp_port = 0x3e8, sp_irq = 4\<rparr>, \<lparr>sp_port = 0x2e8, sp_irq = 3\<rparr>]"

definition N_SPECS :: nat where "N_SPECS = 4"

text \<open>\<open>tty_iob_t\<close> with its link.\<close>

record xiob = tty_iob +
  iob_next :: u16

record tty_unit =
  u_baud :: u32
  u_port :: u16
  u_lcr :: u8
  u_iirmask :: u8
  u_irq :: nat
  u_refcs :: int
  u_zomb :: int
  u_16550a :: bool
  u_open :: bool
  u_readers :: taskq
  u_cook :: ttyc
  u_csrecv :: int
  u_txhead :: u16
  u_txtail :: u16
  u_free :: u16
  u_csxmit :: int
  u_ints :: u16
  u_txintr :: u16
  u_rxrdy :: u16
  u_rxbytes :: u32

record 'h tty =
  t_units :: "nat \<Rightarrow> tty_unit"
  t_n :: nat
  t_added :: u16
  t_iobs :: "u16 \<Rightarrow> xiob"
  t_intr :: "'h intrst"
  t_spin :: u8

definition uset :: "nat \<Rightarrow> (tty_unit \<Rightarrow> tty_unit) \<Rightarrow> 'h tty \<Rightarrow> 'h tty" where
  "uset u f s = s\<lparr>t_units := (t_units s)(u := f (t_units s u))\<rparr>"

definition bset_iob :: "u16 \<Rightarrow> (xiob \<Rightarrow> xiob) \<Rightarrow> 'h tty \<Rightarrow> 'h tty" where
  "bset_iob a f s = s\<lparr>t_iobs := (t_iobs s)(a := f (t_iobs s a))\<rparr>"

abbreviation t_sch :: "'h tty \<Rightarrow> sched" where "t_sch s \<equiv> i_sch (t_intr s)"
abbreviation t_hw :: "'h tty \<Rightarrow> 'h" where "t_hw s \<equiv> i_hw (t_intr s)"

definition set_sch :: "sched \<Rightarrow> 'h tty \<Rightarrow> 'h tty" where
  "set_sch sch s = s\<lparr>t_intr := (t_intr s)\<lparr>i_sch := sch\<rparr>\<rparr>"

definition t_out :: "'h bus \<Rightarrow> u16 \<Rightarrow> u8 \<Rightarrow> 'h tty \<Rightarrow> 'h tty" where
  "t_out B p v s = s\<lparr>t_intr := (t_intr s)\<lparr>i_hw := bus_out B p v (t_hw s)\<rparr>\<rparr>"

definition t_in :: "'h bus \<Rightarrow> u16 \<Rightarrow> 'h tty \<Rightarrow> u8 \<times> 'h tty" where
  "t_in B p s = (let (v, h) = bus_in B p (t_hw s) in (v, s\<lparr>t_intr := (t_intr s)\<lparr>i_hw := h\<rparr>\<rparr>))"

text \<open>Is there a unit with this number?\<close>

definition bad_unit :: "int \<Rightarrow> 'h tty \<Rightarrow> bool" where
  "bad_unit unit s \<longleftrightarrow> unit < 0 \<or> int (t_n s) \<le> unit"

section \<open>Finding the chips\<close>

text \<open>Does reading the interrupt register become idle within so many tries?\<close>

fun iir_clear :: "'h bus \<Rightarrow> u16 \<Rightarrow> u8 \<Rightarrow> nat \<Rightarrow> 'h tty \<Rightarrow> bool \<times> 'h tty" where
  "iir_clear B port msk 0 s = (False, s)"
| "iir_clear B port msk (Suc n) s =
     (let (v, s1) = t_in B (port + UART_IIR) s
      in if v AND msk = IIR_NONE then (True, s1) else iir_clear B port msk n s1)"

definition PROBE_NO_TTY :: nat where "PROBE_NO_TTY = 0"
definition PROBE_8250 :: nat where "PROBE_8250 = 1"
definition PROBE_16550A :: nat where "PROBE_16550A = 2"

text \<open>In the second test \<open>!=\<close> binds tighter than the mask: it is the lowest bit that is looked at.\<close>

definition tty_probe :: "'h bus \<Rightarrow> tty_spec \<Rightarrow> 'h tty \<Rightarrow> nat \<times> 'h tty" where
  "tty_probe B spec s =
     (let port = sp_port spec;
          s1 = t_out B (port + UART_DIVHI) 0xff (t_out B (port + UART_LCR) LCR_DLAB s);
          (divhi, s2) = t_in B (port + UART_DIVHI) s1
      in if divhi \<noteq> 0xff then (PROBE_NO_TTY, s2)
         else (let (ier, s3) = t_in B (port + UART_IER) (t_out B (port + UART_LCR) 0 s2)
               in if ier AND 1 \<noteq> 0 then (PROBE_NO_TTY, s3)
                  else (let (v1, s4) = t_in B (port + UART_SCR) (t_out B (port + UART_SCR) 0x55 s3);
                            (a1, s5) = (if v1 = 0x55
                                        then (let (v2, z) = t_in B (port + UART_SCR) (t_out B (port + UART_SCR) 0xaa s4) in (v2 = 0xaa, z))
                                        else (False, s4));
                            (a2, s6) = (if a1
                                        then (let (v3, z) = t_in B (port + UART_IIR) (t_out B (port + UART_FIFO) FIFO_ENABLE s5)
                                              in (v3 AND IIR_TYPE_MASK = IIR_16550A, z))
                                        else (False, s5));
                            (clear, s7) = iir_clear B port (if a2 then IIR_16550_MASK else IIR_8250_MASK) IIR_RETRY s6
                        in (if \<not> clear then PROBE_NO_TTY else if a2 then PROBE_16550A else PROBE_8250, s7))))"

text \<open>The function falls off its end: no value is returned after the writes. A rate of zero divides by it.\<close>

definition tty_setrate :: "'h bus \<Rightarrow> int \<Rightarrow> u32 \<Rightarrow> u8 \<Rightarrow> 'h tty \<Rightarrow> (int option \<times> 'h tty) res" where
  "tty_setrate B unit baud lcrbits s =
     (if bad_unit unit s then Ok (Some (- ENODEV), s)
      else if baud = 0 then Panic
      else (let u = nat unit; base = u_port (t_units s u); rate = (ucast (DIVISOR div baud) :: u16);
                s1 = uset u (\<lambda>p. p\<lparr>u_baud := baud, u_lcr := lcrbits\<rparr>) s;
                s2 = t_out B (base + UART_LCR) LCR_DLAB s1;
                s3 = t_out B (base + UART_DIVLOW) (ucast (rate AND 0xff)) s2;
                s4 = t_out B (base + UART_DIVHI) (ucast (drop_bit 8 rate)) s3
            in Ok (None, t_out B (base + UART_LCR) lcrbits s4)))"

text \<open>\<open>usz\<close> is the size the compiler gives the structure, \<open>rq i\<close> and \<open>eq i\<close> are the queues of unit \<open>i\<close>: its
  readers and the queue of its line discipline.\<close>

definition ttyc0 :: "taskq \<Rightarrow> ttyc" where
  "ttyc0 q = \<lparr>tc_buf = (\<lambda>_. 0), tc_echobuf = (\<lambda>_. 0), tc_tail = 0, tc_head = 0, tc_ehead = 0, tc_etail = 0, tc_echocs = 0, tc_crs = 0,
     tc_echotask = 0, tc_blockq = q\<rparr>"

definition new_unit :: "tty_spec \<Rightarrow> bool \<Rightarrow> taskq \<Rightarrow> taskq \<Rightarrow> tty_unit" where
  "new_unit sp is_a rq eq =
     \<lparr>u_baud = 0, u_port = sp_port sp, u_lcr = 0, u_iirmask = (if is_a then IIR_16550_MASK else IIR_8250_MASK), u_irq = sp_irq sp,
      u_refcs = 1, u_zomb = 0, u_16550a = is_a, u_open = False, u_readers = rq, u_cook = ttyc0 eq, u_csrecv = 1,
      u_txhead = 0, u_txtail = 0, u_free = 0, u_csxmit = 1, u_ints = 0, u_txintr = 0, u_rxrdy = 0, u_rxbytes = 0\<rparr>"

fun tty_init_loop :: "u16 \<Rightarrow> u16 \<Rightarrow> (nat \<Rightarrow> taskq) \<Rightarrow> (nat \<Rightarrow> taskq) \<Rightarrow> 'h bus \<Rightarrow> tty_spec list \<Rightarrow> 'h tty \<Rightarrow> 'h tty res" where
  "tty_init_loop heap usz rq eq B [] s = Ok s"
| "tty_init_loop heap usz rq eq B (sp # sps) s =
     (let (probe, s1) = tty_probe B sp s
      in if probe = PROBE_NO_TTY then tty_init_loop heap usz rq eq B sps s1
         else bind_res (near_malloc heap usz (smem (t_sch s1))) (\<lambda>(pu, m).
           let s2 = set_sch ((t_sch s1)\<lparr>smem := m\<rparr>) s1; n = t_n s2
           in if pu = 0 then tty_init_loop heap usz rq eq B sps s2
              else (let s3 = uset n (\<lambda>_. new_unit sp (probe = PROBE_16550A) (rq n) (eq n)) s2;
                        s4 = (set_sch (taskq_init (rq n) (t_sch s3)) s3)\<lparr>t_n := n + 1\<rparr>
                    in bind_res (tty_setrate B (int n) DEF_BAUD DEF_LCR s4) (\<lambda>(_, s5).
                       tty_init_loop heap usz rq eq B sps s5))))"

definition tty_init :: "u16 \<Rightarrow> u16 \<Rightarrow> (nat \<Rightarrow> taskq) \<Rightarrow> (nat \<Rightarrow> taskq) \<Rightarrow> 'h bus \<Rightarrow> 'h tty \<Rightarrow> 'h tty res" where
  "tty_init heap usz rq eq B s = tty_init_loop heap usz rq eq B specs s"

section \<open>Buffers that have been sent\<close>

text \<open>The inner loop of \<open>tty_freeiob\<close>.\<close>

partial_function (option) free_iobs :: "u16 \<Rightarrow> nat \<Rightarrow> 'h tty \<Rightarrow> 'h tty res option" where
  "free_iobs heap u s =
     (if u_free (t_units s u) = 0 then Some (Ok s)
      else (let iob = u_free (t_units s u);
                s1 = uset u (\<lambda>p. p\<lparr>u_free := iob_next (t_iobs s iob)\<rparr>) s
            in case bind_res (kfree (iob_data (t_iobs s iob)) (smem (t_sch s1))) (\<lambda>m. near_free heap iob m) of
                 Ok m \<Rightarrow> free_iobs heap u (set_sch ((t_sch s1)\<lparr>smem := m\<rparr>) s1)
               | Panic \<Rightarrow> Some Panic
               | Hang \<Rightarrow> Some Hang))"

fun tty_freeiob_loop :: "u16 \<Rightarrow> nat list \<Rightarrow> 'h tty \<Rightarrow> 'h tty res" where
  "tty_freeiob_loop heap [] s = Ok s"
| "tty_freeiob_loop heap (u # us) s = bind_res (of_loopr (free_iobs heap u s)) (tty_freeiob_loop heap us)"

definition tty_freeiob :: "u16 \<Rightarrow> 'h tty \<Rightarrow> 'h tty res" where
  "tty_freeiob heap s = tty_freeiob_loop heap [0..<t_n s] s"

section \<open>Interrupts\<close>

text \<open>Drop the buffers at the head that have been sent.\<close>

partial_function (option) xmit_skip :: "nat \<Rightarrow> 'h tty \<Rightarrow> 'h tty option" where
  "xmit_skip u s =
     (let iob = u_txhead (t_units s u)
      in if iob = 0 \<or> iob_ptr (t_iobs s iob) \<noteq> iob_size (t_iobs s iob) then Some s
         else (let nx = iob_next (t_iobs s iob);
                   s1 = bset_iob iob (\<lambda>b. b\<lparr>iob_next := u_free (t_units s u)\<rparr>) s;
                   s2 = uset u (\<lambda>p. p\<lparr>u_free := iob, u_txhead := nx, u_txtail := (if nx = 0 then 0 else u_txtail p)\<rparr>) s1
               in xmit_skip u s2))"

text \<open>The loop that fills the FIFO; the first argument is how many bytes still fit.\<close>

fun xmit_fill :: "'h bus \<Rightarrow> nat \<Rightarrow> nat \<Rightarrow> 'h tty \<Rightarrow> 'h tty res" where
  "xmit_fill B 0 u s = Ok s"
| "xmit_fill B (Suc n) u s =
     bind_res (of_loop (xmit_skip u s)) (\<lambda>s1.
       let iob = u_txhead (t_units s1 u); b = t_iobs s1 iob
       in if iob = 0 then Ok s1
          else xmit_fill B n u (t_out B (u_port (t_units s1 u) + UART_XMIT) (iob_bytes b ! unat (iob_ptr b))
                 (bset_iob iob (\<lambda>b. b\<lparr>iob_ptr := iob_ptr b + 1\<rparr>) s1)))"

definition tty_xmit_intr :: "'h bus \<Rightarrow> nat \<Rightarrow> 'h tty \<Rightarrow> 'h tty res" where
  "tty_xmit_intr B u s =
     (if u_txhead (t_units s u) = 0 then Ok s
      else (let (lsr, s1) = t_in B (u_port (t_units s u) + UART_LSR) s
            in if lsr AND LSR_TX_RDY = 0 then Ok s1 else xmit_fill B FIFO_SIZE u s1))"

text \<open>The loop of \<open>tty_recv_intr\<close>: were there any bytes?\<close>

partial_function (option) recv_loop :: "'h bus \<Rightarrow> nat \<Rightarrow> bool \<Rightarrow> 'h tty \<Rightarrow> (bool \<times> 'h tty) res option" where
  "recv_loop B u got s =
     (let base = u_port (t_units s u); (lsr, s1) = t_in B (base + UART_LSR) s
      in if lsr AND LSR_RX_RDY = 0 then Some (Ok (got, s1))
         else (let s2 = uset u (\<lambda>p. p\<lparr>u_rxbytes := u_rxbytes p + 1\<rparr>) s1;
                   (ch, s3) = t_in B (base + UART_RECV) s2
               in case ttyc_putc ch (u_cook (t_units s3 u)) (t_sch s3) of
                    Ok (tc, sch) \<Rightarrow> recv_loop B u True (set_sch sch (uset u (\<lambda>p. p\<lparr>u_cook := tc\<rparr>) s3))
                  | Panic \<Rightarrow> Some Panic
                  | Hang \<Rightarrow> Some Hang))"

definition tty_recv_intr :: "'h bus \<Rightarrow> nat \<Rightarrow> 'h tty \<Rightarrow> 'h tty res" where
  "tty_recv_intr B u s =
     bind_res (of_loopr (recv_loop B u False (uset u (\<lambda>p. p\<lparr>u_rxrdy := u_rxrdy p + 1\<rparr>) s))) (\<lambda>(got, s1).
       if got then bind_res (of_loop (wake_readers (u_readers (t_units s1 u)) (t_sch s1))) (\<lambda>sch. Ok (set_sch sch s1))
       else Ok s1)"

text \<open>The switch on the cause of an interrupt.\<close>

definition tty_cause :: "'h bus \<Rightarrow> nat \<Rightarrow> u8 \<Rightarrow> 'h tty \<Rightarrow> 'h tty res" where
  "tty_cause B u iir s =
     (if iir = IIR_RXRDY \<or> iir = IIR_RXTMO then
        (if u_csrecv (t_units s u) \<le> 0 then Hang else tty_recv_intr B u s)
      else if iir = IIR_TXRDY then
        (let s1 = uset u (\<lambda>p. p\<lparr>u_txintr := u_txintr p + 1\<rparr>) s
         in if u_csxmit (t_units s1 u) \<le> 0 then Hang else tty_xmit_intr B u s1)
      else Ok (s\<lparr>t_spin := iir\<rparr>))"

partial_function (option) tty_serve :: "'h bus \<Rightarrow> nat \<Rightarrow> 'h tty \<Rightarrow> 'h tty res option" where
  "tty_serve B u s =
     (let (v, s1) = t_in B (u_port (t_units s u) + UART_IIR) s; iir = v AND u_iirmask (t_units s1 u)
      in if iir = IIR_NONE then Some (Ok s1)
         else (case tty_cause B u iir s1 of
                 Ok s2 \<Rightarrow> tty_serve B u s2
               | Panic \<Rightarrow> Some Panic
               | Hang \<Rightarrow> Some Hang))"

fun tty_intr_loop :: "'h bus \<Rightarrow> nat \<Rightarrow> nat list \<Rightarrow> 'h tty \<Rightarrow> 'h tty res" where
  "tty_intr_loop B irq [] s = Ok s"
| "tty_intr_loop B irq (u # us) s =
     (if u_irq (t_units s u) = irq
      then bind_res (of_loopr (tty_serve B u (uset u (\<lambda>p. p\<lparr>u_ints := u_ints p + 1\<rparr>) s))) (tty_intr_loop B irq us)
      else tty_intr_loop B irq us s)"

definition tty_intr :: "'h bus \<Rightarrow> nat \<Rightarrow> 'h tty \<Rightarrow> (int \<times> 'h tty) res" where
  "tty_intr B irq s =
     bind_res (tty_intr_loop B irq [0..<t_n s] (s\<lparr>t_spin := t_spin s + 1\<rparr>)) (\<lambda>s1. Ok (0, s1))"

section \<open>Opening and closing\<close>

text \<open>\<open>fn\<close> is the number of \<open>tty_intr\<close> as a handler, \<open>stub\<close> and \<open>echo\<close> are addresses of code, \<open>pc u\<close> that of the
  line discipline of the unit. What \<open>intr_add_handler\<close> returns is not looked at.\<close>

definition tty_open ::
  "u16 \<Rightarrow> u16 \<Rightarrow> (nat \<Rightarrow> farptr) \<Rightarrow> farptr \<Rightarrow> (nat \<Rightarrow> u16) \<Rightarrow> nat \<Rightarrow> 'h bus \<Rightarrow> int \<Rightarrow> 'h tty \<Rightarrow> (int \<times> 'h tty) res" where
  "tty_open heap ds stub echo pc fn B unit s =
     (if bad_unit unit s then Ok (- ENODEV, s)
      else (let u = nat unit; pu = t_units s u
            in if u_refcs pu \<le> 0 then Hang
               else if u_open pu \<or> qhead (t_sch s) (u_readers pu) \<noteq> 0 then Ok (- EBUSY, s)
               else (let s1 = uset u (\<lambda>p. p\<lparr>u_open := True\<rparr>) s; port = u_port pu;
                         s2 = (if u_16550a pu
                               then t_out B (port + UART_FIFO) (FIFO_ENABLE OR FIFO_TRESET OR FIFO_XRESET OR FIFO_RTRIG_HI OR FIFO_RTRIG_LO) s1
                               else s1);
                         (clear, s3) = iir_clear B port (u_iirmask pu) IIR_RETRY s2
                     in if \<not> clear then Ok (- EIO, uset u (\<lambda>p. p\<lparr>u_open := False\<rparr>) s3)
                        else bind_res (ttyc_init heap ds echo (pc u) (u_cook (t_units s3 u)) (t_sch s3)) (\<lambda>(tc, sch).
                          let s4 = set_sch sch (uset u (\<lambda>p. p\<lparr>u_cook := tc\<rparr>) s3);
                              s5 = t_out B (port + UART_MCR) (MCR_DTR OR MCR_RTS OR MCR_OP2) s4;
                              m = push_bit (u_irq pu) (1 :: u16)
                          in bind_res
                               (if t_added s5 AND m = 0
                                then bind_res (intr_add_handler heap ds stub B (u_irq pu) fn (t_intr s5)) (\<lambda>(_, i).
                                     Ok (s5\<lparr>t_intr := i, t_added := t_added s5 OR m\<rparr>))
                                else Ok s5) (\<lambda>s6.
                             Ok (0, t_out B (port + UART_IER) (IER_RECV OR IER_XMIT) s6))))))"

text \<open>How many tasks are on the ring of a queue.\<close>

partial_function (option) ring_count :: "(taskp \<Rightarrow> task) \<Rightarrow> taskp \<Rightarrow> taskp \<Rightarrow> int \<Rightarrow> int option" where
  "ring_count m head rdr n =
     (let nx = t_next (m rdr) in if nx = head then Some (n + 1) else ring_count m head nx (n + 1))"

definition tty_close :: "u16 \<Rightarrow> 'h bus \<Rightarrow> int \<Rightarrow> 'h tty \<Rightarrow> (int \<times> 'h tty) res" where
  "tty_close heap B unit s =
     (if bad_unit unit s then Ok (- ENODEV, s)
      else (let u = nat unit; pu = t_units s u
            in if u_refcs pu \<le> 0 then Hang
               else if \<not> u_open pu then Ok (- EBADF, s)
               else (let s1 = t_out B (u_port pu + UART_MCR) 0 (t_out B (u_port pu + UART_IER) 0 s);
                         s2 = (if u_txhead pu \<noteq> 0
                               then uset u (\<lambda>p. p\<lparr>u_free := u_txhead p, u_txhead := 0, u_txtail := 0\<rparr>)
                                      (bset_iob (u_txtail pu) (\<lambda>b. b\<lparr>iob_next := u_free pu\<rparr>) s1)
                               else s1)
                     in bind_res (tty_freeiob heap s2) (\<lambda>s3.
                        let q = u_readers pu; h = qhead (t_sch s3) q
                        in bind_res
                             (if h \<noteq> 0
                              then bind_res (of_loop (ring_count (tk (t_sch s3)) h h 0)) (\<lambda>n.
                                   bind_res (of_loop (wake_readers q (t_sch s3))) (\<lambda>sch.
                                   Ok (set_sch sch (uset u (\<lambda>p. p\<lparr>u_zomb := n\<rparr>) s3))))
                              else Ok (uset u (\<lambda>p. p\<lparr>u_zomb := 0\<rparr>) s3)) (\<lambda>s4.
                           Ok (0, uset u (\<lambda>p. p\<lparr>u_open := False\<rparr>) s4))))))"

section \<open>Reading and writing\<close>

text \<open>\<open>iob\<close> is put at the end of the list of output buffers.\<close>

definition tty_enqueue :: "'h bus \<Rightarrow> nat \<Rightarrow> u16 \<Rightarrow> 'h tty \<Rightarrow> 'h tty res" where
  "tty_enqueue B u iob s =
     (if u_csxmit (t_units s u) \<le> 0 then Hang
      else if u_txhead (t_units s u) \<noteq> 0
      then Ok (uset u (\<lambda>p. p\<lparr>u_txtail := iob\<rparr>) (bset_iob (u_txtail (t_units s u)) (\<lambda>b. b\<lparr>iob_next := iob\<rparr>) s))
      else tty_xmit_intr B u (uset u (\<lambda>p. p\<lparr>u_txhead := iob, u_txtail := iob\<rparr>) s))"

definition tty_write :: "u16 \<Rightarrow> 'h bus \<Rightarrow> int \<Rightarrow> u8 list \<Rightarrow> 'h tty \<Rightarrow> (int \<times> 'h tty) res" where
  "tty_write heap B unit buf s0 =
     bind_res (tty_freeiob heap s0) (\<lambda>s.
       if bad_unit unit s then Ok (- ENODEV, s)
       else if buf = [] then Ok (0, s)
       else bind_res (ttyc_cook_output heap buf (smem (t_sch s))) (\<lambda>((iob, b), m).
         let s1 = set_sch ((t_sch s)\<lparr>smem := m\<rparr>) s
         in if iob = 0 then Ok (- ENOMEM, s1)
            else (let s2 = s1\<lparr>t_iobs := (t_iobs s1)(iob := tty_iob.extend (b\<lparr>iob_ptr := 0\<rparr>) \<lparr>iob_next = 0\<rparr>)\<rparr>
                  in bind_res (tty_enqueue B (nat unit) iob s2) (\<lambda>s3. Ok (int (length buf), s3)))))"

text \<open>One turn of the loop of \<open>tty_read\<close>: the bytes, or the reader is blocked and another task runs; then
  \<open>tty_read_resume\<close> is what it does when it is woken, before the next turn.\<close>

definition tty_read_turn :: "ctx \<Rightarrow> nat \<Rightarrow> int \<Rightarrow> 'h tty \<Rightarrow> (u8 list option \<times> 'h tty) res" where
  "tty_read_turn c u sz s =
     (if u_csrecv (t_units s u) \<le> 0 then Hang
      else (let (bs, tc) = ttyc_read sz (u_cook (t_units s u)); s1 = uset u (\<lambda>p. p\<lparr>u_cook := tc\<rparr>) s
            in if bs \<noteq> [] then Ok (Some bs, s1)
               else bind_res (task_block c (u_readers (t_units s1 u)) (t_sch s1)) (\<lambda>sch. Ok (None, set_sch sch s1))))"

definition tty_read_resume :: "nat \<Rightarrow> 'h tty \<Rightarrow> (int option \<times> 'h tty) res" where
  "tty_read_resume u s =
     (if u_refcs (t_units s u) \<le> 0 then Hang
      else if u_zomb (t_units s u) \<noteq> 0 then Ok (Some (- EIO), uset u (\<lambda>p. p\<lparr>u_zomb := u_zomb p - 1\<rparr>) s)
      else Ok (None, s))"

definition tty_read :: "u16 \<Rightarrow> ctx \<Rightarrow> int \<Rightarrow> int \<Rightarrow> 'h tty \<Rightarrow> ((int \<times> u8 list) option \<times> 'h tty) res" where
  "tty_read heap c unit sz s0 =
     bind_res (tty_freeiob heap s0) (\<lambda>s.
       if bad_unit unit s then Ok (Some (- ENODEV, []), s)
       else if sz = 0 then Ok (Some (0, []), s)
       else bind_res (tty_read_turn c (nat unit) sz s) (\<lambda>(r, s1).
         Ok (map_option (\<lambda>bs. (int (length bs), bs)) r, s1)))"

text \<open>What \<open>tty_dump\<close> does beside printing: it reads all eight ports of every unit, the received byte and the
  cause of the interrupt among them.\<close>

definition tty_dump :: "'h bus \<Rightarrow> 'h tty \<Rightarrow> 'h tty" where
  "tty_dump B s = fold (\<lambda>u s. fold (\<lambda>j s. snd (t_in B (u_port (t_units s u) + of_nat j) s)) [0..<8] s) [0..<t_n s] s"

end
