(* ===== verification/TtyThms.thy ===== *)
theory TtyThms
  imports Tty KeyThms
begin

text \<open>
  Properties of the serial driver: what is written leaves the chip in order, sixteen bytes at a time; what
  arrives goes through the line discipline and wakes the readers; a unit is open once.
\<close>

section \<open>Output buffers as a list\<close>

fun ilist :: "(u16 \<Rightarrow> xiob) \<Rightarrow> u16 \<Rightarrow> u16 list \<Rightarrow> bool" where
  "ilist m p [] \<longleftrightarrow> p = 0"
| "ilist m p (a # as) \<longleftrightarrow> p = a \<and> a \<noteq> 0 \<and> ilist m (iob_next (m a)) as"

lemma ilist_frame: "a \<notin> set as \<Longrightarrow> ilist (m(a := x)) p as = ilist m p as"
  by (induction as arbitrary: p) auto

lemma ilist_same: "iob_next x = iob_next (m a) \<Longrightarrow> ilist (m(a := x)) p as = ilist m p as"
  by (induction as arbitrary: p) auto

lemma ilist_snoc:
  "ilist m p (as @ [a]) \<Longrightarrow> b \<noteq> 0 \<Longrightarrow> iob_next (m b) = 0 \<Longrightarrow> a \<notin> set as \<Longrightarrow> b \<noteq> a \<Longrightarrow> b \<notin> set as \<Longrightarrow>
   ilist (m(a := (m a)\<lparr>iob_next := b\<rparr>)) p (as @ [a, b])"
  by (induction as arbitrary: p) auto

definition iob_ok :: "xiob \<Rightarrow> bool" where
  "iob_ok b \<longleftrightarrow> iob_size b = of_nat (length (iob_bytes b)) \<and> length (iob_bytes b) < 65536 \<and> unat (iob_ptr b) \<le> length (iob_bytes b)"

definition iob_left :: "xiob \<Rightarrow> u8 list" where "iob_left b = drop (unat (iob_ptr b)) (iob_bytes b)"

text \<open>The list of buffers to send, and the bytes that wait in it.\<close>

definition tx_ok :: "nat \<Rightarrow> 'h tty \<Rightarrow> u16 list \<Rightarrow> bool" where
  "tx_ok u s as \<longleftrightarrow> ilist (t_iobs s) (u_txhead (t_units s u)) as \<and> distinct as \<and> (\<forall>a \<in> set as. iob_ok (t_iobs s a)) \<and>
     (as \<noteq> [] \<longrightarrow> u_txtail (t_units s u) = last as)"

definition to_send :: "'h tty \<Rightarrow> u16 list \<Rightarrow> u8 list" where
  "to_send s as = concat (map (\<lambda>a. iob_left (t_iobs s a)) as)"

lemma iob_done: "iob_ok b \<Longrightarrow> iob_ptr b = iob_size b \<longleftrightarrow> iob_left b = []"
  by (auto simp: iob_ok_def iob_left_def) (metis le_antisym of_nat_unat unat_of_nat16 ucast_id)

lemma uset_simps [simp]:
  "t_units (uset u f s) u = f (t_units s u)" "v \<noteq> u \<Longrightarrow> t_units (uset u f s) v = t_units s v"
  "t_iobs (uset u f s) = t_iobs s" "t_intr (uset u f s) = t_intr s" "t_n (uset u f s) = t_n s"
  by (simp_all add: uset_def)

lemma uset_at: "t_units (uset u f s) v = (if v = u then f (t_units s u) else t_units s v)"
  by (simp add: uset_def)

lemma bset_iob_simps [simp]:
  "t_units (bset_iob a f s) = t_units s" "t_iobs (bset_iob a f s) = (t_iobs s)(a := f (t_iobs s a))"
  "t_intr (bset_iob a f s) = t_intr s" "t_n (bset_iob a f s) = t_n s"
  by (simp_all add: bset_iob_def)

lemma t_out_simps [simp]:
  "t_units (t_out B p v s) = t_units s" "t_iobs (t_out B p v s) = t_iobs s" "t_hw (t_out B p v s) = bus_out B p v (t_hw s)"
  "t_sch (t_out B p v s) = t_sch s" "t_n (t_out B p v s) = t_n s"
  by (simp_all add: t_out_def)

lemma t_in_simps [simp]:
  "t_units (snd (t_in B p s)) = t_units s" "t_iobs (snd (t_in B p s)) = t_iobs s" "t_sch (snd (t_in B p s)) = t_sch s"
  "t_hw (snd (t_in B p s)) = snd (bus_in B p (t_hw s))" "fst (t_in B p s) = fst (bus_in B p (t_hw s))" "t_n (snd (t_in B p s)) = t_n s"
  by (simp_all add: t_in_def split_beta)

lemma set_sch_simps [simp]:
  "t_units (set_sch sch s) = t_units s" "t_iobs (set_sch sch s) = t_iobs s" "t_sch (set_sch sch s) = sch"
  "t_hw (set_sch sch s) = t_hw s" "t_n (set_sch sch s) = t_n s"
  by (simp_all add: set_sch_def)

section \<open>Sending\<close>

lemma xmit_skip_ok:
  "tx_ok u s as \<Longrightarrow> \<exists>s' as'. xmit_skip u s = Some s' \<and> tx_ok u s' as' \<and> to_send s' as' = to_send s as \<and>
     (as' \<noteq> [] \<longrightarrow> iob_left (t_iobs s' (hd as')) \<noteq> []) \<and> t_intr s' = t_intr s \<and> u_port (t_units s' u) = u_port (t_units s u)"
proof (induction as arbitrary: s)
  case Nil
  then have "xmit_skip u s = Some s" by (subst xmit_skip.simps) (simp add: tx_ok_def Let_def)
  then show ?case using Nil by (intro exI [of _ s] exI [of _ "[]"]) simp
next
  case (Cons a as)
  have h: "u_txhead (t_units s u) = a" "a \<noteq> 0" "iob_ok (t_iobs s a)" "a \<notin> set as" using Cons.prems by (auto simp: tx_ok_def)
  show ?case
  proof (cases "iob_left (t_iobs s a) = []")
    case False
    then have "xmit_skip u s = Some s" using h iob_done by (subst xmit_skip.simps) (simp add: Let_def)
    then show ?thesis using Cons.prems False by (intro exI [of _ s] exI [of _ "a # as"]) simp
  next
    case True
    let ?nx = "iob_next (t_iobs s a)"
    let ?s = "uset u (\<lambda>p. p\<lparr>u_free := a, u_txhead := ?nx, u_txtail := (if ?nx = 0 then 0 else u_txtail p)\<rparr>)
                (bset_iob a (\<lambda>b. b\<lparr>iob_next := u_free (t_units s u)\<rparr>) s)"
    have e: "xmit_skip u s = xmit_skip u ?s" using h True iob_done by (subst xmit_skip.simps) (simp add: Let_def)
    have "tx_ok u ?s as"
      using Cons.prems h(4) by (cases as) (auto simp: tx_ok_def ilist_frame)
    moreover have "to_send ?s as = to_send s (a # as)" using True h(4) by (auto simp: to_send_def intro!: arg_cong [of _ _ concat])
    ultimately show ?thesis using Cons.IH [of ?s] unfolding e by auto
  qed
qed

text \<open>A chip that sends what is written to its port.\<close>

definition sends :: "'h bus \<Rightarrow> u16 \<Rightarrow> ('h \<Rightarrow> u8 list) \<Rightarrow> bool" where
  "sends B port sent \<longleftrightarrow> (\<forall>v h. sent (bus_out B (port + UART_XMIT) v h) = sent h @ [v]) \<and> (\<forall>p h. sent (snd (bus_in B p h)) = sent h)"

lemma xmit_fill_ok:
  "tx_ok u s as \<Longrightarrow> sends B (u_port (t_units s u)) sent \<Longrightarrow>
   \<exists>s' as'. xmit_fill B n u s = Ok s' \<and> tx_ok u s' as' \<and> sent (t_hw s') = sent (t_hw s) @ take n (to_send s as) \<and>
     to_send s' as' = drop n (to_send s as) \<and> u_port (t_units s' u) = u_port (t_units s u)"
proof (induction n arbitrary: s as)
  case 0
  then show ?case by auto
next
  case (Suc n)
  obtain s1 as1 where 1: "xmit_skip u s = Some s1" "tx_ok u s1 as1" "to_send s1 as1 = to_send s as"
      "as1 \<noteq> [] \<Longrightarrow> iob_left (t_iobs s1 (hd as1)) \<noteq> []" "t_intr s1 = t_intr s" "u_port (t_units s1 u) = u_port (t_units s u)"
    using xmit_skip_ok [OF Suc.prems(1)] by blast
  show ?case
  proof (cases as1)
    case Nil
    then have "to_send s1 as1 = []" by (simp add: to_send_def)
    moreover have "xmit_fill B (Suc n) u s = Ok s1" using 1(1,2) Nil by (simp add: tx_ok_def)
    ultimately show ?thesis using 1 by (intro exI [of _ s1] exI [of _ as1]) simp
  next
    case (Cons a as2)
    let ?b = "t_iobs s1 a"
    have h: "u_txhead (t_units s1 u) = a" "a \<noteq> 0" "iob_ok ?b" "a \<notin> set as2" using 1(2) Cons by (auto simp: tx_ok_def)
    have lt: "unat (iob_ptr ?b) < length (iob_bytes ?b)" using 1(4) Cons by (simp add: iob_left_def)
    let ?s = "t_out B (u_port (t_units s1 u) + UART_XMIT) (iob_bytes ?b ! unat (iob_ptr ?b)) (bset_iob a (\<lambda>b. b\<lparr>iob_ptr := iob_ptr b + 1\<rparr>) s1)"
    have e: "xmit_fill B (Suc n) u s = xmit_fill B n u ?s" using 1(1) h by (simp add: Let_def)
    have p1: "unat (iob_ptr ?b + 1) = unat (iob_ptr ?b) + 1" using lt h(3) by (simp add: iob_ok_def unat_word_ariths)
    have "tx_ok u ?s as1"
      using 1(2) lt p1 h(3) by (auto simp: tx_ok_def ilist_same iob_ok_def)
    moreover have l: "to_send s1 as1 = iob_bytes ?b ! unat (iob_ptr ?b) # to_send ?s as1"
    proof -
      have 1: "iob_left ?b = iob_bytes ?b ! unat (iob_ptr ?b) # drop (unat (iob_ptr ?b) + 1) (iob_bytes ?b)"
        using lt by (simp add: iob_left_def Cons_nth_drop_Suc)
      have m: "map (\<lambda>x. iob_left (t_iobs ?s x)) as2 = map (\<lambda>x. iob_left (t_iobs s1 x)) as2" using h(4) by auto
      have 2: "iob_left (t_iobs ?s a) = drop (unat (iob_ptr ?b) + 1) (iob_bytes ?b)" using p1 by (simp add: iob_left_def)
      show ?thesis unfolding Cons to_send_def list.map concat.simps m 1 2 by (rule append_Cons)
    qed
    moreover have "sends B (u_port (t_units ?s u)) sent" using Suc.prems(2) 1(6) by simp
    ultimately obtain s' as' where r: "xmit_fill B n u ?s = Ok s'" "tx_ok u s' as'" "sent (t_hw s') = sent (t_hw ?s) @ take n (to_send ?s as1)"
        "to_send s' as' = drop n (to_send ?s as1)" "u_port (t_units s' u) = u_port (t_units ?s u)"
      using Suc.IH by blast
    moreover have "sent (t_hw ?s) = sent (t_hw s) @ [iob_bytes ?b ! unat (iob_ptr ?b)]"
      using Suc.prems(2) 1(5,6) by (simp add: sends_def)
    ultimately show ?thesis unfolding e using 1(3,6) l by (intro exI [of _ s'] exI [of _ as']) (simp flip: 1(3))
  qed
qed

lemma tx_ok_in: "tx_ok u (snd (t_in B p s)) as = tx_ok u s as"
  by (simp add: tx_ok_def)

lemma to_send_in: "to_send (snd (t_in B p s)) as = to_send s as"
  by (simp add: to_send_def)

lemma xmit_intr_ok:
  assumes "tx_ok u s as" "sends B (u_port (t_units s u)) sent"
  shows "\<exists>s' as'. tty_xmit_intr B u s = Ok s' \<and> tx_ok u s' as' \<and> sent (t_hw s') @ to_send s' as' = sent (t_hw s) @ to_send s as \<and>
    (fst (bus_in B (u_port (t_units s u) + UART_LSR) (t_hw s)) AND LSR_TX_RDY \<noteq> 0 \<longrightarrow> to_send s' as' = drop FIFO_SIZE (to_send s as))"
proof (cases "as = []")
  case True
  then have "tty_xmit_intr B u s = Ok s" using assms(1) by (simp add: tty_xmit_intr_def tx_ok_def)
  then show ?thesis using assms(1) True by (intro exI [of _ s] exI [of _ as]) (simp add: to_send_def)
next
  case False
  then have nz: "u_txhead (t_units s u) \<noteq> 0" using assms(1) by (cases as) (auto simp: tx_ok_def)
  let ?s = "snd (t_in B (u_port (t_units s u) + UART_LSR) s)"
  have hw: "sent (t_hw ?s) = sent (t_hw s)" using assms(2) by (simp add: sends_def)
  show ?thesis
  proof (cases "fst (bus_in B (u_port (t_units s u) + UART_LSR) (t_hw s)) AND LSR_TX_RDY = 0")
    case True
    then have "tty_xmit_intr B u s = Ok ?s" using nz by (simp add: tty_xmit_intr_def Let_def split_beta)
    then show ?thesis using assms(1) hw True by (intro exI [of _ ?s] exI [of _ as]) (simp add: tx_ok_in to_send_in)
  next
    case F: False
    then have e: "tty_xmit_intr B u s = xmit_fill B FIFO_SIZE u ?s" using nz by (simp add: tty_xmit_intr_def Let_def split_beta)
    have "tx_ok u ?s as" "sends B (u_port (t_units ?s u)) sent" using assms by (simp_all add: tx_ok_in)
    then obtain s' as' where r: "xmit_fill B FIFO_SIZE u ?s = Ok s'" "tx_ok u s' as'" "sent (t_hw s') = sent (t_hw ?s) @ take FIFO_SIZE (to_send ?s as)"
        "to_send s' as' = drop FIFO_SIZE (to_send ?s as)"
      using xmit_fill_ok [of u ?s as B sent FIFO_SIZE] by blast
    then show ?thesis unfolding e using hw to_send_in [of B "u_port (t_units s u) + UART_LSR" s as]
      by (intro exI [of _ s'] exI [of _ as']) (simp del: t_in_simps)
  qed
qed

section \<open>Writing\<close>

lemma free_iobs_keeps:
  assumes "free_iobs heap u s = Some (Ok s')"
  shows "t_iobs s' = t_iobs s \<and> t_n s' = t_n s \<and> t_hw s' = t_hw s \<and>
    (\<forall>v. u_txhead (t_units s' v) = u_txhead (t_units s v) \<and> u_txtail (t_units s' v) = u_txtail (t_units s v) \<and>
      u_port (t_units s' v) = u_port (t_units s v) \<and> u_csxmit (t_units s' v) = u_csxmit (t_units s v))"
proof -
  let ?k = "\<lambda>s s'. t_iobs s' = t_iobs s \<and> t_n s' = t_n s \<and> t_hw s' = t_hw s \<and>
    (\<forall>v. u_txhead (t_units s' v) = u_txhead (t_units s v) \<and> u_txtail (t_units s' v) = u_txtail (t_units s v) \<and>
      u_port (t_units s' v) = u_port (t_units s v) \<and> u_csxmit (t_units s' v) = u_csxmit (t_units s v))"
  have "(\<lambda>heap u s r. \<forall>s'. r = Ok s' \<longrightarrow> ?k s s') heap u s (Ok s')"
  proof (rule free_iobs.raw_induct [OF _ assms])
    fix F :: "u16 \<Rightarrow> nat \<Rightarrow> 'a tty \<Rightarrow> 'a tty res option" and heap u and s :: "'a tty" and r
    assume IH: "\<And>h v t r. F h v t = Some r \<Longrightarrow> \<forall>s'. r = Ok s' \<longrightarrow> ?k t s'"
      and r: "(if u_free (t_units s u) = 0 then Some (Ok s)
        else let iob = u_free (t_units s u); s1 = uset u (\<lambda>p. p\<lparr>u_free := iob_next (t_iobs s iob)\<rparr>) s
          in case bind_res (kfree (iob_data (t_iobs s iob)) (smem (t_sch s1))) (\<lambda>m. near_free heap iob m) of
               Ok m \<Rightarrow> F heap u (set_sch ((t_sch s1)\<lparr>smem := m\<rparr>) s1) | Panic \<Rightarrow> Some Panic | Hang \<Rightarrow> Some Hang) = Some r"
    show "\<forall>s'. r = Ok s' \<longrightarrow> ?k s s'"
    proof (intro allI impI)
      fix s' assume ok: "r = Ok s'"
      show "?k s s'"
      proof (cases "u_free (t_units s u) = 0")
        case False
        let ?iob = "u_free (t_units s u)"
        let ?s1 = "uset u (\<lambda>p. p\<lparr>u_free := iob_next (t_iobs s ?iob)\<rparr>) s"
        obtain m where "F heap u (set_sch ((t_sch ?s1)\<lparr>smem := m\<rparr>) ?s1) = Some (Ok s')"
          using r ok False by (auto simp: Let_def split: res.splits)
        from IH [OF this] show ?thesis by (simp add: uset_at)
      qed (use r ok in simp)
    qed
  qed
  then show ?thesis by blast
qed

lemma freeiob_loop_keeps:
  "tty_freeiob_loop heap us s = Ok s' \<Longrightarrow> t_iobs s' = t_iobs s \<and> t_n s' = t_n s \<and> t_hw s' = t_hw s \<and>
    (\<forall>v. u_txhead (t_units s' v) = u_txhead (t_units s v) \<and> u_txtail (t_units s' v) = u_txtail (t_units s v) \<and>
      u_port (t_units s' v) = u_port (t_units s v) \<and> u_csxmit (t_units s' v) = u_csxmit (t_units s v))"
proof (induction us arbitrary: s)
  case (Cons u us)
  then obtain t where "of_loopr (free_iobs heap u s) = Ok t" "tty_freeiob_loop heap us t = Ok s'" by auto
  moreover from this have "free_iobs heap u s = Some (Ok t)" by (cases "free_iobs heap u s") auto
  ultimately show ?case using free_iobs_keeps [of heap u s t] Cons.IH [of t] by simp
qed simp

lemma enqueue_ok:
  assumes "tx_ok u s as" "sends B (u_port (t_units s u)) sent" "iob \<notin> set as" "iob \<noteq> 0" "iob_ok (t_iobs s iob)" "iob_next (t_iobs s iob) = 0"
    "0 < u_csxmit (t_units s u)"
  shows "\<exists>s' as'. tty_enqueue B u iob s = Ok s' \<and> tx_ok u s' as' \<and>
    sent (t_hw s') @ to_send s' as' = sent (t_hw s) @ to_send s as @ iob_left (t_iobs s iob)"
proof (cases as rule: rev_cases)
  case Nil
  let ?s = "uset u (\<lambda>p. p\<lparr>u_txhead := iob, u_txtail := iob\<rparr>) s"
  have "tty_enqueue B u iob s = tty_xmit_intr B u ?s" using assms(1,7) Nil by (simp add: tty_enqueue_def tx_ok_def)
  moreover have "tx_ok u ?s [iob]" using assms(4-6) by (simp add: tx_ok_def)
  ultimately show ?thesis using xmit_intr_ok [of u ?s "[iob]" B sent] assms(2) Nil by (simp add: to_send_def) blast
next
  case (snoc bs a)
  let ?s = "uset u (\<lambda>p. p\<lparr>u_txtail := iob\<rparr>) (bset_iob a (\<lambda>b. b\<lparr>iob_next := iob\<rparr>) s)"
  have t: "u_txtail (t_units s u) = a" "a \<notin> set bs" "iob \<noteq> a" "iob \<notin> set bs" using assms(1,3) snoc by (auto simp: tx_ok_def)
  have "u_txhead (t_units s u) \<noteq> 0" using assms(1) snoc by (cases bs) (auto simp: tx_ok_def)
  then have "tty_enqueue B u iob s = Ok ?s" using assms(7) t(1) by (simp add: tty_enqueue_def)
  moreover have "tx_ok u ?s (bs @ [a, iob])"
    using assms(1,3,5) snoc t ilist_snoc [of "t_iobs s" _ bs a iob] assms(4,6) by (auto simp: tx_ok_def iob_ok_def)
  moreover have "to_send ?s (bs @ [a, iob]) = to_send s as @ iob_left (t_iobs s iob)"
  proof -
    have "map (\<lambda>x. iob_left (t_iobs ?s x)) bs = map (\<lambda>x. iob_left (t_iobs s x)) bs" using t(2) by auto
    moreover have "iob_left (t_iobs ?s a) = iob_left (t_iobs s a)" "iob_left (t_iobs ?s iob) = iob_left (t_iobs s iob)"
      using t(3) by (simp_all add: iob_left_def)
    ultimately show ?thesis unfolding to_send_def snoc map_append list.map concat_append concat.simps append_assoc append_Nil2 by (simp only:)
  qed
  ultimately show ?thesis by (intro exI [of _ ?s] exI [of _ "bs @ [a, iob]"]) simp
qed

lemma cook_buffer:
  assumes "ttyc_cook_output heap buf m = Ok ((iob, b), m')" "iob \<noteq> 0" "length (cook buf) < 32768"
  shows "iob_bytes b = cook buf \<and> iob_size b = of_nat (length (cook buf)) \<and> (\<exists>m1. near_malloc heap 10 m = Ok (iob, m1))"
proof -
  have "cook_len buf = int (length (cook buf))"
    using assms(3) by (simp add: cook_len_def length_cook sint_u16 uint_nat del: of_nat_add)
  then have "word_of_int (cook_len buf) = (of_nat (length (cook buf)) :: u16)" by simp
  then show ?thesis using assms(1,2) unfolding ttyc_cook_output_def Let_def
    by (auto split: if_splits elim!: bind_resE)
qed

section \<open>Receiving\<close>

text \<open>A chip with the bytes \<open>rx\<close> in its receiver.\<close>

definition receives :: "'h bus \<Rightarrow> u16 \<Rightarrow> ('h \<Rightarrow> u8 list) \<Rightarrow> bool" where
  "receives B port rx \<longleftrightarrow>
     (\<forall>h. (fst (bus_in B (port + UART_LSR) h) AND LSR_RX_RDY \<noteq> 0) = (rx h \<noteq> []) \<and> rx (snd (bus_in B (port + UART_LSR) h)) = rx h) \<and>
     (\<forall>h. rx h \<noteq> [] \<longrightarrow> fst (bus_in B (port + UART_RECV) h) = hd (rx h) \<and> rx (snd (bus_in B (port + UART_RECV) h)) = tl (rx h))"

text \<open>The line discipline takes bytes one after the other.\<close>

fun putcs :: "u8 list \<Rightarrow> ttyc \<Rightarrow> sched \<Rightarrow> (ttyc \<times> sched) res" where
  "putcs [] tc s = Ok (tc, s)"
| "putcs (c # cs) tc s = bind_res (ttyc_putc c tc s) (\<lambda>(tc1, s1). putcs cs tc1 s1)"

lemma echo_all_task: "echo_all cs tc = Ok tc' \<Longrightarrow> tc_echotask tc' = tc_echotask tc"
  by (induction cs arbitrary: tc) (auto simp: TTYC_ECHO_def split: if_splits)

lemma putc_sched:
  assumes "ttyc_putc ch tc s = Ok (tc', s')"
  shows "tc_echotask tc' = tc_echotask tc \<and> (s' = s \<or> s' = task_unblock (tc_echotask tc) s)"
proof (cases "ch = BS \<or> ch = DEL")
  case True
  show ?thesis
  proof (cases "tc_head tc = tc_tail tc")
    case False
    then have "bind_res (echo_all [BS, 0x20, BS] (tc\<lparr>tc_tail := Q_PREV (tc_tail tc) TTYC_LINE_SIZE\<rparr>)) (\<lambda>tc1.
        Ok (tc1, task_unblock (tc_echotask tc1) s)) = Ok (tc', s')"
      using assms True unfolding ttyc_putc_def by (simp only: if_True if_False)
    then show ?thesis by (rule bind_resE) (auto dest!: echo_all_task simp del: echo_all.simps)
  qed (use assms True in \<open>simp add: ttyc_putc_def\<close>)
next
  case F: False
  show ?thesis
  proof (cases "room_left tc \<le> 1 \<or> room_left tc \<le> 2 \<and> ch \<noteq> CR \<and> ch \<noteq> LF")
    case False
    obtain tc1 tc2 where "echo_all (echo_of (if ch = CR then LF else ch)) tc1 = Ok tc2" "tc_echotask tc1 = tc_echotask tc"
        "tc' = (if (if ch = CR then LF else ch) = LF then tc2\<lparr>tc_crs := tc_crs tc2 + 1\<rparr> else tc2)" "s' = task_unblock (tc_echotask tc') s"
      using assms unfolding ttyc_putc_def if_not_P [OF F] if_not_P [OF False] Let_def by (elim bind_resE) auto
    then show ?thesis using echo_all_task by auto
  qed (use assms F in \<open>simp add: ttyc_putc_def\<close>)
qed

lemma unblock_other:
  assumes "sched_ok Q s" "t_pri (tk s t) < TASK_NPRI" "t \<notin> set (Q q)" "\<not> is_tq q"
  shows "\<exists>Q'. sched_ok Q' (task_unblock t s) \<and> Q' q = Q q"
proof (cases "t \<noteq> 0 \<and> t_state (tk s t) = TS_BLOCKED")
  case True
  then have "sched_ok (requeue (TQ (t_pri (tk s t))) t Q) (task_unblock t s)"
    using unblock_ok [of Q "s\<lparr>iflag := False\<rparr>" t] assms by (auto simp: task_unblock_def Let_def ENQUEUE_def)
  moreover have "requeue (TQ (t_pri (tk s t))) t Q q = Q q"
    using assms(3,4) by (auto simp: requeue_def qadd_def qdrop_def is_tq_def remove1_idem)
  ultimately show ?thesis by blast
next
  case False
  then have "task_unblock t s = s\<lparr>iflag := iflag s\<rparr>" by (auto simp: task_unblock_def Let_def)
  then show ?thesis using assms(1) by auto
qed

lemma unblock_pri: "t_pri (tk (task_unblock t s) x) = t_pri (tk s x)"
  by (simp add: task_unblock_def Let_def ENQUEUE_def)

lemma putcs_ok:
  assumes "ttyc_ok tc" "sched_ok Q s" "t_pri (tk s (tc_echotask tc)) < TASK_NPRI" "tc_echotask tc \<notin> set (Q q)" "\<not> is_tq q"
  shows "\<exists>tc' s' Q'. putcs cs tc s = Ok (tc', s') \<and> ttyc_ok tc' \<and> sched_ok Q' s' \<and> Q' q = Q q"
  using assms
proof (induction cs arbitrary: tc s Q)
  case (Cons c cs)
  obtain tc1 s1 where 1: "ttyc_putc c tc s = Ok (tc1, s1)" "ttyc_ok tc1" using putc_ok [OF Cons.prems(1)] by blast
  have e: "tc_echotask tc1 = tc_echotask tc" "s1 = s \<or> s1 = task_unblock (tc_echotask tc) s" using putc_sched [OF 1(1)] by auto
  obtain Q1 where Q1: "sched_ok Q1 s1" "Q1 q = Q q"
    using e(2) Cons.prems(2) unblock_other [OF Cons.prems(2-5)] by blast
  have "t_pri (tk s1 (tc_echotask tc1)) < TASK_NPRI" using e Cons.prems(3) unblock_pri by auto
  moreover have "tc_echotask tc1 \<notin> set (Q1 q)" using e(1) Q1(2) Cons.prems(4) by simp
  ultimately obtain tc' s' Q' where "putcs cs tc1 s1 = Ok (tc', s')" "ttyc_ok tc'" "sched_ok Q' s'" "Q' q = Q1 q"
    using Cons.IH [OF 1(2) Q1(1)] Cons.prems(5) by blast
  then show ?case using 1(1) Q1(2) by auto
qed auto

lemma recv_loop_ok:
  assumes "receives B (u_port (t_units s u)) rx" "putcs (rx (t_hw s)) (u_cook (t_units s u)) (t_sch s) = Ok (tc, sch)"
  shows "\<exists>s'. recv_loop B u got s = Some (Ok (got \<or> rx (t_hw s) \<noteq> [], s')) \<and> u_cook (t_units s' u) = tc \<and> t_sch s' = sch \<and> rx (t_hw s') = [] \<and>
    u_rxbytes (t_units s' u) = u_rxbytes (t_units s u) + of_nat (length (rx (t_hw s))) \<and> u_readers (t_units s' u) = u_readers (t_units s u)"
  using assms
proof (induction "rx (t_hw s)" arbitrary: s got)
  case Nil
  let ?s = "snd (t_in B (u_port (t_units s u) + UART_LSR) s)"
  have "recv_loop B u got s = Some (Ok (got, ?s))"
    using Nil by (subst recv_loop.simps) (auto simp: receives_def Let_def split_beta)
  moreover have "rx (t_hw ?s) = []" using Nil by (simp add: receives_def)
  ultimately show ?case using Nil by (intro exI [of _ ?s]) (auto simp flip: Nil(1))
next
  case (Cons c cs)
  let ?s1 = "snd (t_in B (u_port (t_units s u) + UART_LSR) s)"
  let ?s2 = "uset u (\<lambda>p. p\<lparr>u_rxbytes := u_rxbytes p + 1\<rparr>) ?s1"
  let ?s3 = "snd (t_in B (u_port (t_units s u) + UART_RECV) ?s2)"
  have rc: "rx (t_hw ?s1) = c # cs" "fst (bus_in B (u_port (t_units s u) + UART_LSR) (t_hw s)) AND LSR_RX_RDY \<noteq> 0"
    using Cons.prems(1) Cons.hyps(2) unfolding receives_def by (metis t_in_simps(4), metis list.distinct(1))
  have rd: "fst (bus_in B (u_port (t_units s u) + UART_RECV) (t_hw ?s1)) = c" "rx (t_hw ?s3) = cs"
    using Cons.prems(1) rc(1) unfolding receives_def by (simp_all del: t_in_simps(4)) (simp add: t_in_simps(4))
  obtain tc1 sch1 where p: "ttyc_putc c (u_cook (t_units s u)) (t_sch s) = Ok (tc1, sch1)" "putcs cs tc1 sch1 = Ok (tc, sch)"
    using Cons.prems(2) unfolding Cons.hyps(2) [symmetric] by auto
  let ?s4 = "set_sch sch1 (uset u (\<lambda>p. p\<lparr>u_cook := tc1\<rparr>) ?s3)"
  have e: "recv_loop B u got s = recv_loop B u True ?s4"
    using rc(2) rd(1) p(1) by (subst recv_loop.simps) (simp add: Let_def split_beta)
  have "cs = rx (t_hw ?s4)" "receives B (u_port (t_units ?s4 u)) rx" "putcs (rx (t_hw ?s4)) (u_cook (t_units ?s4 u)) (t_sch ?s4) = Ok (tc, sch)"
    using rd(2) Cons.prems(1) p(2) by simp_all
  from Cons.hyps(1) [OF this, of True] show ?case
    unfolding e using Cons.hyps(2) \<open>cs = rx (t_hw ?s4)\<close> by (auto simp flip: Cons.hyps(2) simp: add.assoc)
qed

section \<open>Properties\<close>




section \<open>Witnesses\<close>

text \<open>One unit at port 0x3f8. The hardware is the bytes sent and those received; tasks 4 is waiting to read.\<close>

definition w_uart :: "(u8 list \<times> u8 list) bus" where
  "w_uart = \<lparr>bus_in = (\<lambda>p (tx, rx). if p = 0x3fd then (if rx = [] then 0x20 else 0x21, (tx, rx))
       else if p = 0x3f8 then (if rx = [] then 0 else hd rx, (tx, tl rx)) else (1, (tx, rx))),
     bus_out = (\<lambda>p v (tx, rx). if p = 0x3f8 then (tx @ [v], rx) else (tx, rx))\<rparr>"

definition w_tty :: "(u8 list \<times> u8 list) tty" where
  "w_tty = \<lparr>t_units = (\<lambda>_. (new_unit \<lparr>sp_port = 0x3f8, sp_irq = 4\<rparr> True (SemaQ 0) (DevQ 0))\<lparr>u_cook := w_ttyc\<lparr>tc_echotask := 3\<rparr>\<rparr>), t_n = 1, t_added = 0,
     t_iobs = (\<lambda>_. tty_iob.extend \<lparr>iob_data = far_null, iob_bytes = [], iob_ptr = 0, iob_size = 0\<rparr> \<lparr>iob_next = 0\<rparr>),
     t_intr = \<lparr>intrs = (\<lambda>_. \<lparr>ih_handlers = 0, ih_task = 0\<rparr>), inodes = (\<lambda>_. \<lparr>in_handler = 0, in_next = 0\<rparr>), vectors = (\<lambda>_. far_null),
       i_sch = w_sched\<lparr>smem := w_mem\<rparr>, i_hw = ([7], [0x61])\<rparr>, t_spin = 0\<rparr>"

lemma sched_ok_smem: "sched_ok Q (s\<lparr>smem := m\<rparr>) = sched_ok Q s"
  by (simp add: sched_ok_def cur_ok_def tasks_ok_def queues_def)

lemma w_sends: "sends w_uart 0x3f8 fst"
  by (auto simp: sends_def w_uart_def UART_XMIT_def)

lemma w_receives: "receives w_uart 0x3f8 snd"
  by (auto simp: receives_def w_uart_def UART_LSR_def UART_RECV_def LSR_RX_RDY_def)

lemma w_tty_unit: "u_port (t_units w_tty u) = 0x3f8" "u_csxmit (t_units w_tty u) = 1" "u_free (t_units w_tty u) = 0"
  "u_txhead (t_units w_tty u) = 0" "u_readers (t_units w_tty u) = SemaQ 0" "u_cook (t_units w_tty u) = w_ttyc\<lparr>tc_echotask := 3\<rparr>"
  "t_n w_tty = 1" "t_hw w_tty = ([7], [0x61])" "t_sch w_tty = w_sched\<lparr>smem := w_mem\<rparr>"
  by (simp_all add: w_tty_def new_unit_def)




end
