(* ===== verification/Dma.thy ===== *)
theory Dma
  imports Ports
begin

text \<open>
  The DMA driver, \<open>kernel/dma.c\<close>: it programs a channel of the controller through its ports. Channel
  numbers are not negative. \<open>dma_cs\<close> is the count of the critical section. What the bytes written to the
  ports make the controller do is a reference definition at the end, after the data sheet of the 8237.
\<close>

section \<open>Ports of the controllers\<close>

definition DMA8_START_PORT :: "nat \<Rightarrow> u16" where "DMA8_START_PORT ch = push_bit 1 (of_nat ch AND 3)"
definition DMA8_COUNT_PORT :: "nat \<Rightarrow> u16" where "DMA8_COUNT_PORT ch = DMA8_START_PORT ch + 1"
definition DMA8_1CHAN_MASK_PORT :: u16 where "DMA8_1CHAN_MASK_PORT = 0x0a"
definition DMA8_MODE_PORT :: u16 where "DMA8_MODE_PORT = 0x0b"
definition DMA8_FF_RESET_PORT :: u16 where "DMA8_FF_RESET_PORT = 0x0c"
definition DMA16_1CHAN_MASK_PORT :: u16 where "DMA16_1CHAN_MASK_PORT = 0xd4"

definition page_ports :: "u16 list" where "page_ports = [0x87, 0x83, 0x81, 0x82, 0x8f, 0x8b, 0x89, 0x8a]"

definition DMA_1CHAN_MASK :: u8 where "DMA_1CHAN_MASK = 4"
definition DMA_1CHAN_UNMASK :: u8 where "DMA_1CHAN_UNMASK = 0"

definition IS_16BIT_CHANNEL :: "nat \<Rightarrow> bool" where "IS_16BIT_CHANNEL ch \<longleftrightarrow> 3 < ch"

definition MAX_ADDRESS :: u32 where "MAX_ADDRESS = 0xfffff"
definition MAX_XFER :: u32 where "MAX_XFER = 0x10000"

definition ADDR_PAGE :: "u32 \<Rightarrow> u8" where "ADDR_PAGE addr = ucast (drop_bit 16 addr AND 0xf)"

definition DMA_MODE_WRITE :: u8 where "DMA_MODE_WRITE = 4"
definition DMA_MODE_READ :: u8 where "DMA_MODE_READ = 8"
definition DMA_MODE_DEMAND :: u8 where "DMA_MODE_DEMAND = 0"

lemmas dma_ports = DMA8_START_PORT_def DMA8_COUNT_PORT_def DMA8_1CHAN_MASK_PORT_def DMA8_MODE_PORT_def DMA8_FF_RESET_PORT_def
  DMA16_1CHAN_MASK_PORT_def

section \<open>Operations\<close>

record 'h dma =
  dma_cs :: int
  dma_hw :: 'h

definition dma_out :: "'h bus \<Rightarrow> u16 \<Rightarrow> u8 \<Rightarrow> 'h dma \<Rightarrow> 'h dma" where
  "dma_out B p v d = d\<lparr>dma_hw := bus_out B p v (dma_hw d)\<rparr>"

definition dma_init :: "'h dma \<Rightarrow> 'h dma" where "dma_init d = d\<lparr>dma_cs := 1\<rparr>"

definition dma_mask_channel :: "'h bus \<Rightarrow> nat \<Rightarrow> 'h dma \<Rightarrow> 'h dma" where
  "dma_mask_channel B chan d =
     dma_out B (if IS_16BIT_CHANNEL chan then DMA16_1CHAN_MASK_PORT else DMA8_1CHAN_MASK_PORT) (DMA_1CHAN_MASK OR (of_nat chan AND 3)) d"

definition dma_unmask_channel :: "'h bus \<Rightarrow> nat \<Rightarrow> 'h dma \<Rightarrow> 'h dma" where
  "dma_unmask_channel B chan d =
     dma_out B (if IS_16BIT_CHANNEL chan then DMA16_1CHAN_MASK_PORT else DMA8_1CHAN_MASK_PORT) (DMA_1CHAN_UNMASK OR (of_nat chan AND 3)) d"

text \<open>The test for a page that is crossed only prints a message.\<close>

definition dma_setup :: "'h bus \<Rightarrow> nat \<Rightarrow> u32 \<Rightarrow> u32 \<Rightarrow> u8 \<Rightarrow> 'h dma \<Rightarrow> (int \<times> 'h dma) res" where
  "dma_setup B chan linaddr count0 mode d =
     (if MAX_ADDRESS < linaddr then Ok (- 1, d)
      else if MAX_XFER < count0 then Ok (- 1, d)
      else (let page = ADDR_PAGE linaddr; count = count0 - 1
            in if dma_cs d \<le> 0 then Hang
               else if IS_16BIT_CHANNEL chan then Panic
               else (let d0 = d\<lparr>dma_cs := dma_cs d - 1\<rparr>;
                         d1 = dma_out B DMA8_FF_RESET_PORT 0xff d0;
                         d2 = dma_out B (DMA8_START_PORT chan) (ucast (linaddr AND 0xff)) d1;
                         d3 = dma_out B (DMA8_START_PORT chan) (ucast (drop_bit 8 linaddr AND 0xff)) d2;
                         d4 = dma_out B DMA8_FF_RESET_PORT 0xff d3;
                         d5 = dma_out B (DMA8_COUNT_PORT chan) (ucast (count AND 0xff)) d4;
                         d6 = dma_out B (DMA8_COUNT_PORT chan) (ucast (drop_bit 8 count AND 0xff)) d5;
                         d7 = dma_out B (page_ports ! chan) page d6;
                         d8 = dma_out B DMA8_MODE_PORT (mode OR (of_nat chan AND 3)) d7;
                         d9 = dma_unmask_channel B chan d8
                     in Ok (0, d9\<lparr>dma_cs := dma_cs d9 + 1\<rparr>))))"

section \<open>The controller\<close>

text \<open>Reference: the registers of an 8237 and of the page latches, and what writing a port does. Address
  and count are written low byte first; the flip-flop tells which byte comes next.\<close>

record chip =
  ch_high :: bool
  ch_addr :: "nat \<Rightarrow> u16"
  ch_count :: "nat \<Rightarrow> u16"
  ch_mode :: "nat \<Rightarrow> u8"
  ch_masked :: "nat \<Rightarrow> bool"
  ch_page :: "u16 \<Rightarrow> u8"

definition set_half :: "bool \<Rightarrow> u8 \<Rightarrow> u16 \<Rightarrow> u16" where
  "set_half hi v w = (if hi then push_bit 8 (ucast v) OR (w AND 0xff) else (w AND 0xff00) OR ucast v)"

definition chip_out :: "u16 \<Rightarrow> u8 \<Rightarrow> chip \<Rightarrow> chip" where
  "chip_out p v c =
     (if p < 8 then
        (let ch = unat p div 2
         in if even (unat p) then c\<lparr>ch_addr := (ch_addr c)(ch := set_half (ch_high c) v (ch_addr c ch)), ch_high := \<not> ch_high c\<rparr>
            else c\<lparr>ch_count := (ch_count c)(ch := set_half (ch_high c) v (ch_count c ch)), ch_high := \<not> ch_high c\<rparr>)
      else if p = 0x0a then c\<lparr>ch_masked := (ch_masked c)(unat (v AND 3) := bit v 2)\<rparr>
      else if p = 0x0b then c\<lparr>ch_mode := (ch_mode c)(unat (v AND 3) := v)\<rparr>
      else if p = 0x0c then c\<lparr>ch_high := False\<rparr>
      else if 0x80 \<le> p \<and> p < 0x90 then c\<lparr>ch_page := (ch_page c)(p := v)\<rparr>
      else c)"

definition chip_bus :: "chip bus" where
  "chip_bus = \<lparr>bus_in = (\<lambda>_ c. (0, c)), bus_out = chip_out\<rparr>"

text \<open>The physical addresses of a transfer, in order: the address counts within its page.\<close>

definition transfer :: "nat \<Rightarrow> chip \<Rightarrow> nat list" where
  "transfer ch c = map (\<lambda>k. unat (ch_page c (page_ports ! ch)) * 65536 + unat (ch_addr c ch + of_nat k)) [0..<unat (ch_count c ch) + 1]"

lemma set_halves:
  fixes x :: u32
  shows "set_half True (ucast (drop_bit 8 x AND 0xff)) (set_half False (ucast (x AND 0xff)) w) = ucast x"
proof -
  have m: "(0xff :: u32) = mask 8" "(0xff :: u16) = mask 8" "(0xff00 :: u16) = NOT (mask 8)" by (simp_all add: mask_eq_exp_minus_1)
  show ?thesis unfolding set_half_def if_True if_False m simp_thms
    by (rule bit_word_eqI) (auto simp: bit_simps dest: bit_imp_le_length)
qed

lemma less_4_cases: "(ch :: nat) < 4 \<Longrightarrow> ch = 0 \<or> ch = 1 \<or> ch = 2 \<or> ch = 3"
  by arith

lemma setup_chip:
  assumes "linaddr \<le> MAX_ADDRESS" "count \<le> MAX_XFER" "0 < dma_cs d" "ch < 4"
  shows "\<exists>d'. dma_setup chip_bus ch linaddr count mode d = Ok (0, d') \<and> dma_cs d' = dma_cs d \<and>
    dma_hw d' = (dma_hw d)\<lparr>ch_high := False, ch_addr := (ch_addr (dma_hw d))(ch := ucast linaddr),
      ch_count := (ch_count (dma_hw d))(ch := ucast (count - 1)), ch_mode := (ch_mode (dma_hw d))(unat ((mode OR of_nat ch) AND 3) := mode OR of_nat ch),
      ch_masked := (ch_masked (dma_hw d))(ch := False), ch_page := (ch_page (dma_hw d))(page_ports ! ch := ADDR_PAGE linaddr)\<rparr>"
proof -
  obtain hi ad cn md mk pg where hw: "dma_hw d = \<lparr>ch_high = hi, ch_addr = ad, ch_count = cn, ch_mode = md, ch_masked = mk, ch_page = pg\<rparr>"
    by (cases "dma_hw d") blast
  show ?thesis
    using less_4_cases [OF assms(4)] assms(1-3)
    by (elim disjE; simp add: dma_setup_def Let_def IS_16BIT_CHANNEL_def not_less dma_out_def dma_unmask_channel_def hw
      chip_bus_def chip_out_def dma_ports page_ports_def set_halves DMA_1CHAN_UNMASK_def)
qed

lemma page_of:
  assumes "linaddr \<le> MAX_ADDRESS"
  shows "unat (ADDR_PAGE linaddr) = unat linaddr div 65536"
proof -
  have m: "(0xf :: u32) = mask 4" by (simp add: mask_eq_exp_minus_1)
  have l: "unat linaddr \<le> 0xfffff" using assms by (simp add: MAX_ADDRESS_def word_le_nat_alt)
  have d: "unat (drop_bit 16 linaddr) = unat linaddr div 65536" by (simp add: drop_bit_eq_div unat_div)
  then have "unat (drop_bit 16 linaddr) < 16" using l by linarith
  then have "unat (ADDR_PAGE linaddr) = unat (drop_bit 16 linaddr)"
    unfolding ADDR_PAGE_def m by (simp add: unsigned_ucast_eq take_bit_nat_eq_self flip: take_bit_eq_mask) (simp add: unsigned_take_bit_eq take_bit_nat_eq_self)
  then show ?thesis unfolding d .
qed

lemma ucast_count:
  assumes "count \<le> MAX_XFER" "0 < count"
  shows "unat (ucast (count - 1) :: u16) = unat count - 1"
proof -
  have "unat (count - 1) = unat count - 1" using assms(2) by (simp add: unat_sub_if' word_less_nat_alt)
  moreover have "unat count \<le> 65536" using assms(1) by (simp add: MAX_XFER_def word_le_nat_alt)
  moreover have "0 < unat count" using assms(2) by (simp add: word_less_nat_alt)
  ultimately show ?thesis by (simp add: unat_ucast_16)
qed

lemma chan_mode: "ch < 4 \<Longrightarrow> mode AND 3 = 0 \<Longrightarrow> unat ((mode OR of_nat ch :: u8) AND 3) = ch"
  using less_4_cases [of ch] by (auto simp: word_ao_dist)

lemma page_wrap: "(a :: nat) < 65536 \<Longrightarrow> k < 65536 \<Longrightarrow> unat (of_nat a + of_nat k :: u16) = (a + k) mod 65536"
  by (simp add: unat_word_ariths)

lemma ucast_lin: "(ucast (x :: u32) :: u16) = of_nat (unat x mod 65536)"
  by (rule unsigned_word_eqI [where 'a = nat]) (simp add: unat_ucast_16)

lemma transfer_setup:
  assumes "linaddr \<le> MAX_ADDRESS" "count \<le> MAX_XFER" "0 < count" "0 < dma_cs d" "ch < 4"
    "dma_setup chip_bus ch linaddr count mode d = Ok (rc, d')"
  shows "transfer ch (dma_hw d') = map (\<lambda>k. unat linaddr div 65536 * 65536 + (unat linaddr + k) mod 65536) [0..<unat count]"
proof -
  have e: "ch_addr (dma_hw d') ch = ucast linaddr" "ch_count (dma_hw d') ch = ucast (count - 1)"
      "ch_page (dma_hw d') (page_ports ! ch) = ADDR_PAGE linaddr"
    using setup_chip [OF assms(1,2,4,5), of mode] assms(6) by auto
  have c: "unat (ucast (count - 1) :: u16) + 1 = unat count" "unat count \<le> 65536"
    using ucast_count [OF assms(2,3)] assms(2,3) by (simp_all add: MAX_XFER_def word_le_nat_alt word_less_nat_alt)
  have "unat ((ucast linaddr :: u16) + of_nat k) = (unat linaddr + k) mod 65536" if "k < unat count" for k
    using that c(2) page_wrap [of "unat linaddr mod 65536" k] unfolding ucast_lin by (simp add: mod_add_left_eq)
  then show ?thesis unfolding transfer_def e c(1) page_of [OF assms(1)] by simp
qed

lemma transfer_in_page:
  assumes "linaddr \<le> MAX_ADDRESS" "count \<le> MAX_XFER" "0 < count" "0 < dma_cs d" "ch < 4"
    "unat linaddr mod 65536 + unat count \<le> 65536" "dma_setup chip_bus ch linaddr count mode d = Ok (rc, d')"
  shows "transfer ch (dma_hw d') = [unat linaddr..<unat linaddr + unat count]"
proof -
  have "unat linaddr div 65536 * 65536 + (unat linaddr + k) mod 65536 = unat linaddr + k" if "k < unat count" for k
  proof -
    have lt: "unat linaddr mod 65536 + k < 65536" using that assms(6) by linarith
    have "(unat linaddr + k) mod 65536 = (unat linaddr mod 65536 + k) mod 65536" by (rule mod_add_left_eq [symmetric])
    then have "(unat linaddr + k) mod 65536 = unat linaddr mod 65536 + k" by (simp only: mod_less [OF lt])
    then show ?thesis using div_mult_mod_eq [of "unat linaddr" 65536] by linarith
  qed
  then have "map (\<lambda>k. unat linaddr div 65536 * 65536 + (unat linaddr + k) mod 65536) [0..<unat count] = [unat linaddr..<unat linaddr + unat count]"
    by (intro nth_equalityI) simp_all
  then show ?thesis using transfer_setup [OF assms(1-5,7)] by simp
qed

section \<open>Properties\<close>


text \<open>Remark.
  A buffer that crosses a page is not refused: \<open>dma_setup\<close> returns zero and the transfer goes on
  at the start of the page, in memory that is not the buffer's.\<close>

theorem dma_setup_wraps:
  assumes "linaddr \<le> MAX_ADDRESS" "count \<le> MAX_XFER" "0 < dma_cs d" "ch < 4"
    "65536 < unat linaddr mod 65536 + unat count"
  shows "\<exists>d'. dma_setup chip_bus ch linaddr count mode d = Ok (0, d') \<and>
    transfer ch (dma_hw d') ! (65536 - unat linaddr mod 65536) = unat linaddr div 65536 * 65536 \<and>
    (unat linaddr mod 65536 \<noteq> 0 \<longrightarrow> unat linaddr div 65536 * 65536 < unat linaddr)"
proof -
  let ?k = "65536 - unat linaddr mod 65536"
  have "0 < unat count" using assms(5) mod_less_divisor [of 65536 "unat linaddr"] by linarith
  then have c: "0 < count" by (simp add: word_less_nat_alt)
  obtain d' where d': "dma_setup chip_bus ch linaddr count mode d = Ok (0, d')" using setup_chip [OF assms(1-4), of mode] by blast
  have k: "?k < unat count" using assms(5) mod_less_divisor [of 65536 "unat linaddr"] by linarith
  have "(unat linaddr + ?k) mod 65536 = 0"
    by (metis le_add_diff_inverse less_or_eq_imp_le mod_add_left_eq mod_less_divisor mod_self zero_less_numeral)
  moreover have "unat linaddr mod 65536 \<noteq> 0 \<longrightarrow> unat linaddr div 65536 * 65536 < unat linaddr"
    using div_mult_mod_eq [of "unat linaddr" 65536] by linarith
  ultimately show ?thesis using d' k transfer_setup [OF assms(1,2) c assms(3,4) d'] by simp
qed

section \<open>Witnesses\<close>

definition w_dma :: "chip dma" where
  "w_dma = \<lparr>dma_cs = 1, dma_hw = \<lparr>ch_high = True, ch_addr = (\<lambda>_. 0), ch_count = (\<lambda>_. 0), ch_mode = (\<lambda>_. 0), ch_masked = (\<lambda>_. True), ch_page = (\<lambda>_. 0)\<rparr>\<rparr>"


theorem dma_setup_wraps_witness:
  "\<exists>d'. dma_setup chip_bus 2 0x1fffe 3 DMA_MODE_WRITE w_dma = Ok (0, d') \<and> transfer 2 (dma_hw d') ! 2 = 0x10000"
  using dma_setup_wraps [of "0x1fffe" 3 w_dma 2 DMA_MODE_WRITE]
  by (auto simp: MAX_ADDRESS_def MAX_XFER_def w_dma_def)

end
