(* ===== verification/Fdd.thy ===== *)
theory Fdd
  imports Dma
begin

text \<open>
  The floppy driver, \<open>kernel/fdd/FDD.C\<close>. A unit is its number. The environment of the driver is a parameter:
  the ports, the clock that \<open>ticks\<close> reads, and what happens while a task waits on a queue or sleeps - other
  tasks run and the interrupt comes, \<open>fdd_intr\<close>; \<open>Hang\<close> is a wait that never ends. The messages on the
  status line and the debug output are left out.
\<close>

section \<open>Constants\<close>

definition FDD_MAX_UNITS :: nat where "FDD_MAX_UNITS = 2"
definition FDD_SECTOR_SIZE :: nat where "FDD_SECTOR_SIZE = 512"
definition FDD_RETRY :: nat where "FDD_RETRY = 3"
definition FDD_DRQ :: nat where "FDD_DRQ = 2"
definition FDD_IRQ :: nat where "FDD_IRQ = 6"

definition FDD_DOR_PORT :: u16 where "FDD_DOR_PORT = 0x3f2"
definition FDD_DSR_PORT :: u16 where "FDD_DSR_PORT = 0x3f4"
definition FDD_STAT_PORT :: u16 where "FDD_STAT_PORT = 0x3f4"
definition FDD_DATA_PORT :: u16 where "FDD_DATA_PORT = 0x3f5"
definition FDD_CCR_PORT :: u16 where "FDD_CCR_PORT = 0x3f7"

definition FDD_DOR_MOT :: "nat \<Rightarrow> u8" where "FDD_DOR_MOT dr = push_bit (dr mod 4) 0x10"
definition FDD_DOR_DMA :: u8 where "FDD_DOR_DMA = 8"
definition FDD_DOR_RESET :: u8 where "FDD_DOR_RESET = 4"
definition FDD_DOR_DR :: "nat \<Rightarrow> u8" where "FDD_DOR_DR dr = of_nat dr AND 3"
definition FDD_DSR_500K :: u8 where "FDD_DSR_500K = 0"
definition FDD_DSR_RESET :: u8 where "FDD_DSR_RESET = 0x80"
definition FDD_STAT_RQM :: u8 where "FDD_STAT_RQM = 0x80"
definition FDD_STAT_DIO :: u8 where "FDD_STAT_DIO = 0x40"

definition FDD_SEEK_1 :: "nat \<Rightarrow> nat \<Rightarrow> u8" where "FDD_SEEK_1 hea dr = push_bit 2 (of_nat hea AND 1) OR (of_nat dr AND 3)"
definition FDD_SEEK_2 :: "nat \<Rightarrow> u8" where "FDD_SEEK_2 cyl = of_nat cyl AND 0xff"
definition FDD_RECAL_0 :: "nat \<Rightarrow> u8" where "FDD_RECAL_0 dr = of_nat dr AND 3"
definition FDD_VERSION_EXT :: int where "FDD_VERSION_EXT = 0x90"
definition FDD_CONF_FIFO :: u8 where "FDD_CONF_FIFO = 0x20"
definition FDD_CONF_DPOLL :: u8 where "FDD_CONF_DPOLL = 0x10"
definition FDD_CONF_FIFO_THR :: u8 where "FDD_CONF_FIFO_THR = 0xf"
definition FDD_LOCK_LOCK :: u8 where "FDD_LOCK_LOCK = 0x80"
definition FDD_LOCK_RESULT_LOCKED :: u8 where "FDD_LOCK_RESULT_LOCKED = 0x10"

definition FDD_ST0_IC :: "u8 \<Rightarrow> u8" where "FDD_ST0_IC st = drop_bit 6 st AND 3"
definition FDD_ST0_SEEK :: u8 where "FDD_ST0_SEEK = 0x20"
definition FDD_ST0_IC_OK :: u8 where "FDD_ST0_IC_OK = 0"
definition FDD_ST2_WRONGCYL :: u8 where "FDD_ST2_WRONGCYL = 0x10"

definition FDD_CMD_SPECIFY :: u8 where "FDD_CMD_SPECIFY = 3"
definition FDD_CMD_WRITE_DATA :: u8 where "FDD_CMD_WRITE_DATA = 5"
definition FDD_CMD_READ_DATA :: u8 where "FDD_CMD_READ_DATA = 6"
definition FDD_CMD_RECALIBRATE :: u8 where "FDD_CMD_RECALIBRATE = 7"
definition FDD_CMD_SENSE_INTR_STAT :: u8 where "FDD_CMD_SENSE_INTR_STAT = 8"
definition FDD_CMD_SEEK :: u8 where "FDD_CMD_SEEK = 0xf"
definition FDD_CMD_VERSION :: u8 where "FDD_CMD_VERSION = 0x10"
definition FDD_CMD_CONFIGURE :: u8 where "FDD_CMD_CONFIGURE = 0x13"
definition FDD_CMD_LOCK :: u8 where "FDD_CMD_LOCK = 0x14"
definition FDD_OP_MFM :: u8 where "FDD_OP_MFM = 0x40"

definition FDD_CS_TIMEOUT :: u16 where "FDD_CS_TIMEOUT = 1"
definition FDD_CS_STATE :: u16 where "FDD_CS_STATE = 2"
definition FDD_CS_RESET :: u16 where "FDD_CS_RESET = 0x100"
definition FDD_CS_CONFIG :: u16 where "FDD_CS_CONFIG = 0x200"
definition FDD_CS_SEEKING :: u16 where "FDD_CS_SEEKING = 0x400"

definition CMOS_FDD_NONE :: nat where "CMOS_FDD_NONE = 0"
definition CMOS_FDD_360 :: nat where "CMOS_FDD_360 = 1"
definition CMOS_FDD_1_2 :: nat where "CMOS_FDD_1_2 = 2"
definition CMOS_FDD_720 :: nat where "CMOS_FDD_720 = 3"
definition CMOS_FDD_1_44 :: nat where "CMOS_FDD_1_44 = 4"
definition CMOS_FDD_MAX :: nat where "CMOS_FDD_MAX = 4"
definition CMOS_FDD_UNIT_0 :: "u8 \<Rightarrow> nat" where "CMOS_FDD_UNIT_0 r = unat (drop_bit 4 r AND 0xf)"
definition CMOS_FDD_UNIT_1 :: "u8 \<Rightarrow> nat" where "CMOS_FDD_UNIT_1 r = unat (r AND 0xf)"

lemmas cmos_types = CMOS_FDD_NONE_def CMOS_FDD_360_def CMOS_FDD_1_2_def CMOS_FDD_720_def CMOS_FDD_1_44_def CMOS_FDD_MAX_def

definition TASK_PRI_BOOST :: nat where "TASK_PRI_BOOST = 16"

section \<open>State\<close>

datatype fdd_state = Fdd_idle | Fdd_seeking | Fdd_seekdone | Fdd_io

text \<open>\<open>fu_result\<close> are the result bytes; the flag \<open>timeout\<close> and the cylinder are never looked at.\<close>

record fddunit =
  fu_drive :: nat
  fu_type :: nat
  fu_motor :: int
  fu_state :: fdd_state
  fu_waiter :: taskq
  fu_nexp :: nat
  fu_nres :: nat
  fu_result :: "u8 list"

record biosparm =
  bp_spec1 :: u8  bp_spec2 :: u8  bp_motoff :: u8  bp_bysec :: u8  bp_eot :: u8  bp_gap :: u8  bp_dtl :: u8
  bp_gap3 :: u8  bp_fill :: u8  bp_settle :: u8  bp_mot_start :: u8

text \<open>\<open>fd_mem\<close> is memory by linear address, \<open>fd_waiter\<close> the queue \<open>waiter\<close>, \<open>fd_dma\<close> the count of the critical
  section of the DMA driver.\<close>

record 'h fdd =
  fd_n :: nat
  fd_units :: "nat \<Rightarrow> fddunit"
  fd_ctrl :: u16
  fd_iounit :: "nat option"
  fd_bios :: biosparm
  fd_motor_bits :: u8
  fd_sel :: "nat option"
  fd_waiter :: taskq
  fd_cs :: int
  fd_motor_cs :: int
  fd_dma :: int
  fd_work :: farptr
  fd_mem :: "u32 \<Rightarrow> u8"
  fd_intr :: "'h intrst"

record 'h fddenv =
  e_bus :: "'h bus"
  e_ticks :: "'h \<Rightarrow> u32 \<times> 'h"
  e_wait :: "taskq \<Rightarrow> 'h fdd \<Rightarrow> 'h fdd res"
  e_sleep :: "int \<Rightarrow> 'h fdd \<Rightarrow> 'h fdd res"

definition fset :: "nat \<Rightarrow> (fddunit \<Rightarrow> fddunit) \<Rightarrow> 'h fdd \<Rightarrow> 'h fdd" where
  "fset u f s = s\<lparr>fd_units := (fd_units s)(u := f (fd_units s u))\<rparr>"

abbreviation fd_hw :: "'h fdd \<Rightarrow> 'h" where "fd_hw s \<equiv> i_hw (fd_intr s)"
abbreviation fd_sch :: "'h fdd \<Rightarrow> sched" where "fd_sch s \<equiv> i_sch (fd_intr s)"

definition f_set_hw :: "'h \<Rightarrow> 'h fdd \<Rightarrow> 'h fdd" where "f_set_hw h s = s\<lparr>fd_intr := (fd_intr s)\<lparr>i_hw := h\<rparr>\<rparr>"
definition f_set_sch :: "sched \<Rightarrow> 'h fdd \<Rightarrow> 'h fdd" where "f_set_sch t s = s\<lparr>fd_intr := (fd_intr s)\<lparr>i_sch := t\<rparr>\<rparr>"

definition f_out :: "'h fddenv \<Rightarrow> u16 \<Rightarrow> u8 \<Rightarrow> 'h fdd \<Rightarrow> 'h fdd" where
  "f_out E p v s = f_set_hw (bus_out (e_bus E) p v (fd_hw s)) s"

definition f_in :: "'h fddenv \<Rightarrow> u16 \<Rightarrow> 'h fdd \<Rightarrow> u8 \<times> 'h fdd" where
  "f_in E p s = (let (v, h) = bus_in (e_bus E) p (fd_hw s) in (v, f_set_hw h s))"

definition f_ticks :: "'h fddenv \<Rightarrow> 'h fdd \<Rightarrow> u32 \<times> 'h fdd" where
  "f_ticks E s = (let (t, h) = e_ticks E (fd_hw s) in (t, f_set_hw h s))"

definition set_ctrl :: "u16 \<Rightarrow> 'h fdd \<Rightarrow> 'h fdd" where "set_ctrl b s = s\<lparr>fd_ctrl := fd_ctrl s OR b\<rparr>"

text \<open>\<open>intr_cli\<close> and \<open>intr_restore\<close>.\<close>

definition f_cli :: "'h fdd \<Rightarrow> bool \<times> 'h fdd" where
  "f_cli s = (iflag (fd_sch s), f_set_sch ((fd_sch s)\<lparr>iflag := False\<rparr>) s)"

definition f_restore :: "bool \<Rightarrow> 'h fdd \<Rightarrow> 'h fdd" where
  "f_restore b s = f_set_sch ((fd_sch s)\<lparr>iflag := b\<rparr>) s"

definition f_unblock :: "taskp \<Rightarrow> 'h fdd \<Rightarrow> 'h fdd" where
  "f_unblock t s = f_set_sch (task_unblock t (fd_sch s)) s"

section \<open>Talking to the controller\<close>

partial_function (option) rqm_loop :: "'h fddenv \<Rightarrow> u32 \<Rightarrow> 'h fdd \<Rightarrow> (u8 \<times> 'h fdd) option" where
  "rqm_loop E t s =
     (let (msr, s1) = f_in E FDD_STAT_PORT s
      in if msr AND FDD_STAT_RQM \<noteq> 0 then Some (msr, s1)
         else (let (now, s2) = f_ticks E s1 in if now \<le> t then rqm_loop E t s2 else Some (msr, s2)))"

definition fdd_wait_for_rqm :: "'h fddenv \<Rightarrow> 'h fdd \<Rightarrow> (u8 \<times> 'h fdd) res" where
  "fdd_wait_for_rqm E s =
     (let (now, s1) = f_ticks E s; t = now + 2
      in bind_res (of_loop (rqm_loop E t s1)) (\<lambda>(msr, s2).
         let (now2, s3) = f_ticks E s2
         in Ok (msr, if t \<le> now2 then set_ctrl FDD_CS_TIMEOUT s3 else s3)))"

fun fdd_send_command :: "'h fddenv \<Rightarrow> u8 list \<Rightarrow> 'h fdd \<Rightarrow> (int \<times> 'h fdd) res" where
  "fdd_send_command E [] s = Ok (0, s)"
| "fdd_send_command E (b # bs) s =
     bind_res (fdd_wait_for_rqm E s) (\<lambda>(msr, s1).
       if msr = 0 then Ok (- 1, s1)
       else if msr AND FDD_STAT_DIO \<noteq> 0 then Ok (- 1, set_ctrl FDD_CS_STATE s1)
       else fdd_send_command E bs (f_out E FDD_DATA_PORT b s1))"

text \<open>The bytes read come back beside the return code.\<close>

fun fdd_read_bytes :: "'h fddenv \<Rightarrow> nat \<Rightarrow> 'h fdd \<Rightarrow> (int \<times> u8 list \<times> 'h fdd) res" where
  "fdd_read_bytes E 0 s = Ok (0, [], s)"
| "fdd_read_bytes E (Suc n) s =
     bind_res (fdd_wait_for_rqm E s) (\<lambda>(msr, s1).
       if msr = 0 then Ok (- 1, [], s1)
       else if msr AND FDD_STAT_DIO = 0 then Ok (- 1, [], s1)
       else (let (b, s2) = f_in E FDD_DATA_PORT s1
             in bind_res (fdd_read_bytes E n s2) (\<lambda>(rc, bs, s3). Ok (rc, b # bs, s3))))"

fun flush_loop :: "'h fddenv \<Rightarrow> nat \<Rightarrow> 'h fdd \<Rightarrow> (int \<times> 'h fdd) res" where
  "flush_loop E 0 s = Ok (- 1, set_ctrl FDD_CS_STATE s)"
| "flush_loop E (Suc n) s =
     bind_res (fdd_wait_for_rqm E s) (\<lambda>(msr, s1).
       if msr = 0 then Ok (- 1, s1)
       else if msr AND FDD_STAT_DIO = 0 then Ok (0, s1)
       else flush_loop E n (snd (f_in E FDD_DATA_PORT s1)))"

definition fdd_flush :: "'h fddenv \<Rightarrow> 'h fdd \<Rightarrow> (int \<times> 'h fdd) res" where
  "fdd_flush E s = flush_loop E 32 s"

definition fdd_version :: "'h fddenv \<Rightarrow> 'h fdd \<Rightarrow> (int \<times> 'h fdd) res" where
  "fdd_version E s =
     bind_res (fdd_send_command E [FDD_CMD_VERSION] s) (\<lambda>(rc, s1).
       if rc \<noteq> 0 then Ok (- 1, s1)
       else bind_res (fdd_read_bytes E 1 s1) (\<lambda>(rc2, bs, s2).
         if rc2 \<noteq> 0 then Ok (- 1, s2) else Ok (uint (hd bs), s2)))"

definition fdd_configure :: "'h fddenv \<Rightarrow> 'h fdd \<Rightarrow> (int \<times> 'h fdd) res" where
  "fdd_configure E s =
     (let conf1 = FDD_CONF_FIFO OR FDD_CONF_DPOLL OR (8 AND FDD_CONF_FIFO_THR); conf2 = 0
      in bind_res (fdd_send_command E [FDD_CMD_CONFIGURE, 0, conf1, conf2] s) (\<lambda>(rc, s1).
         if rc \<noteq> 0 then Ok (- 1, s1)
         else bind_res (fdd_send_command E [FDD_CMD_LOCK OR FDD_LOCK_LOCK] s1) (\<lambda>(rc2, s2).
           if rc2 \<noteq> 0 then Ok (- 1, s2)
           else bind_res (fdd_read_bytes E 1 s2) (\<lambda>(rc3, bs, s3).
             if rc3 \<noteq> 0 \<or> hd bs \<noteq> FDD_LOCK_RESULT_LOCKED then Ok (- 1, s3)
             else Ok (0, set_ctrl FDD_CS_CONFIG s3)))))"

definition fdd_specify :: "'h fddenv \<Rightarrow> 'h fdd \<Rightarrow> (int \<times> 'h fdd) res" where
  "fdd_specify E s =
     bind_res (fdd_send_command E [FDD_CMD_SPECIFY, bp_spec1 (fd_bios s), bp_spec2 (fd_bios s)] s) (\<lambda>(rc, s1).
       if rc \<noteq> 0 then Ok (- 1, s1) else Ok (0, s1))"

section \<open>Interrupts\<close>

text \<open>One sense command for each of four drives; a failure ends the loop.\<close>

fun reset_sense :: "'h fddenv \<Rightarrow> nat \<Rightarrow> 'h fdd \<Rightarrow> 'h fdd res" where
  "reset_sense E 0 s = Ok s"
| "reset_sense E (Suc n) s =
     bind_res (fdd_send_command E [FDD_CMD_SENSE_INTR_STAT] s) (\<lambda>(rc, s1).
       if rc \<noteq> 0 then Ok (set_ctrl FDD_CS_TIMEOUT s1)
       else bind_res (fdd_read_bytes E 2 s1) (\<lambda>(rc2, _, s2).
         if rc2 \<noteq> 0 then Ok (set_ctrl FDD_CS_TIMEOUT s2) else reset_sense E n s2))"

definition fdd_intr_reset :: "'h fddenv \<Rightarrow> 'h fdd \<Rightarrow> 'h fdd res" where
  "fdd_intr_reset E s =
     bind_res
       (if fd_ctrl s AND FDD_CS_CONFIG = 0
        then bind_res (reset_sense E 4 s) (\<lambda>s1.
             bind_res (fdd_configure E s1) (\<lambda>(rc, s2). Ok (if rc \<noteq> 0 then set_ctrl FDD_CS_TIMEOUT s2 else s2)))
        else Ok s) (\<lambda>s3.
     let s4 = s3\<lparr>fd_ctrl := fd_ctrl s3 AND NOT FDD_CS_RESET\<rparr>
     in Ok (f_unblock (qhead (fd_sch s4) (fd_waiter s4)) s4))"

definition fdd_set_seeking :: "'h fdd \<Rightarrow> 'h fdd" where
  "fdd_set_seeking s =
     (let (sti, s1) = f_cli s;
          s2 = s1\<lparr>fd_ctrl := fd_ctrl s1 AND NOT FDD_CS_SEEKING\<rparr>;
          s3 = (if list_ex (\<lambda>i. fu_state (fd_units s2 i) = Fdd_seeking) [0..<fd_n s2] then set_ctrl FDD_CS_SEEKING s2 else s2)
      in f_restore sti s3)"

definition put_result :: "u8 list \<Rightarrow> fddunit \<Rightarrow> fddunit" where
  "put_result bs p = p\<lparr>fu_result := bs @ drop (length bs) (fu_result p)\<rparr>"

definition fdd_intr_seek :: "'h fddenv \<Rightarrow> 'h fdd \<Rightarrow> 'h fdd res" where
  "fdd_intr_seek E s =
     bind_res (fdd_send_command E [FDD_CMD_SENSE_INTR_STAT] s) (\<lambda>(rc, s1).
       if rc \<noteq> 0 then Ok s1
       else bind_res (fdd_read_bytes E 2 s1) (\<lambda>(rc2, sense, s2).
         if rc2 \<noteq> 0 then Ok s2
         else case List.find (\<lambda>i. sense ! 0 AND 3 = of_nat (fu_drive (fd_units s2 i))) [0..<fd_n s2] of
           None \<Rightarrow> Ok s2
         | Some u \<Rightarrow>
             (let s3 = fset u (\<lambda>p. (put_result [sense ! 0, sense ! 1] p)\<lparr>fu_nres := 2, fu_state := Fdd_seekdone\<rparr>) s2;
                  s4 = fdd_set_seeking s3;
                  w = qhead (fd_sch s4) (fu_waiter (fd_units s4 u))
              in Ok (if w = 0 then s4 else f_unblock w s4))))"

definition fdd_intr_io :: "'h fddenv \<Rightarrow> nat \<Rightarrow> 'h fdd \<Rightarrow> 'h fdd res" where
  "fdd_intr_io E u s =
     bind_res (fdd_read_bytes E (fu_nexp (fd_units s u)) s) (\<lambda>(rc, bs, s1).
       let s2 = fset u (\<lambda>p. (put_result bs p)\<lparr>fu_nres := (if rc \<noteq> 0 then 0 else fu_nexp p)\<rparr>) s1;
           w = qhead (fd_sch s2) (fu_waiter (fd_units s2 u));
           s3 = (if w = 0 then s2 else f_unblock w s2)
       in Ok (s3\<lparr>fd_iounit := None\<rparr>))"

definition fdd_intr :: "'h fddenv \<Rightarrow> 'h fdd \<Rightarrow> (int \<times> 'h fdd) res" where
  "fdd_intr E s =
     bind_res (if fd_ctrl s AND FDD_CS_RESET \<noteq> 0 then fdd_intr_reset E s
               else if fd_ctrl s AND FDD_CS_SEEKING \<noteq> 0 then fdd_intr_seek E s
               else case fd_iounit s of Some u \<Rightarrow> fdd_intr_io E u s | None \<Rightarrow> Ok s) (\<lambda>s1. Ok (0, s1))"

section \<open>Drives\<close>

definition fdd_ctrl_reset :: "'h fddenv \<Rightarrow> 'h fdd \<Rightarrow> (int \<times> 'h fdd) res" where
  "fdd_ctrl_reset E s =
     (let (_, s1) = f_cli s;
          s2 = f_out E FDD_DOR_PORT (FDD_DOR_RESET OR FDD_DOR_DMA) s1;
          s3 = set_ctrl FDD_CS_RESET s2;
          s4 = f_out E FDD_DSR_PORT (FDD_DSR_500K OR FDD_DSR_RESET) (f_out E FDD_CCR_PORT FDD_DSR_500K s3)
      in bind_res (e_wait E (fd_waiter s4) s4) (\<lambda>s5.
         if fd_ctrl s5 AND FDD_CS_TIMEOUT \<noteq> 0 then Ok (- 1, s5) else fdd_specify E s5))"

text \<open>The part of \<open>fdd_seldrive\<close> that holds \<open>motor_cs\<close>.\<close>

definition sel_motor :: "'h fddenv \<Rightarrow> nat \<Rightarrow> 'h fdd \<Rightarrow> 'h fdd res" where
  "sel_motor E u s =
     (let pu = fd_units s u; motor = FDD_DOR_MOT (fu_drive pu);
          sel = FDD_DOR_DMA OR FDD_DOR_RESET OR FDD_DOR_DR (fu_drive pu);
          need = (fd_sel s \<noteq> Some u \<or> fd_motor_bits s AND motor = 0);
          s1 = (if need then (let t = s\<lparr>fd_motor_bits := fd_motor_bits s OR motor\<rparr> in f_out E FDD_DOR_PORT (sel OR fd_motor_bits t) t) else s);
          s2 = s1\<lparr>fd_sel := Some u\<rparr>
      in bind_res (if need then e_sleep E ((125 * int (unat (bp_mot_start (fd_bios s2))) + 54) div 55) s2 else Ok s2) (\<lambda>s3.
         Ok (fset u (\<lambda>p. p\<lparr>fu_motor := int (unat (bp_motoff (fd_bios s3)))\<rparr>) s3)))"

definition fdd_seldrive :: "'h fddenv \<Rightarrow> nat \<Rightarrow> 'h fdd \<Rightarrow> (int \<times> 'h fdd) res" where
  "fdd_seldrive E u s =
     (if fd_motor_cs s \<le> 0 then Hang
      else bind_res (sel_motor E u (s\<lparr>fd_motor_cs := fd_motor_cs s - 1\<rparr>)) (\<lambda>s1.
           bind_res (fdd_specify E (s1\<lparr>fd_motor_cs := fd_motor_cs s1 + 1\<rparr>)) (\<lambda>(rc, s2).
           Ok (if rc \<noteq> 0 then - 1 else 0, s2))))"

fun recal_loop :: "'h fddenv \<Rightarrow> nat \<Rightarrow> nat \<Rightarrow> 'h fdd \<Rightarrow> (int \<times> 'h fdd) res" where
  "recal_loop E u 0 s = Ok (- 1, s)"
| "recal_loop E u (Suc n) s =
     bind_res (fdd_seldrive E u s) (\<lambda>(rc, s1).
       if rc \<noteq> 0 then recal_loop E u n s1
       else (let (sti, s2) = f_cli s1;
                 s3 = set_ctrl FDD_CS_SEEKING (fset u (\<lambda>p. p\<lparr>fu_state := Fdd_seeking, fu_nexp := 2\<rparr>) s2)
             in bind_res (fdd_send_command E [FDD_CMD_RECALIBRATE, FDD_RECAL_0 (fu_drive (fd_units s u))] s3) (\<lambda>(rc2, s4).
                if rc2 \<noteq> 0 then recal_loop E u n (f_restore sti s4)
                else bind_res (e_wait E (fu_waiter (fd_units s4 u)) s4) (\<lambda>s5.
                  let p = fd_units s5 u; st0 = fu_result p ! 0
                  in if fu_nres p \<noteq> 2 \<or> st0 AND FDD_ST0_SEEK = 0 \<or> FDD_ST0_IC st0 \<noteq> FDD_ST0_IC_OK then recal_loop E u n s5
                     else if fu_result p ! 1 = 0 then Ok (0, s5)
                     else recal_loop E u n s5))))"

definition fdd_recalibrate :: "'h fddenv \<Rightarrow> nat \<Rightarrow> 'h fdd \<Rightarrow> (int \<times> 'h fdd) res" where
  "fdd_recalibrate E u s = (if fu_state (fd_units s u) \<noteq> Fdd_idle then Ok (- 1, s) else recal_loop E u 3 s)"

text \<open>The interrupt flag is not restored, neither here nor by the caller.\<close>

definition fdd_seek :: "'h fddenv \<Rightarrow> nat \<Rightarrow> nat \<Rightarrow> nat \<Rightarrow> 'h fdd \<Rightarrow> (int \<times> 'h fdd) res" where
  "fdd_seek E u hea cyl s =
     (let (_, s1) = f_cli s;
          s2 = fset u (\<lambda>p. p\<lparr>fu_state := Fdd_seeking\<rparr>) (set_ctrl FDD_CS_SEEKING s1)
      in bind_res (fdd_send_command E [FDD_CMD_SEEK, FDD_SEEK_1 hea (fu_drive (fd_units s u)), FDD_SEEK_2 cyl] s2) (\<lambda>(rc, s3).
         if rc \<noteq> 0 then Ok (- 1, fdd_set_seeking (fset u (\<lambda>p. p\<lparr>fu_state := Fdd_idle\<rparr>) s3))
         else bind_res (e_wait E (fu_waiter (fd_units s3 u)) s3) (\<lambda>s4. Ok (0, s4))))"

section \<open>Transfers\<close>

definition fdd_spt :: "nat \<Rightarrow> nat option" where
  "fdd_spt type =
     (if type = CMOS_FDD_360 then Some 9 else if type = CMOS_FDD_1_2 then Some 15
      else if type = CMOS_FDD_720 then Some 9 else if type = CMOS_FDD_1_44 then Some 18 else None)"

text \<open>Cylinder, head and sector of a block.\<close>

definition fdd_chs :: "nat \<Rightarrow> u32 \<Rightarrow> u16 \<times> u16 \<times> u16" where
  "fdd_chs spt blk =
     (let sec = (ucast (1 + blk mod of_nat spt) :: u16); b1 = blk div of_nat spt; hea = (ucast (b1 AND 1) :: u16); b2 = drop_bit 1 b1
      in (ucast b2, hea, sec))"

text \<open>Whether the work buffer is used, the linear address of the transfer, and its sectors. The number of sectors is
  not cut to one when the work buffer is used.\<close>

definition fdd_span :: "nat \<Rightarrow> u16 \<Rightarrow> nat \<Rightarrow> farptr \<Rightarrow> farptr \<Rightarrow> bool \<times> u32 \<times> int" where
  "fdd_span spt sec sz buf work =
     (let secs = int (sz div FDD_SECTOR_SIZE);
          maxtrk = int spt - int (unat sec) + 1;
          secs1 = (if maxtrk < secs then maxtrk else secs);
          buflin = KLINEAR buf;
          nextpage = 1 + (buflin OR 0xffff);
          maxsecs = int (unat ((nextpage - buflin) div 512))
      in if maxsecs = 0 then (True, KLINEAR work, secs1)
         else if maxsecs < secs1 then (False, buflin, maxsecs)
         else (False, buflin, secs1))"

definition move_mem :: "farptr \<Rightarrow> farptr \<Rightarrow> nat \<Rightarrow> 'h fdd \<Rightarrow> 'h fdd" where
  "move_mem to from n s =
     s\<lparr>fd_mem := fold (\<lambda>k m. m(KLINEAR (fst to, snd to + of_nat k) := m (KLINEAR (fst from, snd from + of_nat k)))) [0..<n] (fd_mem s)\<rparr>"

definition f_dma_setup :: "'h fddenv \<Rightarrow> nat \<Rightarrow> u32 \<Rightarrow> u32 \<Rightarrow> u8 \<Rightarrow> 'h fdd \<Rightarrow> (int \<times> 'h fdd) res" where
  "f_dma_setup E chan lin count mode s =
     bind_res (dma_setup (e_bus E) chan lin count mode \<lparr>dma_cs = fd_dma s, dma_hw = fd_hw s\<rparr>) (\<lambda>(rc, d).
       Ok (rc, f_set_hw (dma_hw d) (s\<lparr>fd_dma := dma_cs d\<rparr>)))"

text \<open>The loop of \<open>op_retry\<close>: \<open>rc\<close> and \<open>need_recal\<close> after it.\<close>

fun op_loop :: "'h fddenv \<Rightarrow> nat \<Rightarrow> u32 \<Rightarrow> int \<Rightarrow> u8 \<Rightarrow> u8 list \<Rightarrow> nat \<Rightarrow> 'h fdd \<Rightarrow> (int \<times> bool \<times> 'h fdd) res" where
  "op_loop E u lin sz mode opbuf 0 s = Ok (- 1, False, s)"
| "op_loop E u lin sz mode opbuf (Suc n) s =
     bind_res (f_dma_setup E FDD_DRQ lin (word_of_int sz) mode s) (\<lambda>(rc, s1).
       if rc \<noteq> 0 then op_loop E u lin sz mode opbuf n s1
       else (let (sti, s2) = f_cli s1;
                 s3 = fset u (\<lambda>p. p\<lparr>fu_state := Fdd_io, fu_nexp := 7\<rparr>) (s2\<lparr>fd_iounit := Some u\<rparr>)
             in bind_res (fdd_send_command E opbuf s3) (\<lambda>(rc2, s4).
                if rc2 \<noteq> 0 then op_loop E u lin sz mode opbuf n (f_restore sti s4)
                else bind_res (e_wait E (fu_waiter (fd_units s4 u)) s4) (\<lambda>s5.
                  let p = fd_units s5 u
                  in if fu_nres p \<noteq> fu_nexp p then op_loop E u lin sz mode opbuf n s5
                     else if FDD_ST0_IC (fu_result p ! 0) = FDD_ST0_IC_OK
                          then Ok (0, False, fset u (\<lambda>p. p\<lparr>fu_state := Fdd_idle\<rparr>) s5)
                     else if fu_result p ! 2 AND FDD_ST2_WRONGCYL \<noteq> 0 then Ok (- 1, True, s5)
                     else op_loop E u lin sz mode opbuf n s5))))"

fun seek_loop :: "'h fddenv \<Rightarrow> nat \<Rightarrow> nat \<Rightarrow> nat \<Rightarrow> u32 \<Rightarrow> int \<Rightarrow> u8 \<Rightarrow> u8 list \<Rightarrow> bool \<Rightarrow> nat \<Rightarrow> 'h fdd \<Rightarrow> (int \<times> 'h fdd) res" where
  "seek_loop E u hea cyl lin sz mode opbuf recal 0 s = Ok (- 1, s)"
| "seek_loop E u hea cyl lin sz mode opbuf recal (Suc n) s =
     bind_res (fdd_seldrive E u s) (\<lambda>(rc, s1).
       if rc \<noteq> 0 then seek_loop E u hea cyl lin sz mode opbuf recal n s1
       else bind_res (let s2 = fset u (\<lambda>p. p\<lparr>fu_state := Fdd_idle\<rparr>) s1 in if recal then fdd_recalibrate E u s2 else Ok (0, s2)) (\<lambda>(rc2, s3).
         if rc2 \<noteq> 0 then seek_loop E u hea cyl lin sz mode opbuf True n s3
         else bind_res (fdd_seek E u hea cyl s3) (\<lambda>(rc3, s4).
           if rc3 \<noteq> 0 then seek_loop E u hea cyl lin sz mode opbuf False n s4
           else bind_res (op_loop E u lin sz mode opbuf FDD_RETRY s4) (\<lambda>(rc4, recal', s5).
             if rc4 = 0 then Ok (0, s5) else seek_loop E u hea cyl lin sz mode opbuf recal' n s5))))"

definition fdd_command :: "bool \<Rightarrow> nat \<Rightarrow> u16 \<times> u16 \<times> u16 \<Rightarrow> biosparm \<Rightarrow> u8 list" where
  "fdd_command doread drive chs b =
     (case chs of (cyl, hea, sec) \<Rightarrow>
       [FDD_OP_MFM OR (if doread then FDD_CMD_READ_DATA else FDD_CMD_WRITE_DATA), ucast (push_bit 2 hea OR (of_nat drive AND 3)), ucast cyl, ucast hea,
        ucast sec, bp_bysec b, bp_eot b, bp_gap b, bp_dtl b])"

text \<open>Units are not negative.\<close>

definition fdd_op :: "'h fddenv \<Rightarrow> nat \<Rightarrow> farptr \<Rightarrow> u32 \<Rightarrow> int \<Rightarrow> bool \<Rightarrow> 'h fdd \<Rightarrow> (int \<times> 'h fdd) res" where
  "fdd_op E unit buf blk sz doread s =
     (if sz < 0 \<or> sz mod 512 \<noteq> 0 then Ok (- EINVAL, s)
      else if sz = 0 then Ok (0, s)
      else if fd_n s \<le> unit then Ok (- ENODEV, s)
      else case fdd_spt (fu_type (fd_units s unit)) of
        None \<Rightarrow> Ok (- EIO, s)
      | Some spt \<Rightarrow>
          (let mode = (if doread then DMA_MODE_WRITE OR DMA_MODE_DEMAND else DMA_MODE_READ OR DMA_MODE_DEMAND);
               (cyl, hea, sec) = fdd_chs spt blk;
               (use_wb, lin, secs) = fdd_span spt sec (nat sz) buf (fd_work s);
               size1 = secs * 512;
               opbuf = fdd_command doread (fu_drive (fd_units s unit)) (cyl, hea, sec) (fd_bios s);
               s1 = (if \<not> doread \<and> use_wb then move_mem (fd_work s) buf FDD_SECTOR_SIZE s else s)
           in bind_res (seek_loop E unit (unat hea) (unat cyl) lin size1 mode opbuf False FDD_RETRY s1) (\<lambda>(rc, s2).
              if rc < 0 then Ok (rc, s2)
              else Ok (size1, if doread \<and> use_wb then move_mem buf (fd_work s2) FDD_SECTOR_SIZE s2 else s2))))"

definition fdd_read :: "'h fddenv \<Rightarrow> nat \<Rightarrow> farptr \<Rightarrow> u32 \<Rightarrow> int \<Rightarrow> 'h fdd \<Rightarrow> (int \<times> 'h fdd) res" where
  "fdd_read E unit buf blk sz s =
     (if fd_cs s \<le> 0 then Hang
      else bind_res (fdd_op E unit buf blk sz True (s\<lparr>fd_cs := fd_cs s - 1\<rparr>)) (\<lambda>(r, s1). Ok (r, s1\<lparr>fd_cs := fd_cs s1 + 1\<rparr>)))"

definition fdd_write :: "'h fddenv \<Rightarrow> nat \<Rightarrow> farptr \<Rightarrow> u32 \<Rightarrow> int \<Rightarrow> 'h fdd \<Rightarrow> (int \<times> 'h fdd) res" where
  "fdd_write E unit buf blk sz s =
     (if fd_cs s \<le> 0 then Hang
      else bind_res (fdd_op E unit buf blk sz False (s\<lparr>fd_cs := fd_cs s - 1\<rparr>)) (\<lambda>(r, s1). Ok (r, s1\<lparr>fd_cs := fd_cs s1 + 1\<rparr>)))"

text \<open>Nobody calls this function. The offset is joined with \<open>|\<close>, not added.\<close>

definition fdd_dma_cross :: "farptr \<Rightarrow> bool" where
  "fdd_dma_cross p =
     (let linear = push_bit 4 (ucast (fst p)) OR ucast (snd p) :: u32
      in linear AND 0xf0000 \<noteq> (linear + 511) AND 0xf0000)"

section \<open>Motors\<close>

text \<open>One pass of the motor task over the units, after it has slept for four ticks.\<close>

fun motor_pass :: "'h fddenv \<Rightarrow> nat list \<Rightarrow> 'h fdd \<Rightarrow> 'h fdd res" where
  "motor_pass E [] s = Ok s"
| "motor_pass E (u # us) s =
     (let motor = FDD_DOR_MOT (fu_drive (fd_units s u))
      in if fd_motor_cs s \<le> 0 then Hang
         else if fd_motor_bits s AND motor \<noteq> 0
         then (let s1 = fset u (\<lambda>p. p\<lparr>fu_motor := fu_motor p - 4\<rparr>) s; p = fd_units s1 u
               in motor_pass E us
                    (if fu_motor p \<le> 0 \<and> fu_state p = Fdd_idle
                     then (let s2 = s1\<lparr>fd_motor_bits := fd_motor_bits s1 AND NOT motor\<rparr>
                           in f_out E FDD_DOR_PORT (fd_motor_bits s2 OR FDD_DOR_DMA OR FDD_DOR_RESET OR FDD_DOR_DR (fu_drive p)) s2)
                     else s1))
         else motor_pass E us s)"

definition fdd_motor_task :: "'h fddenv \<Rightarrow> 'h fdd \<Rightarrow> 'h fdd res" where
  "fdd_motor_task E s = bind_res (e_sleep E 4 s) (\<lambda>s1. motor_pass E [0..<fd_n s1] s1)"

section \<open>Initialisation\<close>

text \<open>The loop over the types in the CMOS: the list has the drive and its type. \<open>wq\<close> names the queues of the units.\<close>

fun find_drives :: "(nat \<Rightarrow> taskq) \<Rightarrow> (nat \<times> nat) list \<Rightarrow> 'h fdd \<Rightarrow> 'h fdd" where
  "find_drives wq [] s = s"
| "find_drives wq ((i, type) # ds) s =
     (if type = CMOS_FDD_NONE \<or> CMOS_FDD_MAX < type then find_drives wq ds s
      else (let n = fd_n s;
                s1 = fset n (\<lambda>p. p\<lparr>fu_drive := i, fu_type := type, fu_motor := 0, fu_waiter := wq n\<rparr>) (s\<lparr>fd_n := n + 1\<rparr>)
            in find_drives wq ds (f_set_sch (taskq_init (wq n) (fd_sch s1)) s1)))"

fun recal_all :: "'h fddenv \<Rightarrow> nat list \<Rightarrow> 'h fdd \<Rightarrow> 'h fdd res" where
  "recal_all E [] s = Ok s"
| "recal_all E (u # us) s = bind_res (fdd_recalibrate E u s) (\<lambda>(_, s1). recal_all E us s1)"

text \<open>\<open>drives\<close> is the CMOS register, \<open>bios\<close> what the vector 1E points to, \<open>fn\<close> the number of \<open>fdd_intr\<close> as a handler, \<open>mtask\<close>
  the entry of the motor task. What \<open>intr_add_handler\<close> returns is not looked at.\<close>

definition fdd_init ::
  "u16 \<Rightarrow> u16 \<Rightarrow> (nat \<Rightarrow> farptr) \<Rightarrow> farptr \<Rightarrow> nat \<Rightarrow> (nat \<Rightarrow> taskq) \<Rightarrow> u8 \<Rightarrow> biosparm \<Rightarrow> 'h fddenv \<Rightarrow> 'h fdd \<Rightarrow> 'h fdd res" where
  "fdd_init heap ds stub mtask fn wq drives bios E s =
     (let s0 = s\<lparr>fd_n := 0, fd_ctrl := 0, fd_motor_cs := 1, fd_cs := 1\<rparr>;
          s1 = f_set_sch (taskq_init (fd_waiter s0) (fd_sch s0)) s0;
          s2 = find_drives wq [(0, CMOS_FDD_UNIT_0 drives), (1, CMOS_FDD_UNIT_1 drives)] s1
      in bind_res (fdd_flush E s2) (\<lambda>(rc, s3).
         if rc = - 1 then Ok s3
         else bind_res (fdd_version E s3) (\<lambda>(v, s4).
           if v \<noteq> FDD_VERSION_EXT then Ok s4
           else bind_res (intr_add_handler heap ds stub (e_bus E) FDD_IRQ fn (fd_intr s4)) (\<lambda>(_, i).
             bind_res (fdd_ctrl_reset E (s4\<lparr>fd_bios := bios, fd_intr := i\<rparr>)) (\<lambda>(rc2, s5).
               if rc2 \<noteq> 0 then Ok s5
               else bind_res (task_start heap ds mtask 128 TASK_PRI_BOOST (fd_sch s5)) (\<lambda>(_, sch).
                 bind_res (mem_dma_alloc 512 (smem sch)) (\<lambda>(w, m).
                   if w = far_null then Panic
                   else (let s6 = (f_set_sch (sch\<lparr>smem := m\<rparr>) s5)\<lparr>fd_work := w\<rparr> in recal_all E [0..<fd_n s6] s6))))))))"

end
