(* ===== verification/FddThms.thy ===== *)
theory FddThms
  imports Fdd
begin

text \<open>
  Properties of the floppy driver: blocks and their places on the disk, the extent of a transfer, the commands a
  transfer sends, and the motors.
\<close>

section \<open>Places on the disk\<close>

lemma spt_bounds: "fdd_spt type = Some spt \<Longrightarrow> 9 \<le> spt \<and> spt \<le> 18"
  by (auto simp: fdd_spt_def split: if_splits)

lemma chs_parts:
  assumes "0 < spt" "spt \<le> 18" "fdd_chs spt blk = (cyl, hea, sec)"
  shows "unat sec = 1 + unat blk mod spt" "unat hea = unat blk div spt mod 2" "unat cyl = unat blk div spt div 2 mod 65536"
proof -
  have n: "unat (of_nat spt :: u32) = spt" using assms(1,2) by (simp add: unsigned_of_nat take_bit_nat_eq_self)
  have m: "unat blk mod spt < 18" using assms(1,2) mod_less_divisor [of spt "unat blk"] by linarith
  then have "unat (1 + blk mod of_nat spt) = 1 + unat blk mod spt"
    by (simp add: unat_word_ariths unat_mod n)
  moreover have "1 + unat blk mod spt < 65536" using m by linarith
  ultimately show "unat sec = 1 + unat blk mod spt" using assms(3) by (auto simp: fdd_chs_def Let_def unat_ucast_16)
  have b: "unat (blk div of_nat spt) = unat blk div spt" by (simp add: unat_div n)
  have "unat ((blk div of_nat spt) AND 1) = unat blk div spt mod 2" by (simp add: and_one_eq unat_mod b)
  then show "unat hea = unat blk div spt mod 2" using assms(3) by (auto simp: fdd_chs_def Let_def unat_ucast_16)
  show "unat cyl = unat blk div spt div 2 mod 65536"
    using assms(3) by (auto simp: fdd_chs_def Let_def unat_ucast_16 unsigned_drop_bit_eq unat_div n drop_bit_eq_div)
qed

section \<open>Extent of a transfer\<close>

lemma page_rest:
  fixes lin :: u32
  assumes "lin \<le> MAX_ADDRESS"
  shows "unat (((1 + (lin OR 0xffff)) - lin) div 512) = (65536 - unat lin mod 65536) div 512"
proof -
  have l: "unat lin < 1048576" using assms by (simp add: MAX_ADDRESS_def word_le_nat_alt)
  have o: "unat (lin OR 0xffff) = unat lin div 65536 * 65536 + 65535"
  proof -
    have "unat lin OR mask 16 = push_bit 16 (drop_bit 16 (unat lin)) OR mask 16"
      by (rule bit_eqI) (auto simp: bit_simps)
    also have "\<dots> = push_bit 16 (drop_bit 16 (unat lin)) + mask 16"
      by (rule disjunctive_add_eq_or [symmetric]) (rule bit_eqI, auto simp: bit_simps)
    finally show ?thesis by (simp add: unsigned_or_eq push_bit_eq_mult drop_bit_eq_div mask_eq_exp_minus_1)
  qed
  have "unat lin div 65536 * 65536 + unat lin mod 65536 = unat lin" by (rule div_mult_mod_eq)
  moreover have "unat (1 + (lin OR 0xffff)) = 65536 + unat lin div 65536 * 65536" using l by (simp add: unat_word_ariths o)
  moreover have "unat lin mod 65536 < 65536" by simp
  ultimately have d: "unat (1 + (lin OR 0xffff)) = unat lin + (65536 - unat lin mod 65536)" by linarith
  have "unat ((1 + (lin OR 0xffff)) - lin) = 65536 - unat lin mod 65536" unfolding unat_sub_if' d by simp
  then show ?thesis by (simp add: unat_div)
qed

lemma span_bounds:
  assumes "1 \<le> unat sec" "unat sec \<le> spt" "0 < sz" "sz mod 512 = 0" "KLINEAR buf \<le> MAX_ADDRESS" "fdd_span spt sec sz buf work = (wb, lin, secs)"
  shows "1 \<le> secs \<and> nat secs * 512 \<le> sz \<and> int (unat sec) + secs - 1 \<le> int spt \<and>
    (if wb then lin = KLINEAR work \<and> 65536 < unat (KLINEAR buf) mod 65536 + 512
     else lin = KLINEAR buf \<and> unat lin mod 65536 + nat secs * 512 \<le> 65536)"
proof -
  define k where "k = unat sec"
  note span = assms(6) [unfolded fdd_span_def Let_def FDD_SECTOR_SIZE_def page_rest [OF assms(5)] k_def [symmetric]]
  let ?r = "(65536 - unat (KLINEAR buf) mod 65536) div 512" and ?t = "int spt - int k + 1"
  have m: "unat (KLINEAR buf) mod 65536 < 65536" by simp
  have r: "?r * 512 \<le> 65536 - unat (KLINEAR buf) mod 65536" by (rule div_times_less_eq_dividend)
  have s: "1 \<le> sz div 512" "sz div 512 * 512 = sz" using assms(3,4) by auto
  have t: "1 \<le> ?t" using assms(2) [folded k_def] by linarith
  have z: "?r = 0 \<longleftrightarrow> 65536 < unat (KLINEAR buf) mod 65536 + 512" using m by (auto simp: div_eq_0_iff)
  show ?thesis
  proof (cases "?r = 0")
    case True
    then have e: "wb" "lin = KLINEAR work" "secs = (if ?t < int (sz div 512) then ?t else int (sz div 512))"
      using span by (simp_all add: FDD_SECTOR_SIZE_def)
    show ?thesis unfolding k_def [symmetric] using e z True s t by (auto split: if_splits)
  next
    case False
    then have e: "\<not> wb" "lin = KLINEAR buf"
        "secs = (let a = (if ?t < int (sz div 512) then ?t else int (sz div 512)) in if int ?r < a then int ?r else a)"
      using span by (auto simp: FDD_SECTOR_SIZE_def split: if_splits)
    have "1 \<le> secs" "secs \<le> int ?r" "secs \<le> ?t" "secs \<le> int (sz div 512)" using e(3) False s(1) t by (auto simp: Let_def)
    moreover from this have "nat secs * 512 \<le> ?r * 512" "nat secs * 512 \<le> sz div 512 * 512" by linarith+
    ultimately have f: "1 \<le> secs" "secs \<le> ?t" "nat secs * 512 \<le> sz" "nat secs * 512 \<le> 65536 - unat (KLINEAR buf) mod 65536"
      using r s(2) by linarith+
    have "unat (KLINEAR buf) mod 65536 + nat secs * 512 \<le> 65536" using f(4) m by linarith
    then show ?thesis unfolding k_def [symmetric] using e(1,2) f by simp
  qed
qed

section \<open>Motors\<close>

lemma f_out_simps [simp]:
  "fd_units (f_out E p v s) = fd_units s" "fd_motor_bits (f_out E p v s) = fd_motor_bits s" "fd_motor_cs (f_out E p v s) = fd_motor_cs s"
  "fd_bios (f_out E p v s) = fd_bios s" "fd_n (f_out E p v s) = fd_n s" "fd_sel (f_out E p v s) = fd_sel s" "fd_ctrl (f_out E p v s) = fd_ctrl s"
  "fd_dma (f_out E p v s) = fd_dma s" "fd_iounit (f_out E p v s) = fd_iounit s" "fd_work (f_out E p v s) = fd_work s" "fd_mem (f_out E p v s) = fd_mem s"
  "fd_hw (f_out E p v s) = bus_out (e_bus E) p v (fd_hw s)" "fd_cs (f_out E p v s) = fd_cs s" "fd_waiter (f_out E p v s) = fd_waiter s"
  by (simp_all add: f_out_def f_set_hw_def)

lemma fset_simps [simp]:
  "fd_units (fset u f s) = (fd_units s)(u := f (fd_units s u))" "fd_motor_bits (fset u f s) = fd_motor_bits s"
  "fd_motor_cs (fset u f s) = fd_motor_cs s" "fd_bios (fset u f s) = fd_bios s" "fd_n (fset u f s) = fd_n s" "fd_sel (fset u f s) = fd_sel s"
  "fd_ctrl (fset u f s) = fd_ctrl s" "fd_dma (fset u f s) = fd_dma s" "fd_iounit (fset u f s) = fd_iounit s" "fd_work (fset u f s) = fd_work s"
  "fd_mem (fset u f s) = fd_mem s" "fd_hw (fset u f s) = fd_hw s" "fd_cs (fset u f s) = fd_cs s" "fd_waiter (fset u f s) = fd_waiter s"
  by (simp_all add: fset_def)

lemma motor_bit: "bit (FDD_DOR_MOT dr) n \<longleftrightarrow> n = 4 + dr mod 4"
proof -
  have "dr mod 4 < 4" by simp
  moreover have "(0x10 :: u8) = push_bit 4 1" by simp
  ultimately show ?thesis unfolding FDD_DOR_MOT_def by (simp only: bit_simps) auto
qed

lemma motor_and: "x AND FDD_DOR_MOT dr \<noteq> 0 \<longleftrightarrow> bit x (4 + dr mod 4)"
proof -
  have "(x AND FDD_DOR_MOT dr = 0) = (\<forall>n. \<not> bit (x AND FDD_DOR_MOT dr) n)"
    by (metis bit_0_eq bot_apply bot_bool_def bit_word_eqI)
  then show ?thesis by (auto simp: bit_and_iff motor_bit)
qed

text \<open>Which motors a pass leaves on.\<close>

lemma motor_pass_ok:
  "distinct us \<Longrightarrow> 0 < fd_motor_cs s \<Longrightarrow> inj_on (\<lambda>u. fu_drive (fd_units s u) mod 4) (set us) \<Longrightarrow>
   \<exists>s'. motor_pass E us s = Ok s' \<and>
     (\<forall>u \<in> set us. (fd_motor_bits s' AND FDD_DOR_MOT (fu_drive (fd_units s u)) \<noteq> 0) =
        (fd_motor_bits s AND FDD_DOR_MOT (fu_drive (fd_units s u)) \<noteq> 0 \<and> (4 < fu_motor (fd_units s u) \<or> fu_state (fd_units s u) \<noteq> Fdd_idle))) \<and>
     (\<forall>n. n \<notin> (\<lambda>u. 4 + fu_drive (fd_units s u) mod 4) ` set us \<longrightarrow> bit (fd_motor_bits s') n = bit (fd_motor_bits s) n)"
proof (induction us arbitrary: s)
  case (Cons u us)
  let ?m = "FDD_DOR_MOT (fu_drive (fd_units s u))" and ?d = "\<lambda>v. fu_drive (fd_units s v) mod 4"
  define s1 where "s1 = (if fd_motor_bits s AND ?m \<noteq> 0
    then (let t = fset u (\<lambda>p. p\<lparr>fu_motor := fu_motor p - 4\<rparr>) s
          in if fu_motor (fd_units s u) \<le> 4 \<and> fu_state (fd_units s u) = Fdd_idle
             then f_out E FDD_DOR_PORT (fd_motor_bits s AND NOT ?m OR FDD_DOR_DMA OR FDD_DOR_RESET OR FDD_DOR_DR (fu_drive (fd_units s u)))
                    (t\<lparr>fd_motor_bits := fd_motor_bits s AND NOT ?m\<rparr>) else t) else s)"
  have e: "motor_pass E (u # us) s = motor_pass E us s1"
    using Cons.prems(2) by (simp add: s1_def Let_def)
  have un: "\<And>v. v \<in> set us \<Longrightarrow> fd_units s1 v = fd_units s v" using Cons.prems(1) by (auto simp: s1_def Let_def)
  have bits: "bit (fd_motor_bits s1) n = (bit (fd_motor_bits s) n \<and> (n = 4 + ?d u \<longrightarrow> 4 < fu_motor (fd_units s u) \<or> fu_state (fd_units s u) \<noteq> Fdd_idle))" for n
    by (cases "n < 8") (auto simp: s1_def Let_def motor_and bit_and_iff bit_not_iff motor_bit dest: bit_imp_le_length)
  have "0 < fd_motor_cs s1" using Cons.prems(2) by (simp add: s1_def Let_def)
  moreover have "inj_on (\<lambda>v. fu_drive (fd_units s1 v) mod 4) (set us)"
    using Cons.prems(3) un by (auto simp: inj_on_def)
  ultimately obtain s' where s': "motor_pass E us s1 = Ok s'"
      "\<And>v. v \<in> set us \<Longrightarrow> (fd_motor_bits s' AND FDD_DOR_MOT (fu_drive (fd_units s1 v)) \<noteq> 0) =
        (fd_motor_bits s1 AND FDD_DOR_MOT (fu_drive (fd_units s1 v)) \<noteq> 0 \<and> (4 < fu_motor (fd_units s1 v) \<or> fu_state (fd_units s1 v) \<noteq> Fdd_idle))"
      "\<And>n. n \<notin> (\<lambda>v. 4 + fu_drive (fd_units s1 v) mod 4) ` set us \<Longrightarrow> bit (fd_motor_bits s') n = bit (fd_motor_bits s1) n"
    using Cons.IH [of s1] Cons.prems(1) by auto
  have dj: "?d u \<noteq> ?d v" if "v \<in> set us" for v using Cons.prems(1,3) that by (auto simp: inj_on_def)
  have im: "(\<lambda>v. 4 + fu_drive (fd_units s1 v) mod 4) ` set us = (\<lambda>v. 4 + ?d v) ` set us" using un by auto
  have "bit (fd_motor_bits s') (4 + ?d u) = bit (fd_motor_bits s1) (4 + ?d u)" using dj by (intro s'(3)) (auto simp: im)
  then have "(fd_motor_bits s' AND ?m \<noteq> 0) = (fd_motor_bits s AND ?m \<noteq> 0 \<and> (4 < fu_motor (fd_units s u) \<or> fu_state (fd_units s u) \<noteq> Fdd_idle))"
    by (simp add: motor_and bits)
  moreover have "(fd_motor_bits s' AND FDD_DOR_MOT (fu_drive (fd_units s v)) \<noteq> 0) =
        (fd_motor_bits s AND FDD_DOR_MOT (fu_drive (fd_units s v)) \<noteq> 0 \<and> (4 < fu_motor (fd_units s v) \<or> fu_state (fd_units s v) \<noteq> Fdd_idle))" if "v \<in> set us" for v
    using s'(2) [OF that] dj [OF that] by (auto simp: un [OF that] motor_and bits)
  moreover have "bit (fd_motor_bits s') n = bit (fd_motor_bits s) n" if "n \<notin> (\<lambda>v. 4 + ?d v) ` set (u # us)" for n
    using s'(3) [of n] that by (auto simp: im bits)
  ultimately show ?case unfolding e using s'(1) by auto
qed simp

section \<open>The commands of a transfer\<close>

text \<open>A controller that is always ready for a byte; \<open>sent\<close> are the bytes it was given.\<close>

definition ready :: "'h fddenv \<Rightarrow> ('h \<Rightarrow> u8 list) \<Rightarrow> bool" where
  "ready E sent \<longleftrightarrow>
     (\<forall>h. fst (bus_in (e_bus E) FDD_STAT_PORT h) AND FDD_STAT_RQM \<noteq> 0 \<and> fst (bus_in (e_bus E) FDD_STAT_PORT h) AND FDD_STAT_DIO = 0) \<and>
     (\<forall>h. sent (snd (bus_in (e_bus E) FDD_STAT_PORT h)) = sent h) \<and> (\<forall>h. sent (snd (e_ticks E h)) = sent h) \<and>
     (\<forall>p v h. sent (bus_out (e_bus E) p v h) = (if p = FDD_DATA_PORT then sent h @ [v] else sent h))"

text \<open>Only the flags of the controller, the scheduler and the hardware may differ.\<close>

definition alike :: "'h fdd \<Rightarrow> 'h fdd \<Rightarrow> bool" where
  "alike s s' \<longleftrightarrow> (\<exists>c i. s' = s\<lparr>fd_ctrl := c, fd_intr := i\<rparr>)"

lemma alike_refl: "alike s s"
  unfolding alike_def by (intro exI [of _ "fd_ctrl s"] exI [of _ "fd_intr s"]) simp

lemma alikeI: "alike s (s\<lparr>fd_ctrl := c, fd_intr := i\<rparr>)"
  unfolding alike_def by blast

lemma alike_trans:
  assumes "alike s t" "alike t r"
  shows "alike s r"
proof -
  obtain c i c' i' where "t = s\<lparr>fd_ctrl := c, fd_intr := i\<rparr>" "r = t\<lparr>fd_ctrl := c', fd_intr := i'\<rparr>"
    using assms unfolding alike_def by blast
  then have "r = s\<lparr>fd_ctrl := c', fd_intr := i'\<rparr>" by simp
  then show ?thesis using alikeI by metis
qed

lemma alike_intr: "alike s (s\<lparr>fd_intr := i\<rparr>)"
  using alikeI [where s = s and c = "fd_ctrl s" and i = i] by simp

lemma alike_ctrl: "alike s (s\<lparr>fd_ctrl := c\<rparr>)"
  using alikeI [where s = s and c = c and i = "fd_intr s"] by simp

lemma alike_steps: "alike s (f_out E p v s)" "alike s (set_ctrl b s)" "alike s (f_set_hw h s)" "alike s (f_set_sch t s)"
  "alike s (snd (f_in E p s))" "alike s (snd (f_ticks E s))"
  by (simp_all add: f_out_def set_ctrl_def f_set_hw_def f_set_sch_def f_in_def f_ticks_def split_beta alike_intr alike_ctrl)

lemma alikeD:
  assumes "alike s s'"
  shows "fd_units s' = fd_units s" "fd_n s' = fd_n s" "fd_bios s' = fd_bios s" "fd_motor_cs s' = fd_motor_cs s" "fd_dma s' = fd_dma s"
    "fd_work s' = fd_work s"
  using assms by (auto simp: alike_def)

lemma rqm_ok:
  assumes "ready E sent"
  shows "\<exists>msr s'. fdd_wait_for_rqm E s = Ok (msr, s') \<and> msr \<noteq> 0 \<and> msr AND FDD_STAT_DIO = 0 \<and> alike s s' \<and> sent (fd_hw s') = sent (fd_hw s)"
proof -
  let ?s1 = "snd (f_ticks E s)" and ?t = "fst (f_ticks E s) + 2"
  let ?m = "fst (f_in E FDD_STAT_PORT ?s1)" and ?s2 = "snd (f_in E FDD_STAT_PORT ?s1)"
  let ?s3 = "snd (f_ticks E ?s2)"
  have fi: "fst (f_in E FDD_STAT_PORT x) = fst (bus_in (e_bus E) FDD_STAT_PORT (fd_hw x))"
    "fd_hw (snd (f_in E FDD_STAT_PORT x)) = snd (bus_in (e_bus E) FDD_STAT_PORT (fd_hw x))"
    "fd_hw (snd (f_ticks E x)) = snd (e_ticks E (fd_hw x))" for x
    by (simp_all add: f_in_def f_ticks_def f_set_hw_def split_beta)
  have m: "?m AND FDD_STAT_RQM \<noteq> 0" "?m AND FDD_STAT_DIO = 0" using assms by (simp_all add: ready_def fi)
  have "rqm_loop E ?t ?s1 = Some (?m, ?s2)" using m(1) by (subst rqm_loop.simps) (simp add: Let_def split_beta)
  then have "fdd_wait_for_rqm E s = Ok (?m, if ?t \<le> fst (f_ticks E ?s2) then set_ctrl FDD_CS_TIMEOUT ?s3 else ?s3)"
    by (simp add: fdd_wait_for_rqm_def Let_def split_beta)
  moreover have "?m \<noteq> 0" using m(1) by auto
  moreover have "alike s ?s3" by (meson alike_steps alike_trans)
  moreover have "sent (fd_hw ?s3) = sent (fd_hw s)" using assms by (simp add: ready_def fi)
  ultimately show ?thesis using m(2) alike_trans [OF \<open>alike s ?s3\<close> alike_steps(2)] by (auto simp: set_ctrl_def)
qed

lemma send_ok:
  "ready E sent \<Longrightarrow> \<exists>s'. fdd_send_command E bs s = Ok (0, s') \<and> alike s s' \<and> sent (fd_hw s') = sent (fd_hw s) @ bs"
proof (induction bs arbitrary: s)
  case (Cons b bs)
  obtain msr s1 where 1: "fdd_wait_for_rqm E s = Ok (msr, s1)" "msr \<noteq> 0" "msr AND FDD_STAT_DIO = 0" "alike s s1" "sent (fd_hw s1) = sent (fd_hw s)"
    using rqm_ok [OF Cons.prems] by blast
  let ?s2 = "f_out E FDD_DATA_PORT b s1"
  have "sent (fd_hw ?s2) = sent (fd_hw s) @ [b]" using Cons.prems 1(5) by (simp add: ready_def)
  moreover obtain s' where "fdd_send_command E bs ?s2 = Ok (0, s')" "alike ?s2 s'" "sent (fd_hw s') = sent (fd_hw ?s2) @ bs"
    using Cons.IH [OF Cons.prems] by blast
  moreover have "alike s s'" using 1(4) \<open>alike ?s2 s'\<close> by (meson alike_steps(1) alike_trans)
  ultimately show ?case using 1 by auto
qed (auto simp: alike_refl)

declare fdd_send_command.simps [simp del]

text \<open>What a step of a transfer keeps.\<close>

definition keeps :: "nat \<Rightarrow> 'h fdd \<Rightarrow> 'h fdd \<Rightarrow> bool" where
  "keeps u s s' \<longleftrightarrow> fu_drive (fd_units s' u) = fu_drive (fd_units s u) \<and> fd_bios s' = fd_bios s \<and> fd_motor_cs s' = fd_motor_cs s \<and>
     fd_dma s' = fd_dma s \<and> fd_work s' = fd_work s"

lemma keeps_alike: "alike s s' \<Longrightarrow> keeps u s s'"
  by (simp add: keeps_def alikeD)

lemma keeps_trans: "keeps u s t \<Longrightarrow> keeps u t r \<Longrightarrow> keeps u s r"
  by (simp add: keeps_def)

text \<open>What sleeping and waiting leave: while unit \<open>u\<close> has the controller nobody sends it a byte, and a wait for a transfer
  ends with all its results stored, which report success.\<close>

definition sleeps :: "'h fddenv \<Rightarrow> ('h \<Rightarrow> u8 list) \<Rightarrow> nat \<Rightarrow> bool" where
  "sleeps E sent u \<longleftrightarrow> (\<forall>n s. \<exists>s'. e_sleep E n s = Ok s' \<and> keeps u s s' \<and> sent (fd_hw s') = sent (fd_hw s))"

definition completes :: "'h fddenv \<Rightarrow> ('h \<Rightarrow> u8 list) \<Rightarrow> nat \<Rightarrow> bool" where
  "completes E sent u \<longleftrightarrow> (\<forall>s. \<exists>s'. e_wait E (fu_waiter (fd_units s u)) s = Ok s' \<and> keeps u s s' \<and> sent (fd_hw s') = sent (fd_hw s) \<and>
     (fu_state (fd_units s u) = Fdd_io \<longrightarrow> fu_nres (fd_units s' u) = fu_nexp (fd_units s' u) \<and> FDD_ST0_IC (fu_result (fd_units s' u) ! 0) = FDD_ST0_IC_OK))"

lemma sel_motor_ok:
  assumes "ready E sent" "sleeps E sent u"
  shows "\<exists>s'. sel_motor E u s = Ok s' \<and> keeps u s s' \<and> sent (fd_hw s') = sent (fd_hw s)"
proof -
  let ?pu = "fd_units s u"
  let ?need = "fd_sel s \<noteq> Some u \<or> fd_motor_bits s AND FDD_DOR_MOT (fu_drive ?pu) = 0"
  let ?t = "s\<lparr>fd_motor_bits := fd_motor_bits s OR FDD_DOR_MOT (fu_drive ?pu)\<rparr>"
  let ?s1 = "if ?need then f_out E FDD_DOR_PORT ((FDD_DOR_DMA OR FDD_DOR_RESET OR FDD_DOR_DR (fu_drive ?pu)) OR fd_motor_bits ?t) ?t else s"
  let ?s2 = "?s1\<lparr>fd_sel := Some u\<rparr>"
  have s2: "sent (fd_hw ?s2) = sent (fd_hw s)" "keeps u s ?s2"
    using assms(1) by (auto simp: ready_def keeps_def FDD_DOR_PORT_def FDD_DATA_PORT_def)
  obtain s3 where s3: "(if ?need then e_sleep E ((125 * int (unat (bp_mot_start (fd_bios ?s2))) + 54) div 55) ?s2 else Ok ?s2) = Ok s3"
      "keeps u ?s2 s3" "sent (fd_hw s3) = sent (fd_hw ?s2)"
    using assms(2) keeps_alike [OF alike_refl, of u ?s2] unfolding sleeps_def by (cases ?need) (metis, metis)
  have "sel_motor E u s = Ok (fset u (\<lambda>p. p\<lparr>fu_motor := int (unat (bp_motoff (fd_bios s3)))\<rparr>) s3)"
    unfolding sel_motor_def Let_def s3(1) by simp
  then show ?thesis using s2 s3(3) keeps_trans [OF s2(2) s3(2)] by (auto simp: keeps_def)
qed

lemma seldrive_ok:
  assumes "ready E sent" "sleeps E sent u" "0 < fd_motor_cs s"
  shows "\<exists>s'. fdd_seldrive E u s = Ok (0, s') \<and> keeps u s s' \<and>
    sent (fd_hw s') = sent (fd_hw s) @ [FDD_CMD_SPECIFY, bp_spec1 (fd_bios s), bp_spec2 (fd_bios s)]"
proof -
  obtain s1 where 1: "sel_motor E u (s\<lparr>fd_motor_cs := fd_motor_cs s - 1\<rparr>) = Ok s1" "keeps u (s\<lparr>fd_motor_cs := fd_motor_cs s - 1\<rparr>) s1"
      "sent (fd_hw s1) = sent (fd_hw s)"
    using sel_motor_ok [OF assms(1,2), of "s\<lparr>fd_motor_cs := fd_motor_cs s - 1\<rparr>"] by auto
  let ?s2 = "s1\<lparr>fd_motor_cs := fd_motor_cs s1 + 1\<rparr>"
  obtain s' where s': "fdd_send_command E [FDD_CMD_SPECIFY, bp_spec1 (fd_bios ?s2), bp_spec2 (fd_bios ?s2)] ?s2 = Ok (0, s')" "alike ?s2 s'"
      "sent (fd_hw s') = sent (fd_hw ?s2) @ [FDD_CMD_SPECIFY, bp_spec1 (fd_bios ?s2), bp_spec2 (fd_bios ?s2)]"
    using send_ok [OF assms(1)] by blast
  have "fdd_seldrive E u s = Ok (0, s')" using assms(3) 1(1) s'(1) by (simp add: fdd_seldrive_def fdd_specify_def)
  then show ?thesis using 1(2,3) s'(3) keeps_alike [OF s'(2), of u] by (auto simp: keeps_def)
qed

lemma cli_alike: "f_cli s = (b, s') \<Longrightarrow> alike s s' \<and> fd_hw s' = fd_hw s"
  by (auto simp: f_cli_def f_set_sch_def alike_intr)

lemma seek_ok:
  assumes "ready E sent" "completes E sent u"
  shows "\<exists>s'. fdd_seek E u hea cyl s = Ok (0, s') \<and> keeps u s s' \<and>
    sent (fd_hw s') = sent (fd_hw s) @ [FDD_CMD_SEEK, FDD_SEEK_1 hea (fu_drive (fd_units s u)), FDD_SEEK_2 cyl]"
proof -
  obtain b s1 where c: "f_cli s = (b, s1)" "alike s s1" "fd_hw s1 = fd_hw s" using cli_alike by (metis surj_pair)
  let ?s2 = "fset u (\<lambda>p. p\<lparr>fu_state := Fdd_seeking\<rparr>) (set_ctrl FDD_CS_SEEKING s1)"
  let ?bs = "[FDD_CMD_SEEK, FDD_SEEK_1 hea (fu_drive (fd_units s u)), FDD_SEEK_2 cyl]"
  obtain s3 where s3: "fdd_send_command E ?bs ?s2 = Ok (0, s3)" "alike ?s2 s3" "sent (fd_hw s3) = sent (fd_hw ?s2) @ ?bs"
    using send_ok [OF assms(1)] by blast
  obtain s4 where s4: "e_wait E (fu_waiter (fd_units s3 u)) s3 = Ok s4" "keeps u s3 s4" "sent (fd_hw s4) = sent (fd_hw s3)"
    using assms(2) unfolding completes_def by blast
  have "keeps u s ?s2" using keeps_alike [OF c(2), of u] by (simp add: keeps_def set_ctrl_def)
  then have "keeps u s s4" using keeps_alike [OF s3(2)] s4(2) keeps_trans by blast
  moreover have "fdd_seek E u hea cyl s = Ok (0, s4)" using s3(1) s4(1) by (simp add: fdd_seek_def c(1))
  ultimately show ?thesis using c(3) s3(3) s4(3) by (simp add: set_ctrl_def)
qed

lemma dma_ok:
  assumes "ready E sent" "lin \<le> MAX_ADDRESS" "count \<le> MAX_XFER" "0 < fd_dma s"
  shows "\<exists>s'. f_dma_setup E FDD_DRQ lin count mode s = Ok (0, s') \<and> keeps u s s' \<and> sent (fd_hw s') = sent (fd_hw s)"
proof -
  have o: "sent (bus_out (e_bus E) p v h) = sent h" if "p \<noteq> FDD_DATA_PORT" for p v h using assms(1) that by (simp add: ready_def)
  have p: "p \<noteq> FDD_DATA_PORT" if "p \<in> {0x0a, 0x0b, 0x0c, 4, 5, 0x81}" for p using that by (auto simp: FDD_DATA_PORT_def)
  show ?thesis
    unfolding f_dma_setup_def dma_setup_def Let_def
    using assms(2-4) by (simp add: not_less [symmetric] IS_16BIT_CHANNEL_def FDD_DRQ_def dma_out_def dma_unmask_channel_def dma_ports page_ports_def
      keeps_def f_set_hw_def o p)
qed

lemma op_ok:
  assumes "ready E sent" "completes E sent u" "lin \<le> MAX_ADDRESS" "word_of_int sz \<le> MAX_XFER" "0 < fd_dma s"
  shows "\<exists>s' r. op_loop E u lin sz mode bs (Suc n) s = Ok (0, r, s') \<and> sent (fd_hw s') = sent (fd_hw s) @ bs \<and> keeps u s s'"
proof -
  obtain s1 where s1: "f_dma_setup E FDD_DRQ lin (word_of_int sz) mode s = Ok (0, s1)" "keeps u s s1" "sent (fd_hw s1) = sent (fd_hw s)"
    using dma_ok [OF assms(1,3-5)] by blast
  obtain b s2 where c: "f_cli s1 = (b, s2)" "alike s1 s2" "fd_hw s2 = fd_hw s1" using cli_alike by (metis surj_pair)
  let ?s3 = "fset u (\<lambda>p. p\<lparr>fu_state := Fdd_io, fu_nexp := 7\<rparr>) (s2\<lparr>fd_iounit := Some u\<rparr>)"
  obtain s4 where s4: "fdd_send_command E bs ?s3 = Ok (0, s4)" "alike ?s3 s4" "sent (fd_hw s4) = sent (fd_hw ?s3) @ bs"
    using send_ok [OF assms(1)] by blast
  have "fu_state (fd_units s4 u) = Fdd_io" using alikeD(1) [OF s4(2)] by simp
  then obtain s5 where s5: "e_wait E (fu_waiter (fd_units s4 u)) s4 = Ok s5" "keeps u s4 s5" "sent (fd_hw s5) = sent (fd_hw s4)"
      "fu_nres (fd_units s5 u) = fu_nexp (fd_units s5 u)" "FDD_ST0_IC (fu_result (fd_units s5 u) ! 0) = FDD_ST0_IC_OK"
    using assms(2) unfolding completes_def by blast
  have "keeps u s1 ?s3" using keeps_alike [OF c(2), of u] by (simp add: keeps_def)
  then have k: "keeps u s s5" using s1(2) keeps_alike [OF s4(2)] s5(2) keeps_trans by blast
  let ?s6 = "fset u (\<lambda>p. p\<lparr>fu_state := Fdd_idle\<rparr>) s5"
  have "op_loop E u lin sz mode bs (Suc n) s = Ok (0, False, fset u (\<lambda>p. p\<lparr>fu_state := Fdd_idle\<rparr>) s5)"
    using s1(1) c(1) s4(1) s5(1,4,5) by (simp add: Let_def)
  moreover have "sent (fd_hw ?s6) = sent (fd_hw s) @ bs" "keeps u s ?s6" using k s1(3) c(3) s4(3) s5(3) by (auto simp: keeps_def)
  ultimately show ?thesis by blast
qed

lemma seek_loop_ok:
  assumes "ready E sent" "sleeps E sent u" "completes E sent u" "lin \<le> MAX_ADDRESS" "word_of_int sz \<le> MAX_XFER" "0 < fd_dma s" "0 < fd_motor_cs s"
  shows "\<exists>s'. seek_loop E u hea cyl lin sz mode bs False (Suc n) s = Ok (0, s') \<and>
    sent (fd_hw s') = sent (fd_hw s) @ [FDD_CMD_SPECIFY, bp_spec1 (fd_bios s), bp_spec2 (fd_bios s)] @
      [FDD_CMD_SEEK, FDD_SEEK_1 hea (fu_drive (fd_units s u)), FDD_SEEK_2 cyl] @ bs"
proof -
  obtain s1 where s1: "fdd_seldrive E u s = Ok (0, s1)" "keeps u s s1"
      "sent (fd_hw s1) = sent (fd_hw s) @ [FDD_CMD_SPECIFY, bp_spec1 (fd_bios s), bp_spec2 (fd_bios s)]"
    using seldrive_ok [OF assms(1,2,7)] by blast
  let ?s2 = "fset u (\<lambda>p. p\<lparr>fu_state := Fdd_idle\<rparr>) s1"
  have k: "keeps u s ?s2" using s1(2) by (simp add: keeps_def)
  obtain s4 where s4: "fdd_seek E u hea cyl ?s2 = Ok (0, s4)" "keeps u ?s2 s4"
      "sent (fd_hw s4) = sent (fd_hw ?s2) @ [FDD_CMD_SEEK, FDD_SEEK_1 hea (fu_drive (fd_units ?s2 u)), FDD_SEEK_2 cyl]"
    using seek_ok [OF assms(1,3)] by blast
  have "0 < fd_dma s4" using keeps_trans [OF k s4(2)] assms(6) by (simp add: keeps_def)
  then obtain s5 r where s5: "op_loop E u lin sz mode bs FDD_RETRY s4 = Ok (0, r, s5)" "sent (fd_hw s5) = sent (fd_hw s4) @ bs"
    using op_ok [OF assms(1,3-5), of s4] unfolding FDD_RETRY_def by (metis numeral_3_eq_3)
  show ?thesis using s1 s4 s5 k by (simp add: Let_def keeps_def)
qed

lemma bytes_word:
  assumes "1 \<le> secs" "secs \<le> 18"
  shows "unat (word_of_int (secs * 512) :: u32) = nat secs * 512" "word_of_int (secs * 512) \<le> MAX_XFER" "(0 :: u32) < word_of_int (secs * 512)"
proof -
  define k where "k = nat secs"
  have k: "secs = int k" "1 \<le> k" "k \<le> 18" using assms by (simp_all add: k_def)
  have w: "(word_of_int (secs * 512) :: u32) = of_nat (k * 512)" by (simp add: k(1))
  have "unat (of_nat (k * 512) :: u32) = k * 512" using k(3) by (simp only: unsigned_of_nat) (simp add: take_bit_nat_eq_self)
  then show u: "unat (word_of_int (secs * 512) :: u32) = nat secs * 512" unfolding w by (simp add: k_def)
  show "word_of_int (secs * 512) \<le> MAX_XFER" "(0 :: u32) < word_of_int (secs * 512)"
    unfolding word_le_nat_alt word_less_nat_alt u using k by (simp_all add: MAX_XFER_def flip: k_def)
qed

lemma chs_sector:
  assumes "fdd_spt type = Some spt" "fdd_chs spt blk = (cyl, hea, sec)"
  shows "1 \<le> unat sec" "unat sec \<le> spt"
proof -
  have s: "0 < spt" "spt \<le> 18" using spt_bounds [OF assms(1)] by auto
  show "1 \<le> unat sec" "unat sec \<le> spt" unfolding chs_parts(1) [OF s assms(2)] using mod_less_divisor [OF s(1), of "unat blk"] by linarith+
qed

section \<open>Properties\<close>




text \<open>Property C34.
  For a buffer that starts in the last 511 bytes of a page the driver goes through its work buffer of one sector, but asks for
  all the sectors that are left: the transfer writes behind the work buffer.\<close>

theorem fdd_work_overrun:
  assumes "fdd_spt type = Some spt" "fdd_chs spt blk = (cyl, hea, sec)" "unat sec < spt" "512 < sz" "sz mod 512 = 0" "KLINEAR buf \<le> MAX_ADDRESS"
    "65536 < unat (KLINEAR buf) mod 65536 + 512" "KLINEAR work \<le> MAX_ADDRESS" "unat (KLINEAR work) mod 65536 + 18 * 512 \<le> 65536" "0 < dma_cs d"
  shows "\<exists>n d'. fdd_span spt sec sz buf work = (True, KLINEAR work, int n) \<and> 1 < n \<and>
    dma_setup chip_bus FDD_DRQ (KLINEAR work) (word_of_int (int n * 512)) mode d = Ok (0, d') \<and>
    unat (KLINEAR work) + 512 \<in> set (transfer FDD_DRQ (dma_hw d'))"
proof -
  obtain wb lin secs where e: "fdd_span spt sec sz buf work = (wb, lin, secs)" by (metis prod_cases3)
  have "0 < sz" using assms(4) by simp
  note sp = span_bounds [OF chs_sector [OF assms(1,2)] this assms(5,6) e]
  have w: "wb" "lin = KLINEAR work" using sp assms(7) by (auto split: if_splits)
  have "2 \<le> sz div 512" using assms(4,5) by auto
  moreover have "2 \<le> int spt - int (unat sec) + 1" using assms(3) by linarith
  ultimately have "2 \<le> secs" using e w(1) by (auto simp: fdd_span_def Let_def FDD_SECTOR_SIZE_def split: if_splits)
  moreover have "secs \<le> 18" using sp spt_bounds [OF assms(1)] chs_sector(1) [OF assms(1,2)] by linarith
  ultimately have b: "1 \<le> secs" "secs \<le> 18" "2 \<le> secs" by linarith+
  note z = bytes_word [OF b(1,2)]
  obtain d' where d': "dma_setup chip_bus FDD_DRQ (KLINEAR work) (word_of_int (secs * 512)) mode d = Ok (0, d')"
    using setup_chip [OF assms(8) z(2) assms(10), of FDD_DRQ mode] by (auto simp: FDD_DRQ_def)
  have "unat (KLINEAR work) mod 65536 + unat (word_of_int (secs * 512) :: u32) \<le> 65536" unfolding z(1) using b(2) assms(9) by linarith
  then have "transfer FDD_DRQ (dma_hw d') = [unat (KLINEAR work)..<unat (KLINEAR work) + nat secs * 512]"
    using transfer_in_page [OF assms(8) z(2,3) assms(10) _ _ d'] unfolding z(1) by (simp add: FDD_DRQ_def)
  moreover have "secs = int (nat secs)" "1 < nat secs" using b(3) by simp_all
  ultimately show ?thesis using e w d' by (intro exI [of _ "nat secs"] exI [of _ d']) auto
qed

text \<open>Remark.
  A pass of the motor task turns off the motor of a unit when its time is up and the unit is idle, and keeps every other motor
  on, that of a unit with a transfer under way in particular.\<close>

theorem fdd_motors:
  assumes "0 < fd_motor_cs s" "inj_on (\<lambda>u. fu_drive (fd_units s u) mod 4) {..<fd_n s}"
  shows "\<exists>s'. motor_pass E [0..<fd_n s] s = Ok s' \<and>
     (\<forall>u < fd_n s. (fd_motor_bits s' AND FDD_DOR_MOT (fu_drive (fd_units s u)) \<noteq> 0) =
        (fd_motor_bits s AND FDD_DOR_MOT (fu_drive (fd_units s u)) \<noteq> 0 \<and> (4 < fu_motor (fd_units s u) \<or> fu_state (fd_units s u) \<noteq> Fdd_idle)))"
proof -
  have "inj_on (\<lambda>u. fu_drive (fd_units s u) mod 4) (set [0..<fd_n s])" using assms(2) by (simp add: atLeast0LessThan)
  then show ?thesis using motor_pass_ok [OF distinct_upt assms(1), of 0 "fd_n s" E] by auto
qed

section \<open>Witnesses\<close>

text \<open>A controller that records the bytes it gets, and one idle 1.44 MB unit; a wait ends with a good result.\<close>

definition w_fenv :: "u8 list fddenv" where
  "w_fenv = \<lparr>e_bus = \<lparr>bus_in = (\<lambda>p h. (0x80, h)), bus_out = (\<lambda>p v h. if p = FDD_DATA_PORT then h @ [v] else h)\<rparr>, e_ticks = (\<lambda>h. (0, h)),
     e_wait = (\<lambda>q s. Ok (fset 0 (\<lambda>p. p\<lparr>fu_nres := fu_nexp p, fu_result := [0, 0, 0, 0, 1, 3, 2]\<rparr>) s)), e_sleep = (\<lambda>n s. Ok s)\<rparr>"

definition w_unit :: fddunit where
  "w_unit = \<lparr>fu_drive = 0, fu_type = CMOS_FDD_1_44, fu_motor = 3, fu_state = Fdd_idle, fu_waiter = WaitQ 3, fu_nexp = 0, fu_nres = 0, fu_result = []\<rparr>"

definition w_fdd :: "u8 list fdd" where
  "w_fdd = \<lparr>fd_n = 1, fd_units = (\<lambda>_. w_unit), fd_ctrl = 0, fd_iounit = None,
     fd_bios = \<lparr>bp_spec1 = 0xaf, bp_spec2 = 2, bp_motoff = 37, bp_bysec = 2, bp_eot = 18, bp_gap = 0x1b, bp_dtl = 0xff, bp_gap3 = 0x54, bp_fill = 0xf6,
       bp_settle = 15, bp_mot_start = 8\<rparr>,
     fd_motor_bits = 0x30, fd_sel = None, fd_waiter = WaitQ 2, fd_cs = 1, fd_motor_cs = 1, fd_dma = 1, fd_work = (0x2000, 0), fd_mem = (\<lambda>_. 0),
     fd_intr = \<lparr>intrs = (\<lambda>_. \<lparr>ih_handlers = 0, ih_task = 0\<rparr>), inodes = (\<lambda>_. \<lparr>in_handler = 0, in_next = 0\<rparr>), vectors = (\<lambda>_. far_null),
       i_sch = w_sched, i_hw = []\<rparr>\<rparr>"

lemma w_ready: "ready w_fenv id"
  by (simp add: ready_def w_fenv_def FDD_STAT_RQM_def FDD_STAT_DIO_def)

lemma w_sleeps: "sleeps w_fenv id u"
  by (simp add: sleeps_def w_fenv_def keeps_def)

lemma w_completes: "completes w_fenv id 0"
  by (simp add: completes_def w_fenv_def keeps_def FDD_ST0_IC_def FDD_ST0_IC_OK_def)

lemma w_place: "fdd_spt CMOS_FDD_1_44 = Some 18" "fdd_chs 18 20 = (0, 1, 3)" "KLINEAR (0x1000, 0) = 0x10000" "KLINEAR (0x1ff8, 0) = 0x1ff80"
    "KLINEAR (0x2000, 0) = 0x20000"
  by (simp_all add: fdd_spt_def cmos_types fdd_chs_def KLINEAR_def)




theorem fdd_work_overrun_witness:
  "\<exists>n d'. fdd_span 18 3 1024 (0x1ff8, 0x7f) (0x2000, 0) = (True, 0x20000, int n) \<and> 1 < n \<and>
     dma_setup chip_bus FDD_DRQ 0x20000 (word_of_int (int n * 512)) DMA_MODE_WRITE w_dma = Ok (0, d') \<and>
     0x20200 \<in> set (transfer FDD_DRQ (dma_hw d'))"
proof -
  have k: "KLINEAR (0x1ff8, 0x7f) = 0x1ffff" by (simp add: KLINEAR_def)
  show ?thesis
    using fdd_work_overrun [OF w_place(1,2), of 1024 "(0x1ff8, 0x7f)" "(0x2000, 0)" w_dma DMA_MODE_WRITE] unfolding w_place k
    by (fastforce simp: MAX_ADDRESS_def w_dma_def)
qed

theorem fdd_motors_witness:
  "\<exists>s'. motor_pass w_fenv [0..<fd_n w_fdd] w_fdd = Ok s' \<and> fd_motor_bits s' AND FDD_DOR_MOT 0 = 0"
proof -
  have e: "fd_n w_fdd = 1" "0 < fd_motor_cs w_fdd" "fd_units w_fdd 0 = w_unit" by (simp_all add: w_fdd_def)
  then have "inj_on (\<lambda>u. fu_drive (fd_units w_fdd u) mod 4) {..<fd_n w_fdd}" by (simp add: inj_on_def)
  then obtain s' where s': "motor_pass w_fenv [0..<fd_n w_fdd] w_fdd = Ok s'"
      "\<forall>u < fd_n w_fdd. (fd_motor_bits s' AND FDD_DOR_MOT (fu_drive (fd_units w_fdd u)) \<noteq> 0) =
        (fd_motor_bits w_fdd AND FDD_DOR_MOT (fu_drive (fd_units w_fdd u)) \<noteq> 0 \<and> (4 < fu_motor (fd_units w_fdd u) \<or> fu_state (fd_units w_fdd u) \<noteq> Fdd_idle))"
    using fdd_motors [OF e(2), of w_fenv] by blast
  have "fd_motor_bits s' AND FDD_DOR_MOT 0 = 0" using s'(2) by (simp add: e(1,3) w_unit_def)
  then show ?thesis using s'(1) by blast
qed

end
