(* ===== verification/Dis386.thy ===== *)
theory Dis386
  imports Printk
begin

text \<open>
  The disassembler \<open>kernel/dis386.c\<close>. The code is the segment it is in, bytes by their 16-bit
  offset; the text buffers are strings. What the code finds behind a buffer's end only after
  writing there is the check at the end of \<open>disasm\<close>, a call of \<open>panic\<close>.
\<close>

section \<open>Codes of the tables\<close>

text \<open>Addressing methods, operand types, and the numbers of the registers.\<close>

abbreviation (input) AM_A :: nat where "AM_A \<equiv> 0"
abbreviation (input) AM_C :: nat where "AM_C \<equiv> 1"
abbreviation (input) AM_D :: nat where "AM_D \<equiv> 2"
abbreviation (input) AM_E :: nat where "AM_E \<equiv> 3"
abbreviation (input) AM_F :: nat where "AM_F \<equiv> 4"
abbreviation (input) AM_G :: nat where "AM_G \<equiv> 5"
abbreviation (input) AM_I :: nat where "AM_I \<equiv> 6"
abbreviation (input) AM_J :: nat where "AM_J \<equiv> 7"
abbreviation (input) AM_M :: nat where "AM_M \<equiv> 8"
abbreviation (input) AM_O :: nat where "AM_O \<equiv> 9"
abbreviation (input) AM_R :: nat where "AM_R \<equiv> 10"
abbreviation (input) AM_S :: nat where "AM_S \<equiv> 11"
abbreviation (input) AM_T :: nat where "AM_T \<equiv> 12"
abbreviation (input) AM_X :: nat where "AM_X \<equiv> 13"
abbreviation (input) AM_Y :: nat where "AM_Y \<equiv> 14"
abbreviation (input) AM_REG :: nat where "AM_REG \<equiv> 15"
abbreviation (input) AM_REGB :: nat where "AM_REGB \<equiv> 16"
abbreviation (input) AM_REGS :: nat where "AM_REGS \<equiv> 17"
abbreviation (input) AM_CONST :: nat where "AM_CONST \<equiv> 18"
abbreviation (input) AM_NONE :: nat where "AM_NONE \<equiv> 31"
abbreviation (input) OT_a :: nat where "OT_a \<equiv> 0"
abbreviation (input) OT_b :: nat where "OT_b \<equiv> 1"
abbreviation (input) OT_c :: nat where "OT_c \<equiv> 2"
abbreviation (input) OT_d :: nat where "OT_d \<equiv> 3"
abbreviation (input) OT_p :: nat where "OT_p \<equiv> 4"
abbreviation (input) OT_s :: nat where "OT_s \<equiv> 5"
abbreviation (input) OT_v :: nat where "OT_v \<equiv> 6"
abbreviation (input) OT_w :: nat where "OT_w \<equiv> 7"
abbreviation (input) R_AX :: nat where "R_AX \<equiv> 0"
abbreviation (input) R_CX :: nat where "R_CX \<equiv> 1"
abbreviation (input) R_DX :: nat where "R_DX \<equiv> 2"
abbreviation (input) R_BX :: nat where "R_BX \<equiv> 3"
abbreviation (input) R_SP :: nat where "R_SP \<equiv> 4"
abbreviation (input) R_BP :: nat where "R_BP \<equiv> 5"
abbreviation (input) R_SI :: nat where "R_SI \<equiv> 6"
abbreviation (input) R_DI :: nat where "R_DI \<equiv> 7"
abbreviation (input) S_ES :: nat where "S_ES \<equiv> 0"
abbreviation (input) S_CS :: nat where "S_CS \<equiv> 1"
abbreviation (input) S_SS :: nat where "S_SS \<equiv> 2"
abbreviation (input) S_DS :: nat where "S_DS \<equiv> 3"
abbreviation (input) S_FS :: nat where "S_FS \<equiv> 4"
abbreviation (input) S_GS :: nat where "S_GS \<equiv> 5"
abbreviation (input) B_AL :: nat where "B_AL \<equiv> 0"
abbreviation (input) B_CL :: nat where "B_CL \<equiv> 1"
abbreviation (input) B_DL :: nat where "B_DL \<equiv> 2"
abbreviation (input) B_BL :: nat where "B_BL \<equiv> 3"
abbreviation (input) B_AH :: nat where "B_AH \<equiv> 0"
abbreviation (input) B_CH :: nat where "B_CH \<equiv> 1"
abbreviation (input) B_DH :: nat where "B_DH \<equiv> 2"
abbreviation (input) B_BH :: nat where "B_BH \<equiv> 3"

text \<open>The name of an operation, or a group of eight the \<open>reg\<close> field of the mod r/m byte selects from.\<close>

datatype mnemonic = Mne string | Group "string list"

record opcode =
  mne :: mnemonic
  d_add :: nat
  d_opreg :: nat
  s_add :: nat
  s_opreg :: nat
  op3_add :: nat
  op3_opreg :: nat
  modop :: bool

definition TRE_OP :: "string \<Rightarrow> nat \<Rightarrow> nat \<Rightarrow> nat \<Rightarrow> nat \<Rightarrow> nat \<Rightarrow> nat \<Rightarrow> opcode" where
  "TRE_OP m dad dop sad sop tad tp = \<lparr>mne = Mne m, d_add = dad, d_opreg = dop, s_add = sad, s_opreg = sop,
     op3_add = tad, op3_opreg = tp, modop = False\<rparr>"

definition TWO_OP :: "string \<Rightarrow> nat \<Rightarrow> nat \<Rightarrow> nat \<Rightarrow> nat \<Rightarrow> opcode" where
  "TWO_OP m dad dop sad sop = TRE_OP m dad dop sad sop 0 0"

definition ONE_OP :: "string \<Rightarrow> nat \<Rightarrow> nat \<Rightarrow> opcode" where
  "ONE_OP m dad dop = TRE_OP m dad dop 0 0 0 0"

definition IMP :: "string \<Rightarrow> opcode" where
  "IMP m = TRE_OP m 0 0 0 0 0 0"

definition J_OP :: "string \<Rightarrow> opcode" where
  "J_OP m = TRE_OP m AM_J OT_b 0 0 0 0"

definition JV_OP :: "string \<Rightarrow> opcode" where
  "JV_OP m = TRE_OP m AM_J OT_v 0 0 0 0"

definition M_TWO_OP :: "string list \<Rightarrow> nat \<Rightarrow> nat \<Rightarrow> nat \<Rightarrow> nat \<Rightarrow> opcode" where
  "M_TWO_OP m dad dop sad sop = \<lparr>mne = Group m, d_add = dad, d_opreg = dop, s_add = sad, s_opreg = sop,
     op3_add = 0, op3_opreg = 0, modop = True\<rparr>"

definition M_ONE_OP :: "string list \<Rightarrow> nat \<Rightarrow> nat \<Rightarrow> opcode" where
  "M_ONE_OP m dad dop = M_TWO_OP m dad dop 0 0"

definition group1 :: "string list" where
  "group1 = [''ADD'', ''OR'', ''ADC'', ''SBB'', ''AND'', ''SUB'', ''XOR'', ''CMP'']"

definition group2 :: "string list" where
  "group2 = [''ROL'', ''ROR'', ''RCL'', ''RCR'', ''SHL'', ''SHR'', ''SHL'', ''SAR'']"

definition group3 :: "string list" where
  "group3 = [''TEST'', ''TEST'', ''NOT'', ''NEG'', ''MUL'', ''IMUL'', ''DIV'', ''IDIV'']"

definition group4 :: "string list" where
  "group4 = [''INC'', ''DEC'', ''???'', ''???'', ''???'', ''???'', ''???'', ''???'']"

definition group5 :: "string list" where
  "group5 = [''INC'', ''DEC'', ''CALL'', ''CALL'', ''JMP'', ''JMP'', ''PUSH'', ''???'']"

definition group6 :: "string list" where
  "group6 = [''SLDT'', ''STR'', ''LLDT'', ''LTR'', ''VERR'', ''VERW'', ''???'', ''???'']"

definition group7 :: "string list" where
  "group7 = [''SGDT'', ''SIDT'', ''LGDT'', ''LIDT'', ''SMSW'', ''???'', ''LMSW'', ''???'']"

definition group8 :: "string list" where
  "group8 = [''???'', ''???'', ''???'', ''???'', ''BT'', ''BTS'', ''BTS'', ''BTC'']"

text \<open>The opcodes, and those after \<open>0x0f\<close>, in two halves each.\<close>

definition opcodes_lo :: "opcode list" where
  "opcodes_lo =
    [TWO_OP ''ADD'' AM_E OT_b AM_G OT_b, TWO_OP ''ADD'' AM_E OT_v AM_G OT_v, TWO_OP ''ADD'' AM_G OT_b AM_E OT_b,
     TWO_OP ''ADD'' AM_G OT_v AM_E OT_v, TWO_OP ''ADD'' AM_REGB B_AL AM_I OT_b, TWO_OP ''ADD'' AM_REG R_AX AM_I OT_v,
     ONE_OP ''PUSH'' AM_REGS S_ES, ONE_OP ''POP'' AM_REGS S_ES, TWO_OP ''OR'' AM_E OT_b AM_G OT_b,
     TWO_OP ''OR'' AM_E OT_v AM_G OT_v, TWO_OP ''OR'' AM_G OT_b AM_E OT_b, TWO_OP ''OR'' AM_G OT_v AM_E OT_v,
     TWO_OP ''OR'' AM_REGB B_AL AM_I OT_b, TWO_OP ''OR'' AM_REG R_AX AM_I OT_v, ONE_OP ''PUSH'' AM_REGS S_CS,
     ONE_OP ''POP'' AM_REGS S_CS, TWO_OP ''ADC'' AM_E OT_b AM_G OT_b, TWO_OP ''ADC'' AM_E OT_v AM_G OT_v,
     TWO_OP ''ADC'' AM_G OT_b AM_E OT_b, TWO_OP ''ADC'' AM_G OT_v AM_E OT_v, TWO_OP ''ADC'' AM_REGB B_AL AM_I OT_b,
     TWO_OP ''ADC'' AM_REG R_AX AM_I OT_v, ONE_OP ''PUSH'' AM_REGS S_SS, ONE_OP ''POP'' AM_REGS S_SS,
     TWO_OP ''SBB'' AM_E OT_b AM_G OT_b, TWO_OP ''SBB'' AM_E OT_v AM_G OT_v, TWO_OP ''SBB'' AM_G OT_b AM_E OT_b,
     TWO_OP ''SBB'' AM_G OT_v AM_E OT_v, TWO_OP ''SBB'' AM_REGB B_AL AM_I OT_b, TWO_OP ''SBB'' AM_REG R_AX AM_I OT_v,
     ONE_OP ''PUSH'' AM_REGS S_DS, ONE_OP ''POP'' AM_REGS S_DS, TWO_OP ''AND'' AM_E OT_b AM_G OT_b,
     TWO_OP ''AND'' AM_E OT_v AM_G OT_v, TWO_OP ''AND'' AM_G OT_b AM_E OT_b, TWO_OP ''AND'' AM_G OT_v AM_E OT_v,
     TWO_OP ''AND'' AM_REGB B_AL AM_I OT_b, TWO_OP ''AND'' AM_REG R_AX AM_I OT_v, IMP ''ES:'', IMP ''DAA'',
     TWO_OP ''SUB'' AM_E OT_b AM_G OT_b, TWO_OP ''SUB'' AM_E OT_v AM_G OT_v, TWO_OP ''SUB'' AM_G OT_b AM_E OT_b,
     TWO_OP ''SUB'' AM_G OT_v AM_E OT_v, TWO_OP ''SUB'' AM_REGB B_AL AM_I OT_b, TWO_OP ''SUB'' AM_REG R_AX AM_I OT_v,
     IMP ''CS:'', IMP ''DAS'', TWO_OP ''XOR'' AM_E OT_b AM_G OT_b, TWO_OP ''XOR'' AM_E OT_v AM_G OT_v,
     TWO_OP ''XOR'' AM_G OT_b AM_E OT_b, TWO_OP ''XOR'' AM_G OT_v AM_E OT_v, TWO_OP ''XOR'' AM_REGB B_AL AM_I OT_b,
     TWO_OP ''XOR'' AM_REG R_AX AM_I OT_v, IMP ''SS:'', IMP ''AAA'', TWO_OP ''CMP'' AM_E OT_b AM_G OT_b,
     TWO_OP ''CMP'' AM_E OT_v AM_G OT_v, TWO_OP ''CMP'' AM_G OT_b AM_E OT_b, TWO_OP ''CMP'' AM_G OT_v AM_E OT_v,
     TWO_OP ''CMP'' AM_REGB B_AL AM_I OT_b, TWO_OP ''CMP'' AM_REG R_AX AM_I OT_v, IMP ''DS:'', IMP ''AAS'',
     ONE_OP ''INC'' AM_REG R_AX, ONE_OP ''INC'' AM_REG R_CX, ONE_OP ''INC'' AM_REG R_DX, ONE_OP ''INC'' AM_REG R_BX,
     ONE_OP ''INC'' AM_REG R_SP, ONE_OP ''INC'' AM_REG R_BP, ONE_OP ''INC'' AM_REG R_SI, ONE_OP ''INC'' AM_REG R_DI,
     ONE_OP ''DEC'' AM_REG R_AX, ONE_OP ''DEC'' AM_REG R_CX, ONE_OP ''DEC'' AM_REG R_DX, ONE_OP ''DEC'' AM_REG R_BX,
     ONE_OP ''DEC'' AM_REG R_SP, ONE_OP ''DEC'' AM_REG R_BP, ONE_OP ''DEC'' AM_REG R_SI, ONE_OP ''DEC'' AM_REG R_DI,
     ONE_OP ''PUSH'' AM_REG R_AX, ONE_OP ''PUSH'' AM_REG R_CX, ONE_OP ''PUSH'' AM_REG R_DX,
     ONE_OP ''PUSH'' AM_REG R_BX, ONE_OP ''PUSH'' AM_REG R_SP, ONE_OP ''PUSH'' AM_REG R_BP,
     ONE_OP ''PUSH'' AM_REG R_SI, ONE_OP ''PUSH'' AM_REG R_DI, ONE_OP ''POP'' AM_REG R_AX,
     ONE_OP ''POP'' AM_REG R_CX, ONE_OP ''POP'' AM_REG R_DX, ONE_OP ''POP'' AM_REG R_BX, ONE_OP ''POP'' AM_REG R_SP,
     ONE_OP ''POP'' AM_REG R_BP, ONE_OP ''POP'' AM_REG R_SI, ONE_OP ''POP'' AM_REG R_DI, IMP ''PUSHA'', IMP ''POPA'',
     TWO_OP ''BOUND'' AM_G OT_v AM_M OT_a, TWO_OP ''ARPL'' AM_E OT_w AM_R OT_w, IMP ''FS:'', IMP ''GS:'',
     IMP ''OPSIZE'', IMP ''ADSIZE'', ONE_OP ''PUSH'' AM_I OT_v, TRE_OP ''IMIL'' AM_G OT_v AM_E OT_v AM_I OT_v,
     ONE_OP ''PUSH'' AM_I OT_b, TRE_OP ''IMIL'' AM_G OT_v AM_E OT_v AM_I OT_b, TWO_OP ''INSB'' AM_Y OT_b AM_REG R_DX,
     TWO_OP ''INSW'' AM_Y OT_v AM_REG R_DX, TWO_OP ''OUTSB'' AM_REG R_DX AM_X OT_b,
     TWO_OP ''OUTSW'' AM_REG R_DX AM_X OT_v, J_OP ''JO'', J_OP ''JNO'', J_OP ''JB'', J_OP ''JNB'', J_OP ''JZ'',
     J_OP ''JNZ'', J_OP ''JBE'', J_OP ''JNBE'', J_OP ''JS'', J_OP ''JNS'', J_OP ''JP'', J_OP ''JNP'', J_OP ''JL'',
     J_OP ''JNL'', J_OP ''JLE'', J_OP ''JNLE'']"

definition opcodes_hi :: "opcode list" where
  "opcodes_hi =
    [M_TWO_OP group1 AM_E OT_b AM_I OT_b, M_TWO_OP group1 AM_E OT_v AM_I OT_v, TWO_OP ''MOV'' AM_REGB B_AL AM_I OT_b,
     M_TWO_OP group1 AM_E OT_v AM_I OT_b, TWO_OP ''TEST'' AM_E OT_b AM_G OT_b, TWO_OP ''TEST'' AM_E OT_v AM_G OT_v,
     TWO_OP ''XCHG'' AM_E OT_b AM_G OT_b, TWO_OP ''XCHG'' AM_E OT_v AM_G OT_v, TWO_OP ''MOV'' AM_E OT_b AM_G OT_b,
     TWO_OP ''MOV'' AM_E OT_v AM_G OT_v, TWO_OP ''MOV'' AM_G OT_b AM_E OT_b, TWO_OP ''MOV'' AM_G OT_v AM_E OT_v,
     TWO_OP ''MOV'' AM_E OT_w AM_S OT_w, TWO_OP ''LEA'' AM_G OT_v AM_M 0, TWO_OP ''MOV'' AM_S OT_w AM_E OT_w,
     ONE_OP ''POP'' AM_E OT_v, IMP ''NOP'', TWO_OP ''XCHG'' AM_REG R_AX AM_REG R_CX,
     TWO_OP ''XCHG'' AM_REG R_AX AM_REG R_DX, TWO_OP ''XCHG'' AM_REG R_AX AM_REG R_BX,
     TWO_OP ''XCHG'' AM_REG R_AX AM_REG R_SP, TWO_OP ''XCHG'' AM_REG R_AX AM_REG R_BP,
     TWO_OP ''XCHG'' AM_REG R_AX AM_REG R_SI, TWO_OP ''XCHG'' AM_REG R_AX AM_REG R_DI, IMP ''CBW'', IMP ''CWD'',
     ONE_OP ''CALL'' AM_A OT_p, IMP ''WAIT'', IMP ''PUSHF'', IMP ''POPF'', IMP ''SAHF'', IMP ''LAHF'',
     TWO_OP ''MOV'' AM_REGB B_AL AM_O OT_b, TWO_OP ''MOV'' AM_REG R_AX AM_O OT_v,
     TWO_OP ''MOV'' AM_O OT_b AM_REGB B_AL, TWO_OP ''MOV'' AM_O OT_v AM_REG R_AX,
     TWO_OP ''MOVS'' AM_Y OT_b AM_X OT_b, TWO_OP ''MOVS'' AM_Y OT_v AM_X OT_v, TWO_OP ''CMPS'' AM_X OT_b AM_Y OT_b,
     TWO_OP ''CMPS'' AM_X OT_v AM_Y OT_v, TWO_OP ''TEST'' AM_REGB B_AL AM_I OT_b,
     TWO_OP ''TEST'' AM_REG R_AX AM_I OT_v, TWO_OP ''STOS'' AM_Y OT_b AM_REGB B_AL,
     TWO_OP ''STOS'' AM_Y OT_v AM_REG R_AX, TWO_OP ''LODS'' AM_REGB B_AL AM_X OT_b,
     TWO_OP ''LODS'' AM_REG R_AX AM_X OT_v, TWO_OP ''SCAS'' AM_REGB B_AL AM_X OT_b,
     TWO_OP ''SCAS'' AM_REG R_AX AM_X OT_v, TWO_OP ''MOV'' AM_REGB B_AL AM_I OT_b,
     TWO_OP ''MOV'' AM_REGB B_CL AM_I OT_b, TWO_OP ''MOV'' AM_REGB B_DL AM_I OT_b,
     TWO_OP ''MOV'' AM_REGB B_BL AM_I OT_b, TWO_OP ''MOV'' AM_REGB B_AH AM_I OT_b,
     TWO_OP ''MOV'' AM_REGB B_CH AM_I OT_b, TWO_OP ''MOV'' AM_REGB B_DH AM_I OT_b,
     TWO_OP ''MOV'' AM_REGB B_BH AM_I OT_b, TWO_OP ''MOV'' AM_REG R_AX AM_I OT_v,
     TWO_OP ''MOV'' AM_REG R_CX AM_I OT_v, TWO_OP ''MOV'' AM_REG R_DX AM_I OT_v,
     TWO_OP ''MOV'' AM_REG R_BX AM_I OT_v, TWO_OP ''MOV'' AM_REG R_SP AM_I OT_v,
     TWO_OP ''MOV'' AM_REG R_BP AM_I OT_v, TWO_OP ''MOV'' AM_REG R_SI AM_I OT_v,
     TWO_OP ''MOV'' AM_REG R_DI AM_I OT_v, M_TWO_OP group2 AM_E OT_b AM_I OT_b, M_TWO_OP group2 AM_E OT_v AM_I OT_b,
     ONE_OP ''RET'' AM_I OT_w, IMP ''RET'', TWO_OP ''LES'' AM_G OT_v AM_M OT_p, TWO_OP ''LDS'' AM_G OT_v AM_M OT_p,
     TWO_OP ''MOV'' AM_E OT_b AM_I OT_b, TWO_OP ''MOV'' AM_E OT_v AM_I OT_v, TWO_OP ''ENTER'' AM_I OT_w AM_I OT_b,
     IMP ''LEAVE'', ONE_OP ''RETF'' AM_I OT_w, IMP ''RETF'', IMP ''INT3'', ONE_OP ''INT'' AM_I OT_b, IMP ''INTO'',
     IMP ''IRET'', M_TWO_OP group2 AM_E OT_b AM_CONST 1, M_TWO_OP group2 AM_E OT_v AM_CONST 1,
     M_TWO_OP group2 AM_E OT_b AM_REGB B_CL, M_TWO_OP group2 AM_E OT_v AM_REGB B_CL, IMP ''AAM'', IMP ''AAD'',
     IMP ''???'', IMP ''XLAT'', ONE_OP ''ESC0'' AM_E OT_d, ONE_OP ''ESC1'' AM_E OT_d, ONE_OP ''ESC2'' AM_E OT_d,
     ONE_OP ''ESC3'' AM_E OT_d, ONE_OP ''ESC4'' AM_E OT_d, ONE_OP ''ESC5'' AM_E OT_d, ONE_OP ''ESC6'' AM_E OT_d,
     ONE_OP ''ESC7'' AM_E OT_d, J_OP ''LOOPNE'', J_OP ''LOOPE'', J_OP ''LOOP'', J_OP ''JCXZ'',
     TWO_OP ''IN'' AM_REGB B_AL AM_I OT_b, TWO_OP ''IN'' AM_REG R_AX AM_I OT_v,
     TWO_OP ''OUT'' AM_I OT_b AM_REGB B_AL, TWO_OP ''OUT'' AM_I OT_v AM_REG R_AX, ONE_OP ''CALL'' AM_J OT_v,
     ONE_OP ''JMP'' AM_J OT_v, ONE_OP ''JMP'' AM_A OT_p, ONE_OP ''JMP'' AM_J OT_b,
     TWO_OP ''IN'' AM_REGB B_AL AM_REG R_DX, TWO_OP ''IN'' AM_REG R_AX AM_REG R_DX,
     TWO_OP ''OUT'' AM_REG R_DX AM_REGB B_AL, TWO_OP ''OUT'' AM_REG R_DX AM_REG R_AX, IMP ''LOCK'', IMP ''???'',
     IMP ''REPNE'', IMP ''REP'', IMP ''HLT'', IMP ''CMC'', M_ONE_OP group3 AM_E OT_b, M_ONE_OP group3 AM_E OT_v,
     IMP ''CLC'', IMP ''STC'', IMP ''CLI'', IMP ''STI'', IMP ''CLD'', IMP ''STD'', M_ONE_OP group4 AM_E OT_b,
     M_ONE_OP group5 AM_E OT_v]"

definition extopcodes_lo :: "opcode list" where
  "extopcodes_lo =
    [M_ONE_OP group6 AM_E OT_w, M_ONE_OP group7 AM_M OT_s, TWO_OP ''LAR'' AM_G OT_v AM_E OT_w,
     TWO_OP ''LSL'' AM_G OT_v AM_E OT_w, IMP ''???'', IMP ''???'', IMP ''CLTS'', IMP ''???'', IMP ''???'',
     IMP ''???'', IMP ''???'', IMP ''???'', IMP ''???'', IMP ''???'', IMP ''???'', IMP ''???'', IMP ''???'',
     IMP ''???'', IMP ''???'', IMP ''???'', IMP ''???'', IMP ''???'', IMP ''???'', IMP ''???'', IMP ''???'',
     IMP ''???'', IMP ''???'', IMP ''???'', IMP ''???'', IMP ''???'', IMP ''???'', IMP ''???'',
     TWO_OP ''MOV'' AM_R OT_d AM_C OT_d, TWO_OP ''MOV'' AM_R OT_d AM_D OT_d, TWO_OP ''MOV'' AM_C OT_d AM_R OT_d,
     TWO_OP ''MOV'' AM_D OT_d AM_R OT_d, TWO_OP ''MOV'' AM_R OT_d AM_T OT_d, IMP ''???'',
     TWO_OP ''MOV'' AM_T OT_d AM_R OT_d, IMP ''???'', IMP ''???'', IMP ''???'', IMP ''???'', IMP ''???'',
     IMP ''???'', IMP ''???'', IMP ''???'', IMP ''???'', IMP ''???'', IMP ''???'', IMP ''???'', IMP ''???'',
     IMP ''???'', IMP ''???'', IMP ''???'', IMP ''???'', IMP ''???'', IMP ''???'', IMP ''???'', IMP ''???'',
     IMP ''???'', IMP ''???'', IMP ''???'', IMP ''???'', IMP ''???'', IMP ''???'', IMP ''???'', IMP ''???'',
     IMP ''???'', IMP ''???'', IMP ''???'', IMP ''???'', IMP ''???'', IMP ''???'', IMP ''???'', IMP ''???'',
     IMP ''???'', IMP ''???'', IMP ''???'', IMP ''???'', IMP ''???'', IMP ''???'', IMP ''???'', IMP ''???'',
     IMP ''???'', IMP ''???'', IMP ''???'', IMP ''???'', IMP ''???'', IMP ''???'', IMP ''???'', IMP ''???'',
     IMP ''???'', IMP ''???'', IMP ''???'', IMP ''???'', IMP ''???'', IMP ''???'', IMP ''???'', IMP ''???'',
     IMP ''???'', IMP ''???'', IMP ''???'', IMP ''???'', IMP ''???'', IMP ''???'', IMP ''???'', IMP ''???'',
     IMP ''???'', IMP ''???'', IMP ''???'', IMP ''???'', IMP ''???'', IMP ''???'', IMP ''???'', IMP ''???'',
     IMP ''???'', IMP ''???'', IMP ''???'', IMP ''???'', IMP ''???'', IMP ''???'', IMP ''???'', IMP ''???'',
     IMP ''???'', IMP ''???'', IMP ''???'', IMP ''???'']"

definition extopcodes_hi :: "opcode list" where
  "extopcodes_hi =
    [JV_OP ''JO'', JV_OP ''JNO'', JV_OP ''JB'', JV_OP ''JNB'', JV_OP ''JZ'', JV_OP ''JNZ'', JV_OP ''JBE'',
     JV_OP ''JNBE'', JV_OP ''JS'', JV_OP ''JNS'', JV_OP ''JP'', JV_OP ''JNP'', JV_OP ''JL'', JV_OP ''JNL'',
     JV_OP ''JLE'', JV_OP ''JNLE'', ONE_OP ''SETO'' AM_E OT_b, ONE_OP ''SETNO'' AM_E OT_b, ONE_OP ''SETB'' AM_E OT_b,
     ONE_OP ''SETNB'' AM_E OT_b, ONE_OP ''SETZ'' AM_E OT_b, ONE_OP ''SETNZ'' AM_E OT_b, ONE_OP ''SETBE'' AM_E OT_b,
     ONE_OP ''SETNBE'' AM_E OT_b, ONE_OP ''SETS'' AM_E OT_b, ONE_OP ''SETNS'' AM_E OT_b, ONE_OP ''SETP'' AM_E OT_b,
     ONE_OP ''SETNP'' AM_E OT_b, ONE_OP ''SETL'' AM_E OT_b, ONE_OP ''SETNL'' AM_E OT_b, ONE_OP ''SETLE'' AM_E OT_b,
     ONE_OP ''SETNLE'' AM_E OT_b, ONE_OP ''PUSH'' AM_REGS S_FS, ONE_OP ''POP'' AM_REGS S_FS, IMP ''???'',
     IMP ''???'', TWO_OP ''BT'' AM_E OT_v AM_G OT_v, TRE_OP ''SHLD'' AM_E OT_v AM_G OT_v AM_I OT_b,
     TRE_OP ''SHLD'' AM_E OT_v AM_G OT_v AM_REGB B_CL, IMP ''???'', ONE_OP ''PUSH'' AM_REGS S_GS,
     ONE_OP ''POP'' AM_REGS S_GS, IMP ''???'', TWO_OP ''BT'' AM_E OT_v AM_G OT_v,
     TRE_OP ''SHLD'' AM_E OT_v AM_G OT_v AM_I OT_b, TRE_OP ''SHLD'' AM_E OT_v AM_G OT_v AM_REGB B_CL, IMP ''???'',
     TWO_OP ''IMUL'' AM_G OT_v AM_E OT_v, IMP ''???'', IMP ''???'', ONE_OP ''LSS'' AM_M OT_p,
     TWO_OP ''BTR'' AM_E OT_v AM_G OT_v, ONE_OP ''LFS'' AM_M OT_p, ONE_OP ''LGS'' AM_M OT_p,
     TWO_OP ''MOVZX'' AM_G OT_v AM_E OT_b, TWO_OP ''MOVZX'' AM_G OT_v AM_E OT_w, IMP ''???'', IMP ''???'',
     M_TWO_OP group8 AM_E OT_v AM_I OT_b, TWO_OP ''BTC'' AM_E OT_v AM_G OT_v, TWO_OP ''BSF'' AM_E OT_v AM_G OT_v,
     TWO_OP ''BSR'' AM_E OT_v AM_G OT_v, TWO_OP ''MOVSX'' AM_G OT_v AM_E OT_b, TWO_OP ''MOVSX'' AM_G OT_v AM_E OT_w,
     IMP ''???'', IMP ''???'', IMP ''???'', IMP ''???'', IMP ''???'', IMP ''???'', IMP ''???'', IMP ''???'',
     IMP ''???'', IMP ''???'', IMP ''???'', IMP ''???'', IMP ''???'', IMP ''???'', IMP ''???'', IMP ''???'',
     IMP ''???'', IMP ''???'', IMP ''???'', IMP ''???'', IMP ''???'', IMP ''???'', IMP ''???'', IMP ''???'',
     IMP ''???'', IMP ''???'', IMP ''???'', IMP ''???'', IMP ''???'', IMP ''???'', IMP ''???'', IMP ''???'',
     IMP ''???'', IMP ''???'', IMP ''???'', IMP ''???'', IMP ''???'', IMP ''???'', IMP ''???'', IMP ''???'',
     IMP ''???'', IMP ''???'', IMP ''???'', IMP ''???'', IMP ''???'', IMP ''???'', IMP ''???'', IMP ''???'',
     IMP ''???'', IMP ''???'', IMP ''???'', IMP ''???'', IMP ''???'', IMP ''???'', IMP ''???'', IMP ''???'',
     IMP ''???'', IMP ''???'', IMP ''???'', IMP ''???'', IMP ''???'', IMP ''???'', IMP ''???'', IMP ''???'']"

definition opcodes :: "opcode list" where "opcodes = opcodes_lo @ opcodes_hi"
definition extopcodes :: "opcode list" where "extopcodes = extopcodes_lo @ extopcodes_hi"

definition wregs :: "string list" where
  "wregs = [''AX'', ''CX'', ''DX'', ''BX'', ''SP'', ''BP'', ''SI'', ''DI'']"

definition bregs :: "string list" where
  "bregs = [''AL'', ''CL'', ''DL'', ''BL'', ''AH'', ''CH'', ''DH'', ''BH'']"

definition sregs :: "string list" where
  "sregs = [''ES'', ''CS'', ''SS'', ''DS'', ''FS'', ''GS'', ''??'', ''??'']"

definition baseindex :: "string list" where
  "baseindex = [''BX+SI'', ''BX+DI'', ''BP+SI'', ''BP+DI'', ''SI'', ''DI'', ''BP'', ''BX'']"

section \<open>The state of the decoder\<close>

definition MODRM_MOD :: "u8 \<Rightarrow> nat" where "MODRM_MOD x = unat (drop_bit 6 x AND 3)"
definition MODRM_REG :: "u8 \<Rightarrow> nat" where "MODRM_REG x = unat (drop_bit 3 x AND 7)"
definition MODRM_RM :: "u8 \<Rightarrow> nat" where "MODRM_RM x = unat (x AND 7)"

datatype segs = SEG_NONE | SEG_CS | SEG_DS | SEG_ES | SEG_SS | SEG_FS | SEG_GS
datatype rept = REP_NONE | REP_REP | REP_REPNE

record distate =
  ds_code :: u16
  ds_args :: string
  ds_modrm :: u8
  addr32 :: bool
  data32 :: bool
  ds_lock :: bool
  ds_seg :: segs
  ds_rep :: rept

type_synonym codeseg = "u16 \<Rightarrow> u8"

definition put :: "string \<Rightarrow> distate \<Rightarrow> distate" where
  "put x st = st\<lparr>ds_args := ds_args st @ x\<rparr>"

text \<open>The formats in use take no strings, so \<open>sprintf\<close> needs no memory.\<close>

definition fmt :: "string \<Rightarrow> u16 list \<Rightarrow> string" where
  "fmt f va = (case sprintf \<lparr>near_str = (\<lambda>_. []), far_str = (\<lambda>_. [])\<rparr> f va of Some (x, _) \<Rightarrow> x | None \<Rightarrow> [])"

text \<open>A \<open>uint32_t\<close> argument is two words.\<close>

definition words :: "u32 \<Rightarrow> u16 list" where
  "words v = [ucast v, ucast (drop_bit 16 v)]"

definition next_byte :: "codeseg \<Rightarrow> distate \<Rightarrow> u8 \<times> distate" where
  "next_byte m st = (m (ds_code st), st\<lparr>ds_code := ds_code st + 1\<rparr>)"

fun extract_loop :: "codeseg \<Rightarrow> nat \<Rightarrow> nat \<Rightarrow> u32 \<Rightarrow> distate \<Rightarrow> u32 \<times> distate" where
  "extract_loop m i 0 val st = (val, st)"
| "extract_loop m i (Suc n) val st =
     (let (b, st1) = next_byte m st in extract_loop m (i + 1) n (val OR push_bit (i * 8) (ucast b)) st1)"

definition extractv :: "codeseg \<Rightarrow> nat \<Rightarrow> distate \<Rightarrow> u32 \<times> distate" where
  "extractv m bytes st = extract_loop m 0 bytes 0 st"

definition sextract :: "codeseg \<Rightarrow> nat \<Rightarrow> distate \<Rightarrow> u32 \<times> distate" where
  "sextract m bytes st =
     (let (val, st1) = extractv m bytes st
      in (if bytes = 1 then scast (ucast val :: u8) else if bytes = 2 then scast (ucast val :: u16) else val, st1))"

text \<open>The effect of one prefix byte, or \<open>None\<close> when it is not one.\<close>

definition prefix1 :: "u8 \<Rightarrow> distate \<Rightarrow> distate option" where
  "prefix1 b st =
     (if b = 0x2e then Some (st\<lparr>ds_seg := SEG_CS\<rparr>)
      else if b = 0x36 then Some (st\<lparr>ds_seg := SEG_SS\<rparr>)
      else if b = 0x3e then Some (st\<lparr>ds_seg := SEG_DS\<rparr>)
      else if b = 0x26 then Some (st\<lparr>ds_seg := SEG_ES\<rparr>)
      else if b = 0x64 then Some (st\<lparr>ds_seg := SEG_FS\<rparr>)
      else if b = 0x65 then Some (st\<lparr>ds_seg := SEG_GS\<rparr>)
      else if b = 0x66 then Some (st\<lparr>data32 := True\<rparr>)
      else if b = 0x67 then Some (st\<lparr>addr32 := True\<rparr>)
      else if b = 0xf0 then Some (st\<lparr>ds_lock := True\<rparr>)
      else if b = 0xf2 then Some (st\<lparr>ds_rep := REP_REPNE\<rparr>)
      else if b = 0xf3 then Some (st\<lparr>ds_rep := REP_REP\<rparr>)
      else None)"

partial_function (option) prefix_loop :: "codeseg \<Rightarrow> distate \<Rightarrow> distate option" where
  "prefix_loop m st =
     (case prefix1 (m (ds_code st)) st of
        None \<Rightarrow> Some st
      | Some st1 \<Rightarrow> prefix_loop m (st1\<lparr>ds_code := ds_code st1 + 1\<rparr>))"

definition prefix :: "codeseg \<Rightarrow> distate \<Rightarrow> distate option" where
  "prefix m st = prefix_loop m (st\<lparr>addr32 := False, data32 := False, ds_lock := False, ds_seg := SEG_NONE, ds_rep := REP_NONE\<rparr>)"

definition get_opadd :: "opcode \<Rightarrow> nat \<Rightarrow> nat \<times> nat" where
  "get_opadd popc i =
     (if i = 0 then (d_add popc, d_opreg popc) else if i = 1 then (s_add popc, s_opreg popc)
      else if i = 2 then (op3_add popc, op3_opreg popc) else (0, 0))"

definition modrm_add :: "nat \<Rightarrow> bool" where
  "modrm_add a \<longleftrightarrow> a \<in> {AM_C, AM_D, AM_E, AM_G, AM_M, AM_R, AM_S, AM_T}"

fun need_modrm_from :: "opcode \<Rightarrow> nat list \<Rightarrow> bool" where
  "need_modrm_from popc [] = False"
| "need_modrm_from popc (i # is) =
     (if get_opadd popc i = (0, 0) then False
      else if modrm_add (fst (get_opadd popc i)) then True else need_modrm_from popc is)"

definition need_modrm :: "opcode \<Rightarrow> bool" where
  "need_modrm popc = need_modrm_from popc [0, 1, 2]"

section \<open>Operands\<close>

definition decode_sib :: "codeseg \<Rightarrow> distate \<Rightarrow> distate" where
  "decode_sib m st =
     (let (sib, st1) = next_byte m st;
          ss = (2 :: nat) ^ MODRM_MOD sib; index = MODRM_REG sib; base = MODRM_RM sib; md = MODRM_MOD (ds_modrm st);
          plus = \<not> (md = 0 \<and> base = 5);
          st2 = put ''['' st1;
          st3 = (if plus then put (''E'' @ wregs ! base) st2 else st2);
          st4 = (if index \<noteq> 4
                 then put ((if plus then ''+'' else []) @ ''E'' @ wregs ! index @ (if ss \<noteq> 1 then ''*'' @ fmt ''%u'' [of_nat ss] else [])) st3
                 else st3);
          plus' = (plus \<or> index \<noteq> 4);
          st5 = (if md = 1 \<or> md = 2
                 then (let (disp, st5) = extractv m (if md = 1 then 1 else 4) st4
                       in if disp \<noteq> 0
                          then put ((if plus' then ''+'' else [])
                                 @ (if md = 1 then fmt ''%02x'' [ucast disp] else fmt ''%08lx'' (words disp))) st5
                          else st5)
                 else st4)
      in put '']'' st5)"

definition seg_override :: "distate \<Rightarrow> string" where
  "seg_override st =
     (case ds_seg st of SEG_CS \<Rightarrow> ''CS:'' | SEG_DS \<Rightarrow> ''DS:'' | SEG_ES \<Rightarrow> ''ES:'' | SEG_SS \<Rightarrow> ''SS:''
      | SEG_FS \<Rightarrow> ''FS:'' | SEG_GS \<Rightarrow> ''GS:'' | SEG_NONE \<Rightarrow> [])"

text \<open>The size of a memory operand.\<close>

definition size_ptr :: "distate \<Rightarrow> nat \<Rightarrow> string" where
  "size_ptr st oper =
     (if oper = OT_b then ''BYTE PTR ''
      else if oper = OT_w \<or> oper = OT_v \<and> \<not> data32 st then ''WORD PTR ''
      else if oper = OT_d \<or> oper = OT_v \<and> data32 st then ''DWORD PTR ''
      else [])"

definition decode_modrm :: "codeseg \<Rightarrow> nat \<Rightarrow> distate \<Rightarrow> distate" where
  "decode_modrm m oper st =
     (let md = MODRM_MOD (ds_modrm st); rm = MODRM_RM (ds_modrm st)
      in if md = 3 then
           (if oper = OT_b then put (bregs ! rm) st
            else put ((if oper = OT_d \<or> oper = OT_v \<and> data32 st then ''E'' else []) @ wregs ! rm) st)
         else (let st1 = put (size_ptr st oper @ seg_override st) st
               in if md = 0 \<and> addr32 st \<and> rm = 5 then
                    (let (disp, st2) = extractv m 4 st1 in put (''['' @ fmt ''%08lx'' (words disp) @ '']'') st2)
                  else if md = 0 \<and> \<not> addr32 st \<and> rm = 6 then
                    (let (disp, st2) = extractv m 2 st1 in put (''['' @ fmt ''%04x'' [ucast disp] @ '']'') st2)
                  else if addr32 st \<and> rm = 4 then decode_sib m st1
                  else (let st2 = put (''['' @ (if addr32 st then ''E'' @ wregs ! rm else baseindex ! rm)) st1;
                            st3 = (if md = 1 \<or> md = 2
                                   then (let (disp, st3) = extractv m (if addr32 st \<and> md = 2 then 4 else md) st2
                                         in if disp \<noteq> 0
                                            then put (if md = 1 then ''+'' @ fmt ''%02x'' [ucast disp]
                                                      else if addr32 st then ''+'' @ fmt ''%08lx'' (words disp)
                                                      else ''+'' @ fmt ''%04x'' [ucast disp]) st3
                                            else st3)
                                   else st2)
                        in put '']'' st3)))"

text \<open>The switch on the addressing method. A relative jump adds the length so far to \<open>offset\<close>.\<close>

definition operand :: "codeseg \<Rightarrow> u16 \<Rightarrow> nat \<Rightarrow> nat \<Rightarrow> u32 \<times> distate \<Rightarrow> u32 \<times> distate" where
  "operand m csip add opreg = (\<lambda>(offset, st).
     if add = AM_A then
       (let (offs, st1) = extractv m 2 st; (sg, st2) = extractv m 2 st1
        in (offset, put (fmt ''%04x:%04x'' [ucast sg, ucast offs]) st2))
     else if add = AM_C then (offset, put (fmt ''CR%u'' [of_nat (MODRM_REG (ds_modrm st))]) st)
     else if add = AM_D then (offset, put (fmt ''DR%u'' [of_nat (MODRM_REG (ds_modrm st))]) st)
     else if add = AM_E \<or> add = AM_M then (offset, decode_modrm m opreg st)
     else if add = AM_G then
       (offset, if opreg = OT_b then put (bregs ! MODRM_REG (ds_modrm st)) st
                else if opreg = OT_v then put ((if data32 st then ''E'' else []) @ wregs ! MODRM_REG (ds_modrm st)) st
                else st)
     else if add = AM_I then
       (offset, if opreg = OT_b then (let (v, st1) = extractv m 1 st in put (fmt ''%02x'' [ucast v]) st1)
                else if opreg = OT_w then (let (v, st1) = extractv m 2 st in put (fmt ''%04x'' [ucast v]) st1)
                else if opreg = OT_v then
                  (let (v, st1) = extractv m (if data32 st then 4 else 2) st
                   in put (fmt (if data32 st then ''%08lx'' else ''%04x'') (words v)) st1)
                else st)
     else if add = AM_J then
       (let (disp, st1) = sextract m (if opreg = OT_v then (if addr32 st then 4 else 2) else 1) st;
            offset' = offset + scast (ds_code st1 - csip)
        in (offset', put (fmt (if data32 st1 then ''%08lx'' else ''%04x'') (words (disp + offset'))) st1))
     else if add = AM_O then
       (let st1 = put (size_ptr st opreg) st
        in (offset, if addr32 st1 then (let (v, st2) = extractv m 4 st1 in put (''['' @ fmt ''%08lx'' (words v) @ '']'') st2)
                    else (let (v, st2) = extractv m 2 st1 in put (''['' @ fmt ''%04x'' [ucast v] @ '']'') st2)))
     else if add = AM_R then
       (offset, if opreg = OT_b then put (bregs ! MODRM_RM (ds_modrm st)) st
                else if opreg = OT_v \<or> opreg = OT_d
                then put ((if opreg = OT_d \<or> data32 st then ''E'' else []) @ wregs ! MODRM_RM (ds_modrm st)) st
                else st)
     else if add = AM_S then (offset, put (sregs ! MODRM_REG (ds_modrm st)) st)
     else if add = AM_T then (offset, put (fmt ''TR%u'' [of_nat (MODRM_REG (ds_modrm st))]) st)
     else if add = AM_X then
       (offset, put ((if opreg = OT_b then ''BYTE PTR ''
                      else if opreg = OT_v then (if data32 st then ''D'' else []) @ ''WORD PTR '' else [])
                     @ seg_override st @ ''[SI]'') st)
     else if add = AM_Y then
       (offset, put ((if opreg = OT_b then ''BYTE PTR''
                      else if opreg = OT_v then (if data32 st then ''D'' else []) @ ''WORD PTR'' else [])
                     @ '' [DI]'') st)
     else if add = AM_REG then (offset, put ((if data32 st then ''E'' else []) @ wregs ! opreg) st)
     else if add = AM_REGB then (offset, put (bregs ! opreg) st)
     else if add = AM_REGS then (offset, put (sregs ! opreg) st)
     else (offset, st))"

section \<open>The disassembler\<close>

text \<open>The operand \<open>i\<close> after the exceptions for the groups 3, 5 and 7.\<close>

definition addop :: "opcode \<Rightarrow> u8 \<Rightarrow> u8 \<Rightarrow> u8 \<Rightarrow> nat \<Rightarrow> nat \<times> nat" where
  "addop popc op op2 modrm i =
     (let (a, r) = get_opadd popc i;
          (a, r) = (if (op = 0xf6 \<or> op = 0xf7) \<and> MODRM_REG modrm < 2 \<and> i = 1
                    then (AM_I, if op AND 1 \<noteq> 0 then OT_v else OT_b) else (a, r));
          r = (if op = 0xff \<and> (MODRM_REG modrm = 3 \<or> MODRM_REG modrm = 5) then OT_p else r)
      in if op = 0x0f \<and> op2 = 0x01 \<and> 3 < MODRM_REG modrm then (AM_E, OT_w) else (a, r))"

fun operands :: "codeseg \<Rightarrow> u16 \<Rightarrow> opcode \<Rightarrow> u8 \<Rightarrow> u8 \<Rightarrow> nat list \<Rightarrow> u32 \<times> distate \<Rightarrow> u32 \<times> distate" where
  "operands m csip popc op op2 [] s = s"
| "operands m csip popc op op2 (i # is) (offset, st) =
     (let (a, r) = addop popc op op2 (ds_modrm st) i
      in if a = 0 \<and> r = 0 then (offset, st)
         else operands m csip popc op op2 is
                (operand m csip a r (offset, if i \<noteq> 0 then put '', '' st else st)))"

record disinstr =
  di_bytes :: int
  di_mne :: string
  di_args :: string

definition mnemonic_of :: "opcode \<Rightarrow> distate \<Rightarrow> string" where
  "mnemonic_of popc st =
     (if ds_lock st then ''LOCK '' else [])
     @ (case ds_rep st of REP_REPNE \<Rightarrow> ''REPNE '' | REP_REP \<Rightarrow> ''REP '' | REP_NONE \<Rightarrow> [])
     @ (case mne popc of Group ops \<Rightarrow> ops ! MODRM_REG (ds_modrm st) | Mne x \<Rightarrow> x)"

definition dis0 :: "u16 \<Rightarrow> distate" where
  "dis0 csip = \<lparr>ds_code = csip, ds_args = [], ds_modrm = 0, addr32 = False, data32 = False, ds_lock = False,
     ds_seg = SEG_NONE, ds_rep = REP_NONE\<rparr>"

text \<open>From the opcode on: opcode bytes, mod r/m byte, and the operand and address size.\<close>

definition decode_op :: "codeseg \<Rightarrow> bool \<Rightarrow> distate \<Rightarrow> opcode \<times> u8 \<times> u8 \<times> distate" where
  "decode_op m is32 st0 =
     (let (op, st1) = next_byte m st0;
          (op2, st2) = (if op = 0x0f then next_byte m st1 else (0, st1));
          popc = (if op = 0x0f then extopcodes ! unat op2 else opcodes ! unat op);
          st3 = (if need_modrm popc \<or> modop popc
                 then (let (b, st) = next_byte m st2 in st\<lparr>ds_modrm := b\<rparr>) else st2);
          st4 = (if is32 then st3\<lparr>addr32 := \<not> addr32 st3, data32 := \<not> data32 st3\<rparr> else st3)
      in (popc, op, op2, st4))"

definition disasm :: "codeseg \<Rightarrow> u16 \<Rightarrow> u32 \<Rightarrow> bool \<Rightarrow> disinstr res" where
  "disasm m csip offset is32 =
     bind_res (of_loop (prefix m (dis0 csip))) (\<lambda>st0.
       let (popc, op, op2, st1) = decode_op m is32 st0;
           (_, st2) = operands m csip popc op op2 [0, 1, 2] (offset, st1)
       in if 64 \<le> length (ds_args st2) then Panic
          else Ok \<lparr>di_bytes = sint (ds_code st2 - csip), di_mne = mnemonic_of popc st1, di_args = ds_args st2\<rparr>)"

end
