(* ===== verification/Dis386Thms.thy ===== *)
theory Dis386Thms
  imports Dis386
begin

text \<open>
  The disassembler stays within its text buffers on every instruction but one group, and decodes
  immediates and relative jumps correctly.
\<close>

section \<open>Bytes\<close>

lemma extract_loop_frame: "snd (extract_loop m i n v st) = st\<lparr>ds_code := ds_code st + of_nat n\<rparr>"
  by (induction m i n v st rule: extract_loop.induct) (simp_all add: next_byte_def add.assoc)

lemma extract_frame [simp]: "snd (extractv m n st) = st\<lparr>ds_code := ds_code st + of_nat n\<rparr>"
  by (simp add: extractv_def extract_loop_frame)

lemma sextract_frame [simp]: "snd (sextract m n st) = st\<lparr>ds_code := ds_code st + of_nat n\<rparr>"
  by (simp add: sextract_def case_prod_unfold Let_def)

lemma put_simps [simp]: "ds_args (put x st) = ds_args st @ x" "ds_modrm (put x st) = ds_modrm st" "ds_code (put x st) = ds_code st"
  "data32 (put x st) = data32 st" "addr32 (put x st) = addr32 st" "ds_seg (put x st) = ds_seg st"
  by (simp_all add: put_def)

lemma next_byte_frame [simp]: "snd (next_byte m st) = st\<lparr>ds_code := ds_code st + 1\<rparr>" "fst (next_byte m st) = m (ds_code st)"
  by (simp_all add: next_byte_def)

section \<open>Formats\<close>

lemma fmt_hex:
  "fmt ''%08lx'' (words v) = print_hex v \<lparr>zeropad = True, is_signed = False, is_long = True, is_ptr = False\<rparr> 8"
  "fmt ''%04x'' (x # va) = print_hex (ucast x) \<lparr>zeropad = True, is_signed = False, is_long = False, is_ptr = False\<rparr> 4"
  "fmt ''%02x'' (x # va) = print_hex (ucast x) \<lparr>zeropad = True, is_signed = False, is_long = False, is_ptr = False\<rparr> 2"
  by (simp_all add: fmt_def sprintf_def spec_hex convert_hex words_def)

lemma u16_small: "unat (ucast (x :: u16) :: u32) < 16 ^ 4" and u32_small: "unat (v :: u32) < 16 ^ 8"
  using unat_u16_lt [of x] unsigned_less [of v, where 'a = nat] by (simp_all add: unat_ucast_u16)

lemma fmt_len [simp]: "length (fmt ''%08lx'' (words v)) = 8" "length (fmt ''%04x'' (x # va)) = 4" "length (fmt ''%04x'' (words v)) = 4"
  using print_hex_padded [OF u32_small, of "\<lparr>zeropad = True, is_signed = False, is_long = True, is_ptr = False\<rparr>" v]
    print_hex_padded [OF u16_small, of "\<lparr>zeropad = True, is_signed = False, is_long = False, is_ptr = False\<rparr>"]
  by (simp_all add: fmt_hex, simp add: words_def fmt_hex)

lemma fmt_val: "num_val 16 (fmt ''%08lx'' (words v)) = unat v" "num_val 16 (fmt ''%04x'' (x # va)) = unat x"
  using print_hex_padded [OF u32_small, of "\<lparr>zeropad = True, is_signed = False, is_long = True, is_ptr = False\<rparr>" v]
    print_hex_padded [OF u16_small, of "\<lparr>zeropad = True, is_signed = False, is_long = False, is_ptr = False\<rparr>"]
  by (simp_all add: fmt_hex unat_ucast_u16)

lemma fmt_02x_len: "length (fmt ''%02x'' (x # va)) \<le> 4"
proof (cases "x = 0")
  case False
  then have nz: "ucast x \<noteq> (0 :: u32)" using unat_ucast_u16 [of x] by (metis unat_0 unat_eq_0)
  have "length (hex_digits (unat (ucast x :: u32))) \<le> 4" using hex_digits_val [of _ 4] u16_small [of x] by blast
  then show ?thesis using nz
    by (simp add: fmt_hex print_hex_def Let_def hex_loop_plain [of False 4] hex_digits_def [symmetric])
qed (simp add: fmt_hex print_hex_def)

lemma fmt_u: "n < 10 \<Longrightarrow> length (fmt ''%u'' [of_nat n]) = 1" "n < 10 \<Longrightarrow> length (fmt ''CR%u'' [of_nat n]) = 3"
  "n < 10 \<Longrightarrow> length (fmt ''DR%u'' [of_nat n]) = 3" "n < 10 \<Longrightarrow> length (fmt ''TR%u'' [of_nat n]) = 3"
proof -
  assume n: "n < 10"
  have u: "unat (ucast (of_nat n :: u16) :: u32) = n" using n by (simp add: unat_ucast_u16)
  have d: "dec_loop n [] = (if n = 0 then [] else [digit n])"
    using n by (simp add: dec_loop.simps [of n] dec_loop.simps [of 0])
  have p: "length (print_int (ucast (of_nat n :: u16)) \<lparr>zeropad = False, is_signed = False, is_long = False, is_ptr = False\<rparr> (- 1)) = 1"
    unfolding print_int_def Let_def using u d by (auto simp: unat_eq_0)
  show "length (fmt ''%u'' [of_nat n]) = 1" "length (fmt ''CR%u'' [of_nat n]) = 3"
    "length (fmt ''DR%u'' [of_nat n]) = 3" "length (fmt ''TR%u'' [of_nat n]) = 3"
    using p by (simp_all add: fmt_def sprintf_def spec_hex convert_def)
qed

lemma fmt_far: "length (fmt ''%04x:%04x'' [x, y]) = 9"
proof -
  have c: "conv_spec ''04x:%04x'' = Conv True 4 False (CHR ''x'') '':%04x''"
    by (simp add: conv_spec_def conv_width_def is_digit_def int16_def)
  have p: "length (print_hex (ucast z) \<lparr>zeropad = True, is_signed = False, is_long = False, is_ptr = False\<rparr> 4) = 4" for z :: u16
    using print_hex_padded [OF u16_small [of z], of "\<lparr>zeropad = True, is_signed = False, is_long = False, is_ptr = False\<rparr>"] by simp
  show ?thesis using p [of x] p [of y] by (simp add: fmt_def sprintf_def c spec_hex convert_hex)
qed

section \<open>What an operand adds to the text\<close>

lemma modrm_bounds: "MODRM_MOD x < 4" "MODRM_REG x < 8" "MODRM_RM x < 8"
proof -
  have "y AND 3 = take_bit 2 y" "y AND 7 = take_bit 3 y" for y :: u8
    by (simp_all add: take_bit_eq_mask mask_eq_exp_minus_1)
  then have "unat (y AND 3) = unat y mod 4" "unat (y AND 7) = unat y mod 8" for y :: u8
    by (simp_all add: take_bit_eq_mod unat_mod)
  then have "unat (y AND 3) < 4" "unat (y AND 7) < 8" for y :: u8 by simp_all
  then show "MODRM_MOD x < 4" "MODRM_REG x < 8" "MODRM_RM x < 8" by (simp_all add: MODRM_MOD_def MODRM_REG_def MODRM_RM_def)
qed

lemma reg_len:
  "r < 8 \<Longrightarrow> length (wregs ! r) = 2 \<and> length (bregs ! r) = 2 \<and> length (sregs ! r) = 2 \<and> length (baseindex ! r) \<le> 5"
  by (auto simp: wregs_def bregs_def sregs_def baseindex_def less_Suc_eq numeral_eq_Suc)

lemma size_ptr_len: "length (size_ptr st oper) \<le> 10" and seg_len: "length (seg_override st) \<le> 3"
  by (simp_all add: size_ptr_def seg_override_def split: segs.split)

definition grows :: "distate \<Rightarrow> distate \<Rightarrow> nat \<Rightarrow> bool" where
  "grows st st' n \<longleftrightarrow> ds_modrm st' = ds_modrm st \<and> length (ds_args st') \<le> length (ds_args st) + n"

lemma grows_trans: "grows st st' a \<Longrightarrow> grows st' st'' b \<Longrightarrow> grows st st'' (a + b)"
  by (simp add: grows_def)

lemma grows_put: "length x \<le> n \<Longrightarrow> grows st (put x (st\<lparr>ds_code := c\<rparr>)) n" "length x \<le> n \<Longrightarrow> grows st (put x st) n"
  by (simp_all add: grows_def)

lemma fmt_ss [simp]: "length (fmt ''%u'' [2 ^ MODRM_MOD x]) = 1"
proof -
  have "MODRM_MOD x \<in> {0, 1, 2, 3}" using modrm_bounds(1) [of x] by auto
  then have "(2 :: nat) ^ MODRM_MOD x < 10" by auto
  then show ?thesis using fmt_u(1) [of "2 ^ MODRM_MOD x"] by simp
qed

lemma reg_lens [simp]: "length (wregs ! MODRM_RM x) = 2" "length (wregs ! MODRM_REG x) = 2" "length (bregs ! MODRM_RM x) = 2"
  "length (bregs ! MODRM_REG x) = 2" "length (sregs ! MODRM_REG x) = 2" "length (fmt ''CR%u'' [of_nat (MODRM_REG x)]) = 3"
  "length (fmt ''DR%u'' [of_nat (MODRM_REG x)]) = 3" "length (fmt ''TR%u'' [of_nat (MODRM_REG x)]) = 3"
  "length (baseindex ! MODRM_RM x) \<le> 5"
  using reg_len modrm_bounds [of x] fmt_u less_trans [OF modrm_bounds(2) [of x]] by (simp_all del: of_nat_numeral)

lemmas len_le [simp] = le_trans [OF fmt_02x_len] le_trans [OF size_ptr_len] le_trans [OF seg_len] le_trans [OF reg_lens(9)]
  le_trans [OF add_mono [OF reg_lens(9) fmt_02x_len]]

lemma decode_sib_grows: "grows st (decode_sib m st) 20"
  by (simp add: grows_def decode_sib_def Let_def case_prod_unfold)

lemma decode_modrm_grows: "grows st (decode_modrm m oper st) (if oper = OT_w then 32 else 33)"
proof -
  let ?st1 = "put (size_ptr st oper @ seg_override st) st"
  have s: "grows st ?st1 (if oper = OT_w then 12 else 13)"
    using size_ptr_len [of st oper] seg_len [of st] by (auto simp: grows_def size_ptr_def)
  have "MODRM_MOD (ds_modrm st) = 3 \<or> grows ?st1 (decode_modrm m oper st) 20"
    using decode_sib_grows [of ?st1 m]
    by (simp add: decode_modrm_def Let_def case_prod_unfold) (auto simp: grows_def)
  then show ?thesis
  proof
    assume "MODRM_MOD (ds_modrm st) = 3"
    then show ?thesis by (simp add: decode_modrm_def Let_def grows_def)
  next
    assume "grows ?st1 (decode_modrm m oper st) 20"
    from grows_trans [OF s this] show ?thesis by (simp add: grows_def split: if_splits)
  qed
qed

text \<open>The most characters an addressing method prints; the register numbers of the tables are in range.\<close>

definition opb :: "nat \<Rightarrow> nat" where
  "opb a = (if a = AM_E \<or> a = AM_M then 33 else if a = AM_O then 20 else if a = AM_X then 17 else if a = AM_Y then 14 else 9)"

lemma operand_grows:
  assumes "a \<in> {AM_REG, AM_REGB, AM_REGS} \<longrightarrow> r < 8"
  shows "grows st (snd (operand m csip a r (offset, st))) (opb a)"
proof -
  have "grows st (decode_modrm m r st) 33"
    using decode_modrm_grows [of st m r] by (auto simp: grows_def split: if_splits)
  moreover have "ds_modrm (snd (operand m csip a r (offset, st))) = ds_modrm st \<and>
      length (ds_args (snd (operand m csip a r (offset, st)))) \<le> length (ds_args st) + opb a"
    if "a \<noteq> AM_E" "a \<noteq> AM_M"
    using that assms reg_len [of r] fmt_far size_ptr_len
    by (simp add: operand_def opb_def Let_def case_prod_unfold)
  ultimately show ?thesis by (auto simp: operand_def opb_def grows_def)
qed

section \<open>The tables\<close>

definition op_ok :: "opcode \<Rightarrow> bool" where
  "op_ok popc \<longleftrightarrow> opb (d_add popc) + opb (s_add popc) + opb (op3_add popc) + 4 < 64
     \<and> (d_add popc \<in> {AM_REG, AM_REGB, AM_REGS} \<longrightarrow> d_opreg popc < 8)
     \<and> (s_add popc \<in> {AM_REG, AM_REGB, AM_REGS} \<longrightarrow> s_opreg popc < 8)
     \<and> (op3_add popc \<in> {AM_REG, AM_REGB, AM_REGS} \<longrightarrow> op3_opreg popc < 8)
     \<and> (case mne popc of Group ops \<Rightarrow> length ops = 8 \<and> list_all (\<lambda>x. length x \<le> 6) ops | Mne x \<Rightarrow> length x \<le> 6)"

lemma op_ok_macros:
  "op_ok (TRE_OP x a r b q c t) \<longleftrightarrow> opb a + opb b + opb c + 4 < 64 \<and> (a \<in> {AM_REG, AM_REGB, AM_REGS} \<longrightarrow> r < 8)
     \<and> (b \<in> {AM_REG, AM_REGB, AM_REGS} \<longrightarrow> q < 8) \<and> (c \<in> {AM_REG, AM_REGB, AM_REGS} \<longrightarrow> t < 8) \<and> length x \<le> 6"
  "op_ok (M_TWO_OP g a r b q) \<longleftrightarrow> opb a + opb b + 9 + 4 < 64 \<and> (a \<in> {AM_REG, AM_REGB, AM_REGS} \<longrightarrow> r < 8)
     \<and> (b \<in> {AM_REG, AM_REGB, AM_REGS} \<longrightarrow> q < 8) \<and> length g = 8 \<and> list_all (\<lambda>x. length x \<le> 6) g"
  by (simp_all add: op_ok_def TRE_OP_def M_TWO_OP_def) (auto simp: opb_def)

lemma opb_vals: "opb 0 = 9" "opb (Suc 0) = 9" "opb 2 = 9" "opb 3 = 33" "opb 5 = 9" "opb 6 = 9" "opb 7 = 9" "opb 8 = 33" "opb 9 = 20"
  "opb 10 = 9" "opb 11 = 9" "opb 12 = 9" "opb 13 = 17" "opb 14 = 14" "opb 15 = 9" "opb 16 = 9" "opb 17 = 9" "opb 18 = 9"
  by (simp_all add: opb_def)

lemma groups_ok: "length g = 8 \<and> list_all (\<lambda>x. length x \<le> 6) g" if "g \<in> {group1, group2, group3, group4, group5, group6, group7, group8}"
  using that by (auto simp: group1_def group2_def group3_def group4_def group5_def group6_def group7_def group8_def)

lemmas op_ok_eval = op_ok_macros TWO_OP_def ONE_OP_def IMP_def J_OP_def JV_OP_def M_ONE_OP_def opb_vals groups_ok [simplified]

lemma tables_ok: "list_all op_ok opcodes" "list_all op_ok extopcodes"
proof -
  have "list_all op_ok opcodes_lo" unfolding opcodes_lo_def op_ok_eval list.pred_inject by (simp add: opb_vals)
  moreover have "list_all op_ok opcodes_hi" unfolding opcodes_hi_def op_ok_eval list.pred_inject by (simp add: groups_ok opb_vals)
  moreover have "list_all op_ok extopcodes_lo" unfolding extopcodes_lo_def op_ok_eval list.pred_inject by (simp add: groups_ok opb_vals)
  moreover have "list_all op_ok extopcodes_hi" unfolding extopcodes_hi_def op_ok_eval list.pred_inject by (simp add: groups_ok opb_vals)
  ultimately show "list_all op_ok opcodes" "list_all op_ok extopcodes" by (simp_all add: opcodes_def extopcodes_def)
qed

lemma table_length: "length opcodes = 256" "length extopcodes = 256"
  by (simp_all add: opcodes_def extopcodes_def opcodes_lo_def opcodes_hi_def extopcodes_lo_def extopcodes_hi_def)

lemma table_op: "op_ok (opcodes ! unat (op :: u8))" "op_ok (extopcodes ! unat op)"
proof -
  have "unat op < 256" using unsigned_less [of op, where 'a = nat] by simp
  then show "op_ok (opcodes ! unat op)" "op_ok (extopcodes ! unat op)"
    using tables_ok table_length by (simp_all add: list_all_length)
qed

section \<open>All operands\<close>

lemma addop_bound:
  assumes "op_ok popc" "\<not> (op = 0x0f \<and> op2 = 0x01 \<and> 3 < MODRM_REG modrm)"
  shows "opb (fst (addop popc op op2 modrm i)) \<le> opb (fst (get_opadd popc i))"
    "fst (addop popc op op2 modrm i) \<in> {AM_REG, AM_REGB, AM_REGS} \<longrightarrow> snd (addop popc op op2 modrm i) < 8"
proof -
  obtain a r where g: "get_opadd popc i = (a, r)" by fastforce
  have "9 \<le> opb a" by (simp add: opb_def)
  moreover have c: "addop popc op op2 modrm i = (6, 6) \<or> addop popc op op2 modrm i = (6, 1) \<or> addop popc op op2 modrm i = (6, 4)
      \<or> addop popc op op2 modrm i = (a, r) \<or> addop popc op op2 modrm i = (a, 4)"
    unfolding addop_def g Let_def prod.case if_not_P [OF assms(2)] by (simp split: if_split)
  ultimately show "opb (fst (addop popc op op2 modrm i)) \<le> opb (fst (get_opadd popc i))"
    unfolding g by (elim disjE) (simp_all add: opb_vals)
  have "a \<in> {AM_REG, AM_REGB, AM_REGS} \<longrightarrow> r < 8"
    using assms(1) g by (simp add: op_ok_def get_opadd_def split: if_splits)
  with c show "fst (addop popc op op2 modrm i) \<in> {AM_REG, AM_REGB, AM_REGS} \<longrightarrow> snd (addop popc op op2 modrm i) < 8"
    by (elim disjE) simp_all
qed

lemma operands_grows:
  assumes "op_ok popc" "\<not> (op = 0x0f \<and> op2 = 0x01 \<and> 3 < MODRM_REG (ds_modrm st))"
  shows "grows st (snd (operands m csip popc op op2 is (offset, st)))
    (\<Sum>i\<leftarrow>is. (if i \<noteq> 0 then 2 else 0) + opb (fst (get_opadd popc i)))"
  using assms(2)
proof (induction "is" arbitrary: offset st)
  case (Cons i "is")
  obtain a r where ar: "addop popc op op2 (ds_modrm st) i = (a, r)" by fastforce
  let ?st1 = "if i \<noteq> 0 then put '', '' st else st"
  obtain offset' st2 where o: "operand m csip a r (offset, ?st1) = (offset', st2)" by fastforce
  have "grows st ?st1 (if i \<noteq> 0 then 2 else 0)" by (simp add: grows_def)
  moreover have "grows ?st1 st2 (opb a)"
    using operand_grows [of a r ?st1 m csip offset] addop_bound(2) [OF assms(1) Cons.prems, of i] ar o by simp
  ultimately have g: "grows st st2 ((if i \<noteq> 0 then 2 else 0) + opb a)" by (rule grows_trans)
  then have "ds_modrm st2 = ds_modrm st" by (simp add: grows_def)
  with Cons.IH [of st2 offset'] Cons.prems
  have "grows st2 (snd (operands m csip popc op op2 is (offset', st2)))
      (\<Sum>i\<leftarrow>is. (if i \<noteq> 0 then 2 else 0) + opb (fst (get_opadd popc i)))" by simp
  from grows_trans [OF g this] show ?case
    using addop_bound(1) [OF assms(1) Cons.prems, of i] ar o by (simp add: grows_def)
qed (simp add: grows_def)

section \<open>Prefixes\<close>

definition is_prefix :: "u8 \<Rightarrow> bool" where
  "is_prefix b \<longleftrightarrow> b \<in> {0x2e, 0x36, 0x3e, 0x26, 0x64, 0x65, 0x66, 0x67, 0xf0, 0xf2, 0xf3}"

lemma prefix1_none: "prefix1 b st = None \<longleftrightarrow> \<not> is_prefix b"
  by (simp add: prefix1_def is_prefix_def)

lemma prefix1_some: "prefix1 b st = Some st1 \<Longrightarrow> ds_code st1 = ds_code st \<and> ds_args st1 = ds_args st"
  by (auto simp: prefix1_def split: if_splits)

text \<open>The prefixes end at the first byte that is none.\<close>

lemma prefix_loop_ends:
  "\<forall>j<k. is_prefix (m (ds_code st + of_nat j)) \<Longrightarrow> \<not> is_prefix (m (ds_code st + of_nat k)) \<Longrightarrow>
   \<exists>st'. prefix_loop m st = Some st' \<and> ds_code st' = ds_code st + of_nat k \<and> ds_args st' = ds_args st"
proof (induction k arbitrary: st)
  case 0
  then show ?case using prefix1_none [of "m (ds_code st)" st] by (subst prefix_loop.simps) simp
next
  case (Suc k)
  have "is_prefix (m (ds_code st))" using Suc.prems(1) [rule_format, of 0] by simp
  then obtain st1 where p: "prefix1 (m (ds_code st)) st = Some st1" using prefix1_none [of "m (ds_code st)" st] by auto
  note s = prefix1_some [OF p]
  let ?st2 = "st1\<lparr>ds_code := ds_code st1 + 1\<rparr>"
  have "\<forall>j<k. is_prefix (m (ds_code ?st2 + of_nat j))"
  proof (intro allI impI)
    fix j assume "j < k"
    then show "is_prefix (m (ds_code ?st2 + of_nat j))"
      using Suc.prems(1) [rule_format, of "Suc j"] s by (simp add: add.assoc)
  qed
  moreover have "\<not> is_prefix (m (ds_code ?st2 + of_nat k))" using Suc.prems(2) s by (simp add: add.assoc)
  ultimately show ?case using Suc.IH [of ?st2] p s by (subst prefix_loop.simps) (simp add: add.assoc)
qed

lemma prefix_ends:
  assumes "\<forall>j<k. is_prefix (m (csip + of_nat j))" "\<not> is_prefix (m (csip + of_nat k))"
  shows "\<exists>st'. prefix m (dis0 csip) = Some st' \<and> ds_code st' = csip + of_nat k \<and> ds_args st' = []"
  using prefix_loop_ends [of k m "dis0 csip"] assms unfolding prefix_def by (simp add: dis0_def)

lemma ext_01: "extopcodes ! 1 = M_ONE_OP group7 AM_M OT_s"
  by (simp add: extopcodes_def extopcodes_lo_def)

lemma decode_op_parts:
  assumes "decode_op m is32 st0 = (popc, op, op2, st1)"
  shows "op_ok popc" "ds_args st1 = ds_args st0" "op = m (ds_code st0)" "op = 0x0f \<Longrightarrow> op2 = m (ds_code st0 + 1)"
    "op = 0x0f \<Longrightarrow> op2 = 0x01 \<Longrightarrow> ds_modrm st1 = m (ds_code st0 + 2)"
proof -
  have p: "popc = (if op = 0x0f then extopcodes ! unat op2 else opcodes ! unat op)" and op: "op = m (ds_code st0)"
    and op2: "op2 = (if op = 0x0f then m (ds_code st0 + 1) else 0)"
    using assms by (auto simp: decode_op_def next_byte_def Let_def split: if_splits)
  show "op_ok popc" unfolding p using table_op by simp
  show "op = m (ds_code st0)" by (rule op)
  show "op = 0x0f \<Longrightarrow> op2 = m (ds_code st0 + 1)" using op2 by simp
  show "ds_args st1 = ds_args st0"
    using assms by (auto simp: decode_op_def next_byte_def Let_def split: if_splits)
  show "ds_modrm st1 = m (ds_code st0 + 2)" if "op = 0x0f" "op2 = 0x01"
  proof -
    have "modop popc" using that p by (simp add: ext_01 [unfolded One_nat_def] M_ONE_OP_def M_TWO_OP_def)
    then show ?thesis using assms that op op2
      by (auto simp: decode_op_def next_byte_def Let_def add.assoc split: if_splits)
  qed
qed

section \<open>Properties\<close>

text \<open>Property C8.
  The disassembler stays within its buffers: on every byte sequence, after any number of prefix
  bytes and in both modes, the text of the operands is shorter than its 64 bytes and the name of
  the instruction too, unless the instruction is one of \<open>0f 01 /4\<close> to \<open>/7\<close>.\<close>

theorem disasm_no_overrun:
  assumes "\<forall>j<k. is_prefix (m (csip + of_nat j))" "\<not> is_prefix (m (csip + of_nat k))"
    and "\<not> (m (csip + of_nat k) = 0x0f \<and> m (csip + of_nat k + 1) = 0x01 \<and> 3 < MODRM_REG (m (csip + of_nat k + 2)))"
  shows "\<exists>d. disasm m csip offset is32 = Ok d \<and> length (di_args d) < 64 \<and> length (di_mne d) < 64"
proof -
  from prefix_ends [OF assms(1,2)] obtain st0 where
    p: "prefix m (dis0 csip) = Some st0" and st0: "ds_code st0 = csip + of_nat k" "ds_args st0 = []" by blast
  obtain popc op op2 st1 where d: "decode_op m is32 st0 = (popc, op, op2, st1)" by (metis prod_cases4)
  have ok: "op_ok popc" and a1: "ds_args st1 = []" and op: "op = m (csip + of_nat k)"
    "op = 0x0f \<Longrightarrow> op2 = m (csip + of_nat k + 1)" "op = 0x0f \<Longrightarrow> op2 = 0x01 \<Longrightarrow> ds_modrm st1 = m (csip + of_nat k + 2)"
    using decode_op_parts [OF d] st0 by simp_all
  with assms(3) op have g7: "\<not> (op = 0x0f \<and> op2 = 0x01 \<and> 3 < MODRM_REG (ds_modrm st1))" by auto
  obtain off' st2 where o: "operands m csip popc op op2 [0, 1, 2] (offset, st1) = (off', st2)" by fastforce
  have "length (ds_args st2) \<le> opb (d_add popc) + (2 + opb (s_add popc)) + (2 + opb (op3_add popc))"
    using operands_grows [OF ok g7, of m csip "[0, 1, 2]" offset] o a1 by (simp add: grows_def get_opadd_def)
  then have l: "length (ds_args st2) < 64" using ok by (simp add: op_ok_def)
  have "length (case mne popc of Group ops \<Rightarrow> ops ! MODRM_REG (ds_modrm st1) | Mne x \<Rightarrow> x) \<le> 6"
    using ok modrm_bounds(2) [of "ds_modrm st1"] by (cases "mne popc") (simp_all add: op_ok_def list_all_length)
  moreover have "length (if ds_lock st1 then ''LOCK '' else []) \<le> 5"
    "length (case ds_rep st1 of REP_REPNE \<Rightarrow> ''REPNE '' | REP_REP \<Rightarrow> ''REP '' | REP_NONE \<Rightarrow> []) \<le> 6"
    by (simp_all split: rept.split)
  ultimately have "length (mnemonic_of popc st1) \<le> 17" by (simp only: mnemonic_of_def length_append)
  then show ?thesis using p d o l by (simp add: disasm_def)
qed

text \<open>An instruction without prefixes and mod r/m byte, in a 16-bit segment.\<close>

lemma disasm_plain:
  assumes "\<not> is_prefix (m csip)" "m csip \<noteq> 0x0f" "\<not> need_modrm (opcodes ! unat (m csip))" "\<not> modop (opcodes ! unat (m csip))"
    and "operands m csip (opcodes ! unat (m csip)) (m csip) 0 [0, 1, 2] (offset, (dis0 csip)\<lparr>ds_code := csip + 1\<rparr>) = (off', st)"
  shows "disasm m csip offset False = (if 64 \<le> length (ds_args st) then Panic
      else Ok \<lparr>di_bytes = sint (ds_code st - csip), di_mne = mnemonic_of (opcodes ! unat (m csip)) ((dis0 csip)\<lparr>ds_code := csip + 1\<rparr>),
          di_args = ds_args st\<rparr>)"
proof -
  have "prefix m (dis0 csip) = Some (dis0 csip)"
    using assms(1) prefix1_none [of "m csip"] unfolding prefix_def by (subst prefix_loop.simps) (simp add: dis0_def)
  moreover have "decode_op m False (dis0 csip) = (opcodes ! unat (m csip), m csip, 0, (dis0 csip)\<lparr>ds_code := csip + 1\<rparr>)"
    using assms(2-4) by (simp add: decode_op_def next_byte_def Let_def) (simp add: dis0_def)
  ultimately show ?thesis using assms(5) by (simp only: disasm_def of_loop.simps bind_res.simps Let_def prod.case)
qed

lemma opcodes_at: "i < 128 \<Longrightarrow> opcodes ! i = opcodes_lo ! i" "opcodes ! (128 + i) = opcodes_hi ! i"
proof -
  have "length opcodes_lo = 128" by (simp add: opcodes_lo_def)
  then show "i < 128 \<Longrightarrow> opcodes ! i = opcodes_lo ! i" "opcodes ! (128 + i) = opcodes_hi ! i"
    by (simp_all add: opcodes_def nth_append)
qed

lemma mov_imm: "r < 8 \<Longrightarrow> opcodes ! (184 + r) = TWO_OP ''MOV'' AM_REG r AM_I OT_v"
proof -
  assume "r < 8"
  then have "r \<in> {0, 1, 2, 3, 4, 5, 6, 7}" by auto
  then have "opcodes_hi ! (56 + r) = TWO_OP ''MOV'' AM_REG r AM_I OT_v"
    by (elim insertE) (simp_all add: opcodes_hi_def)
  then show ?thesis using opcodes_at(2) [of "56 + r"] by simp
qed

lemma jcc: "c < 16 \<Longrightarrow> \<exists>x. opcodes ! (112 + c) = J_OP x"
proof -
  assume "c < 16"
  then have "c \<in> {0, 1, 2, 3, 4, 5, 6, 7, 8, 9, 10, 11, 12, 13, 14, 15}"
    by (simp only: insert_iff empty_iff) presburger
  then have "\<exists>x. opcodes_lo ! (112 + c) = J_OP x"
    by (elim insertE) (simp_all add: opcodes_lo_def, (rule exI, rule refl)+)
  then show ?thesis using opcodes_at(1) [of "112 + c"] \<open>c < 16\<close> by simp
qed

lemma or_bytes: "unat (ucast (a :: u8) OR push_bit 8 (ucast (b :: u8)) :: u32) = unat a + 256 * unat b"
proof -
  have u: "unat (ucast a :: u32) = unat a" "unat (ucast b :: u32) = unat b" "unat a < 256" "unat b < 256"
    using unsigned_less [of a, where 'a = nat] unsigned_less [of b, where 'a = nat]
    by (simp_all add: unsigned_ucast_eq take_bit_nat_eq_self)
  have "ucast a + push_bit 8 (ucast b) = (ucast a OR push_bit 8 (ucast b) :: u32)"
    by (rule disjunctive_add) (auto simp: bit_simps dest: bit_imp_le_length)
  then have "unat (ucast a OR push_bit 8 (ucast b) :: u32) = unat (ucast a + push_bit 8 (ucast b) :: u32)" by simp
  also have "\<dots> = unat a + 256 * unat b"
    using u by (simp add: unat_word_ariths push_bit_eq_mult mult.commute)
  finally show ?thesis .
qed

lemma extract_2: "unat (fst (extractv m 2 st)) = unat (m (ds_code st)) + 256 * unat (m (ds_code st + 1))"
  using or_bytes [of "m (ds_code st)" "m (ds_code st + 1)"] by (simp add: extractv_def numeral_2_eq_2 next_byte_def)

lemma extract_1: "fst (extractv m 1 st) = ucast (m (ds_code st))"
  by (simp add: extractv_def next_byte_def)

lemma ucast_ucast_b: "(ucast (ucast (b :: u8) :: u32) :: u8) = b"
  by (rule bit_word_eqI) (auto simp: bit_simps)

text \<open>Remark.
  A move of an immediate into a 16-bit register is three bytes long, and its operands are the name of
  the register and the immediate, low byte first, as four digits.\<close>

theorem disasm_mov_imm:
  assumes "r < 8" "m csip = of_nat (184 + r)"
  shows "\<exists>x. disasm m csip offset False = Ok \<lparr>di_bytes = 3, di_mne = ''MOV'', di_args = wregs ! r @ '', '' @ x\<rparr>
    \<and> length x = 4 \<and> num_val 16 x = unat (m (csip + 1)) + 256 * unat (m (csip + 2))"
proof -
  have u: "unat (m csip) = 184 + r" unfolding assms(2) using assms(1) by (subst unat_of_nat) (simp add: take_bit_nat_eq_self)
  have np: "\<not> is_prefix (m csip)" "m csip \<noteq> 0x0f" "m csip \<noteq> 0xf6" "m csip \<noteq> 0xf7" "m csip \<noteq> 0xff"
    using u assms(1) by (auto simp: is_prefix_def dest: arg_cong [of _ _ unat])
  let ?st1 = "put '', '' (put (wregs ! r) ((dis0 csip)\<lparr>ds_code := csip + 1\<rparr>))"
  obtain v where v: "extractv m 2 ?st1 = (v, ?st1\<lparr>ds_code := csip + 3\<rparr>)" "unat v = unat (m (csip + 1)) + 256 * unat (m (csip + 2))"
    using extract_frame [of m 2 ?st1] extract_2 [of m ?st1] by (cases "extractv m 2 ?st1") (simp add: add.assoc)
  have op: "opcodes ! unat (m csip) = TWO_OP ''MOV'' AM_REG r AM_I OT_v" unfolding u by (rule mov_imm [OF assms(1)])
  have z: "MODRM_REG 0 = 0" by (simp add: MODRM_REG_def)
  let ?x = "fmt ''%04x'' (words v)"
  have "operands m csip (TWO_OP ''MOV'' AM_REG r AM_I OT_v) (m csip) 0 [0, 1, 2] (offset, (dis0 csip)\<lparr>ds_code := csip + 1\<rparr>)
      = (offset, put ?x (?st1\<lparr>ds_code := csip + 3\<rparr>))"
    using v(1) np by (simp add: addop_def get_opadd_def TWO_OP_def TRE_OP_def operand_def z dis0_def put_def)
  from disasm_plain [OF np(1,2) _ _ this [folded op]]
  have "disasm m csip offset False = Ok \<lparr>di_bytes = 3, di_mne = ''MOV'', di_args = wregs ! r @ '', '' @ ?x\<rparr>"
    using reg_len [OF assms(1)]
    by (simp add: op need_modrm_def get_opadd_def TWO_OP_def TRE_OP_def modrm_add_def mnemonic_of_def dis0_def)
  moreover have "num_val 16 ?x = unat v"
    using fmt_val(2) [of "ucast v" "[ucast (drop_bit 16 v)]"] v(2)
      unsigned_less [of "m (csip + 1)", where 'a = nat] unsigned_less [of "m (csip + 2)", where 'a = nat]
    by (simp add: words_def unat_ucast_16)
  ultimately show ?thesis using v(2) by auto
qed

text \<open>Remark.
  The target of a conditional jump is printed as the offset of the next instruction plus the
  sign-extended displacement, modulo the segment.\<close>

theorem disasm_jcc:
  assumes "c < 16" "m csip = of_nat (112 + c)"
  shows "\<exists>x y. disasm m csip offset False = Ok \<lparr>di_bytes = 2, di_mne = y, di_args = x\<rparr> \<and> length x = 4
    \<and> num_val 16 x = unat (ucast (offset + 2 + scast (m (csip + 1))) :: u16)"
proof -
  have u: "unat (m csip) = 112 + c" unfolding assms(2) using assms(1) by (subst unat_of_nat) (simp add: take_bit_nat_eq_self)
  have np: "\<not> is_prefix (m csip)" "m csip \<noteq> 0x0f" "m csip \<noteq> 0xf6" "m csip \<noteq> 0xf7" "m csip \<noteq> 0xff"
    using u assms(1) by (auto simp: is_prefix_def dest: arg_cong [of _ _ unat])
  obtain y where op: "opcodes ! unat (m csip) = J_OP y" unfolding u using jcc [OF assms(1)] by blast
  have z: "MODRM_REG 0 = 0" by (simp add: MODRM_REG_def)
  let ?v = "scast (m (csip + 1)) + (offset + 2) :: u32" and ?st = "(dis0 csip)\<lparr>ds_code := csip + 2\<rparr>"
  have x: "sextract m 1 ((dis0 csip)\<lparr>ds_code := csip + 1\<rparr>) = (scast (m (csip + 1)), ?st)"
    using extract_1 [of m "(dis0 csip)\<lparr>ds_code := csip + 1\<rparr>"] extract_frame [of m 1 "(dis0 csip)\<lparr>ds_code := csip + 1\<rparr>"]
    by (cases "extractv m 1 ((dis0 csip)\<lparr>ds_code := csip + 1\<rparr>)") (simp add: sextract_def ucast_ucast_b add.assoc del: extract_frame)
  have "operands m csip (J_OP y) (m csip) 0 [0, 1, 2] (offset, (dis0 csip)\<lparr>ds_code := csip + 1\<rparr>)
      = (offset + 2, put (fmt ''%04x'' (words ?v)) ?st)"
    using x np by (simp add: addop_def get_opadd_def J_OP_def TRE_OP_def operand_def z Let_def dis0_def put_def)
  from disasm_plain [OF np(1,2) _ _ this [folded op]]
  have "disasm m csip offset False = Ok \<lparr>di_bytes = 2, di_mne = y, di_args = fmt ''%04x'' (words ?v)\<rparr>"
    by (simp add: op need_modrm_def get_opadd_def J_OP_def TRE_OP_def modrm_add_def mnemonic_of_def dis0_def)
  then show ?thesis using fmt_val(2) [of "ucast ?v" "[ucast (drop_bit 16 ?v)]"] by (simp add: words_def add.commute)
qed

definition w_smsw :: codeseg where
  "w_smsw i = (if i = 0 then 0x2e else if i = 1 then 0x0f else if i = 2 then 0x01 else if i = 3 then 0xa0 else 0x11)"

lemma prefix_cs:
  assumes "m csip = 0x2e" "\<not> is_prefix (m (csip + 1))"
  shows "prefix m (dis0 csip) = Some ((dis0 csip)\<lparr>ds_code := csip + 1, ds_seg := SEG_CS\<rparr>)"
  unfolding prefix_def using assms prefix1_none [of "m (csip + 1)"]
  by (subst prefix_loop.simps, simp add: prefix1_def dis0_def, subst prefix_loop.simps) (simp add: dis0_def)

text \<open>One operand of that instruction: 24 characters and two bytes.\<close>

lemma smsw_operand:
  assumes "ds_modrm st = 0xa0" "\<not> addr32 st" "\<not> data32 st" "ds_seg st = SEG_CS" "m (ds_code st) \<noteq> 0"
  shows "\<exists>st'. operand m csip AM_E OT_w (offset, st) = (offset, st') \<and> ds_modrm st' = 0xa0 \<and> \<not> addr32 st' \<and> \<not> data32 st'
    \<and> ds_seg st' = SEG_CS \<and> ds_code st' = ds_code st + 2 \<and> length (ds_args st') = length (ds_args st) + 24"
proof -
  have md: "MODRM_MOD 0xa0 = 2" "MODRM_RM 0xa0 = 0" by (simp_all add: MODRM_MOD_def MODRM_RM_def)
  have "fst (extractv m 2 st1) \<noteq> 0" if "ds_code st1 = ds_code st" for st1
  proof -
    have "unat (m (ds_code st)) \<noteq> 0" using assms(5) by (simp add: unat_eq_0)
    then show ?thesis using extract_2 [of m st1] that by (metis add_is_0 unat_0)
  qed
  then show ?thesis using assms(1-4)
    by (simp add: operand_def decode_modrm_def md Let_def case_prod_unfold size_ptr_def seg_override_def baseindex_def)
qed

text \<open>Remark.
  On \<open>0f 01 /4\<close> to \<open>/7\<close> the operand is decoded three times, and the text can overrun its buffer: an
  \<open>SMSW\<close> with a segment override and a 16-bit displacement stops the machine in \<open>panic\<close>, after the
  bytes behind the buffer are overwritten.\<close>

theorem disasm_group7_panics: "disasm w_smsw 0 offset False = Panic"
proof -
  have "\<not> is_prefix (w_smsw (0 + 1))" by (simp add: is_prefix_def w_smsw_def)
  then have p: "prefix w_smsw (dis0 0) = Some ((dis0 0)\<lparr>ds_code := 1, ds_seg := SEG_CS\<rparr>)"
    using prefix_cs [of w_smsw 0] by (simp add: w_smsw_def)
  let ?st = "(dis0 0)\<lparr>ds_code := 4, ds_seg := SEG_CS, ds_modrm := 0xa0\<rparr>" and ?o = "M_ONE_OP group7 AM_M OT_s"
  have d: "decode_op w_smsw False ((dis0 0)\<lparr>ds_code := 1, ds_seg := SEG_CS\<rparr>) = (?o, 0x0f, 1, ?st)"
    by (simp add: decode_op_def next_byte_def w_smsw_def ext_01 [unfolded One_nat_def] M_ONE_OP_def M_TWO_OP_def)
  have a: "addop ?o 0x0f 1 0xa0 i = (AM_E, OT_w)" for i by (simp add: addop_def MODRM_REG_def case_prod_unfold Let_def)
  have w: "w_smsw 4 \<noteq> 0" "w_smsw 6 \<noteq> 0" "w_smsw 8 \<noteq> 0" by (simp_all add: w_smsw_def)
  from smsw_operand [of ?st w_smsw 0 offset] w(1) obtain st1 where s1:
    "operand w_smsw 0 AM_E OT_w (offset, ?st) = (offset, st1)" "ds_modrm st1 = 0xa0" "\<not> addr32 st1" "\<not> data32 st1"
    "ds_seg st1 = SEG_CS" "ds_code st1 = 6" "length (ds_args st1) = 24" by (auto simp: dis0_def)
  from smsw_operand [of "put '', '' st1" w_smsw 0 offset] s1 w(2) obtain st2 where s2:
    "operand w_smsw 0 AM_E OT_w (offset, put '', '' st1) = (offset, st2)" "ds_modrm st2 = 0xa0" "\<not> addr32 st2" "\<not> data32 st2"
    "ds_seg st2 = SEG_CS" "ds_code st2 = 8" "length (ds_args st2) = 50" by auto
  from smsw_operand [of "put '', '' st2" w_smsw 0 offset] s2 w(3) obtain st3 where s3:
    "operand w_smsw 0 AM_E OT_w (offset, put '', '' st2) = (offset, st3)" "length (ds_args st3) = 76" by auto
  have "operands w_smsw 0 ?o 0x0f 1 [0, 1, 2] (offset, ?st) = (offset, st3)"
    using s1(1,2) s2(1,2) s3(1) by (simp add: a)
  then show ?thesis using s3(2)
    by (simp only: disasm_def p of_loop.simps bind_res.simps d prod.case Let_def) simp
qed

lemma far_operand:
  "\<exists>st'. operand m csip AM_A OT_p (offset, st) = (offset, st') \<and> ds_modrm st' = ds_modrm st \<and> ds_code st' = ds_code st + 4
    \<and> length (ds_args st') = length (ds_args st) + 9"
  by (simp add: operand_def case_prod_unfold Let_def fmt_far add.assoc)

text \<open>Remark.
  A far call or jump through memory (\<open>ff /3\<close>, \<open>ff /5\<close>) is decoded with two more operands that are not
  there: eight bytes of the following code are taken into the instruction.\<close>

theorem disasm_far_call:
  assumes "m 0 = 0xff" "m 1 = 0x1e"
  shows "\<exists>x. disasm m 0 offset False = Ok \<lparr>di_bytes = 12, di_mne = ''CALL'', di_args = x\<rparr>"
proof -
  have p: "prefix m (dis0 0) = Some (dis0 0)"
    unfolding prefix_def by (subst prefix_loop.simps) (simp add: assms prefix1_def dis0_def)
  have "opcodes ! (128 + 127) = M_ONE_OP group5 AM_E OT_v" unfolding opcodes_at(2) by (simp add: opcodes_hi_def)
  then have op: "opcodes ! 255 = M_ONE_OP group5 AM_E OT_v" by simp
  let ?o = "M_ONE_OP group5 AM_E OT_v" and ?st = "(dis0 0)\<lparr>ds_code := 2, ds_modrm := 0x1e\<rparr>"
  have d: "decode_op m False (dis0 0) = (?o, 0xff, 0, ?st)"
    using assms op by (simp add: decode_op_def next_byte_def M_ONE_OP_def M_TWO_OP_def dis0_def)
  have md: "MODRM_MOD 0x1e = 0" "MODRM_RM 0x1e = 6" "MODRM_REG 0x1e = 3"
    by (simp_all add: MODRM_MOD_def MODRM_RM_def MODRM_REG_def)
  have a: "addop ?o 0xff 0 0x1e 0 = (AM_E, OT_p)" "addop ?o 0xff 0 0x1e 1 = (AM_A, OT_p)" "addop ?o 0xff 0 0x1e 2 = (AM_A, OT_p)"
    by (simp_all add: addop_def get_opadd_def M_ONE_OP_def M_TWO_OP_def md)
  obtain st1 where s1: "operand m 0 AM_E OT_p (offset, ?st) = (offset, st1)" "ds_modrm st1 = 0x1e" "ds_code st1 = 4"
      "length (ds_args st1) = 6"
    by (simp add: operand_def decode_modrm_def md size_ptr_def seg_override_def dis0_def case_prod_unfold Let_def)
  from far_operand [of m 0 offset "put '', '' st1"] s1 obtain st2 where s2: "operand m 0 AM_A OT_p (offset, put '', '' st1) = (offset, st2)"
    "ds_modrm st2 = 0x1e" "ds_code st2 = 8" "length (ds_args st2) = 17" by auto
  from far_operand [of m 0 offset "put '', '' st2"] s2 obtain st3 where s3: "operand m 0 AM_A OT_p (offset, put '', '' st2) = (offset, st3)"
    "ds_code st3 = 12" "length (ds_args st3) = 28" by auto
  have "operands m 0 ?o 0xff 0 [0, 1, 2] (offset, ?st) = (offset, st3)"
    using s1(1,2) s2(1,2) s3(1) a by simp
  moreover have "mnemonic_of ?o ?st = ''CALL''"
    by (simp add: mnemonic_of_def M_ONE_OP_def M_TWO_OP_def group5_def md dis0_def)
  ultimately show ?thesis using s3(2,3)
    by (simp only: disasm_def p of_loop.simps bind_res.simps d prod.case Let_def) simp
qed

theorem disasm_no_overrun_witness:
  "\<exists>d. disasm (\<lambda>i. if i = 7 then 0x66 else if i = 8 then 0x81 else 0x84) 7 0 True = Ok d \<and> length (di_args d) < 64"
  using disasm_no_overrun [where k = 1 and m = "\<lambda>i. if i = 7 then 0x66 else if i = 8 then 0x81 else 0x84" and csip = 7 and offset = 0 and ?is32.0 = True]
  by (auto simp: is_prefix_def)

theorem disasm_mov_imm_witness:
  "\<exists>x. disasm (\<lambda>i. [0xb9, 0x34, 0x12] ! unat i) 0 0 False = Ok \<lparr>di_bytes = 3, di_mne = ''MOV'', di_args = ''CX, '' @ x\<rparr> \<and> num_val 16 x = 0x1234"
  using disasm_mov_imm [of 1 "\<lambda>i. [0xb9, 0x34, 0x12] ! unat i" 0 0] by (auto simp: wregs_def)

theorem disasm_jcc_witness:
  "\<exists>x y. disasm (\<lambda>i. [0x75, 0xfe] ! unat i) 0 0x100 False = Ok \<lparr>di_bytes = 2, di_mne = y, di_args = x\<rparr> \<and> num_val 16 x = 0x100"
  using disasm_jcc [of 5 "\<lambda>i. [0x75, 0xfe] ! unat i" 0 "0x100"] by auto

theorem disasm_far_call_witness:
  "\<exists>x. disasm (\<lambda>i. if i = 0 then 0xff else 0x1e) 0 0 False = Ok \<lparr>di_bytes = 12, di_mne = ''CALL'', di_args = x\<rparr>"
  using disasm_far_call [of "\<lambda>i. if i = 0 then 0xff else 0x1e" 0] by simp

end
