(* ===== verification/Spec2Isabelle.thy ===== *)
theory Spec2Isabelle
  imports Memory SchedThms BlkCache FatThms FileIOThms Ttycook ProcThms KeyThms ScreenThms Ctype StdioThms MallocThms TtyThms FddThms Dis386Thms
begin

text \<open>
  Pegasos, a 16-bit operating system for the 8086: a model of the kernel in HOL and the theorems
  that make it correct.

  The parts of the program and how they interact. \<open>kernel/MEMORY.C\<close> gives memory to everybody.
  \<open>kernel/sched\<close> keeps the tasks in queues, switches between them and builds semaphores on the
  queues. \<open>kernel/blkcache.c\<close> keeps 32 blocks of 512 bytes of the block devices; the FAT file system
  \<open>kernel/fat\<close> reads everything through it, \<open>kernel/FS.C\<close> and \<open>kernel/FILEIO.C\<close> make open files of
  it and of the character devices of \<open>kernel/DEVICE.C\<close>. \<open>kernel/PRINTK.C\<close> formats text for all of
  them, and the disassembler \<open>kernel/dis386.c\<close> formats instructions for the debugger.

  The theories, in the order they build on each other:

  \<^item> \<open>Prelude\<close>: machine types, error numbers (\<open>ERRNO.H\<close>), the outcomes \<open>Ok\<close>, \<open>Panic\<close>, \<open>Hang\<close>, and
    lemmas on words.
  \<^item> \<open>ParaHeap\<close>, \<open>Memory\<close>: \<open>MEMORY.C\<close>. The header list that the far, near and DMA heaps share, the
    abstract allocator (a list of blocks: first fit, coalescing) and the locale \<open>para_heap\<close> that is
    proved once and interpreted for the heaps. Shown: every allocation is first fit and splits, every
    free coalesces or panics, nothing is handed out twice.
  \<^item> \<open>Taskq\<close>: \<open>taskq.c\<close>, circular doubly linked queues in a store of tasks, refined to lists; the
    locale \<open>task_queue\<close> is its interface.
  \<^item> \<open>Sched\<close>, \<open>SchedThms\<close>: \<open>TASK.C\<close>, \<open>tasksw.asm\<close>, \<open>semap.c\<close>, \<open>event.c\<close>. Blocking, sleeping, the
    timer, task creation and semaphores over an abstract view of the queues; what switches stacks is
    the parameter \<open>ctx\<close>. Shown: each operation keeps the invariant of the scheduler (every task on
    one queue that fits its state) and does what the list view says.
  \<^item> \<open>BlkIf\<close>, \<open>BlkCache\<close>: the block interface the file system relies on as the locale \<open>block_cache\<close>,
    and \<open>blkcache.c\<close>, which is proved to implement it for every driver.
  \<^item> \<open>FatPath\<close>, \<open>Fat\<close>, \<open>FatRead\<close>, \<open>FatThms\<close>: \<open>path.c\<close>, \<open>cluster.c\<close>, \<open>dir.c\<close>, \<open>fileobj.c\<close>,
    \<open>fileops.c\<close>. The read path is proved over the interface and instantiated with the kernel's cache:
    the bytes read are those of the cluster chain on the disk.
  \<^item> \<open>FileIO\<close>, \<open>FileIOThms\<close>: \<open>DEVICE.C\<close>, \<open>FS.C\<close>, \<open>FILEIO.C\<close>. Open files, and reading in sequence
    through all the layers below.
  \<^item> \<open>Printk\<close>: \<open>PRINTK.C\<close> and the \<open>printf.c\<close> of the C library, which is shown to agree with it.
  \<^item> \<open>Dis386\<close>, \<open>Dis386Thms\<close>: \<open>dis386.c\<close> with its opcode tables. Shown: it never writes behind its
    buffers, and the text of some instructions.

  Conventions. Unsigned C types are words, \<open>int\<close> that only counts is a HOL integer, pointers to
  structures are indices into a store, near and far pointers are words and pairs of words. \<open>panic\<close>
  is the outcome \<open>Panic\<close>, a loop that does not end is \<open>Hang\<close>; such loops are partial functions, and
  each theorem says that the routine returns. Interrupt handlers run between operations: an
  operation that disables interrupts is one step. Drivers, switching of stacks and the hardware are
  parameters. Messages printed by \<open>kprintf\<close> are left out.

  Bounds. The lists and tables have the sizes of the code (32 blocks, 10 open files, 20
  priorities). The one fuel is that of \<open>bc_read\<close>, whose recursion has depth 1 (\<open>bc_read_fuel_any\<close>).

  Not modelled: the drivers for floppy disk and serial lines, the console, the loader of programs,
  the debugger's screens, the C library but \<open>printf\<close>, the hosted tools, assembly that only touches
  hardware, and everything under \<open>#if 0\<close>.
\<close>

end
